(* ===== verification/Ipc_Prelude.thy ===== *)
theory Ipc_Prelude
  imports Main "HOL-Library.Word" "HOL-Library.Signed_Division"
begin

unbundle bit_operations_syntax

text \<open>
  Shared vocabulary of the development: error codes, C integer conversions, the types of
  addresses, tasks and identities, and generic lemmas on finite maps, lists and words that the
  component theories use.

  Fallible kernel functions return \<open>errno + 'a\<close>: a negative return value or an
  \<^verbatim>\<open>ERR_PTR\<close> is \<open>Inl e\<close>. \<open>KBUG\<close> is not an error code of the source: it marks a
  \<^verbatim>\<open>BUG_ON\<close> that fires or a pointer that points at no object, so that a theorem excluding it
  says that the code is memory safe at that point.
\<close>

subsection \<open>Error codes and basic types\<close>

datatype errno =
    EPERM | ENOENT | EINTR | E2BIG | EBADF | EAGAIN | ENOMEM | EACCES | EFAULT | EBUSY | EEXIST
  | EINVAL | EFBIG | ENOSPC | ERANGE | EIDRM | ENOMSG | EOVERFLOW | EMSGSIZE | ETIMEDOUT
  | EIO | ENXIO | ENODEV | ENOTTY | EROFS | EOPNOTSUPP | EREMOTEIO
  | ERESTARTNOHAND | ERESTARTSYS | ELSM nat | KBUG

type_synonym addr = int
type_synonym task = nat
type_synonym ident = "32 word"
type_synonym flags = "32 word"
type_synonym ulong = "64 word"

text \<open>How a call that may sleep leaves the processor.\<close>

datatype 'a outcome = Done "errno + 'a" | Sleep | Hang

text \<open>No fault, and no spinning for ever.\<close>

definition returns_ok :: "'a outcome \<Rightarrow> bool" where
  "returns_ok r \<longleftrightarrow> r \<noteq> Done (Inl KBUG) \<and> r \<noteq> Hang"

subsection \<open>C integers\<close>

text \<open>
  Assigning to an \<^verbatim>\<open>int\<close> or \<^verbatim>\<open>short\<close> keeps the low 32 or 16 bits as two's complement (the
  kernel is built with wrapping signed arithmetic).
\<close>

definition c_int :: "int \<Rightarrow> int" where
  "c_int x = signed_take_bit 31 x"

definition c_long :: "int \<Rightarrow> int" where
  "c_long x = signed_take_bit 63 x"

definition c_short :: "int \<Rightarrow> int" where
  "c_short x = signed_take_bit 15 x"

definition c_ushort :: "int \<Rightarrow> int" where
  "c_ushort x = take_bit 16 x"

definition INT_MAX :: int where
  "INT_MAX = 2147483647"

definition USHRT_MAX :: int where
  "USHRT_MAX = 65535"

lemma c_int_id: "- 2147483648 \<le> x \<Longrightarrow> x \<le> 2147483647 \<Longrightarrow> c_int x = x"
  unfolding c_int_def by (rule signed_take_bit_int_eq_self) simp_all

lemma c_int_range: "- 2147483648 \<le> c_int x \<and> c_int x \<le> 2147483647"
  unfolding c_int_def
  using signed_take_bit_int_greater_eq_minus_exp [of 31 x] signed_take_bit_int_less_exp [of 31 x]
  by simp

lemma c_long_id: "- 9223372036854775808 \<le> x \<Longrightarrow> x \<le> 9223372036854775807 \<Longrightarrow> c_long x = x"
  unfolding c_long_def by (rule signed_take_bit_int_eq_self) simp_all

lemma c_short_id: "- 32768 \<le> x \<Longrightarrow> x \<le> 32767 \<Longrightarrow> c_short x = x"
  unfolding c_short_def by (rule signed_take_bit_int_eq_self) simp_all

lemma c_short_range: "- 32768 \<le> c_short x \<and> c_short x \<le> 32767"
  unfolding c_short_def
  using signed_take_bit_int_greater_eq_minus_exp [of 15 x] signed_take_bit_int_less_exp [of 15 x]
  by simp

lemma c_short_0 [simp]: "c_short 0 = 0"
  by (simp add: c_short_def)

lemma c_ushort_id: "0 \<le> x \<Longrightarrow> x \<le> 65535 \<Longrightarrow> c_ushort x = x"
  unfolding c_ushort_def by (rule take_bit_int_eq_self) simp_all

subsection \<open>Sums and cardinalities over finite maps\<close>

definition map_sum :: "('v \<Rightarrow> 'b::comm_monoid_add) \<Rightarrow> ('k \<rightharpoonup> 'v) \<Rightarrow> 'b" where
  "map_sum f m = (\<Sum>k\<in>dom m. f (the (m k)))"

lemma map_sum_empty [simp]: "map_sum f Map.empty = 0"
  by (simp add: map_sum_def)

lemma map_sum_new:
  assumes "finite (dom m)" and "m k = None"
  shows "map_sum f (m(k \<mapsto> v)) = map_sum f m + f v"
proof -
  have "k \<notin> dom m" using assms by auto
  moreover have "(\<Sum>j\<in>dom m. f (the ((m(k \<mapsto> v)) j))) = (\<Sum>j\<in>dom m. f (the (m j)))"
    by (rule sum.cong) (use assms in auto)
  ultimately show ?thesis using assms by (simp add: map_sum_def add.commute)
qed

lemma map_sum_split:
  assumes "finite (dom m)" and "m k = Some u"
  shows "map_sum f m = map_sum f (m(k := None)) + f u"
proof -
  have "map_sum f m = f (the (m k)) + (\<Sum>j\<in>dom m - {k}. f (the (m j)))"
    unfolding map_sum_def by (rule sum.remove) (use assms in auto)
  moreover have "(\<Sum>j\<in>dom m - {k}. f (the ((m(k := None)) j))) = (\<Sum>j\<in>dom m - {k}. f (the (m j)))"
    by (rule sum.cong) auto
  ultimately show ?thesis using assms by (simp add: map_sum_def add.commute)
qed

lemma map_sum_replace:
  assumes "finite (dom m)"
  shows "map_sum f (m(k \<mapsto> v)) = map_sum f (m(k := None)) + f v"
  using map_sum_new [of "m(k := None)" k f v] assms by simp

lemma map_sum_delete:
  fixes f :: "'v \<Rightarrow> 'b::ab_group_add"
  assumes "finite (dom m)" and "m k = Some u"
  shows "map_sum f (m(k := None)) = map_sum f m - f u"
  using map_sum_split [OF assms, of f] by simp

lemma map_sum_upd:
  fixes f :: "'v \<Rightarrow> 'b::ab_group_add"
  assumes "finite (dom m)" and "m k = Some u"
  shows "map_sum f (m(k \<mapsto> v)) = map_sum f m - f u + f v"
  using map_sum_split [OF assms, of f] map_sum_replace [OF assms(1), of f k v] by simp

lemma map_sum_upd_same:
  assumes "finite (dom m)" and "m k = Some u" and "f v = f u"
  shows "map_sum f (m(k \<mapsto> v)) = map_sum f m"
  using map_sum_split [OF assms(1,2), of f] map_sum_replace [OF assms(1), of f k v] assms(3) by simp

lemma map_sum_cong_dom: "dom m = dom m' \<Longrightarrow> (\<And>k. k \<in> dom m \<Longrightarrow> f (the (m k)) = f (the (m' k))) \<Longrightarrow> map_sum f m = map_sum f m'"
  unfolding map_sum_def by (rule sum.cong) simp_all

lemma map_sum_nonneg:
  fixes f :: "'v \<Rightarrow> 'b::ordered_comm_monoid_add"
  assumes "\<And>v. 0 \<le> f v"
  shows "0 \<le> map_sum f m"
  unfolding map_sum_def by (rule sum_nonneg) (rule assms)

lemma map_sum_ge:
  fixes f :: "'v \<Rightarrow> 'b::ordered_comm_monoid_add"
  assumes "finite (dom m)" and "m k = Some v" and "\<And>v. 0 \<le> f v"
  shows "f v \<le> map_sum f m"
  using map_sum_split [OF assms(1,2), of f] map_sum_nonneg [where f = f and m = "m(k := None)"] assms(3) by (simp add: add_increasing)

lemma card_dom_new: "finite (dom m) \<Longrightarrow> m k = None \<Longrightarrow> card (dom (m(k \<mapsto> v))) = Suc (card (dom m))"
  by (simp add: domIff)

lemma card_dom_delete:
  assumes "finite (dom m)" and "m k = Some u"
  shows "card (dom (m(k := None))) = card (dom m) - 1" and "0 < card (dom m)"
  using assms by (auto simp: domIff card_gt_0_iff)

lemma card_dom_upd: "m k = Some u \<Longrightarrow> dom (m(k \<mapsto> v)) = dom m"
  by auto

subsection \<open>Lists\<close>

lemma remove1_notin: "distinct xs \<Longrightarrow> x \<notin> set (remove1 x xs)"
  by simp

lemma sum_list_remove1:
  "x \<in> set xs \<Longrightarrow> sum_list (map f (remove1 x xs)) = sum_list (map f xs) - (f x :: int)"
  by (induction xs) auto

lemma length_remove1_int: "x \<in> set xs \<Longrightarrow> int (length (remove1 x xs)) = int (length xs) - 1"
  by (induction xs) (auto simp: of_nat_diff)

lemma sum_list_nonneg_int: "(\<And>x. x \<in> set xs \<Longrightarrow> 0 \<le> f x) \<Longrightarrow> 0 \<le> sum_list (map f xs :: int list)"
  by (induction xs) auto

lemma filter_remove1_False: "\<not> P x \<Longrightarrow> filter P (remove1 x xs) = filter P xs"
  by (induction xs) auto

lemma filter_remove1_True: "distinct xs \<Longrightarrow> P x \<Longrightarrow> filter P (remove1 x xs) = remove1 x (filter P xs)"
  by (induction xs) (auto simp: filter_id_conv)

end
