(* ===== verification/Checked_Math.thy ===== *)
theory Checked_Math
  imports Ipc_Prelude
begin

text \<open>
  \<^verbatim>\<open>include/linux/l30_checked_math.h\<close>: overflow-checked \<^verbatim>\<open>size_t\<close> arithmetic. The helpers are
  modelled at an arbitrary word width, so the results hold for 32 and 64 bit kernels alike. A
  helper that returns 1 (overflow, \<^verbatim>\<open>*result\<close> not written) is \<open>None\<close>; one that returns 0 with
  \<^verbatim>\<open>*result = r\<close> is \<open>Some r\<close>.
\<close>

definition l30_size_add_overflow :: "'a::len word \<Rightarrow> 'a word \<Rightarrow> 'a word option" where
  "l30_size_add_overflow a b = (if a > (- 1) - b then None else Some (a + b))"

definition l30_size_mul_overflow :: "'a::len word \<Rightarrow> 'a word \<Rightarrow> 'a word option" where
  "l30_size_mul_overflow a b = (if a \<noteq> 0 \<and> b > (- 1) div a then None else Some (a * b))"

definition l30_size_array_bytes :: "'a::len word \<Rightarrow> 'a word \<Rightarrow> 'a word option" where
  "l30_size_array_bytes count element_size = l30_size_mul_overflow count element_size"

definition l30_size_flex_bytes :: "'a::len word \<Rightarrow> 'a word \<Rightarrow> 'a word \<Rightarrow> 'a word option" where
  "l30_size_flex_bytes header_size count element_size =
     (case l30_size_array_bytes count element_size of
        None \<Rightarrow> None
      | Some payload_size \<Rightarrow> l30_size_add_overflow header_size payload_size)"

definition l30_size_records_bytes :: "'a::len word \<Rightarrow> 'a word \<Rightarrow> 'a word \<Rightarrow> 'a word option" where
  "l30_size_records_bytes count payload_size overhead_size =
     (case l30_size_add_overflow payload_size overhead_size of
        None \<Rightarrow> None
      | Some record_size \<Rightarrow> l30_size_array_bytes count record_size)"

subsection \<open>The reference: natural number arithmetic\<close>

text \<open>The value a checked operation must deliver: the exact natural number when it fits.\<close>

definition size_fits :: "nat \<Rightarrow> 'a::len word option" where
  "size_fits n = (if n < 2 ^ LENGTH('a) then Some (of_nat n) else None)"

lemma unat_max_size: "unat (- 1 :: 'a::len word) = 2 ^ LENGTH('a) - 1"
  by (simp add: unsigned_minus_1_eq_mask mask_eq_exp_minus_1)

lemma max_minus_unat: "unat ((- 1 :: 'a::len word) - b) = 2 ^ LENGTH('a) - 1 - unat b"
proof -
  have "b \<le> - 1" by (rule word_order.extremum)
  then have "unat ((- 1) - b) = unat (- 1 :: 'a word) - unat b" by (rule unat_sub)
  then show ?thesis by (simp only: unat_max_size)
qed

lemma add_overflow_fits: "l30_size_add_overflow a b = size_fits (unat a + unat (b :: 'a::len word))"
proof -
  have lt: "unat b < 2 ^ LENGTH('a)" by (rule unsigned_less)
  have "(- 1) - b < a \<longleftrightarrow> 2 ^ LENGTH('a) - 1 - unat b < unat a"
    by (simp only: word_less_nat_alt max_minus_unat)
  also have "\<dots> \<longleftrightarrow> \<not> unat a + unat b < 2 ^ LENGTH('a)" using lt by arith
  finally show ?thesis by (simp add: l30_size_add_overflow_def size_fits_def)
qed

lemma div_less_mult_iff: "0 < a \<Longrightarrow> (m - 1) div a < b \<longleftrightarrow> \<not> a * b < (m::nat)" if "0 < m"
proof -
  assume a: "0 < a"
  have "(m - 1) div a < b \<longleftrightarrow> m - 1 < b * a" using a by (simp add: div_less_iff_less_mult)
  then show ?thesis using that by (auto simp: mult.commute)
qed

lemma mul_overflow_fits: "l30_size_mul_overflow a b = size_fits (unat a * unat (b :: 'a::len word))"
proof (cases "a = 0")
  case True
  then show ?thesis by (simp add: l30_size_mul_overflow_def size_fits_def)
next
  case False
  then have pos: "0 < unat a" by (simp add: unat_gt_0)
  have "(- 1) div a < b \<longleftrightarrow> (2 ^ LENGTH('a) - 1) div unat a < unat b"
    by (simp only: word_less_nat_alt unat_div unat_max_size)
  also have "\<dots> \<longleftrightarrow> \<not> unat a * unat b < 2 ^ LENGTH('a)"
    by (rule div_less_mult_iff) (use pos in simp_all)
  finally show ?thesis using False by (simp add: l30_size_mul_overflow_def size_fits_def)
qed

lemma unat_size_fits: "size_fits n = Some (w :: 'a::len word) \<Longrightarrow> unat w = n"
  by (auto simp: size_fits_def unat_of_nat split: if_splits)

lemma size_fits_None: "size_fits n = (None :: 'a::len word option) \<longleftrightarrow> 2 ^ LENGTH('a) \<le> n"
  by (auto simp: size_fits_def)

lemma unat_of_nat_fits: "n < 2 ^ LENGTH('a) \<Longrightarrow> unat (of_nat n :: 'a::len word) = n"
  by (simp add: unat_of_nat)

subsection \<open>Correctness\<close>

text \<open>
  C37. \<open>header + count * element\<close> is computed without an unchecked step: the helper reports
  overflow exactly when the mathematical sum does not fit \<^verbatim>\<open>size_t\<close>, and otherwise delivers it.
\<close>

theorem flex_bytes_exact:
  "l30_size_flex_bytes h n e = size_fits (unat h + unat n * unat (e :: 'a::len word))"
proof (cases "unat n * unat e < 2 ^ LENGTH('a)")
  case True
  then have "l30_size_array_bytes n e = Some (of_nat (unat n * unat e))"
    by (simp only: l30_size_array_bytes_def mul_overflow_fits size_fits_def if_True)
  then show ?thesis
    using unat_of_nat_fits [OF True]
    by (simp only: l30_size_flex_bytes_def option.case add_overflow_fits)
next
  case False
  then have "l30_size_array_bytes n e = None"
    by (simp only: l30_size_array_bytes_def mul_overflow_fits size_fits_def if_False)
  then show ?thesis using False by (simp add: l30_size_flex_bytes_def size_fits_def)
qed

text \<open>
  \<open>count * (payload + overhead)\<close>: success means that both the record size and the
  product are the exact mathematical values, and overflow is reported exactly when one of the two
  does not fit.
\<close>

theorem records_bytes_exact:
  "l30_size_records_bytes n p v =
     (if unat p + unat v < 2 ^ LENGTH('a) then size_fits (unat n * (unat p + unat v)) else None)"
  for v :: "'a::len word"
proof (cases "unat p + unat v < 2 ^ LENGTH('a)")
  case True
  then have "l30_size_add_overflow p v = Some (of_nat (unat p + unat v))"
    by (simp only: add_overflow_fits size_fits_def if_True)
  then show ?thesis using True unat_of_nat_fits [OF True]
    by (simp only: l30_size_records_bytes_def l30_size_array_bytes_def option.case
        mul_overflow_fits if_True)
next
  case False
  then have "l30_size_add_overflow p v = None"
    by (simp only: add_overflow_fits size_fits_def if_False)
  then show ?thesis using False by (simp add: l30_size_records_bytes_def)
qed

end
