(* ===== verification/Ipc_Alloc.thy ===== *)
theory Ipc_Alloc
  imports Checked_Math "HOL-Library.Multiset"
begin

text \<open>
  \<^verbatim>\<open>ipc/alloc.c\<close>: scratch allocations (\<^verbatim>\<open>ipc_alloc\<close>/\<^verbatim>\<open>ipc_free\<close>) and reference-counted objects
  that are freed after an RCU grace period, \<^verbatim>\<open>vmalloc\<close> blocks through a work item.

  The slab and \<^verbatim>\<open>vmalloc\<close> allocators, \<^verbatim>\<open>PAGE_SIZE\<close> and the sizes of \<^verbatim>\<open>rcu_head\<close> and \<^verbatim>\<open>work_struct\<close>
  are not part of the repository: the allocators are the functions of an \<open>alloc_env\<close> (the address
  they return for a request, \<open>None\<close> for \<^verbatim>\<open>NULL\<close>), the sizes are fields of an \<open>alloc_hdr\<close>.
  \<open>blocks\<close> records which blocks are allocated and by which allocator; handing a pointer to
  \<^verbatim>\<open>kfree\<close> or \<^verbatim>\<open>vfree\<close> that is not the start of a block of that allocator is \<open>None\<close>, memory
  corruption. The three header structs have their zero-length array at their end, so
  \<^verbatim>\<open>container_of(ptr, struct h, data)\<close> is \<open>ptr - sizeof h\<close>, and their first member at offset 0. The
  reference count of an object is an \<open>int\<close> without bound: it would take 2147483647 sleeping tasks to overflow it.
\<close>

subsection \<open>State\<close>

record alloc_hdr =
  PAGE_SIZE :: ulong
  sizeof_rcu_hdr :: ulong
  sizeof_rcu_grace :: ulong
  sizeof_rcu_sched :: ulong

record alloc_env =
  kmalloc :: "ulong \<Rightarrow> addr option"
  vmalloc :: "ulong \<Rightarrow> addr option"

datatype family = Kmalloc | Vmalloc

record ipc_rcu_hdr =
  refcount :: int
  is_vmalloc :: bool

text \<open>A callback queued by \<^verbatim>\<open>call_rcu\<close>, with the address of its \<^verbatim>\<open>rcu_head\<close>.\<close>

datatype rcu_cb = Schedule_free addr | Immediate_free addr

text \<open>\<open>hdrs\<close> holds the live headers, by the address of the \<^verbatim>\<open>struct ipc_rcu_hdr\<close>.\<close>

record ipc_mem =
  blocks :: "addr \<rightharpoonup> family \<times> nat"
  hdrs :: "addr \<rightharpoonup> ipc_rcu_hdr"
  rcu_queue :: "rcu_cb list"
  work_queue :: "addr list"

subsection \<open>The allocators' bookkeeping\<close>

definition add_block :: "addr \<Rightarrow> family \<Rightarrow> ulong \<Rightarrow> ipc_mem \<Rightarrow> ipc_mem" where
  "add_block base f n m = m\<lparr>blocks := (blocks m)(base \<mapsto> (f, unat n))\<rparr>"

definition free_block :: "family \<Rightarrow> addr \<Rightarrow> ipc_mem \<Rightarrow> ipc_mem option" where
  "free_block f p m =
     (case blocks m p of
        Some (g, n) \<Rightarrow> if g = f then Some (m\<lparr>blocks := (blocks m)(p := None)\<rparr>) else None
      | None \<Rightarrow> None)"

subsection \<open>Scratch allocations\<close>

definition ipc_alloc :: "'h alloc_hdr_scheme \<Rightarrow> 'e alloc_env_scheme \<Rightarrow> ulong \<Rightarrow> ipc_mem \<Rightarrow> addr option \<times> ipc_mem" where
  "ipc_alloc H E sz m =
     (if sz > PAGE_SIZE H then
        (case vmalloc E sz of None \<Rightarrow> (None, m) | Some p \<Rightarrow> (Some p, add_block p Vmalloc sz m))
      else
        (case kmalloc E sz of None \<Rightarrow> (None, m) | Some p \<Rightarrow> (Some p, add_block p Kmalloc sz m)))"

definition ipc_free :: "'h alloc_hdr_scheme \<Rightarrow> addr \<Rightarrow> ulong \<Rightarrow> ipc_mem \<Rightarrow> ipc_mem option" where
  "ipc_free H ptr sz m =
     (if sz > PAGE_SIZE H then free_block Vmalloc ptr m else free_block Kmalloc ptr m)"

subsection \<open>Reference-counted objects\<close>

definition HDRLEN_KMALLOC :: "'h alloc_hdr_scheme \<Rightarrow> ulong" where
  "HDRLEN_KMALLOC H =
     (if sizeof_rcu_grace H > sizeof_rcu_hdr H then sizeof_rcu_grace H else sizeof_rcu_hdr H)"

definition HDRLEN_VMALLOC :: "'h alloc_hdr_scheme \<Rightarrow> ulong" where
  "HDRLEN_VMALLOC H =
     (if sizeof_rcu_sched H > HDRLEN_KMALLOC H then sizeof_rcu_sched H else HDRLEN_KMALLOC H)"

definition ipc_rcu_use_vmalloc :: "'h alloc_hdr_scheme \<Rightarrow> ulong \<Rightarrow> bool" where
  "ipc_rcu_use_vmalloc H sz = (sz > PAGE_SIZE H - HDRLEN_KMALLOC H)"

definition ipc_rcu_header_size :: "'h alloc_hdr_scheme \<Rightarrow> bool \<Rightarrow> ulong" where
  "ipc_rcu_header_size H use_vmalloc = (if use_vmalloc then HDRLEN_VMALLOC H else HDRLEN_KMALLOC H)"

definition container_hdr :: "'h alloc_hdr_scheme \<Rightarrow> addr \<Rightarrow> addr" where
  "container_hdr H ptr = ptr - uint (sizeof_rcu_hdr H)"

definition container_grace :: "'h alloc_hdr_scheme \<Rightarrow> addr \<Rightarrow> addr" where
  "container_grace H ptr = ptr - uint (sizeof_rcu_grace H)"

definition container_sched :: "'h alloc_hdr_scheme \<Rightarrow> addr \<Rightarrow> addr" where
  "container_sched H ptr = ptr - uint (sizeof_rcu_sched H)"

definition ipc_rcu_init_header :: "'h alloc_hdr_scheme \<Rightarrow> addr \<Rightarrow> bool \<Rightarrow> ipc_mem \<Rightarrow> ipc_mem" where
  "ipc_rcu_init_header H object v m =
     m\<lparr>hdrs := (hdrs m)(container_hdr H object \<mapsto> \<lparr>refcount = 1, is_vmalloc = v\<rparr>)\<rparr>"

definition ipc_rcu_alloc :: "'h alloc_hdr_scheme \<Rightarrow> 'e alloc_env_scheme \<Rightarrow> ulong \<Rightarrow> ipc_mem \<Rightarrow> addr option \<times> ipc_mem" where
  "ipc_rcu_alloc H E sz m =
     (let use_vmalloc = ipc_rcu_use_vmalloc H sz;
          header_size = ipc_rcu_header_size H use_vmalloc
      in case l30_size_add_overflow header_size sz of
           None \<Rightarrow> (None, m)
         | Some allocation_size \<Rightarrow>
             (case (if use_vmalloc then vmalloc E allocation_size else kmalloc E allocation_size) of
                None \<Rightarrow> (None, m)
              | Some base \<Rightarrow>
                  (let object = base + uint header_size
                   in (Some object,
                       ipc_rcu_init_header H object use_vmalloc
                         (add_block base (if use_vmalloc then Vmalloc else Kmalloc) allocation_size m)))))"

text \<open>Touching the header of an object that is no longer live is \<open>None\<close>.\<close>

definition ipc_rcu_getref :: "'h alloc_hdr_scheme \<Rightarrow> addr \<Rightarrow> ipc_mem \<Rightarrow> ipc_mem option" where
  "ipc_rcu_getref H ptr m =
     (case hdrs m (container_hdr H ptr) of
        None \<Rightarrow> None
      | Some h \<Rightarrow> Some (m\<lparr>hdrs := (hdrs m)(container_hdr H ptr \<mapsto> h\<lparr>refcount := refcount h + 1\<rparr>)\<rparr>))"

definition ipc_do_vfree :: "addr \<Rightarrow> ipc_mem \<Rightarrow> ipc_mem option" where
  "ipc_do_vfree work m = free_block Vmalloc work m"

definition ipc_schedule_free :: "'h alloc_hdr_scheme \<Rightarrow> addr \<Rightarrow> ipc_mem \<Rightarrow> ipc_mem" where
  "ipc_schedule_free H head m =
     (let data = head + uint (sizeof_rcu_grace H)
      in m\<lparr>work_queue := work_queue m @ [container_sched H data]\<rparr>)"

definition ipc_immediate_free :: "addr \<Rightarrow> ipc_mem \<Rightarrow> ipc_mem option" where
  "ipc_immediate_free head m = free_block Kmalloc head m"

definition ipc_rcu_putref :: "'h alloc_hdr_scheme \<Rightarrow> addr \<Rightarrow> ipc_mem \<Rightarrow> ipc_mem option" where
  "ipc_rcu_putref H ptr m =
     (case hdrs m (container_hdr H ptr) of
        None \<Rightarrow> None
      | Some h \<Rightarrow>
          if refcount h - 1 > 0
          then Some (m\<lparr>hdrs := (hdrs m)(container_hdr H ptr \<mapsto> h\<lparr>refcount := refcount h - 1\<rparr>)\<rparr>)
          else Some (m\<lparr>hdrs := (hdrs m)(container_hdr H ptr := None),
                       rcu_queue := rcu_queue m @
                         [if is_vmalloc h then Schedule_free (container_grace H ptr)
                          else Immediate_free (container_grace H ptr)]\<rparr>))"

text \<open>The end of a grace period runs the oldest callback; the worker runs the oldest item.\<close>

definition rcu_callback :: "'h alloc_hdr_scheme \<Rightarrow> ipc_mem \<Rightarrow> ipc_mem option" where
  "rcu_callback H m =
     (case rcu_queue m of
        [] \<Rightarrow> Some m
      | Schedule_free head # cbs \<Rightarrow> Some (ipc_schedule_free H head (m\<lparr>rcu_queue := cbs\<rparr>))
      | Immediate_free head # cbs \<Rightarrow> ipc_immediate_free head (m\<lparr>rcu_queue := cbs\<rparr>))"

definition run_worker :: "ipc_mem \<Rightarrow> ipc_mem option" where
  "run_worker m =
     (case work_queue m of
        [] \<Rightarrow> Some m
      | w # ws \<Rightarrow> ipc_do_vfree w (m\<lparr>work_queue := ws\<rparr>))"

subsection \<open>The lifetime relation and its invariant\<close>

text \<open>
  What the code relies on of the sizes (comment at the header structs: the lifetimes do not
  overlap, so the headers share storage) and of the allocators: a returned block is disjoint from
  every allocated block.
\<close>

definition alloc_hdr_ok :: "'h alloc_hdr_scheme \<Rightarrow> bool" where
  "alloc_hdr_ok H \<longleftrightarrow>
     0 < uint (sizeof_rcu_hdr H) \<and>
     uint (sizeof_rcu_hdr H) \<le> uint (sizeof_rcu_grace H) \<and>
     uint (sizeof_rcu_grace H) \<le> uint (sizeof_rcu_sched H)"

definition disjoint_block :: "ipc_mem \<Rightarrow> addr \<Rightarrow> ulong \<Rightarrow> bool" where
  "disjoint_block m p n \<longleftrightarrow>
     (\<forall>b f k. blocks m b = Some (f, k) \<longrightarrow> b \<noteq> p \<and> (p + uint n \<le> b \<or> b + int k \<le> p))"

definition alloc_env_ok :: "'e alloc_env_scheme \<Rightarrow> ipc_mem \<Rightarrow> bool" where
  "alloc_env_ok E m \<longleftrightarrow>
     (\<forall>n p. kmalloc E n = Some p \<longrightarrow> disjoint_block m p n) \<and>
     (\<forall>n p. vmalloc E n = Some p \<longrightarrow> disjoint_block m p n)"

definition hdr_base :: "'h alloc_hdr_scheme \<Rightarrow> addr \<Rightarrow> ipc_rcu_hdr \<Rightarrow> addr" where
  "hdr_base H a h = a + uint (sizeof_rcu_hdr H) - uint (ipc_rcu_header_size H (is_vmalloc h))"

fun cb_block :: "'h alloc_hdr_scheme \<Rightarrow> rcu_cb \<Rightarrow> addr \<times> family" where
  "cb_block H (Schedule_free g) = (g + uint (sizeof_rcu_grace H) - uint (sizeof_rcu_sched H), Vmalloc)"
| "cb_block H (Immediate_free g) = (g, Kmalloc)"

definition dying :: "'h alloc_hdr_scheme \<Rightarrow> ipc_mem \<Rightarrow> (addr \<times> family) list" where
  "dying H m = map (cb_block H) (rcu_queue m) @ map (\<lambda>w. (w, Vmalloc)) (work_queue m)"

definition rcu_inv :: "'h alloc_hdr_scheme \<Rightarrow> ipc_mem \<Rightarrow> bool" where
  "rcu_inv H m \<longleftrightarrow>
     (\<forall>a h. hdrs m a = Some h \<longrightarrow> 0 < refcount h \<and>
        (\<exists>n. blocks m (hdr_base H a h) = Some (if is_vmalloc h then Vmalloc else Kmalloc, n) \<and>
             uint (ipc_rcu_header_size H (is_vmalloc h)) \<le> int n) \<and>
        hdr_base H a h \<notin> set (map fst (dying H m))) \<and>
     (\<forall>p f. (p, f) \<in> set (dying H m) \<longrightarrow> (\<exists>n. blocks m p = Some (f, n) \<and> 0 < n)) \<and>
     distinct (map fst (dying H m))"

text \<open>The steps an object's life is made of, by any thread in any order.\<close>

inductive rcu_step :: "'h alloc_hdr_scheme \<Rightarrow> ipc_mem \<Rightarrow> ipc_mem \<Rightarrow> bool" for H where
  alloc: "alloc_env_ok (E :: alloc_env) m \<Longrightarrow> rcu_step H m (snd (ipc_rcu_alloc H E sz m))"
| getref: "ipc_rcu_getref H p m = Some m' \<Longrightarrow> rcu_step H m m'"
| putref: "ipc_rcu_putref H p m = Some m' \<Longrightarrow> rcu_step H m m'"
| grace: "rcu_callback H m = Some m' \<Longrightarrow> rcu_step H m m'"
| worker: "run_worker m = Some m' \<Longrightarrow> rcu_step H m m'"

definition empty_mem :: ipc_mem where
  "empty_mem = \<lparr>blocks = Map.empty, hdrs = Map.empty, rcu_queue = [], work_queue = []\<rparr>"

inductive rcu_reach :: "'h alloc_hdr_scheme \<Rightarrow> ipc_mem \<Rightarrow> bool" for H where
  init: "rcu_reach H empty_mem"
| step: "rcu_reach H m \<Longrightarrow> rcu_step H m m' \<Longrightarrow> rcu_reach H m'"

subsection \<open>Proofs\<close>

lemma hdrlen_simps:
  assumes "alloc_hdr_ok H"
  shows "uint (HDRLEN_KMALLOC H) = uint (sizeof_rcu_grace H)"
    and "uint (HDRLEN_VMALLOC H) = uint (sizeof_rcu_sched H)"
proof -
  show k: "uint (HDRLEN_KMALLOC H) = uint (sizeof_rcu_grace H)"
    using assms by (auto simp: HDRLEN_KMALLOC_def alloc_hdr_ok_def word_less_def)
  show "uint (HDRLEN_VMALLOC H) = uint (sizeof_rcu_sched H)"
    using assms k by (auto simp: HDRLEN_VMALLOC_def alloc_hdr_ok_def word_less_def)
qed

lemma header_size_pos:
  assumes "alloc_hdr_ok H"
  shows "uint (sizeof_rcu_hdr H) \<le> uint (ipc_rcu_header_size H v)"
    and "0 < uint (ipc_rcu_header_size H v)"
  using assms by (auto simp: ipc_rcu_header_size_def hdrlen_simps alloc_hdr_ok_def)

lemma cb_block_base:
  assumes "alloc_hdr_ok H"
  shows "cb_block H (if is_vmalloc h then Schedule_free (container_grace H p)
                     else Immediate_free (container_grace H p)) =
         (hdr_base H (container_hdr H p) h, if is_vmalloc h then Vmalloc else Kmalloc)"
  using assms
  by (simp add: hdr_base_def container_hdr_def container_grace_def ipc_rcu_header_size_def
      hdrlen_simps)

lemma rcu_invD:
  assumes "rcu_inv H m" and "hdrs m a = Some h"
  shows "0 < refcount h"
    and "\<exists>n. blocks m (hdr_base H a h) = Some (if is_vmalloc h then Vmalloc else Kmalloc, n) \<and>
             uint (ipc_rcu_header_size H (is_vmalloc h)) \<le> int n"
    and "hdr_base H a h \<notin> set (map fst (dying H m))"
  using assms unfolding rcu_inv_def by blast+

lemma hdr_base_inj:
  assumes "rcu_inv H m" and "hdrs m a = Some h" and "hdrs m b = Some k"
    and "hdr_base H a h = hdr_base H b k"
  shows "a = b"
proof -
  have "is_vmalloc h = is_vmalloc k"
    using rcu_invD(2) [OF assms(1,2)] rcu_invD(2) [OF assms(1,3)] assms(4)
    by (auto split: if_splits)
  then show ?thesis using assms(4) by (simp add: hdr_base_def)
qed

lemma rcu_inv_empty: "rcu_inv H empty_mem"
  by (simp add: rcu_inv_def empty_mem_def dying_def)

lemma dying_simps [simp]:
  "dying H (m\<lparr>hdrs := x\<rparr>) = dying H m"
  "dying H (m\<lparr>blocks := y\<rparr>) = dying H m"
  by (simp_all add: dying_def)

text \<open>Writing a positive count into a live header keeps the invariant.\<close>

lemma set_refcount_inv:
  assumes inv: "rcu_inv H m" and h: "hdrs m a = Some h" and pos: "0 < r"
  shows "rcu_inv H (m\<lparr>hdrs := (hdrs m)(a \<mapsto> h\<lparr>refcount := r\<rparr>)\<rparr>)" (is "rcu_inv H ?m")
proof -
  have base: "hdr_base H a (h\<lparr>refcount := r\<rparr>) = hdr_base H a h" by (simp add: hdr_base_def)
  have "0 < refcount k \<and>
        (\<exists>n. blocks m (hdr_base H b k) = Some (if is_vmalloc k then Vmalloc else Kmalloc, n) \<and>
             uint (ipc_rcu_header_size H (is_vmalloc k)) \<le> int n) \<and>
        hdr_base H b k \<notin> set (map fst (dying H m))" if "hdrs ?m b = Some k" for b k
  proof (cases "b = a")
    case True
    then have "k = h\<lparr>refcount := r\<rparr>" using that by simp
    then show ?thesis using rcu_invD [OF inv h] True pos base by simp
  next
    case False
    then show ?thesis using rcu_invD [OF inv, of b k] that by simp
  qed
  then show ?thesis using inv by (simp add: rcu_inv_def)
qed

lemma getref_inv:
  assumes inv: "rcu_inv H m" and get: "ipc_rcu_getref H p m = Some m'"
  shows "rcu_inv H m'"
proof -
  obtain h where h: "hdrs m (container_hdr H p) = Some h"
    and m': "m' = m\<lparr>hdrs := (hdrs m)(container_hdr H p \<mapsto> h\<lparr>refcount := refcount h + 1\<rparr>)\<rparr>"
    using get by (auto simp: ipc_rcu_getref_def split: option.splits)
  show ?thesis unfolding m'
    by (rule set_refcount_inv [OF inv h]) (use rcu_invD(1) [OF inv h] in simp)
qed

lemma putref_inv:
  assumes ok: "alloc_hdr_ok H" and inv: "rcu_inv H m" and put: "ipc_rcu_putref H p m = Some m'"
  shows "rcu_inv H m'"
proof -
  let ?a = "container_hdr H p"
  obtain h where h: "hdrs m ?a = Some h"
    using put by (auto simp: ipc_rcu_putref_def split: option.splits)
  show ?thesis
  proof (cases "refcount h - 1 > 0")
    case True
    then have "m' = m\<lparr>hdrs := (hdrs m)(?a \<mapsto> h\<lparr>refcount := refcount h - 1\<rparr>)\<rparr>"
      using put h by (simp add: ipc_rcu_putref_def)
    then show ?thesis using set_refcount_inv [OF inv h True] by simp
  next
    case False
    let ?cb = "if is_vmalloc h then Schedule_free (container_grace H p)
               else Immediate_free (container_grace H p)"
    let ?d = "(hdr_base H ?a h, if is_vmalloc h then Vmalloc else Kmalloc)"
    have m': "m' = m\<lparr>hdrs := (hdrs m)(?a := None), rcu_queue := rcu_queue m @ [?cb]\<rparr>"
      using put h False by (simp add: ipc_rcu_putref_def)
    have dy: "dying H m' = map (cb_block H) (rcu_queue m) @ ?d # map (\<lambda>w. (w, Vmalloc)) (work_queue m)"
      by (simp only: m' dying_def) (simp add: cb_block_base [OF ok] del: cb_block.simps)
    have fstset: "set (map fst (dying H m')) = insert (fst ?d) (set (map fst (dying H m)))"
      unfolding dy by (auto simp: dying_def)
    have bl: "blocks m' = blocks m" by (simp add: m')
    obtain n where n: "blocks m (fst ?d) = Some (snd ?d, n)" "0 < n"
      using rcu_invD(2) [OF inv h] header_size_pos(2) [OF ok, of "is_vmalloc h"] by force
    have "distinct (map fst (dying H m'))"
      using inv rcu_invD(3) [OF inv h] unfolding dy by (auto simp: rcu_inv_def dying_def)
    moreover have "\<exists>k. blocks m' q = Some (f, k) \<and> 0 < k" if "(q, f) \<in> set (dying H m')" for q f
    proof -
      have "(q, f) = ?d \<or> (q, f) \<in> set (dying H m)"
        using that unfolding dy by (auto simp: dying_def simp del: cb_block.simps)
      then show ?thesis using n inv bl unfolding rcu_inv_def by auto
    qed
    moreover have "0 < refcount k \<and>
        (\<exists>n. blocks m' (hdr_base H a k) = Some (if is_vmalloc k then Vmalloc else Kmalloc, n) \<and>
             uint (ipc_rcu_header_size H (is_vmalloc k)) \<le> int n) \<and>
        hdr_base H a k \<notin> set (map fst (dying H m'))" if "hdrs m' a = Some k" for a k
    proof -
      have k: "hdrs m a = Some k" "a \<noteq> ?a" using that by (auto simp: m' split: if_splits)
      then have "hdr_base H a k \<noteq> hdr_base H ?a h" using hdr_base_inj [OF inv k(1) h] by blast
      then show ?thesis using rcu_invD [OF inv k(1)] unfolding fstset bl by simp
    qed
    ultimately show ?thesis unfolding rcu_inv_def by blast
  qed
qed

lemma rcu_inv_perm:
  assumes "rcu_inv H m" and "mset (dying H m') = mset (dying H m)"
    and "blocks m' = blocks m" and "hdrs m' = hdrs m"
  shows "rcu_inv H m'"
proof -
  have "set (dying H m') = set (dying H m)" using assms(2) by (rule mset_eq_setD)
  moreover have "distinct (map fst (dying H m')) = distinct (map fst (dying H m))"
    by (rule mset_eq_imp_distinct_iff) (use assms(2) in simp)
  ultimately show ?thesis
    using assms unfolding rcu_inv_def by simp
qed

text \<open>Freeing a block whose object is dying succeeds and keeps the invariant.\<close>

lemma free_dying:
  assumes inv: "rcu_inv H m" and dy: "dying H m = xs @ (p, f) # ys" and dy0: "dying H m0 = xs @ ys"
    and same: "blocks m0 = blocks m" "hdrs m0 = hdrs m"
  shows "\<exists>m'. free_block f p m0 = Some m' \<and> rcu_inv H m' \<and>
              blocks m' = (blocks m)(p := None) \<and> hdrs m' = hdrs m"
proof -
  have "(p, f) \<in> set (dying H m)" by (simp add: dy)
  then obtain n where n: "blocks m p = Some (f, n)" using inv unfolding rcu_inv_def by blast
  let ?m = "m0\<lparr>blocks := (blocks m0)(p := None)\<rparr>"
  have dist: "distinct (map fst (dying H m))" using inv unfolding rcu_inv_def by blast
  have dy': "dying H ?m = xs @ ys" by (simp add: dy0)
  have pnot: "p \<notin> set (map fst (dying H ?m))" using dist unfolding dy dy' by auto
  have sub: "set (dying H ?m) \<subseteq> set (dying H m)" unfolding dy dy' by auto
  have "rcu_inv H ?m"
    unfolding rcu_inv_def
  proof (intro conjI allI impI)
    show "distinct (map fst (dying H ?m))" using dist unfolding dy dy' by auto
  next
    fix q g assume "(q, g) \<in> set (dying H ?m)"
    moreover from this have "q \<noteq> p" using pnot by force
    ultimately show "\<exists>n. blocks ?m q = Some (g, n) \<and> 0 < n"
      using inv sub same unfolding rcu_inv_def by auto
  next
    fix a h assume "hdrs ?m a = Some h"
    then have h: "hdrs m a = Some h" by (simp add: same)
    note D = rcu_invD [OF inv h]
    have "hdr_base H a h \<noteq> p" using D(3) by (auto simp: dy)
    then show "\<exists>n. blocks ?m (hdr_base H a h) = Some (if is_vmalloc h then Vmalloc else Kmalloc, n) \<and>
             uint (ipc_rcu_header_size H (is_vmalloc h)) \<le> int n"
      using D(2) by (simp add: same)
    show "0 < refcount h" by (rule D(1))
    show "hdr_base H a h \<notin> set (map fst (dying H ?m))" using D(3) sub by force
  qed
  then show ?thesis using n by (simp add: free_block_def same)
qed

lemma callback_inv:
  assumes inv: "rcu_inv H m"
  shows "\<exists>m'. rcu_callback H m = Some m' \<and> rcu_inv H m'"
proof (cases "rcu_queue m")
  case Nil
  then show ?thesis using inv by (simp add: rcu_callback_def)
next
  case (Cons cb cbs)
  show ?thesis
  proof (cases cb)
    case (Immediate_free g)
    have "dying H m = [] @ (g, Kmalloc) # dying H (m\<lparr>rcu_queue := cbs\<rparr>)"
      using Cons Immediate_free by (simp add: dying_def)
    from free_dying [OF inv this, of "m\<lparr>rcu_queue := cbs\<rparr>"] show ?thesis
      using Cons Immediate_free by (auto simp: rcu_callback_def ipc_immediate_free_def)
  next
    case (Schedule_free g)
    let ?m = "ipc_schedule_free H g (m\<lparr>rcu_queue := cbs\<rparr>)"
    have "mset (dying H ?m) = mset (dying H m)"
      using Cons Schedule_free
      by (simp add: dying_def ipc_schedule_free_def container_sched_def Let_def)
    then have "rcu_inv H ?m"
      by (rule rcu_inv_perm [OF inv]) (simp_all add: ipc_schedule_free_def Let_def)
    then show ?thesis using Cons Schedule_free by (simp add: rcu_callback_def)
  qed
qed

lemma worker_inv:
  assumes inv: "rcu_inv H m"
  shows "\<exists>m'. run_worker m = Some m' \<and> rcu_inv H m'"
proof (cases "work_queue m")
  case Nil
  then show ?thesis using inv by (simp add: run_worker_def)
next
  case (Cons w ws)
  have "dying H m = map (cb_block H) (rcu_queue m) @ (w, Vmalloc) # map (\<lambda>w. (w, Vmalloc)) ws"
    using Cons by (simp add: dying_def)
  from free_dying [OF inv this, of "m\<lparr>work_queue := ws\<rparr>"] show ?thesis
    using Cons by (auto simp: run_worker_def ipc_do_vfree_def dying_def)
qed

lemma rcu_alloc_cases:
  obtains (fail) "ipc_rcu_alloc H E sz m = (None, m)"
  | (ok) base n v where
      "v = ipc_rcu_use_vmalloc H sz"
      "unat n = unat (ipc_rcu_header_size H v) + unat sz"
      "(if v then vmalloc E n else kmalloc E n) = Some base"
      "ipc_rcu_alloc H E sz m =
         (Some (base + uint (ipc_rcu_header_size H v)),
          ipc_rcu_init_header H (base + uint (ipc_rcu_header_size H v)) v
            (add_block base (if v then Vmalloc else Kmalloc) n m))"
proof (cases "l30_size_add_overflow (ipc_rcu_header_size H (ipc_rcu_use_vmalloc H sz)) sz")
  case None
  then show ?thesis by (intro fail) (simp add: ipc_rcu_alloc_def Let_def)
next
  case (Some n)
  let ?v = "ipc_rcu_use_vmalloc H sz"
  have n: "unat n = unat (ipc_rcu_header_size H ?v) + unat sz"
    using Some by (simp add: add_overflow_fits unat_size_fits)
  show ?thesis
  proof (cases "if ?v then vmalloc E n else kmalloc E n")
    case None
    then show ?thesis using Some by (intro fail) (simp add: ipc_rcu_alloc_def Let_def)
  next
    case (Some base)
    show ?thesis
      by (rule ok [OF refl n Some])
         (use Some \<open>l30_size_add_overflow _ sz = Some n\<close> in \<open>simp add: ipc_rcu_alloc_def Let_def\<close>)
  qed
qed

lemma alloc_inv:
  assumes ok: "alloc_hdr_ok H" and inv: "rcu_inv H m" and env: "alloc_env_ok E m"
  shows "rcu_inv H (snd (ipc_rcu_alloc H E sz m))"
proof (cases rule: rcu_alloc_cases [of H E sz m])
  case fail
  then show ?thesis using inv by simp
next
  case (ok base n v)
  let ?hs = "uint (ipc_rcu_header_size H v)"
  let ?a = "base + ?hs - uint (sizeof_rcu_hdr H)"
  let ?m = "snd (ipc_rcu_alloc H E sz m)"
  have m: "blocks ?m = (blocks m)(base \<mapsto> (if v then Vmalloc else Kmalloc, unat n))"
    "hdrs ?m = (hdrs m)(?a \<mapsto> \<lparr>refcount = 1, is_vmalloc = v\<rparr>)" "dying H ?m = dying H m"
    by (simp_all add: ok(4) ipc_rcu_init_header_def add_block_def container_hdr_def dying_def)
  note pos = header_size_pos [OF assms(1), of v]
  have un: "uint n = ?hs + uint sz"
    using arg_cong [OF ok(2), of int] by simp
  have sz0: "0 \<le> uint sz" by simp
  have big: "?hs \<le> uint n" using un sz0 by linarith
  have npos: "0 < uint n" using big pos by linarith
  have disj: "base + uint n \<le> b \<or> b + int k \<le> base" if "blocks m b = Some (f, k)" for b f k
  proof -
    have "disjoint_block m base n" using env ok(3) by (cases v) (simp_all add: alloc_env_ok_def)
    then show ?thesis using that unfolding disjoint_block_def by blast
  qed
  have fresh: "b \<noteq> base" if "blocks m b = Some (f, k)" "0 < k" for b f k
    using disj [OF that(1)] that(2) npos by auto
  have nold: "a \<noteq> ?a \<and> hdr_base H a h \<noteq> base" if h: "hdrs m a = Some h" for a h
  proof -
    obtain k where k: "blocks m (hdr_base H a h) = Some (if is_vmalloc h then Vmalloc else Kmalloc, k)"
      "uint (ipc_rcu_header_size H (is_vmalloc h)) \<le> int k" using rcu_invD(2) [OF inv h] by blast
    note pos' = header_size_pos [OF assms(1), of "is_vmalloc h"]
    have "hdr_base H a h \<le> a" "a < hdr_base H a h + int k"
      using k(2) pos' assms(1) by (auto simp: hdr_base_def alloc_hdr_ok_def)
    moreover have "base \<le> ?a" "?a < base + uint n"
      using big pos assms(1) by (auto simp: alloc_hdr_ok_def)
    ultimately show ?thesis using disj [OF k(1)] by auto
  qed
  show ?thesis
    unfolding rcu_inv_def m
  proof (intro conjI allI impI)
    show "distinct (map fst (dying H m))" using inv unfolding rcu_inv_def by blast
  next
    fix q g assume "(q, g) \<in> set (dying H m)"
    then obtain k where "blocks m q = Some (g, k)" "0 < k" using inv unfolding rcu_inv_def by blast
    then show "\<exists>k. ((blocks m)(base \<mapsto> (if v then Vmalloc else Kmalloc, unat n))) q = Some (g, k) \<and> 0 < k"
      using fresh by auto
  next
    fix a h assume "((hdrs m)(?a \<mapsto> \<lparr>refcount = 1, is_vmalloc = v\<rparr>)) a = Some h"
    then consider (new) "a = ?a" "h = \<lparr>refcount = 1, is_vmalloc = v\<rparr>" | (old) "hdrs m a = Some h"
      by (cases "a = ?a") simp_all
    then have "0 < refcount h \<and>
      (\<exists>k. ((blocks m)(base \<mapsto> (if v then Vmalloc else Kmalloc, unat n))) (hdr_base H a h) =
             Some (if is_vmalloc h then Vmalloc else Kmalloc, k) \<and>
           uint (ipc_rcu_header_size H (is_vmalloc h)) \<le> int k) \<and>
      hdr_base H a h \<notin> set (map fst (dying H m))"
    proof cases
      case new
      have "hdr_base H a h = base" by (simp add: new hdr_base_def)
      moreover have "base \<notin> set (map fst (dying H m))"
      proof
        assume "base \<in> set (map fst (dying H m))"
        then obtain g where "(base, g) \<in> set (dying H m)" by auto
        then obtain k where "blocks m base = Some (g, k)" "0 < k"
          using inv unfolding rcu_inv_def by blast
        then show False using fresh by blast
      qed
      ultimately show ?thesis using new big by simp
    next
      case old
      then show ?thesis using rcu_invD [OF inv old] nold [OF old] by simp
    qed
    then show "0 < refcount h"
      and "\<exists>k. ((blocks m)(base \<mapsto> (if v then Vmalloc else Kmalloc, unat n))) (hdr_base H a h) =
             Some (if is_vmalloc h then Vmalloc else Kmalloc, k) \<and>
           uint (ipc_rcu_header_size H (is_vmalloc h)) \<le> int k"
      and "hdr_base H a h \<notin> set (map fst (dying H m))" by blast+
  qed
qed

lemma rcu_step_inv:
  assumes "alloc_hdr_ok H" and "rcu_step H m m'" and "rcu_inv H m"
  shows "rcu_inv H m'"
  using assms(2) assms(3)
proof cases
  case (alloc E sz)
  then show ?thesis using alloc_inv [OF assms(1,3)] by simp
next
  case (grace)
  then show ?thesis using callback_inv [OF assms(3)] by auto
next
  case (worker)
  then show ?thesis using worker_inv [OF assms(3)] by auto
next
  case (getref p)
  then show ?thesis using getref_inv [OF assms(3)] by blast
next
  case (putref p)
  then show ?thesis using putref_inv [OF assms(1,3)] by blast
qed

lemma rcu_reach_inv: "rcu_reach H m \<Longrightarrow> alloc_hdr_ok H \<Longrightarrow> rcu_inv H m"
  by (induction rule: rcu_reach.induct) (auto intro: rcu_inv_empty rcu_step_inv)

subsection \<open>The interface clients rely on\<close>

text \<open>
  What \<^verbatim>\<open>alloc.h\<close> promises of \<^verbatim>\<open>ipc_rcu_getref\<close> and \<^verbatim>\<open>ipc_rcu_putref\<close>: they count references of
  one object, leave the others alone, and the \<^verbatim>\<open>putref\<close> that reaches zero ends the object's life.
\<close>

fun iter_opt :: "nat \<Rightarrow> ('m \<Rightarrow> 'm option) \<Rightarrow> 'm \<Rightarrow> 'm option" where
  "iter_opt 0 f m = Some m"
| "iter_opt (Suc n) f m = (case f m of None \<Rightarrow> None | Some m' \<Rightarrow> iter_opt n f m')"

locale refcounted =
  fixes rc :: "'m \<Rightarrow> addr \<Rightarrow> int option"
    and get :: "addr \<Rightarrow> 'm \<Rightarrow> 'm option"
    and put :: "addr \<Rightarrow> 'm \<Rightarrow> 'm option"
    and rest :: "'m \<Rightarrow> 'r"
  assumes get_live: "rc m p = Some c \<Longrightarrow>
                     \<exists>m'. get p m = Some m' \<and> rc m' = (rc m)(p \<mapsto> c + 1) \<and> rest m' = rest m"
    and put_live: "rc m p = Some c \<Longrightarrow> 1 < c \<Longrightarrow>
                     \<exists>m'. put p m = Some m' \<and> rc m' = (rc m)(p \<mapsto> c - 1) \<and> rest m' = rest m"
    and put_last: "rc m p = Some c \<Longrightarrow> c \<le> 1 \<Longrightarrow>
                     \<exists>m'. put p m = Some m' \<and> rc m' = (rc m)(p := None)"
begin

lemma gets:
  "rc m p = Some c \<Longrightarrow>
     \<exists>m'. iter_opt n (get p) m = Some m' \<and> rc m' = (rc m)(p \<mapsto> c + int n) \<and> rest m' = rest m"
proof (induction n arbitrary: m c)
  case 0
  then show ?case by (auto simp: fun_upd_idem)
next
  case (Suc n)
  from get_live [OF Suc.prems] obtain m1
    where m1: "get p m = Some m1" "rc m1 = (rc m)(p \<mapsto> c + 1)" "rest m1 = rest m" by blast
  then have "rc m1 p = Some (c + 1)" by simp
  from Suc.IH [OF this] m1 show ?case by (auto simp: fun_eq_iff)
qed

lemma puts:
  "rc m p = Some c \<Longrightarrow> int n < c \<Longrightarrow>
     \<exists>m'. iter_opt n (put p) m = Some m' \<and> rc m' = (rc m)(p \<mapsto> c - int n) \<and> rest m' = rest m"
proof (induction n arbitrary: m c)
  case 0
  then show ?case by (auto simp: fun_upd_idem)
next
  case (Suc n)
  have "1 < c" using Suc.prems(2) by simp
  from put_live [OF Suc.prems(1) this] obtain m1
    where m1: "put p m = Some m1" "rc m1 = (rc m)(p \<mapsto> c - 1)" "rest m1 = rest m" by blast
  then have "rc m1 p = Some (c - 1)" and "int n < c - 1" using Suc.prems(2) by simp_all
  from Suc.IH [OF this] m1 show ?case by (auto simp: fun_eq_iff)
qed

text \<open>References taken and dropped leave everything as it was: the sleepers' protocol.\<close>

lemma gets_puts:
  assumes "rc m p = Some c" and "1 \<le> c"
    and "iter_opt n (get p) m = Some m1" and "iter_opt n (put p) m1 = Some m2"
  shows "rc m2 = rc m \<and> rest m2 = rest m"
proof -
  have m1: "rc m1 = (rc m)(p \<mapsto> c + int n)" "rest m1 = rest m"
    using gets [OF assms(1), of n] assms(3) by auto
  then have "rc m1 p = Some (c + int n)" and "int n < c + int n" using assms(2) by simp_all
  from puts [OF this] m1 assms(4) show ?thesis using assms(1) by (auto simp: fun_eq_iff)
qed

end

definition rcu_count :: "'h alloc_hdr_scheme \<Rightarrow> ipc_mem \<Rightarrow> addr \<Rightarrow> int option" where
  "rcu_count H m p = map_option refcount (hdrs m (container_hdr H p))"

definition mem_rest ::
    "ipc_mem \<Rightarrow> (addr \<rightharpoonup> family \<times> nat) \<times> rcu_cb list \<times> addr list \<times> (addr \<Rightarrow> bool option)" where
  "mem_rest m = (blocks m, rcu_queue m, work_queue m, \<lambda>a. map_option is_vmalloc (hdrs m a))"

lemma container_hdr_inj [simp]: "container_hdr H p = container_hdr H q \<longleftrightarrow> p = q"
  by (simp add: container_hdr_def)

interpretation rcu: refcounted "rcu_count H" "ipc_rcu_getref H" "ipc_rcu_putref H" mem_rest
  for H
proof unfold_locales
  fix m p c
  assume c: "rcu_count H m p = Some c"
  then obtain h where h: "hdrs m (container_hdr H p) = Some h" "refcount h = c"
    by (auto simp: rcu_count_def)
  show "\<exists>m'. ipc_rcu_getref H p m = Some m' \<and> rcu_count H m' = (rcu_count H m)(p \<mapsto> c + 1) \<and>
             mem_rest m' = mem_rest m"
    using h by (auto simp: ipc_rcu_getref_def rcu_count_def mem_rest_def fun_eq_iff)
  show "\<exists>m'. ipc_rcu_putref H p m = Some m' \<and> rcu_count H m' = (rcu_count H m)(p \<mapsto> c - 1) \<and>
             mem_rest m' = mem_rest m"
    if "1 < c" using h that by (auto simp: ipc_rcu_putref_def rcu_count_def mem_rest_def fun_eq_iff)
  show "\<exists>m'. ipc_rcu_putref H p m = Some m' \<and> rcu_count H m' = (rcu_count H m)(p := None)"
    if "c \<le> 1" using h that by (auto simp: ipc_rcu_putref_def rcu_count_def fun_eq_iff)
qed

text \<open>A new object is counted once, and its address was not that of a live object.\<close>

lemma rcu_alloc_count:
  assumes ok: "alloc_hdr_ok H" and inv: "rcu_inv H m" and env: "alloc_env_ok E m"
    and a: "ipc_rcu_alloc H E sz m = (Some p, m')"
  shows "rcu_count H m p = None" and "rcu_count H m' = (rcu_count H m)(p \<mapsto> 1)"
proof -
  obtain base n v where b: "unat n = unat (ipc_rcu_header_size H v) + unat sz"
    "(if v then vmalloc E n else kmalloc E n) = Some base" "p = base + uint (ipc_rcu_header_size H v)"
    "m' = ipc_rcu_init_header H p v (add_block base (if v then Vmalloc else Kmalloc) n m)"
    using a by (cases rule: rcu_alloc_cases [of H E sz m]) auto
  have disj: "disjoint_block m base n"
    using env b(2) unfolding alloc_env_ok_def by (cases v) auto
  have n: "uint n = uint (ipc_rcu_header_size H v) + uint sz"
  proof -
    have "int (unat n) = int (unat (ipc_rcu_header_size H v) + unat sz)" using b(1) by (simp only:)
    then show ?thesis by simp
  qed
  show "rcu_count H m p = None"
  proof (rule ccontr)
    assume "rcu_count H m p \<noteq> None"
    then obtain h where h: "hdrs m (container_hdr H p) = Some h" by (auto simp: rcu_count_def)
    obtain k f where k: "blocks m (hdr_base H (container_hdr H p) h) = Some (f, k)"
      "uint (ipc_rcu_header_size H (is_vmalloc h)) \<le> int k"
      using rcu_invD(2) [OF inv h] by blast
    have "hdr_base H (container_hdr H p) h = p - uint (ipc_rcu_header_size H (is_vmalloc h))"
      by (simp add: hdr_base_def container_hdr_def)
    moreover have "base + uint n \<le> hdr_base H (container_hdr H p) h \<or>
      hdr_base H (container_hdr H p) h + int k \<le> base"
      using disj k(1) unfolding disjoint_block_def by blast
    ultimately show False
      using header_size_pos(2) [OF ok, of v] header_size_pos(2) [OF ok, of "is_vmalloc h"] k(2) b(3) n
        uint_ge_0 [of sz] by linarith
  qed
  show "rcu_count H m' = (rcu_count H m)(p \<mapsto> 1)"
    by (auto simp: b(4) rcu_count_def ipc_rcu_init_header_def add_block_def fun_eq_iff)
qed

subsection \<open>Properties\<close>

definition example_alloc_hdr :: alloc_hdr where
  "example_alloc_hdr =
     \<lparr>PAGE_SIZE = 4096, sizeof_rcu_hdr = 8, sizeof_rcu_grace = 16, sizeof_rcu_sched = 32\<rparr>"

definition example_alloc_env :: alloc_env where
  "example_alloc_env = \<lparr>kmalloc = (\<lambda>n. Some 65536), vmalloc = (\<lambda>n. Some 1048576)\<rparr>"

lemma example_alloc_hdr_ok: "alloc_hdr_ok example_alloc_hdr"
  by (simp add: alloc_hdr_ok_def example_alloc_hdr_def)

lemma example_alloc_env_ok: "alloc_env_ok example_alloc_env empty_mem"
  by (simp add: alloc_env_ok_def disjoint_block_def empty_mem_def)

text \<open>
  C32. Memory safety of the RCU lifetime. In every state that allocations, reference counting,
  grace periods and the worker can reach, the next RCU callback and the next work item free the
  start of a live block of the right allocator: no invalid, double or cross-allocator free.
\<close>

theorem rcu_frees_valid:
  assumes "alloc_hdr_ok H" and "rcu_reach H m"
  shows "rcu_callback H m \<noteq> None \<and> run_worker m \<noteq> None"
  using callback_inv worker_inv rcu_reach_inv [OF assms(2,1)] by blast

definition example_dying :: ipc_mem where
  "example_dying =
     (let m = snd (ipc_rcu_alloc example_alloc_hdr example_alloc_env 5000 empty_mem)
      in the (ipc_rcu_putref example_alloc_hdr (1048576 + 32) m))"

lemma example_dying_reach: "rcu_reach example_alloc_hdr example_dying"
proof -
  let ?m = "snd (ipc_rcu_alloc example_alloc_hdr example_alloc_env 5000 empty_mem)"
  have "rcu_reach example_alloc_hdr ?m"
    by (rule rcu_reach.step [OF rcu_reach.init rcu_step.alloc [OF example_alloc_env_ok]])
  moreover have "rcu_step example_alloc_hdr ?m example_dying"
    by (rule rcu_step.putref [where p = "1048576 + 32"])
       (simp add: example_dying_def example_alloc_hdr_def example_alloc_env_def ipc_rcu_alloc_def
         ipc_rcu_use_vmalloc_def ipc_rcu_header_size_def HDRLEN_KMALLOC_def HDRLEN_VMALLOC_def
         l30_size_add_overflow_def ipc_rcu_init_header_def container_hdr_def add_block_def
         ipc_rcu_putref_def Let_def)
  ultimately show ?thesis by (rule rcu_reach.step)
qed

theorem rcu_frees_valid_witness:
  "alloc_hdr_ok example_alloc_hdr \<and> rcu_reach example_alloc_hdr example_dying \<and>
   rcu_callback example_alloc_hdr example_dying \<noteq> None \<and> run_worker example_dying \<noteq> None"
  using rcu_frees_valid [OF example_alloc_hdr_ok example_dying_reach] example_alloc_hdr_ok
    example_dying_reach by blast

text \<open>
  C33. An object lives exactly as long as it is referenced. Allocated, then referenced and released
  \<open>n\<close> more times, it is still live with count 1; the last \<^verbatim>\<open>putref\<close>, the grace period and (for
  \<^verbatim>\<open>vmalloc\<close> objects) the worker return exactly the block that was allocated, and no other block is
  touched.
\<close>

theorem rcu_lifetime:
  assumes ok: "alloc_hdr_ok H" and env: "alloc_env_ok E m" and inv: "rcu_inv H m"
    and idle: "rcu_queue m = []" "work_queue m = []"
    and alloc: "ipc_rcu_alloc H E sz m = (Some p, m1)"
    and refs: "iter_opt n (ipc_rcu_getref H p) m1 = Some m2" "iter_opt n (ipc_rcu_putref H p) m2 = Some m3"
  shows "rcu_count H m3 p = Some 1 \<and>
    (\<exists>b m4 m5 m6. blocks m b = None \<and> dom (blocks m1) = insert b (dom (blocks m)) \<and>
       ipc_rcu_putref H p m3 = Some m4 \<and> rcu_count H m4 p = None \<and> blocks m4 = blocks m1 \<and>
       rcu_callback H m4 = Some m5 \<and> run_worker m5 = Some m6 \<and> blocks m6 = blocks m)"
proof (cases rule: rcu_alloc_cases [of H E sz m])
  case fail
  then show ?thesis using alloc by simp
next
  case (ok base k v)
  let ?f = "if v then Vmalloc else Kmalloc"
  let ?a = "container_hdr H p"
  have p: "p = base + uint (ipc_rcu_header_size H v)"
    and bl: "blocks m1 = (blocks m)(base \<mapsto> (?f, unat k))"
    and hd1: "hdrs m1 ?a = Some \<lparr>refcount = 1, is_vmalloc = v\<rparr>"
    and q1: "rcu_queue m1 = []" "work_queue m1 = []"
    using ok(4) alloc idle by (auto simp: ipc_rcu_init_header_def add_block_def)
  have cnt1: "rcu_count H m1 p = Some 1" using hd1 by (simp add: rcu_count_def)
  have restored: "rcu_count H m3 = rcu_count H m1" "mem_rest m3 = mem_rest m1"
    using rcu.gets_puts [OF cnt1 _ refs] by simp_all
  have bl3: "blocks m3 = blocks m1" and q3: "rcu_queue m3 = []" "work_queue m3 = []"
    and v3: "map_option is_vmalloc (hdrs m3 ?a) = Some v"
    using restored(2) q1 hd1 by (simp_all add: mem_rest_def fun_eq_iff)
  obtain h where h: "hdrs m3 ?a = Some h" "is_vmalloc h = v" using v3 by auto
  have r1: "refcount h = 1" using fun_cong [OF restored(1), of p] cnt1 h(1) by (auto simp: rcu_count_def)
  let ?cb = "if v then Schedule_free (container_grace H p) else Immediate_free (container_grace H p)"
  let ?m4 = "m3\<lparr>hdrs := (hdrs m3)(?a := None), rcu_queue := [?cb]\<rparr>"
  have put: "ipc_rcu_putref H p m3 = Some ?m4" using h r1 q3 by (simp add: ipc_rcu_putref_def)
  have cb: "container_grace H p = base + uint (ipc_rcu_header_size H v) - uint (sizeof_rcu_grace H)"
    by (simp add: p container_grace_def)
  have "disjoint_block m base k" using env ok(3) by (cases v) (simp_all add: alloc_env_ok_def)
  then have freshb: "blocks m base = None"
    by (cases "blocks m base") (auto simp: disjoint_block_def)
  have "\<exists>m5 m6. rcu_callback H ?m4 = Some m5 \<and> run_worker m5 = Some m6 \<and>
          blocks m6 = (blocks m1)(base := None)"
    using bl3 bl cb q3
    by (cases v) (simp_all add: rcu_callback_def ipc_schedule_free_def ipc_immediate_free_def
        run_worker_def ipc_do_vfree_def free_block_def container_sched_def Let_def
        ipc_rcu_header_size_def hdrlen_simps [OF assms(1)])
  then obtain m5 m6 where "rcu_callback H ?m4 = Some m5" and "run_worker m5 = Some m6"
    and "blocks m6 = (blocks m1)(base := None)" by blast
  moreover from this(3) have "blocks m6 = blocks m" using freshb by (simp add: bl fun_upd_idem)
  moreover have "dom (blocks m1) = insert base (dom (blocks m))" by (simp add: bl)
  moreover have "rcu_count H ?m4 p = None" by (simp add: rcu_count_def)
  moreover have "blocks ?m4 = blocks m1" by (simp add: bl3)
  moreover have "rcu_count H m3 p = Some 1" using restored(1) cnt1 by simp
  ultimately show ?thesis using put freshb by blast
qed

theorem rcu_lifetime_witness:
  "\<exists>m1 m2 m3. ipc_rcu_alloc example_alloc_hdr example_alloc_env 100 empty_mem = (Some 65552, m1) \<and>
     iter_opt 2 (ipc_rcu_getref example_alloc_hdr 65552) m1 = Some m2 \<and>
     iter_opt 2 (ipc_rcu_putref example_alloc_hdr 65552) m2 = Some m3 \<and>
     rcu_count example_alloc_hdr m3 65552 = Some 1 \<and>
     (\<exists>b m4 m5 m6. blocks empty_mem b = None \<and> dom (blocks m1) = insert b (dom (blocks empty_mem)) \<and>
       ipc_rcu_putref example_alloc_hdr 65552 m3 = Some m4 \<and> rcu_count example_alloc_hdr m4 65552 = None \<and>
       blocks m4 = blocks m1 \<and> rcu_callback example_alloc_hdr m4 = Some m5 \<and>
       run_worker m5 = Some m6 \<and> blocks m6 = blocks empty_mem)"
proof -
  let ?H = example_alloc_hdr and ?E = example_alloc_env
  have al: "ipc_rcu_alloc ?H ?E 100 empty_mem = (Some 65552, snd (ipc_rcu_alloc ?H ?E 100 empty_mem))"
    (is "_ = (_, ?m1)")
    by (simp add: example_alloc_hdr_def example_alloc_env_def ipc_rcu_alloc_def Let_def
        ipc_rcu_use_vmalloc_def ipc_rcu_header_size_def HDRLEN_KMALLOC_def l30_size_add_overflow_def)
  have c1: "rcu_count ?H ?m1 65552 = Some 1"
    by (simp add: example_alloc_hdr_def example_alloc_env_def ipc_rcu_alloc_def Let_def
        ipc_rcu_use_vmalloc_def ipc_rcu_header_size_def HDRLEN_KMALLOC_def l30_size_add_overflow_def
        rcu_count_def ipc_rcu_init_header_def container_hdr_def)
  obtain m2 where m2: "iter_opt 2 (ipc_rcu_getref ?H 65552) ?m1 = Some m2" "rcu_count ?H m2 65552 = Some 3"
    using rcu.gets [OF c1, of 2] by auto
  obtain m3 where m3: "iter_opt 2 (ipc_rcu_putref ?H 65552) m2 = Some m3"
    using rcu.puts [OF m2(2), of 2] by auto
  have q: "rcu_queue empty_mem = []" "work_queue empty_mem = []" by (simp_all add: empty_mem_def)
  from rcu_lifetime [OF example_alloc_hdr_ok example_alloc_env_ok rcu_inv_empty q al m2(1) m3] al m2(1) m3
  show ?thesis by blast
qed

text \<open>
  \<^verbatim>\<open>ipc_free\<close> called with the size that was requested hands the block back to the allocator
  it came from, for every size on either side of \<^verbatim>\<open>PAGE_SIZE\<close>.
\<close>

theorem ipc_alloc_free:
  assumes "ipc_alloc H E sz m = (Some p, m1)"
  shows "ipc_free H p sz m1 = Some (m1\<lparr>blocks := (blocks m)(p := None)\<rparr>)"
  using assms
  by (auto simp: ipc_alloc_def ipc_free_def free_block_def add_block_def split: if_splits option.splits)

theorem ipc_alloc_free_witness:
  "ipc_alloc example_alloc_hdr example_alloc_env 8192 empty_mem =
     (Some 1048576, add_block 1048576 Vmalloc 8192 empty_mem) \<and>
   ipc_free example_alloc_hdr 1048576 8192 (add_block 1048576 Vmalloc 8192 empty_mem) \<noteq> None"
proof -
  have a: "ipc_alloc example_alloc_hdr example_alloc_env 8192 empty_mem =
     (Some 1048576, add_block 1048576 Vmalloc 8192 empty_mem)"
    by (simp add: ipc_alloc_def example_alloc_hdr_def example_alloc_env_def)
  then show ?thesis using ipc_alloc_free [OF a] by simp
qed

end
