(* ===== verification/Ipc_Util.thy ===== *)
theory Ipc_Util
  imports Ipc_Alloc
begin

text \<open>
  \<^verbatim>\<open>ipc/util.c\<close> and \<^verbatim>\<open>ipc/util.h\<close>: the identifier tables shared by message queues, semaphores and
  shared memory, permission checks, the common part of the \<^verbatim>\<open>*get\<close> system calls and the iteration
  behind the files of \<^verbatim>\<open>/proc/sysvipc\<close>.

  An \<^verbatim>\<open>idr\<close> is a finite map from indices to the addresses of the objects; \<^verbatim>\<open>idr_get_new\<close>,
  \<^verbatim>\<open>idr_pre_get\<close>, the credentials of the caller and the security hooks come from outside the
  repository and are fields of an \<open>ipc_env\<close>, one for each call. Constants of headers that are not
  in the repository are fields of an \<open>ipc_hdr\<close>. Every operation is atomic: the locks
  (\<^verbatim>\<open>rw_mutex\<close>, \<^verbatim>\<open>kern_ipc_perm.lock\<close>) and auditing are left out.
\<close>

subsection \<open>State\<close>

record kern_ipc_perm =
  p_deleted :: bool
  p_id :: int
  p_key :: int
  p_uid :: ident
  p_gid :: ident
  p_cuid :: ident
  p_cgid :: ident
  p_mode :: flags
  p_seq :: int

type_synonym perms = "addr \<rightharpoonup> kern_ipc_perm"

record ipc_ids =
  in_use :: int
  ids_seq :: "16 word"
  ids_seq_max :: "16 word"
  ipcs_idr :: "nat \<rightharpoonup> addr"

record ipc_params =
  par_key :: int
  par_flg :: flags
  par_size :: ulong
  par_nsems :: int

record ipc64_perm =
  i_key :: int
  i_uid :: ident
  i_gid :: ident
  i_cuid :: ident
  i_cgid :: ident
  i_mode :: flags
  i_seq :: int

record ipc_perm_old =
  o_key :: int
  o_uid :: "16 word"
  o_gid :: "16 word"
  o_cuid :: "16 word"
  o_cgid :: "16 word"
  o_mode :: flags
  o_seq :: int

datatype capability = CAP_IPC_OWNER | CAP_SYS_ADMIN | CAP_SYS_RESOURCE | CAP_IPC_LOCK

datatype ipc_version = IPC_64 | IPC_OLD

text \<open>
  The commands the three control calls share, and those of one of them. The numbers behind the
  commands come from headers; decoding them is a function of the header record of each component.
\<close>

datatype 'c ipc_cmd = IPC_RMID | IPC_SET | IPC_STAT | IPC_INFO | CMD 'c | BAD_CMD

record ipc_hdr = alloc_hdr +
  IPCMNI :: nat
  IPC_CREAT :: flags
  IPC_EXCL :: flags
  IPC_NOWAIT :: flags
  IPC_64_bit :: flags
  S_IRWXUGO :: flags
  S_IRUGO :: flags
  S_IWUGO :: flags
  high2lowuid :: "ident \<Rightarrow> 16 word"
  high2lowgid :: "ident \<Rightarrow> 16 word"

record ipc_env = alloc_env +
  current :: task
  current_tgid :: int
  current_euid :: ident
  current_egid :: ident
  in_group_p :: "ident \<Rightarrow> bool"
  ns_capable :: "capability \<Rightarrow> bool"
  get_seconds :: int
  idr_pre_get :: bool
  idr_get_new :: "(nat \<rightharpoonup> addr) \<Rightarrow> errno + nat"
  security_ipc_permission :: "kern_ipc_perm \<Rightarrow> 16 word \<Rightarrow> errno option"

subsection \<open>Identifiers\<close>

definition SEQ_MULTIPLIER :: "'h ipc_hdr_scheme \<Rightarrow> int" where
  "SEQ_MULTIPLIER K = int (IPCMNI K)"

definition ipcid_to_idx :: "'h ipc_hdr_scheme \<Rightarrow> int \<Rightarrow> int" where
  "ipcid_to_idx K xid = xid smod SEQ_MULTIPLIER K"

definition ipc_buildid :: "'h ipc_hdr_scheme \<Rightarrow> int \<Rightarrow> int \<Rightarrow> int" where
  "ipc_buildid K xid seq = c_int (SEQ_MULTIPLIER K * seq + xid)"

definition ipc_checkid :: "'h ipc_hdr_scheme \<Rightarrow> kern_ipc_perm \<Rightarrow> int \<Rightarrow> bool" where
  "ipc_checkid K ipcp uid = (uid sdiv SEQ_MULTIPLIER K \<noteq> p_seq ipcp)"

text \<open>\<^verbatim>\<open>idr_find\<close>; no entry has a negative index.\<close>

definition idr_find :: "(nat \<rightharpoonup> addr) \<Rightarrow> int \<Rightarrow> addr option" where
  "idr_find idr i = (if i < 0 then None else idr (nat i))"

definition ipc_init_ids :: "'h ipc_hdr_scheme \<Rightarrow> ipc_ids" where
  "ipc_init_ids K =
     (let seq_limit = INT_MAX div SEQ_MULTIPLIER K
      in \<lparr>in_use = 0, ids_seq = 0,
          ids_seq_max = (if seq_limit > USHRT_MAX then word_of_int USHRT_MAX else word_of_int seq_limit),
          ipcs_idr = Map.empty\<rparr>)"

subsection \<open>Searching a table\<close>

text \<open>
  The loop of \<^verbatim>\<open>ipc_findkey\<close> only stops once it has seen \<^verbatim>\<open>in_use\<close> entries: not returning is
  \<open>None\<close>. The result \<open>Inl KBUG\<close> is an entry that points at no object.
\<close>

partial_function (option) findkey_from ::
  "ipc_ids \<Rightarrow> perms \<Rightarrow> int \<Rightarrow> int \<Rightarrow> nat \<Rightarrow> (errno + addr option) option" where
  "findkey_from ids ps key seen next_id =
     (if seen < in_use ids then
        (case ipcs_idr ids next_id of
           None \<Rightarrow> findkey_from ids ps key seen (next_id + 1)
         | Some p \<Rightarrow>
             (case ps p of
                None \<Rightarrow> Some (Inl KBUG)
              | Some ipc \<Rightarrow>
                  if p_key ipc \<noteq> key then findkey_from ids ps key (seen + 1) (next_id + 1)
                  else Some (Inr (Some p))))
      else Some (Inr None))"

definition ipc_findkey :: "ipc_ids \<Rightarrow> perms \<Rightarrow> int \<Rightarrow> (errno + addr option) option" where
  "ipc_findkey ids ps key = findkey_from ids ps key 0 0"

function maxid_from :: "'h ipc_hdr_scheme \<Rightarrow> ipc_ids \<Rightarrow> nat \<Rightarrow> int \<Rightarrow> int \<Rightarrow> int" where
  "maxid_from K ids xid seen max_id =
     (if xid < IPCMNI K \<and> seen < in_use ids then
        (if ipcs_idr ids xid \<noteq> None then maxid_from K ids (xid + 1) (seen + 1) (int xid)
         else maxid_from K ids (xid + 1) seen max_id)
      else max_id)"
  by pat_completeness auto
termination
  by (relation "measure (\<lambda>(K, ids, xid, _, _). IPCMNI K - xid)") auto

declare maxid_from.simps [simp del]

definition ipc_get_maxid :: "'h ipc_hdr_scheme \<Rightarrow> ipc_ids \<Rightarrow> int" where
  "ipc_get_maxid K ids =
     (if in_use ids = 0 then - 1
      else if in_use ids = int (IPCMNI K) then int (IPCMNI K) - 1
      else maxid_from K ids 0 0 (- 1))"

subsection \<open>Adding and removing entries\<close>

text \<open>
  \<open>ipc_addid\<close> enters the object at address \<open>p\<close>, whose permission part is \<open>new\<close>; it returns the
  index, the table and the permission part, which it changes in place.
\<close>

definition ipc_addid ::
  "'h ipc_hdr_scheme \<Rightarrow> 'e ipc_env_scheme \<Rightarrow> ipc_ids \<Rightarrow> addr \<Rightarrow> kern_ipc_perm \<Rightarrow> int \<Rightarrow>
   (errno + nat) \<times> ipc_ids \<times> kern_ipc_perm" where
  "ipc_addid K E ids p new sz0 =
     (let sz = (if sz0 > int (IPCMNI K) then int (IPCMNI K) else sz0)
      in if in_use ids \<ge> sz then (Inl ENOSPC, ids, new)
         else
           (let new = new\<lparr>p_deleted := False\<rparr>
            in case idr_get_new E (ipcs_idr ids) of
                 Inl err \<Rightarrow> (Inl err, ids, new)
               | Inr xid \<Rightarrow>
                   (let seq = ids_seq ids + 1;
                        new = new\<lparr>p_cuid := current_euid E, p_uid := current_euid E,
                                  p_gid := current_egid E, p_cgid := current_egid E,
                                  p_seq := uint (ids_seq ids),
                                  p_id := ipc_buildid K (int xid) (uint (ids_seq ids))\<rparr>
                    in (Inr xid,
                        ids\<lparr>in_use := in_use ids + 1, ipcs_idr := (ipcs_idr ids)(xid \<mapsto> p),
                            ids_seq := (if seq > ids_seq_max ids then 0 else seq)\<rparr>,
                        new))))"

definition ipc_rmid :: "'h ipc_hdr_scheme \<Rightarrow> ipc_ids \<Rightarrow> kern_ipc_perm \<Rightarrow> ipc_ids \<times> kern_ipc_perm" where
  "ipc_rmid K ids ipcp =
     (let lid = ipcid_to_idx K (p_id ipcp)
      in (ids\<lparr>ipcs_idr := (ipcs_idr ids)(nat lid := None), in_use := in_use ids - 1\<rparr>,
          ipcp\<lparr>p_deleted := True\<rparr>))"

subsection \<open>Permissions\<close>

text \<open>\<open>None\<close> is the return value 0, \<open>Some EPERM\<close> is -1.\<close>

definition ipcperms :: "'e ipc_env_scheme \<Rightarrow> kern_ipc_perm \<Rightarrow> 16 word \<Rightarrow> errno option" where
  "ipcperms E ipcp flag =
     (let euid = current_euid E;
          f = (scast flag :: 32 word);
          requested_mode = signed_drop_bit 6 f OR signed_drop_bit 3 f OR f;
          granted_mode =
            (if euid = p_cuid ipcp \<or> euid = p_uid ipcp then signed_drop_bit 6 (p_mode ipcp)
             else if in_group_p E (p_cgid ipcp) \<or> in_group_p E (p_gid ipcp)
                  then signed_drop_bit 3 (p_mode ipcp)
             else p_mode ipcp)
      in if requested_mode AND NOT granted_mode AND 7 \<noteq> 0 \<and> \<not> ns_capable E CAP_IPC_OWNER
         then Some EPERM
         else security_ipc_permission E ipcp flag)"

definition kernel_to_ipc64_perm :: "kern_ipc_perm \<Rightarrow> ipc64_perm" where
  "kernel_to_ipc64_perm q =
     \<lparr>i_key = p_key q, i_uid = p_uid q, i_gid = p_gid q, i_cuid = p_cuid q, i_cgid = p_cgid q,
      i_mode = p_mode q, i_seq = p_seq q\<rparr>"

definition ipc64_perm_to_ipc_perm :: "'h ipc_hdr_scheme \<Rightarrow> ipc64_perm \<Rightarrow> ipc_perm_old" where
  "ipc64_perm_to_ipc_perm K q =
     \<lparr>o_key = i_key q, o_uid = high2lowuid K (i_uid q), o_gid = high2lowgid K (i_gid q),
      o_cuid = high2lowuid K (i_cuid q), o_cgid = high2lowgid K (i_cgid q),
      o_mode = i_mode q, o_seq = i_seq q\<rparr>"

definition ipc_update_perm :: "'h ipc_hdr_scheme \<Rightarrow> ipc64_perm \<Rightarrow> kern_ipc_perm \<Rightarrow> kern_ipc_perm" where
  "ipc_update_perm K inp out =
     out\<lparr>p_uid := i_uid inp, p_gid := i_gid inp,
         p_mode := (p_mode out AND NOT (S_IRWXUGO K)) OR (i_mode inp AND S_IRWXUGO K)\<rparr>"

subsection \<open>Looking an identifier up\<close>

definition ipc_lock :: "'h ipc_hdr_scheme \<Rightarrow> ipc_ids \<Rightarrow> perms \<Rightarrow> int \<Rightarrow> errno + addr" where
  "ipc_lock K ids ps xid =
     (case idr_find (ipcs_idr ids) (ipcid_to_idx K xid) of
        None \<Rightarrow> Inl EINVAL
      | Some out \<Rightarrow>
          (case ps out of
             None \<Rightarrow> Inl KBUG
           | Some q \<Rightarrow> if p_deleted q then Inl EINVAL else Inr out))"

definition ipc_lock_check :: "'h ipc_hdr_scheme \<Rightarrow> ipc_ids \<Rightarrow> perms \<Rightarrow> int \<Rightarrow> errno + addr" where
  "ipc_lock_check K ids ps xid =
     (case ipc_lock K ids ps xid of
        Inl err \<Rightarrow> Inl err
      | Inr out \<Rightarrow>
          (case ps out of
             None \<Rightarrow> Inl KBUG
           | Some q \<Rightarrow> if ipc_checkid K q xid then Inl EIDRM else Inr out))"

definition ipcctl_pre_down ::
  "'h ipc_hdr_scheme \<Rightarrow> 'e ipc_env_scheme \<Rightarrow> ipc_ids \<Rightarrow> perms \<Rightarrow> int \<Rightarrow> errno + addr" where
  "ipcctl_pre_down K E ids ps xid =
     (case ipc_lock_check K ids ps xid of
        Inl err \<Rightarrow> Inl err
      | Inr p \<Rightarrow>
          (case ps p of
             None \<Rightarrow> Inl KBUG
           | Some ipcp \<Rightarrow>
               if current_euid E = p_cuid ipcp \<or> current_euid E = p_uid ipcp \<or>
                  ns_capable E CAP_SYS_ADMIN
               then Inr p else Inl EPERM))"

definition ipc_parse_version :: "'h ipc_hdr_scheme \<Rightarrow> flags \<Rightarrow> ipc_version \<times> flags" where
  "ipc_parse_version K cmd =
     (if cmd AND IPC_64_bit K \<noteq> 0 then (IPC_64, cmd XOR IPC_64_bit K) else (IPC_OLD, cmd))"

text \<open>
  The permission part that the creators of objects fill in before \<^verbatim>\<open>ipc_addid\<close> sets the rest; the
  memory of a semaphore array is cleared first, that of the other objects is not initialised.
\<close>

definition new_perm :: "int \<Rightarrow> flags \<Rightarrow> kern_ipc_perm" where
  "new_perm key mode =
     \<lparr>p_deleted = False, p_id = 0, p_key = key, p_uid = 0, p_gid = 0, p_cuid = 0, p_cgid = 0,
      p_mode = mode, p_seq = 0\<rparr>"

subsection \<open>The common part of the get system calls\<close>

text \<open>
  The operations of \<^verbatim>\<open>struct ipc_ops\<close> on a namespace of type \<open>'n\<close>; \<open>ns_ids\<close> and \<open>ns_perms\<close> read
  the identifier set the call works on and the permission parts of its objects.
\<close>

record ('n, 'e) ipc_ops =
  ns_ids :: "'n \<Rightarrow> ipc_ids"
  ns_perms :: "'n \<Rightarrow> perms"
  getnew :: "'e \<Rightarrow> ipc_params \<Rightarrow> 'n \<Rightarrow> (errno + int) \<times> 'n"
  associate :: "'e \<Rightarrow> addr \<Rightarrow> flags \<Rightarrow> 'n \<Rightarrow> errno option"
  more_checks :: "'e \<Rightarrow> addr \<Rightarrow> ipc_params \<Rightarrow> 'n \<Rightarrow> errno option"

text \<open>
  The two retry loops run once for each environment of a list; the list running out is \<open>None\<close>.
\<close>

fun ipcget_new ::
  "('n, 'e ipc_env_scheme) ipc_ops \<Rightarrow> ipc_params \<Rightarrow> 'e ipc_env_scheme list \<Rightarrow> 'n \<Rightarrow>
   ((errno + int) \<times> 'n) option" where
  "ipcget_new ops params [] ns = None"
| "ipcget_new ops params (E # Es) ns =
     (if \<not> idr_pre_get E then Some (Inl ENOMEM, ns)
      else
        (case getnew ops E params ns of
           (err, ns') \<Rightarrow>
             if err = Inl EAGAIN then ipcget_new ops params Es ns' else Some (err, ns')))"

definition ipc_check_perms ::
  "('n, 'e ipc_env_scheme) ipc_ops \<Rightarrow> ipc_params \<Rightarrow> 'e ipc_env_scheme \<Rightarrow> addr \<Rightarrow> kern_ipc_perm \<Rightarrow> 'n \<Rightarrow>
   errno + int" where
  "ipc_check_perms ops params E p ipcp ns =
     (if ipcperms E ipcp (ucast (par_flg params)) \<noteq> None then Inl EACCES
      else (case associate ops E p (par_flg params) ns of
              Some err \<Rightarrow> Inl err
            | None \<Rightarrow> Inr (p_id ipcp)))"

definition ipcget_public_once ::
  "'h ipc_hdr_scheme \<Rightarrow> ('n, 'e ipc_env_scheme) ipc_ops \<Rightarrow> ipc_params \<Rightarrow> 'e ipc_env_scheme \<Rightarrow> 'n \<Rightarrow>
   ((errno + int) \<times> 'n) option" where
  "ipcget_public_once K ops params E ns =
     (case ipc_findkey (ns_ids ops ns) (ns_perms ops ns) (par_key params) of
        None \<Rightarrow> None
      | Some (Inl err) \<Rightarrow> Some (Inl err, ns)
      | Some (Inr None) \<Rightarrow>
          if par_flg params AND IPC_CREAT K = 0 then Some (Inl ENOENT, ns)
          else if \<not> idr_pre_get E then Some (Inl ENOMEM, ns)
          else Some (getnew ops E params ns)
      | Some (Inr (Some p)) \<Rightarrow>
          if par_flg params AND IPC_CREAT K \<noteq> 0 \<and> par_flg params AND IPC_EXCL K \<noteq> 0
          then Some (Inl EEXIST, ns)
          else
            (case more_checks ops E p params ns of
               Some err \<Rightarrow> Some (Inl err, ns)
             | None \<Rightarrow>
                 (case ns_perms ops ns p of
                    None \<Rightarrow> Some (Inl KBUG, ns)
                  | Some ipcp \<Rightarrow> Some (ipc_check_perms ops params E p ipcp ns, ns))))"

fun ipcget_public ::
  "'h ipc_hdr_scheme \<Rightarrow> ('n, 'e ipc_env_scheme) ipc_ops \<Rightarrow> ipc_params \<Rightarrow> 'e ipc_env_scheme list \<Rightarrow> 'n \<Rightarrow>
   ((errno + int) \<times> 'n) option" where
  "ipcget_public K ops params [] ns = None"
| "ipcget_public K ops params (E # Es) ns =
     (case ipcget_public_once K ops params E ns of
        None \<Rightarrow> None
      | Some (err, ns') \<Rightarrow>
          if err = Inl EAGAIN then ipcget_public K ops params Es ns' else Some (err, ns'))"

definition IPC_PRIVATE :: int where
  "IPC_PRIVATE = 0"

definition ipcget ::
  "'h ipc_hdr_scheme \<Rightarrow> ('n, 'e ipc_env_scheme) ipc_ops \<Rightarrow> ipc_params \<Rightarrow> 'e ipc_env_scheme list \<Rightarrow> 'n \<Rightarrow>
   ((errno + int) \<times> 'n) option" where
  "ipcget K ops params Es ns =
     (if par_key params = IPC_PRIVATE then ipcget_new ops params Es ns
      else ipcget_public K ops params Es ns)"

subsection \<open>Iteration for \<^verbatim>\<open>/proc/sysvipc\<close>\<close>

function count_below :: "ipc_ids \<Rightarrow> int \<Rightarrow> nat \<Rightarrow> int \<Rightarrow> int" where
  "count_below ids pos xid seen =
     (if int xid < pos \<and> seen < in_use ids then
        count_below ids pos (xid + 1) (if ipcs_idr ids xid \<noteq> None then seen + 1 else seen)
      else seen)"
  by pat_completeness auto
termination
  by (relation "measure (\<lambda>(ids, pos, xid, seen). nat (pos - int xid))") auto

declare count_below.simps [simp del]

function next_entry :: "'h ipc_hdr_scheme \<Rightarrow> ipc_ids \<Rightarrow> nat \<Rightarrow> (addr \<times> int) option" where
  "next_entry K ids pos =
     (if pos < IPCMNI K then
        (case ipcs_idr ids pos of
           None \<Rightarrow> next_entry K ids (pos + 1)
         | Some p \<Rightarrow> Some (p, int pos + 1))
      else None)"
  by pat_completeness auto
termination
  by (relation "measure (\<lambda>(K, ids, pos). IPCMNI K - pos)") auto

declare next_entry.simps [simp del]

text \<open>The object found and the new position; \<open>None\<close> leaves the position as it is.\<close>

definition sysvipc_find_ipc :: "'h ipc_hdr_scheme \<Rightarrow> ipc_ids \<Rightarrow> nat \<Rightarrow> (addr \<times> int) option" where
  "sysvipc_find_ipc K ids pos =
     (if count_below ids (int pos) 0 0 \<ge> in_use ids then None else next_entry K ids pos)"

datatype seq_iter = SEQ_NULL | SEQ_START_TOKEN | SEQ_ipc addr

definition found_iter :: "(addr \<times> int) option \<Rightarrow> int \<Rightarrow> seq_iter \<times> int" where
  "found_iter r pos = (case r of None \<Rightarrow> (SEQ_NULL, pos) | Some (p, new_pos) \<Rightarrow> (SEQ_ipc p, new_pos))"

text \<open>\<^verbatim>\<open>seq_file\<close> only calls \<^verbatim>\<open>next\<close> with the position \<^verbatim>\<open>start\<close> or \<^verbatim>\<open>next\<close> left, which is not negative.\<close>

definition sysvipc_proc_next :: "'h ipc_hdr_scheme \<Rightarrow> ipc_ids \<Rightarrow> int \<Rightarrow> seq_iter \<times> int" where
  "sysvipc_proc_next K ids pos = found_iter (sysvipc_find_ipc K ids (nat pos)) pos"

definition sysvipc_proc_start :: "'h ipc_hdr_scheme \<Rightarrow> ipc_ids \<Rightarrow> int \<Rightarrow> seq_iter \<times> int" where
  "sysvipc_proc_start K ids pos =
     (if pos < 0 then (SEQ_NULL, pos)
      else if pos = 0 then (SEQ_START_TOKEN, pos)
      else found_iter (sysvipc_find_ipc K ids (nat (pos - 1))) pos)"

definition sysvipc_proc_show ::
  "'out \<Rightarrow> (addr \<Rightarrow> 'out) \<Rightarrow> seq_iter \<Rightarrow> 'out option" where
  "sysvipc_proc_show header show_entry it =
     (case it of
        SEQ_START_TOKEN \<Rightarrow> Some header
      | SEQ_ipc p \<Rightarrow> Some (show_entry p)
      | SEQ_NULL \<Rightarrow> None)"

subsection \<open>What the code relies on\<close>

text \<open>
  \<open>ipc_hdr_ok\<close>: \<^verbatim>\<open>IPCMNI\<close> is a power of two below \<^verbatim>\<open>INT_MAX\<close> (32768 in the kernel's headers).
  \<open>idr_ok\<close>: \<^verbatim>\<open>idr_get_new\<close> hands out the first free index, as the comment of \<^verbatim>\<open>ipc_addid\<close> says.
\<close>

definition ipc_hdr_ok :: "'h ipc_hdr_scheme \<Rightarrow> bool" where
  "ipc_hdr_ok K \<longleftrightarrow> 0 < IPCMNI K \<and> SEQ_MULTIPLIER K dvd 2147483648"

definition idr_ok :: "'e ipc_env_scheme \<Rightarrow> bool" where
  "idr_ok E \<longleftrightarrow> (\<forall>m i. idr_get_new E m = Inr i \<longrightarrow> m i = None \<and> (\<forall>j<i. m j \<noteq> None))"

fun first_free :: "nat \<Rightarrow> nat \<Rightarrow> (nat \<rightharpoonup> addr) \<Rightarrow> errno + nat" where
  "first_free 0 i m = Inl ENOSPC"
| "first_free (Suc n) i m = (if m i = None then Inr i else first_free n (i + 1) m)"

lemma first_free_Inr:
  "first_free n i m = Inr k \<Longrightarrow> m k = None \<and> (\<forall>j. i \<le> j \<longrightarrow> j < k \<longrightarrow> m j \<noteq> None)"
proof (induction n i m rule: first_free.induct)
  case (2 n i m)
  then show ?case
    by (metis Inr_inject Suc_eq_plus1 first_free.simps(2) le_antisym not_less not_less_eq_eq)
qed simp

lemma idr_ok_first_free: "idr_get_new E = first_free n 0 \<Longrightarrow> idr_ok E"
  using first_free_Inr [of n 0] by (simp add: idr_ok_def)

subsection \<open>The invariant of a table\<close>

definition entry_ok :: "'h ipc_hdr_scheme \<Rightarrow> ipc_ids \<Rightarrow> nat \<Rightarrow> kern_ipc_perm \<Rightarrow> bool" where
  "entry_ok K ids i q \<longleftrightarrow>
     \<not> p_deleted q \<and> i < IPCMNI K \<and> 0 \<le> p_seq q \<and> p_seq q \<le> uint (ids_seq_max ids) \<and>
     p_id q = SEQ_MULTIPLIER K * p_seq q + int i"

definition ids_inv :: "'h ipc_hdr_scheme \<Rightarrow> ipc_ids \<Rightarrow> perms \<Rightarrow> bool" where
  "ids_inv K ids ps \<longleftrightarrow>
     finite (dom (ipcs_idr ids)) \<and>
     in_use ids = int (card (dom (ipcs_idr ids))) \<and>
     (\<forall>i p. ipcs_idr ids i = Some p \<longrightarrow> (\<exists>q. ps p = Some q \<and> entry_ok K ids i q)) \<and>
     (\<forall>p q. ps p = Some q \<longrightarrow> \<not> p_deleted q \<longrightarrow> (\<exists>i. ipcs_idr ids i = Some p)) \<and>
     uint (ids_seq ids) \<le> uint (ids_seq_max ids) \<and>
     SEQ_MULTIPLIER K * (uint (ids_seq_max ids) + 1) \<le> 2147483648"

named_theorems ids_defs

lemmas [ids_defs] = ids_inv_def entry_ok_def

lemma div_mod_signed:
  fixes M :: int
  assumes "0 < M" and "0 \<le> s" and "0 \<le> i" and "i < M"
  shows "(M * s + i) sdiv M = s" and "(M * s + i) smod M = i"
proof -
  have nn: "0 \<le> M * s + i" using assms by simp
  have "(M * s + i) div M = s" using assms by simp
  moreover then have "s = 0 \<or> sgn (M * s + i) = 1" using nn by (cases "M * s + i = 0") simp_all
  ultimately show d: "(M * s + i) sdiv M = s"
    using assms nn by (auto simp: signed_divide_int_def)
  show "(M * s + i) smod M = i"
    using mult_sdiv_smod_eq [of M "M * s + i"] by (simp add: d)
qed

lemma signed_div_mod: "x = M * (x sdiv M) + x smod (M :: int)"
  by (simp only: mult_sdiv_smod_eq)

lemma ids_invD:
  assumes "ids_inv K ids ps"
  shows "finite (dom (ipcs_idr ids))"
    and "in_use ids = int (card (dom (ipcs_idr ids)))"
    and "ipcs_idr ids i = Some p \<Longrightarrow> \<exists>q. ps p = Some q \<and> entry_ok K ids i q"
    and "ps p = Some q \<Longrightarrow> \<not> p_deleted q \<Longrightarrow> \<exists>i. ipcs_idr ids i = Some p"
  using assms unfolding ids_inv_def by blast+

lemma ids_inv_live:
  assumes "ids_inv K ids ps" and "ps p = Some q" and "\<not> p_deleted q"
  obtains i where "ipcs_idr ids i = Some p" and "entry_ok K ids i q"
  using ids_invD(3,4) [OF assms(1)] assms(2,3) by fastforce

lemma ids_inv_inj:
  assumes "ids_inv K ids ps" and "ipcs_idr ids i = Some p" and "ipcs_idr ids j = Some p"
  shows "i = j"
  using ids_invD(3) [OF assms(1) assms(2)] ids_invD(3) [OF assms(1) assms(3)] 
  by (auto simp: entry_ok_def)

lemma ids_inv_card_le:
  assumes "ids_inv K ids ps"
  shows "card (dom (ipcs_idr ids)) \<le> IPCMNI K"
proof -
  have "dom (ipcs_idr ids) \<subseteq> {..<IPCMNI K}"
    using ids_invD(3) [OF assms] by (auto simp: entry_ok_def)
  then show ?thesis using card_mono [of "{..<IPCMNI K}"] by fastforce
qed

lemma entry_idx:
  assumes "ipc_hdr_ok K" and "entry_ok K ids i q"
  shows "p_id q sdiv SEQ_MULTIPLIER K = p_seq q" and "ipcid_to_idx K (p_id q) = int i"
proof -
  have M: "0 < SEQ_MULTIPLIER K" "int i < SEQ_MULTIPLIER K"
    using assms by (auto simp: ipc_hdr_ok_def entry_ok_def SEQ_MULTIPLIER_def)
  show "p_id q sdiv SEQ_MULTIPLIER K = p_seq q" and "ipcid_to_idx K (p_id q) = int i"
    using div_mod_signed [OF M(1) _ _ M(2), of "p_seq q"] assms(2)
    by (simp_all add: entry_ok_def ipcid_to_idx_def)
qed

text \<open>The initial table.\<close>

lemma ids_inv_init:
  assumes "ipc_hdr_ok K" and "\<forall>p q. ps p = Some q \<longrightarrow> p_deleted q"
  shows "ids_inv K (ipc_init_ids K) ps"
proof -
  define M where "M = SEQ_MULTIPLIER K"
  have M: "0 < M" "M dvd 2147483648"
    using assms(1) by (auto simp: ipc_hdr_ok_def M_def SEQ_MULTIPLIER_def)
  obtain k where k: "2147483648 = M * k" using M(2) by (elim dvdE)
  have "INT_MAX = M * (k - 1) + (M - 1)"
    using k by (simp add: INT_MAX_def algebra_simps)
  then have lim: "INT_MAX div M = k - 1" using M(1) int_div_pos_eq [of INT_MAX M "k - 1" "M - 1"] by simp
  have k0: "0 < k" using k M(1) zero_less_mult_iff [of M k] by simp
  have u: "uint (word_of_int x :: 16 word) = x" if "0 \<le> x" "x \<le> USHRT_MAX" for x
    using that by (simp add: USHRT_MAX_def uint_word_of_int take_bit_int_eq_self)
  have le: "uint (ids_seq_max (ipc_init_ids K)) \<le> k - 1"
    using u [of USHRT_MAX] u [of "k - 1"] k0
    unfolding ipc_init_ids_def M_def [symmetric] lim Let_def
    by (cases "USHRT_MAX < k - 1") (simp_all add: USHRT_MAX_def)
  have "M * (uint (ids_seq_max (ipc_init_ids K)) + 1) \<le> M * k"
    using le M(1) by simp
  then show ?thesis
    using assms(2) k by (auto simp: ids_inv_def M_def ipc_init_ids_def Let_def)
qed

subsubsection \<open>Adding\<close>

lemma first_free_bound:
  assumes "finite (dom m)" and "\<forall>j<i. m j \<noteq> None"
  shows "i \<le> card (dom m)"
proof -
  have "{..<i} \<subseteq> dom m" using assms(2) by auto
  then show ?thesis using card_mono [OF assms(1), of "{..<i}"] by simp
qed

definition added :: "'h ipc_hdr_scheme \<Rightarrow> 'e ipc_env_scheme \<Rightarrow> ipc_ids \<Rightarrow> nat \<Rightarrow> kern_ipc_perm \<Rightarrow> kern_ipc_perm" where
  "added K E ids i new =
     new\<lparr>p_deleted := False, p_cuid := current_euid E, p_uid := current_euid E,
         p_gid := current_egid E, p_cgid := current_egid E, p_seq := uint (ids_seq ids),
         p_id := ipc_buildid K (int i) (uint (ids_seq ids))\<rparr>"

definition next_seq :: "ipc_ids \<Rightarrow> 16 word" where
  "next_seq ids = (if ids_seq ids + 1 > ids_seq_max ids then 0 else ids_seq ids + 1)"

lemma addid_InrD:
  assumes "ipc_addid K E ids p new sz = (Inr i, ids', new')"
  shows "in_use ids < sz" and "in_use ids < int (IPCMNI K)" and "idr_get_new E (ipcs_idr ids) = Inr i"
    and "ids' = ids\<lparr>in_use := in_use ids + 1, ipcs_idr := (ipcs_idr ids)(i \<mapsto> p), ids_seq := next_seq ids\<rparr>"
    and "new' = added K E ids i new"
  using assms
  by (auto simp: ipc_addid_def Let_def added_def next_seq_def split: if_splits sum.splits)

lemma addid_InlD:
  assumes "ipc_addid K E ids p new sz = (Inl e, ids', new')"
  shows "ids' = ids"
  using assms by (auto simp: ipc_addid_def Let_def split: if_splits sum.splits)

lemma next_seq_le: "uint (next_seq ids) \<le> uint (ids_seq_max ids)"
  by (auto simp: next_seq_def word_less_def word_le_def not_less)

lemma added_entry_ok:
  assumes inv: "ids_inv K ids ps" and lt: "in_use ids < int (IPCMNI K)" and E: "idr_ok E"
    and i: "idr_get_new E (ipcs_idr ids) = Inr i"
  shows "ipcs_idr ids i = None" and "entry_ok K ids i (added K E ids i new)"
proof -
  show free: "ipcs_idr ids i = None" using E i by (simp add: idr_ok_def)
  have "i \<le> card (dom (ipcs_idr ids))"
    by (rule first_free_bound [OF ids_invD(1) [OF inv]]) (use E i in \<open>simp add: idr_ok_def\<close>)
  then have lt: "i < IPCMNI K" using lt ids_invD(2) [OF inv] by simp
  define M where "M = SEQ_MULTIPLIER K"
  define s where "s = uint (ids_seq ids)"
  have s: "0 \<le> s" "s \<le> uint (ids_seq_max ids)" "M * (uint (ids_seq_max ids) + 1) \<le> 2147483648"
    using inv by (simp_all add: ids_inv_def s_def M_def)
  have M: "int i < M" using lt by (simp add: M_def SEQ_MULTIPLIER_def)
  have "M * (s + 1) \<le> M * (uint (ids_seq_max ids) + 1)" using s M by simp
  then have "M * s + int i < 2147483648" using s(3) M unfolding distrib_left by linarith
  moreover have "0 \<le> M * s" using s(1) M by simp
  ultimately have "ipc_buildid K (int i) s = M * s + int i"
    unfolding ipc_buildid_def M_def by (intro c_int_id) linarith+
  then show "entry_ok K ids i (added K E ids i new)"
    using lt s by (simp add: entry_ok_def added_def s_def M_def)
qed

lemma addid_inv:
  assumes inv: "ids_inv K ids ps" and E: "idr_ok E" and fresh: "ps p = None"
    and add: "ipc_addid K E ids p new sz = (Inr i, ids', new')"
  shows "ids_inv K ids' (ps(p \<mapsto> new'))" and "entry_ok K ids' i new'" and "ipcs_idr ids' i = Some p"
proof -
  note A = addid_InrD [OF add]
  note B = added_entry_ok [OF inv A(2) E A(3)]
  have nop: "ipcs_idr ids j \<noteq> Some p" for j
    using ids_invD(3) [OF inv] fresh by fastforce
  have ent: "entry_ok K ids' j q \<longleftrightarrow> entry_ok K ids j q" for j q
    by (simp add: entry_ok_def A(4))
  show e: "entry_ok K ids' i new'" and "ipcs_idr ids' i = Some p"
    using B(2) [of new] A(5) ent by (simp_all add: A(4))
  have card: "in_use ids' = int (card (dom (ipcs_idr ids')))"
    using card_dom_new [OF ids_invD(1) [OF inv] B(1)] ids_invD(2) [OF inv] by (simp add: A(4))
  have "\<exists>q. (ps(p \<mapsto> new')) r = Some q \<and> entry_ok K ids' j q" if "ipcs_idr ids' j = Some r" for j r
  proof (cases "j = i")
    case True then show ?thesis using that e by (simp add: A(4))
  next
    case False
    then have "ipcs_idr ids j = Some r" using that by (simp add: A(4))
    then show ?thesis using ids_invD(3) [OF inv] nop ent by fastforce
  qed
  moreover have "\<exists>j. ipcs_idr ids' j = Some r" if live: "(ps(p \<mapsto> new')) r = Some q" "\<not> p_deleted q" for r q
  proof (cases "r = p")
    case False
    then obtain j where "ipcs_idr ids j = Some r" using ids_invD(4) [OF inv, of r q] live by auto
    moreover then have "j \<noteq> i" using B(1) by auto
    ultimately show ?thesis by (auto simp: A(4) intro: exI [of _ j])
  qed (auto simp: A(4))
  ultimately show "ids_inv K ids' (ps(p \<mapsto> new'))"
    using inv card next_seq_le [of ids] unfolding ids_inv_def by (simp add: A(4))
qed

lemma addid_no_bug: "ipc_addid K E ids p new sz = (Inl e, ids', new') \<Longrightarrow> e = ENOSPC \<or> idr_get_new E (ipcs_idr ids) = Inl e"
  by (auto simp: ipc_addid_def Let_def split: if_splits sum.splits)

subsubsection \<open>Removing and updating\<close>

lemma rmid_inv:
  assumes K: "ipc_hdr_ok K" and inv: "ids_inv K ids ps"
    and q: "ps p = Some q" "\<not> p_deleted q" and rm: "ipc_rmid K ids q = (ids', q')"
  shows "ids_inv K ids' (ps(p \<mapsto> q'))" and "p_deleted q'" and "p \<notin> ran (ipcs_idr ids')"
proof -
  obtain i where i: "ipcs_idr ids i = Some p" "entry_ok K ids i q" by (rule ids_inv_live [OF inv q])
  have R: "ids' = ids\<lparr>ipcs_idr := (ipcs_idr ids)(i := None), in_use := in_use ids - 1\<rparr>"
    "q' = q\<lparr>p_deleted := True\<rparr>"
    using rm entry_idx(2) [OF K i(2)] by (simp_all add: ipc_rmid_def Let_def)
  show "p_deleted q'" by (simp add: R)
  show nop: "p \<notin> ran (ipcs_idr ids')"
    using ids_inv_inj [OF inv _ i(1)] by (auto simp: R ran_def split: if_splits)
  have ent: "entry_ok K ids' j r \<longleftrightarrow> entry_ok K ids j r" for j r by (simp add: entry_ok_def R)
  have "in_use ids' = int (card (dom (ipcs_idr ids')))"
    using card_dom_delete [OF ids_invD(1) [OF inv] i(1)] ids_invD(2) [OF inv]
    by (simp add: R of_nat_diff)
  moreover have "\<exists>u. (ps(p \<mapsto> q')) r = Some u \<and> entry_ok K ids' j u" if "ipcs_idr ids' j = Some r" for j r
  proof -
    have "r \<noteq> p" using that nop by (auto simp: ran_def)
    moreover have "ipcs_idr ids j = Some r" using that by (auto simp: R split: if_splits)
    ultimately show ?thesis using ids_invD(3) [OF inv] ent by fastforce
  qed
  moreover have "\<exists>j. ipcs_idr ids' j = Some r" if live: "(ps(p \<mapsto> q')) r = Some u" "\<not> p_deleted u" for r u
  proof -
    have "r \<noteq> p" using live by (auto simp: R)
    then obtain j where "ipcs_idr ids j = Some r" using ids_invD(4) [OF inv, of r u] live by auto
    moreover then have "j \<noteq> i" using i(1) \<open>r \<noteq> p\<close> by auto
    ultimately show ?thesis by (auto simp: R intro: exI [of _ j])
  qed
  ultimately show "ids_inv K ids' (ps(p \<mapsto> q'))"
    using inv unfolding ids_inv_def by (simp add: R)
qed

lemma ids_inv_drop:
  assumes inv: "ids_inv K ids ps" and "\<And>q. ps p = Some q \<Longrightarrow> p_deleted q"
  shows "ids_inv K ids (ps(p := None))"
proof -
  have "ipcs_idr ids i \<noteq> Some p" for i
    using ids_invD(3) [OF inv] assms(2) by (fastforce simp: entry_ok_def)
  then show ?thesis
    using inv unfolding ids_inv_def by (auto; metis)
qed

lemma ids_inv_upd:
  assumes inv: "ids_inv K ids ps" and "ps p = Some q"
    and "p_deleted q' = p_deleted q" "p_id q' = p_id q" "p_seq q' = p_seq q"
  shows "ids_inv K ids (ps(p \<mapsto> q'))"
proof -
  have e: "entry_ok K ids i q' = entry_ok K ids i q" for i by (simp add: entry_ok_def assms(3-5))
  have "\<exists>u. (ps(p \<mapsto> q')) r = Some u \<and> entry_ok K ids i u" if "ipcs_idr ids i = Some r" for i r
    using ids_invD(3) [OF inv that] assms(2) e by (cases "r = p") auto
  moreover have "\<exists>i. ipcs_idr ids i = Some r" if "(ps(p \<mapsto> q')) r = Some u" "\<not> p_deleted u" for r u
    using ids_invD(4) [OF inv, of r] that assms(2,3) by (cases "r = p") auto
  ultimately show ?thesis using inv unfolding ids_inv_def by simp
qed

subsubsection \<open>Looking up\<close>

text \<open>An identifier resolves to the one object that is in the table under it.\<close>

lemma lock_check_iff:
  assumes K: "ipc_hdr_ok K" and inv: "ids_inv K ids ps"
  shows "ipc_lock_check K ids ps x = Inr p \<longleftrightarrow> (\<exists>q. ps p = Some q \<and> \<not> p_deleted q \<and> p_id q = x)"
proof
  assume L: "ipc_lock_check K ids ps x = Inr p"
  then obtain q where q: "ps p = Some q" "\<not> p_deleted q" "x sdiv SEQ_MULTIPLIER K = p_seq q"
    and f: "idr_find (ipcs_idr ids) (ipcid_to_idx K x) = Some p"
    by (auto simp: ipc_lock_check_def ipc_lock_def ipc_checkid_def split: option.splits if_splits)
  from f have nn: "0 \<le> ipcid_to_idx K x" and i: "ipcs_idr ids (nat (ipcid_to_idx K x)) = Some p"
    by (auto simp: idr_find_def split: if_splits)
  have "entry_ok K ids (nat (ipcid_to_idx K x)) q" using ids_invD(3) [OF inv i] q by auto
  then have "p_id q = x"
    using nn q(3) signed_div_mod [of x "SEQ_MULTIPLIER K"] by (simp add: entry_ok_def ipcid_to_idx_def)
  then show "\<exists>q. ps p = Some q \<and> \<not> p_deleted q \<and> p_id q = x" using q by blast
next
  assume "\<exists>q. ps p = Some q \<and> \<not> p_deleted q \<and> p_id q = x"
  then obtain q where q: "ps p = Some q" "\<not> p_deleted q" "p_id q = x" by blast
  obtain i where i: "ipcs_idr ids i = Some p" "entry_ok K ids i q"
    by (rule ids_inv_live [OF inv q(1,2)])
  show "ipc_lock_check K ids ps x = Inr p"
    using i q entry_idx [OF K i(2)]
    by (simp add: ipc_lock_check_def ipc_lock_def ipc_checkid_def idr_find_def)
qed

lemma lock_check_Inl:
  assumes inv: "ids_inv K ids ps" and "ipc_lock_check K ids ps x = Inl e"
  shows "e = EINVAL \<or> e = EIDRM"
  using assms(2) ids_invD(3) [OF inv]
  by (fastforce simp: ipc_lock_check_def ipc_lock_def idr_find_def split: option.splits if_splits)

lemma lock_Inr:
  assumes inv: "ids_inv K ids ps" and "ipc_lock K ids ps x = Inr p"
  obtains q where "ps p = Some q" and "\<not> p_deleted q"
  using assms(2) by (auto simp: ipc_lock_def split: option.splits if_splits)

lemma lock_Inl:
  assumes inv: "ids_inv K ids ps" and "ipc_lock K ids ps x = Inl e"
  shows "e = EINVAL"
  using assms(2) ids_invD(3) [OF inv]
  by (fastforce simp: ipc_lock_def idr_find_def split: option.splits if_splits)

lemma pre_down_Inr:
  assumes "ipc_hdr_ok K" and "ids_inv K ids ps" and "ipcctl_pre_down K E ids ps x = Inr p"
  obtains q where "ps p = Some q" and "\<not> p_deleted q" and "p_id q = x"
  using assms(3) lock_check_iff [OF assms(1,2)]
  by (auto simp: ipcctl_pre_down_def split: sum.splits option.splits if_splits)

lemma pre_down_Inl:
  assumes "ipc_hdr_ok K" and "ids_inv K ids ps" and "ipcctl_pre_down K E ids ps x = Inl e"
  shows "e \<in> {EINVAL, EIDRM, EPERM}"
  using assms(3) lock_check_iff [OF assms(1,2)] lock_check_Inl [OF assms(2)]
  by (fastforce simp: ipcctl_pre_down_def split: sum.splits option.splits if_splits)

subsection \<open>The scanning loops\<close>

text \<open>All loops over a table count the entries they have passed.\<close>

definition used_below :: "(nat \<rightharpoonup> 'a) \<Rightarrow> nat \<Rightarrow> nat" where
  "used_below m n = card {j \<in> dom m. j < n}"

lemma used_below_0 [simp]: "used_below m 0 = 0"
  by (simp add: used_below_def)

lemma used_below_Suc: "used_below m (Suc n) = used_below m n + (if m n = None then 0 else 1)"
proof (cases "m n")
  case None
  then have "{j \<in> dom m. j < Suc n} = {j \<in> dom m. j < n}"
    by (auto simp: less_Suc_eq)
  then show ?thesis using None by (simp add: used_below_def)
next
  case (Some a)
  then have "{j \<in> dom m. j < Suc n} = insert n {j \<in> dom m. j < n}"
    by (auto simp: less_Suc_eq)
  then show ?thesis using Some by (simp add: used_below_def)
qed

lemma used_below_all:
  assumes "finite (dom m)"
  shows "card (dom m) \<le> used_below m n \<longleftrightarrow> (\<forall>j\<in>dom m. j < n)"
proof
  assume le: "card (dom m) \<le> used_below m n"
  have "{j \<in> dom m. j < n} = dom m"
    by (rule card_seteq [OF assms]) (use le in \<open>auto simp: used_below_def\<close>)
  then show "\<forall>j\<in>dom m. j < n" by blast
next
  assume "\<forall>j\<in>dom m. j < n"
  then have "{j \<in> dom m. j < n} = dom m" by blast
  then show "card (dom m) \<le> used_below m n" by (simp add: used_below_def)
qed

lemma scan_continues:
  assumes inv: "ids_inv K ids ps" and lt: "int (used_below (ipcs_idr ids) n) < in_use ids"
  shows "n < IPCMNI K"
proof -
  have "\<not> (\<forall>j\<in>dom (ipcs_idr ids). j < n)"
    using used_below_all [OF ids_invD(1) [OF inv], of n] lt ids_invD(2) [OF inv] by linarith
  then obtain j p where "ipcs_idr ids j = Some p" "n \<le> j" by (auto simp: not_less)
  then show ?thesis using ids_invD(3) [OF inv] by (fastforce simp: entry_ok_def)
qed

lemma scan_stops:
  assumes inv: "ids_inv K ids ps" and "\<not> int (used_below (ipcs_idr ids) n) < in_use ids"
    and "ipcs_idr ids i = Some p"
  shows "i < n"
  using used_below_all [OF ids_invD(1) [OF inv], of n] assms(2,3) ids_invD(2) [OF inv] by auto

text \<open>A key that no live object has, and the search for it.\<close>

definition key_free :: "perms \<Rightarrow> int \<Rightarrow> bool" where
  "key_free ps key \<longleftrightarrow> (\<forall>p q. ps p = Some q \<longrightarrow> \<not> p_deleted q \<longrightarrow> p_key q \<noteq> key)"

lemma findkey_from_spec:
  assumes inv: "ids_inv K ids ps"
    and "\<And>j p q. j < n \<Longrightarrow> ipcs_idr ids j = Some p \<Longrightarrow> ps p = Some q \<Longrightarrow> p_key q \<noteq> key"
  shows "(findkey_from ids ps key (int (used_below (ipcs_idr ids) n)) n = Some (Inr None) \<and> key_free ps key) \<or>
     (\<exists>p q. findkey_from ids ps key (int (used_below (ipcs_idr ids) n)) n = Some (Inr (Some p)) \<and>
            ps p = Some q \<and> \<not> p_deleted q \<and> p_key q = key)"
  using assms(2)
proof (induction "IPCMNI K - n" arbitrary: n rule: less_induct)
  case less
  let ?seen = "int (used_below (ipcs_idr ids) n)"
  show ?case
  proof (cases "?seen < in_use ids")
    case False
    have "p_key q \<noteq> key" if live: "ps p = Some q" "\<not> p_deleted q" for p q
    proof -
      obtain i where "ipcs_idr ids i = Some p" by (rule ids_inv_live [OF inv live])
      then show ?thesis using scan_stops [OF inv False] less.prems live by blast
    qed
    then show ?thesis using False by (subst findkey_from.simps) (auto simp: key_free_def)
  next
    case True
    have n: "n < IPCMNI K" by (rule scan_continues [OF inv True])
    note IH = less.hyps [of "Suc n"]
    show ?thesis
    proof (cases "ipcs_idr ids n")
      case None
      have "j < Suc n \<Longrightarrow> ipcs_idr ids j = Some p \<Longrightarrow> ps p = Some q \<Longrightarrow> p_key q \<noteq> key" for j p q
        using less.prems [of j p q] None by (cases "j = n") auto
      then show ?thesis
        using IH n True None findkey_from.simps [of ids ps key ?seen n] by (simp add: used_below_Suc)
    next
      case (Some p)
      then obtain q where q: "ps p = Some q" "entry_ok K ids n q" using ids_invD(3) [OF inv] by blast
      show ?thesis
      proof (cases "p_key q = key")
        case True
        then show ?thesis
          using \<open>?seen < in_use ids\<close> Some q findkey_from.simps [of ids ps key ?seen n]
          by (auto simp: entry_ok_def)
      next
        case False
        have "j < Suc n \<Longrightarrow> ipcs_idr ids j = Some r \<Longrightarrow> ps r = Some u \<Longrightarrow> p_key u \<noteq> key" for j r u
          using less.prems [of j r u] Some False q by (cases "j = n") auto
        then show ?thesis
          using IH n True Some q False findkey_from.simps [of ids ps key ?seen n]
          by (simp add: used_below_Suc add.commute)
      qed
    qed
  qed
qed

lemma findkey_cases:
  assumes "ids_inv K ids ps"
  obtains (none) "ipc_findkey ids ps key = Some (Inr None)" "key_free ps key"
  | (found) p q where "ipc_findkey ids ps key = Some (Inr (Some p))" "ps p = Some q"
      "\<not> p_deleted q" "p_key q = key"
  using findkey_from_spec [OF assms, of 0 key] by (auto simp: ipc_findkey_def)

lemma maxid_from_spec:
  assumes inv: "ids_inv K ids ps"
    and mx: "mx = (if used_below (ipcs_idr ids) n = 0 then - 1 else int (Max {j \<in> dom (ipcs_idr ids). j < n}))"
  shows "maxid_from K ids n (int (used_below (ipcs_idr ids) n)) mx =
     (if dom (ipcs_idr ids) = {} then - 1 else int (Max (dom (ipcs_idr ids))))"
  using mx
proof (induction "IPCMNI K - n" arbitrary: n mx rule: less_induct)
  case less
  let ?m = "ipcs_idr ids"
  let ?seen = "int (used_below ?m n)"
  have fin: "finite (dom ?m)" by (rule ids_invD(1) [OF inv])
  show ?case
  proof (cases "?seen < in_use ids")
    case False
    then have "{j \<in> dom ?m. j < n} = dom ?m" using scan_stops [OF inv False] by auto
    then show ?thesis
      using False less.prems fin by (simp add: used_below_def maxid_from.simps)
  next
    case True
    have n: "n < IPCMNI K" by (rule scan_continues [OF inv True])
    have "{j \<in> dom ?m. j < Suc n} = (if ?m n = None then {j \<in> dom ?m. j < n} else insert n {j \<in> dom ?m. j < n})"
      by (auto simp: less_Suc_eq)
    moreover have "Max (insert n {j \<in> dom ?m. j < n}) = n"
      using fin by (intro Max_eqI) auto
    ultimately show ?thesis
      using less.hyps [of "Suc n" "if ?m n = None then mx else int n"] less.prems n True
      by (subst maxid_from.simps) (auto simp: used_below_Suc add.commute)
  qed
qed

lemma count_below_spec:
  assumes inv: "ids_inv K ids ps" and "id0 \<le> pos"
  shows "count_below ids (int pos) id0 (int (used_below (ipcs_idr ids) id0)) \<ge> in_use ids \<longleftrightarrow>
     (\<forall>i\<in>dom (ipcs_idr ids). i < pos)"
  using assms(2)
proof (induction "pos - id0" arbitrary: id0 rule: less_induct)
  case less
  let ?m = "ipcs_idr ids"
  let ?seen = "int (used_below ?m id0)"
  consider (step) "id0 < pos" "?seen < in_use ids" | (full) "\<not> ?seen < in_use ids" | (fin) "id0 = pos"
    using less.prems by linarith
  then show ?case
  proof cases
    case step
    then show ?thesis
      using less.hyps [of "Suc id0"]
      by (subst count_below.simps) (cases "?m id0"; simp add: used_below_Suc add.commute)
  next
    case full
    then show ?thesis
      using scan_stops [OF inv full] less.prems by (subst count_below.simps) fastforce
  next
    case fin
    then show ?thesis
      using used_below_all [OF ids_invD(1) [OF inv], of pos] ids_invD(2) [OF inv]
      by (subst count_below.simps) simp
  qed
qed

lemma next_entry_spec:
  assumes "ipcs_idr ids i = Some p" and "i < IPCMNI K" and "pos \<le> i"
    and "\<And>j. pos \<le> j \<Longrightarrow> j < i \<Longrightarrow> ipcs_idr ids j = None"
  shows "next_entry K ids pos = Some (p, int i + 1)"
  using assms(3,4)
proof (induction "i - pos" arbitrary: pos rule: less_induct)
  case less
  show ?case
  proof (cases "pos = i")
    case True
    then show ?thesis using assms(1,2) by (subst next_entry.simps) simp
  next
    case False
    then show ?thesis
      using less.hyps [of "Suc pos"] less.prems assms(2) by (subst next_entry.simps) simp
  qed
qed

lemma find_ipc_None:
  assumes "ids_inv K ids ps" and "\<forall>i\<in>dom (ipcs_idr ids). i < pos"
  shows "sysvipc_find_ipc K ids pos = None"
  using count_below_spec [OF assms(1), of 0 pos] assms(2) by (simp add: sysvipc_find_ipc_def)

lemma find_ipc_Some:
  assumes inv: "ids_inv K ids ps" and i: "ipcs_idr ids i = Some p" "pos \<le> i"
    and "\<And>j. pos \<le> j \<Longrightarrow> j < i \<Longrightarrow> ipcs_idr ids j = None"
  shows "sysvipc_find_ipc K ids pos = Some (p, int i + 1)"
proof -
  have "i < IPCMNI K" using ids_invD(3) [OF inv i(1)] by (auto simp: entry_ok_def)
  then have "next_entry K ids pos = Some (p, int i + 1)" using next_entry_spec assms(2-4) by blast
  moreover have "\<not> (\<forall>i\<in>dom (ipcs_idr ids). i < pos)" using i by (auto simp: not_less)
  ultimately show ?thesis
    using count_below_spec [OF inv, of 0 pos] by (simp add: sysvipc_find_ipc_def)
qed

subsection \<open>The contract of the objects behind a get call\<close>

text \<open>
  What \<^verbatim>\<open>ipcget\<close> relies on of the routines in its \<^verbatim>\<open>ipc_ops\<close>. \<open>inv\<close> is the invariant of the
  namespace and \<open>env_ok\<close> what the routines need of the environment of a call. Message queues,
  semaphore arrays and shared memory segments each provide an instance.
\<close>

definition has_key :: "('n, 'e) ipc_ops \<Rightarrow> 'n \<Rightarrow> int \<Rightarrow> bool" where
  "has_key ops ns key \<longleftrightarrow> \<not> key_free (ns_perms ops ns) key"

definition keys_unique :: "('n, 'e) ipc_ops \<Rightarrow> 'n \<Rightarrow> bool" where
  "keys_unique ops ns \<longleftrightarrow>
     (\<forall>p p' q q'. ns_perms ops ns p = Some q \<and> ns_perms ops ns p' = Some q' \<and> \<not> p_deleted q \<and>
        \<not> p_deleted q' \<and> p_key q = p_key q' \<and> p_key q \<noteq> IPC_PRIVATE \<longrightarrow> p = p')"

text \<open>The environments of the attempts are fit for the states the attempts start in.\<close>

fun envs_ok :: "('e \<Rightarrow> 'n \<Rightarrow> bool) \<Rightarrow> ('n, 'e) ipc_ops \<Rightarrow> ipc_params \<Rightarrow> 'e list \<Rightarrow> 'n \<Rightarrow> bool" where
  "envs_ok ok ops par [] ns = True"
| "envs_ok ok ops par (E # Es) ns =
     (ok E ns \<and> envs_ok ok ops par Es ns \<and> envs_ok ok ops par Es (snd (getnew ops E par ns)))"

text \<open>What a returned identifier is: a new object, or the one that has the key.\<close>

definition get_post ::
  "'h ipc_hdr_scheme \<Rightarrow> ('n, 'e) ipc_ops \<Rightarrow> ipc_params \<Rightarrow> 'n \<Rightarrow> errno + int \<Rightarrow> 'n \<Rightarrow> bool" where
  "get_post K ops par ns r ns' =
     (case r of
        Inl e \<Rightarrow> e \<noteq> KBUG \<and> ns_ids ops ns' = ns_ids ops ns \<and> ns_perms ops ns' = ns_perms ops ns
      | Inr x \<Rightarrow>
          (\<exists>p q. ipc_lock_check K (ns_ids ops ns') (ns_perms ops ns') x = Inr p \<and>
             ns_perms ops ns' p = Some q \<and> p_key q = par_key par \<and>
             (if par_key par \<noteq> IPC_PRIVATE \<and> has_key ops ns (par_key par)
              then ns_perms ops ns' = ns_perms ops ns \<and>
                   \<not> (par_flg par AND IPC_CREAT K \<noteq> 0 \<and> par_flg par AND IPC_EXCL K \<noteq> 0)
              else ns_perms ops ns p = None \<and> ns_perms ops ns' = (ns_perms ops ns)(p \<mapsto> q) \<and>
                   (par_key par = IPC_PRIVATE \<or> par_flg par AND IPC_CREAT K \<noteq> 0))))"

locale ipc_client =
  fixes K :: "'h ipc_hdr_scheme"
    and ops :: "('n, 'e ipc_env_scheme) ipc_ops"
    and inv :: "'n \<Rightarrow> bool"
    and env_ok :: "'e ipc_env_scheme \<Rightarrow> 'n \<Rightarrow> bool"
  assumes hdr_ok: "inv ns \<Longrightarrow> ipc_hdr_ok K"
    and table_ok: "inv ns \<Longrightarrow> ids_inv K (ns_ids ops ns) (ns_perms ops ns)"
    and getnew_inv: "inv ns \<Longrightarrow> env_ok E ns \<Longrightarrow> inv (snd (getnew ops E par ns))"
    and getnew_err: "inv ns \<Longrightarrow> env_ok E ns \<Longrightarrow> getnew ops E par ns = (Inl e, ns') \<Longrightarrow>
      e \<noteq> KBUG \<and> ns_ids ops ns' = ns_ids ops ns \<and> ns_perms ops ns' = ns_perms ops ns"
    and getnew_ok: "inv ns \<Longrightarrow> env_ok E ns \<Longrightarrow> getnew ops E par ns = (Inr x, ns') \<Longrightarrow>
      \<exists>p q. ns_perms ops ns p = None \<and> ns_perms ops ns' = (ns_perms ops ns)(p \<mapsto> q) \<and>
        \<not> p_deleted q \<and> p_id q = x \<and> p_key q = par_key par"
    and associate_ok: "inv ns \<Longrightarrow> env_ok E ns \<Longrightarrow> ns_perms ops ns p = Some q \<Longrightarrow> \<not> p_deleted q \<Longrightarrow>
      associate ops E p flg ns \<noteq> Some KBUG"
    and more_checks_ok: "inv ns \<Longrightarrow> env_ok E ns \<Longrightarrow> ns_perms ops ns p = Some q \<Longrightarrow> \<not> p_deleted q \<Longrightarrow>
      more_checks ops E p par ns \<noteq> Some KBUG"
begin

lemma getnew_post:
  assumes "inv ns" and "env_ok E ns" and "getnew ops E par ns = (r, ns')"
    and "par_key par = IPC_PRIVATE \<or> \<not> has_key ops ns (par_key par) \<and> par_flg par AND IPC_CREAT K \<noteq> 0"
  shows "inv ns' \<and> get_post K ops par ns r ns'"
proof -
  have inv': "inv ns'" using getnew_inv [OF assms(1,2), of par] assms(3) by simp
  show ?thesis
  proof (cases r)
    case (Inl e)
    then show ?thesis using getnew_err assms inv' by (auto simp: get_post_def)
  next
    case (Inr x)
    obtain p q where pq: "ns_perms ops ns p = None" "ns_perms ops ns' = (ns_perms ops ns)(p \<mapsto> q)"
      "\<not> p_deleted q" "p_id q = x" "p_key q = par_key par"
      using getnew_ok [OF assms(1,2)] assms(3) Inr by blast
    then have "ipc_lock_check K (ns_ids ops ns') (ns_perms ops ns') x = Inr p"
      using lock_check_iff [OF hdr_ok [OF inv'] table_ok [OF inv']] by simp
    then show ?thesis
      unfolding get_post_def using inv' Inr pq assms(4) by auto
  qed
qed

lemma once_post:
  assumes "inv ns" and "env_ok E ns" and "par_key par \<noteq> IPC_PRIVATE"
  obtains r ns' where "ipcget_public_once K ops par E ns = Some (r, ns')" and "inv ns'"
    and "get_post K ops par ns r ns'" and "ns' = ns \<or> ns' = snd (getnew ops E par ns)"
proof -
  note T = table_ok [OF assms(1)]
  show ?thesis
  proof (cases rule: findkey_cases [OF T, of "par_key par"])
    case 1
    have nk: "\<not> has_key ops ns (par_key par)" using 1 by (simp add: has_key_def)
    have err: "get_post K ops par ns (Inl ENOENT) ns" "get_post K ops par ns (Inl ENOMEM) ns"
      by (simp_all add: get_post_def)
    obtain r ns' where gn: "getnew ops E par ns = (r, ns')" by fastforce
    have new: "inv ns' \<and> get_post K ops par ns r ns'" if "par_flg par AND IPC_CREAT K \<noteq> 0"
      using getnew_post [OF assms(1,2) gn] nk that by simp
    show ?thesis
      using that [of "Inl ENOENT" ns] that [of "Inl ENOMEM" ns] that [of r ns'] 1 err gn new assms(1)
      by (cases "par_flg par AND IPC_CREAT K = 0"; cases "idr_pre_get E")
        (simp_all add: ipcget_public_once_def)
  next
    case (2 p q)
    have hk: "has_key ops ns (par_key par)"
      using 2 by (auto simp: has_key_def key_free_def)
    have lc: "ipc_lock_check K (ns_ids ops ns) (ns_perms ops ns) (p_id q) = Inr p"
      using lock_check_iff [OF hdr_ok [OF assms(1)] T] 2 by simp
    have ne: "associate ops E p (par_flg par) ns \<noteq> Some KBUG" "more_checks ops E p par ns \<noteq> Some KBUG"
      using associate_ok more_checks_ok assms 2 by blast+
    have "\<exists>r. ipcget_public_once K ops par E ns = Some (r, ns)"
      using 2 by (simp add: ipcget_public_once_def split: option.split)
    then obtain r where r: "ipcget_public_once K ops par E ns = Some (r, ns)" ..
    have post: "get_post K ops par ns r ns"
      using r 2 hk lc ne assms(3)
      by (auto simp: ipcget_public_once_def get_post_def ipc_check_perms_def split: option.splits if_splits)
    show ?thesis by (rule that [OF r assms(1) post]) simp
  qed
qed

lemma get_post_retry:
  assumes "get_post K ops par ns (Inl e) ns1" and "get_post K ops par ns1 r ns'"
  shows "get_post K ops par ns r ns'"
proof -
  have "ns_ids ops ns1 = ns_ids ops ns" and "ns_perms ops ns1 = ns_perms ops ns"
    using assms(1) by (simp_all add: get_post_def)
  then show ?thesis using assms(2) unfolding get_post_def has_key_def by metis
qed

lemma ipcget_new_post:
  assumes "inv ns" and "envs_ok env_ok ops par Es ns" and "par_key par = IPC_PRIVATE"
    and "ipcget_new ops par Es ns = Some (r, ns')"
  shows "inv ns' \<and> get_post K ops par ns r ns'"
  using assms
proof (induction Es arbitrary: ns)
  case (Cons E Es)
  obtain r1 ns1 where gn: "getnew ops E par ns = (r1, ns1)" by fastforce
  have post: "inv ns1 \<and> get_post K ops par ns r1 ns1"
    using getnew_post [OF Cons.prems(1) _ gn] Cons.prems by simp
  show ?case
  proof (cases "\<not> idr_pre_get E")
    case True
    then show ?thesis using Cons.prems by (auto simp: get_post_def)
  next
    case False
    then show ?thesis
      using Cons.prems Cons.IH [of ns1] post gn get_post_retry [of par ns EAGAIN ns1 r ns']
      by (auto split: if_splits)
  qed
qed simp

lemma ipcget_public_post:
  assumes "inv ns" and "envs_ok env_ok ops par Es ns" and "par_key par \<noteq> IPC_PRIVATE"
    and "ipcget_public K ops par Es ns = Some (r, ns')"
  shows "inv ns' \<and> get_post K ops par ns r ns'"
  using assms
proof (induction Es arbitrary: ns)
  case (Cons E Es)
  then have "env_ok E ns" by simp
  then obtain r1 ns1 where once: "ipcget_public_once K ops par E ns = Some (r1, ns1)" "inv ns1"
    "get_post K ops par ns r1 ns1" "ns1 = ns \<or> ns1 = snd (getnew ops E par ns)"
    using once_post [OF Cons.prems(1) _ Cons.prems(3)] by blast
  then have "envs_ok env_ok ops par Es ns1" using Cons.prems(2) by auto
  then show ?case
    using Cons.IH [of ns1] Cons.prems once get_post_retry [of par ns EAGAIN ns1 r ns']
    by (auto split: if_splits)
qed simp

lemma ipcget_post:
  assumes "inv ns" and "envs_ok env_ok ops par Es ns" and "ipcget K ops par Es ns = Some (r, ns')"
  shows "inv ns' \<and> get_post K ops par ns r ns'"
proof (cases "par_key par = IPC_PRIVATE")
  case True
  then show ?thesis using ipcget_new_post [OF assms(1,2)] assms(3) by (simp add: ipcget_def)
next
  case False
  then show ?thesis using ipcget_public_post [OF assms(1,2)] assms(3) by (simp add: ipcget_def)
qed

lemma keys_unique_cong:
  "ns_perms ops ns' = ns_perms ops ns \<Longrightarrow> keys_unique ops ns' = keys_unique ops ns"
  by (simp only: keys_unique_def)

lemma keys_unique_new:
  assumes "keys_unique ops ns" and "ns_perms ops ns' = (ns_perms ops ns)(p \<mapsto> q)"
    and "p_key q = IPC_PRIVATE \<or> key_free (ns_perms ops ns) (p_key q)"
  shows "keys_unique ops ns'"
  unfolding keys_unique_def assms(2)
proof (intro allI impI)
  fix a b u v
  assume A: "((ns_perms ops ns)(p \<mapsto> q)) a = Some u \<and> ((ns_perms ops ns)(p \<mapsto> q)) b = Some v \<and>
    \<not> p_deleted u \<and> \<not> p_deleted v \<and> p_key u = p_key v \<and> p_key u \<noteq> IPC_PRIVATE"
  have other: False if "ns_perms ops ns r = Some w" "\<not> p_deleted w" "p_key w = p_key q" "p_key q \<noteq> IPC_PRIVATE" for r w
    using assms(3) that by (auto simp: key_free_def)
  consider "a = p" "b = p" | "a = p" "b \<noteq> p" | "a \<noteq> p" "b = p" | "a \<noteq> p" "b \<noteq> p" by blast
  then show "a = b"
  proof cases
    case 2
    then show ?thesis using A other [of b v] by simp
  next
    case 3
    then show ?thesis using A other [of a u] by simp
  next
    case 4
    then have "ns_perms ops ns a = Some u" "ns_perms ops ns b = Some v" using A by simp_all
    then show ?thesis using A assms(1) unfolding keys_unique_def by blast
  qed simp
qed

lemma get_post_keys_unique:
  assumes "get_post K ops par ns r ns'" and "keys_unique ops ns"
  shows "keys_unique ops ns'"
proof (cases r)
  case (Inl e)
  then have "ns_perms ops ns' = ns_perms ops ns" using assms(1) by (simp add: get_post_def)
  then show ?thesis using assms(2) keys_unique_cong by blast
next
  case (Inr x)
  show ?thesis
  proof (cases "par_key par \<noteq> IPC_PRIVATE \<and> has_key ops ns (par_key par)")
    case True
    then have "ns_perms ops ns' = ns_perms ops ns"
      using assms(1) unfolding get_post_def Inr by auto
    then show ?thesis using assms(2) keys_unique_cong by blast
  next
    case False
    then obtain p q where "p_key q = par_key par" "ns_perms ops ns' = (ns_perms ops ns)(p \<mapsto> q)"
      using assms(1) unfolding get_post_def Inr by auto
    then show ?thesis
      using keys_unique_new [OF assms(2), of ns' p q] False by (auto simp: has_key_def)
  qed
qed

text \<open>The retry loops end as soon as one attempt does not run into \<^verbatim>\<open>EAGAIN\<close>.\<close>

definition settles :: "'e ipc_env_scheme \<Rightarrow> ipc_params \<Rightarrow> bool" where
  "settles E par \<longleftrightarrow> (\<forall>ns p flg. fst (getnew ops E par ns) \<noteq> Inl EAGAIN \<and>
     associate ops E p flg ns \<noteq> Some EAGAIN \<and> more_checks ops E p par ns \<noteq> Some EAGAIN)"

lemma once_settles:
  assumes "settles E par" and "ipcget_public_once K ops par E ns = Some (r, ns')"
  shows "r \<noteq> Inl EAGAIN \<or> ipc_findkey (ns_ids ops ns) (ns_perms ops ns) (par_key par) = Some (Inl EAGAIN)"
proof -
  have "fst (getnew ops E par ns) \<noteq> Inl EAGAIN" "\<And>p. associate ops E p (par_flg par) ns \<noteq> Some EAGAIN"
    "\<And>p. more_checks ops E p par ns \<noteq> Some EAGAIN"
    using assms(1) by (auto simp: settles_def)
  then show ?thesis
    using assms(2)
    by (auto simp: ipcget_public_once_def ipc_check_perms_def split: option.splits sum.splits if_splits)
qed

lemma ipcget_returns:
  assumes "inv ns" and "envs_ok env_ok ops par Es ns" and "\<exists>E\<in>set Es. settles E par"
  shows "\<exists>r ns'. ipcget K ops par Es ns = Some (r, ns')"
  using assms
proof (induction Es arbitrary: ns)
  case (Cons E Es)
  obtain r1 ns1 where gn: "getnew ops E par ns = (r1, ns1)" by fastforce
  have inv1: "inv ns1" and ok1: "envs_ok env_ok ops par Es ns1"
    using getnew_inv [of ns E par] Cons.prems gn by auto
  show ?case
  proof (cases "par_key par = IPC_PRIVATE")
    case True
    have "settles E par \<Longrightarrow> r1 \<noteq> Inl EAGAIN" using gn by (metis fst_conv settles_def)
    then show ?thesis
      using Cons.IH [OF inv1 ok1] Cons.prems(3) True gn by (auto simp: ipcget_def)
  next
    case False
    have "env_ok E ns" using Cons.prems(2) by simp
    then obtain r2 ns2 where once: "ipcget_public_once K ops par E ns = Some (r2, ns2)" "inv ns2"
      "ns2 = ns \<or> ns2 = snd (getnew ops E par ns)"
      using once_post [OF Cons.prems(1) _ False] by metis
    have ok2: "envs_ok env_ok ops par Es ns2" using once(3) Cons.prems(2) by auto
    have "settles E par \<Longrightarrow> r2 \<noteq> Inl EAGAIN"
      using once_settles [OF _ once(1)] findkey_cases [OF table_ok [OF Cons.prems(1)], of "par_key par"]
      by fastforce
    then show ?thesis
      using Cons.IH [OF once(2) ok2] Cons.prems(3) False once(1) by (auto simp: ipcget_def)
  qed
qed simp

end

subsection \<open>Properties of the tables\<close>

text \<open>The life of a table: entries are added and removed, removed objects are freed.\<close>

inductive ids_run :: "'h ipc_hdr_scheme \<Rightarrow> nat \<Rightarrow> ipc_ids \<times> perms \<Rightarrow> ipc_ids \<times> perms \<Rightarrow> bool"
  for K where
  refl: "ids_run K 0 s s"
| add: "ids_run K n s (ids, ps) \<Longrightarrow> idr_ok (E :: ipc_env) \<Longrightarrow> ps p = None \<Longrightarrow>
    ipc_addid K E ids p new sz = (Inr i, ids', new') \<Longrightarrow> ids_run K (Suc n) s (ids', ps(p \<mapsto> new'))"
| rm: "ids_run K n s (ids, ps) \<Longrightarrow> ps p = Some q \<Longrightarrow> \<not> p_deleted q \<Longrightarrow>
    ipc_rmid K ids q = (ids', q') \<Longrightarrow> ids_run K n s (ids', ps(p \<mapsto> q'))"
| free: "ids_run K n s (ids, ps) \<Longrightarrow> ps p = Some q \<Longrightarrow> p_deleted q \<Longrightarrow>
    ids_run K n s (ids, ps(p := None))"

lemma ids_run_inv:
  assumes "ids_run K n s s'" and "ipc_hdr_ok K" and "ids_inv K (fst s) (snd s)"
  shows "ids_inv K (fst s') (snd s')"
  using assms
proof induction
  case (add n s ids ps E p new sz i ids' new')
  then show ?case using addid_inv(1) [of K ids ps E p new sz i ids' new'] by (simp del: fun_upd_apply)
next
  case (rm n s ids ps p q ids' q')
  then show ?case using rmid_inv(1) [of K ids ps p q ids' q'] by (simp del: fun_upd_apply)
next
  case (free n s ids ps p q)
  then show ?case using ids_inv_drop [of K ids ps p] by (simp del: fun_upd_apply)
qed simp

lemma uint_next_seq:
  assumes "uint (ids_seq ids) \<le> uint (ids_seq_max ids)"
  shows "uint (next_seq ids) = (uint (ids_seq ids) + 1) mod (uint (ids_seq_max ids) + 1)"
proof -
  have bound: "uint (ids_seq_max ids) < 65536" using uint_lt2p [of "ids_seq_max ids"] by simp
  have plus: "uint (ids_seq ids + 1) = (uint (ids_seq ids) + 1) mod 65536"
    by (simp add: uint_word_ariths)
  show ?thesis
  proof (cases "uint (ids_seq ids) = uint (ids_seq_max ids)")
    case True
    then show ?thesis
      using bound plus by (cases "uint (ids_seq_max ids) = 65535") (auto simp: next_seq_def word_less_def)
  next
    case False
    then have "(uint (ids_seq ids) + 1) mod 65536 = uint (ids_seq ids) + 1"
      using assms bound by simp
    then show ?thesis
      using False assms plus by (simp add: next_seq_def word_less_def)
  qed
qed

lemma ids_run_seq:
  assumes "ids_run K n s s'" and "ipc_hdr_ok K" and "ids_inv K (fst s) (snd s)"
  shows "ids_seq_max (fst s') = ids_seq_max (fst s) \<and>
    uint (ids_seq (fst s')) = (uint (ids_seq (fst s)) + int n) mod (uint (ids_seq_max (fst s)) + 1)"
  using assms
proof induction
  case (refl s)
  then show ?case by (simp add: ids_inv_def)
next
  case (add n s ids ps E p new sz i ids' new')
  have "ids_inv K ids ps" using ids_run_inv [OF add.hyps(1)] add.prems by simp
  then have "uint (next_seq ids) = (uint (ids_seq ids) + 1) mod (uint (ids_seq_max ids) + 1)"
    by (intro uint_next_seq) (simp add: ids_inv_def)
  then show ?case
    using add.IH [OF add.prems] addid_InrD(4) [OF add.hyps(4)]
    by (simp add: mod_simps ac_simps)
next
  case (rm n s ids ps p q ids' q')
  then show ?case by (auto simp: ipc_rmid_def Let_def)
qed simp

text \<open>No live object under an identifier, and none gets it while the sequence has not come round.\<close>

definition id_dead :: "perms \<Rightarrow> int \<Rightarrow> bool" where
  "id_dead ps x \<longleftrightarrow> (\<forall>p q. ps p = Some q \<longrightarrow> \<not> p_deleted q \<longrightarrow> p_id q \<noteq> x)"

lemma id_dead_upd: "id_dead ps x \<Longrightarrow> p_deleted q \<or> p_id q \<noteq> x \<Longrightarrow> id_dead (ps(p \<mapsto> q)) x"
  by (auto simp: id_dead_def)

lemma mod_cycle_neq:
  fixes s N :: int
  assumes "0 \<le> s" and "s < N" and "0 < k" and "k < N"
  shows "(s + k) mod N \<noteq> s"
proof (cases "s + k < N")
  case False
  then have "(s + k) mod N = (s + k - N) mod N" using assms by (simp add: minus_mod_self2)
  also have "\<dots> = s + k - N" by (rule mod_pos_pos_trivial) (use False assms in simp_all)
  finally show ?thesis using assms by simp
qed (use assms in simp)

lemma ids_run_dead:
  assumes "ids_run K n st st'" and "ipc_hdr_ok K" and "ids_inv K (fst st) (snd st)"
    and "id_dead (snd st) (SEQ_MULTIPLIER K * s + int i)"
    and "0 \<le> s" and "s \<le> uint (ids_seq_max (fst st))" and "i < IPCMNI K"
    and "uint (ids_seq (fst st)) = (s + 1 + int a) mod (uint (ids_seq_max (fst st)) + 1)"
    and "int (a + n) \<le> uint (ids_seq_max (fst st))"
  shows "id_dead (snd st') (SEQ_MULTIPLIER K * s + int i)"
  using assms
proof induction
  case (add n st ids ps E p new sz j ids' new')
  let ?N = "uint (ids_seq_max (fst st)) + 1"
  have inv: "ids_inv K ids ps" using ids_run_inv [OF add.hyps(1)] add.prems by simp
  note ent = addid_inv(2) [OF inv add.hyps(2,3,4)]
  have seq: "ids_seq_max ids = ids_seq_max (fst st)"
    "uint (ids_seq ids) = (uint (ids_seq (fst st)) + int n) mod ?N"
    using ids_run_seq [OF add.hyps(1) add.prems(1,2)] by simp_all
  have "p_seq new' = (s + (1 + int a + int n)) mod ?N"
    using seq(2) add.prems(7) addid_InrD(5) [OF add.hyps(4)]
    by (simp add: added_def mod_simps ac_simps)
  then have neq: "p_seq new' \<noteq> s"
    using mod_cycle_neq [of s ?N "1 + int a + int n"] add.prems by simp
  have "p_id new' sdiv SEQ_MULTIPLIER K = p_seq new'" by (rule entry_idx(1) [OF add.prems(1) ent])
  moreover have "(SEQ_MULTIPLIER K * s + int i) sdiv SEQ_MULTIPLIER K = s"
    using add.prems(4,6) by (intro div_mod_signed) (simp_all add: SEQ_MULTIPLIER_def)
  ultimately have "p_id new' \<noteq> SEQ_MULTIPLIER K * s + int i" using neq by metis
  moreover have "id_dead ps (SEQ_MULTIPLIER K * s + int i)" using add.IH add.prems by simp
  ultimately show ?case by (simp add: id_dead_upd del: fun_upd_apply)
next
  case (rm n st ids ps p q ids' q')
  then have "p_deleted q'" by (auto simp: ipc_rmid_def Let_def)
  then show ?case using rm by (simp add: id_dead_upd del: fun_upd_apply)
next
  case (free n st ids ps p q)
  then have "id_dead ps (SEQ_MULTIPLIER K * s + int i)" by simp
  then show ?case by (auto simp: id_dead_def)
qed simp

definition example_ipc_hdr :: ipc_hdr where
  "example_ipc_hdr =
     \<lparr>PAGE_SIZE = 4096, sizeof_rcu_hdr = 8, sizeof_rcu_grace = 16, sizeof_rcu_sched = 32,
      IPCMNI = 32768, IPC_CREAT = 512, IPC_EXCL = 1024, IPC_NOWAIT = 2048, IPC_64_bit = 256,
      S_IRWXUGO = 511, S_IRUGO = 292, S_IWUGO = 146, high2lowuid = ucast, high2lowgid = ucast\<rparr>"

definition example_ipc_env :: ipc_env where
  "example_ipc_env =
     \<lparr>kmalloc = (\<lambda>n. Some 65536), vmalloc = (\<lambda>n. Some 1048576),
      current = 7, current_tgid = 7, current_euid = 1000, current_egid = 100,
      in_group_p = (\<lambda>g. g = 100), ns_capable = (\<lambda>c. False), get_seconds = 1300000000,
      idr_pre_get = True, idr_get_new = first_free 3 0,
      security_ipc_permission = (\<lambda>q f. None)\<rparr>"

definition example_perm :: kern_ipc_perm where
  "example_perm =
     \<lparr>p_deleted = False, p_id = 0, p_key = 77, p_uid = 0, p_gid = 0, p_cuid = 0, p_cgid = 0,
      p_mode = 416, p_seq = 0\<rparr>"

lemma example_ipc_hdr_ok: "ipc_hdr_ok example_ipc_hdr"
  by (simp add: ipc_hdr_ok_def example_ipc_hdr_def SEQ_MULTIPLIER_def)

lemma example_idr_ok: "idr_ok example_ipc_env"
  by (rule idr_ok_first_free [of _ 3]) (simp add: example_ipc_env_def)

definition example_ids :: "nat \<Rightarrow> (nat \<rightharpoonup> addr) \<Rightarrow> ipc_ids" where
  "example_ids s m = \<lparr>in_use = int (card (dom m)), ids_seq = of_nat s, ids_seq_max = 65535, ipcs_idr = m\<rparr>"

definition example_added :: "nat \<Rightarrow> kern_ipc_perm" where
  "example_added s =
     example_perm\<lparr>p_cuid := 1000, p_uid := 1000, p_gid := 100, p_cgid := 100,
                  p_seq := int s, p_id := 32768 * int s\<rparr>"

lemma example_init: "ipc_init_ids example_ipc_hdr = example_ids 0 Map.empty"
  by (simp add: ipc_init_ids_def example_ids_def example_ipc_hdr_def SEQ_MULTIPLIER_def INT_MAX_def
      USHRT_MAX_def Let_def)

lemma example_add0:
  "ipc_addid example_ipc_hdr example_ipc_env (example_ids 0 Map.empty) 10 example_perm 100 =
     (Inr 0, example_ids 1 [0 \<mapsto> 10], example_added 0)"
  by (simp add: ipc_addid_def example_ids_def example_ipc_hdr_def example_ipc_env_def numeral_3_eq_3
      Let_def example_added_def example_perm_def ipc_buildid_def SEQ_MULTIPLIER_def c_int_def)

lemma example_add1:
  "ipc_addid example_ipc_hdr example_ipc_env (example_ids 1 Map.empty) 20 example_perm 100 =
     (Inr 0, example_ids 2 [0 \<mapsto> 20], example_added 1)"
  by (simp add: ipc_addid_def example_ids_def example_ipc_hdr_def example_ipc_env_def numeral_3_eq_3
      Let_def example_added_def example_perm_def ipc_buildid_def SEQ_MULTIPLIER_def c_int_id)

lemma example_rm:
  "ipc_rmid example_ipc_hdr (example_ids 1 [0 \<mapsto> 10]) (example_added 0) =
     (example_ids 1 Map.empty, (example_added 0)\<lparr>p_deleted := True\<rparr>)"
  by (simp add: ipc_rmid_def example_ids_def example_ipc_hdr_def example_added_def
      ipcid_to_idx_def fun_upd_idem Let_def)

lemma example_run0:
  "ids_run example_ipc_hdr 1 (ipc_init_ids example_ipc_hdr, Map.empty)
     (example_ids 1 [0 \<mapsto> 10], [10 \<mapsto> example_added 0])"
  using ids_run.add [OF ids_run.refl example_idr_ok _ example_add0 [folded example_init]]
  by simp

text \<open>
  C1. A table that starts as \<^verbatim>\<open>ipc_init_ids\<close> leaves it and lives through any sequence of additions,
  removals and frees counts its entries right, resolves exactly the identifiers of the live
  objects, each to its object, and the identifiers it hands out are not negative and fit in an
  \<^verbatim>\<open>int\<close>.
\<close>

theorem ids_table_correct:
  assumes "ipc_hdr_ok K" and "ids_run K n (ipc_init_ids K, Map.empty) (ids, ps)"
  shows "in_use ids = int (card (dom (ipcs_idr ids))) \<and>
    (\<forall>x p. ipc_lock_check K ids ps x = Inr p \<longleftrightarrow> (\<exists>q. ps p = Some q \<and> \<not> p_deleted q \<and> p_id q = x)) \<and>
    (\<forall>p q. ps p = Some q \<longrightarrow> \<not> p_deleted q \<longrightarrow> 0 \<le> p_id q \<and> p_id q \<le> INT_MAX)"
proof -
  have inv: "ids_inv K ids ps"
    using ids_run_inv [OF assms(2,1)] ids_inv_init [OF assms(1), of Map.empty] by simp
  have "0 \<le> p_id q \<and> p_id q \<le> INT_MAX" if live: "ps p = Some q" "\<not> p_deleted q" for p q
  proof -
    obtain i where i: "entry_ok K ids i q" by (rule ids_inv_live [OF inv live])
    let ?M = "SEQ_MULTIPLIER K"
    have M: "int i < ?M" "0 \<le> p_seq q" "p_id q = ?M * p_seq q + int i" "0 \<le> ?M * p_seq q"
      using i by (simp_all add: entry_ok_def SEQ_MULTIPLIER_def)
    have "?M * (p_seq q + 1) \<le> ?M * (uint (ids_seq_max ids) + 1)"
      by (rule mult_left_mono) (use i in \<open>simp_all add: entry_ok_def SEQ_MULTIPLIER_def\<close>)
    then have "?M * p_seq q + ?M \<le> 2147483648" using inv by (simp add: ids_inv_def distrib_left)
    then show ?thesis using M by (simp add: INT_MAX_def)
  qed
  then show ?thesis using lock_check_iff [OF assms(1) inv] ids_invD(2) [OF inv] by blast
qed

theorem ids_table_correct_witness:
  "ipc_lock_check example_ipc_hdr (example_ids 1 [0 \<mapsto> 10]) [10 \<mapsto> example_added 0] 0 = Inr 10"
  using ids_table_correct [OF example_ipc_hdr_ok example_run0]
  by (simp add: example_added_def example_perm_def)

text \<open>
  C2. An identifier whose object is gone is refused with \<^verbatim>\<open>EINVAL\<close> or \<^verbatim>\<open>EIDRM\<close>, also when its slot is
  in use again: an identifier cannot come back before \<^verbatim>\<open>seq_max + 1\<close> objects have been created
  since its own.
\<close>

theorem stale_id_rejected:
  assumes "ipc_hdr_ok K" and "ids_inv K ids ps" and "idr_ok (E :: ipc_env)" and "ps p = None"
    and "ipc_addid K E ids p new sz = (Inr i, ids0, new')"
    and "ids_run K n (ids0, ps(p \<mapsto> new')) (ids1, ps1)" and "id_dead ps1 (p_id new')"
    and "ids_run K m (ids1, ps1) (ids2, ps2)" and "int (n + m) \<le> uint (ids_seq_max ids)"
  shows "ipc_lock_check K ids2 ps2 (p_id new') = Inl EINVAL \<or> ipc_lock_check K ids2 ps2 (p_id new') = Inl EIDRM"
proof -
  note A = addid_inv [OF assms(2,3,4,5)] and D = addid_InrD [OF assms(5)]
  have inv1: "ids_inv K ids1 ps1" using ids_run_inv [OF assms(6,1)] A(1) by simp
  have inv2: "ids_inv K ids2 ps2" using ids_run_inv [OF assms(8,1)] inv1 by simp
  have seq0: "uint (ids_seq ids0) = (uint (ids_seq ids) + 1) mod (uint (ids_seq_max ids) + 1)"
    using uint_next_seq assms(2) by (simp add: D(4) ids_inv_def)
  have seq1: "ids_seq_max ids1 = ids_seq_max ids"
    "uint (ids_seq ids1) = (uint (ids_seq ids) + 1 + int n) mod (uint (ids_seq_max ids) + 1)"
    using ids_run_seq [OF assms(6,1)] A(1) seq0 by (simp_all add: D(4) mod_simps)
  have id: "p_id new' = SEQ_MULTIPLIER K * uint (ids_seq ids) + int i" "i < IPCMNI K"
    using A(2) D(5) by (simp_all add: entry_ok_def added_def)
  have "id_dead ps2 (p_id new')"
    using ids_run_dead [OF assms(8,1), of "uint (ids_seq ids)" i n] inv1 assms(2,7,9) seq1 id
    by (simp add: ids_inv_def)
  then have "ipc_lock_check K ids2 ps2 (p_id new') \<noteq> Inr r" for r
    using lock_check_iff [OF assms(1) inv2] by (auto simp: id_dead_def)
  then show ?thesis
    using lock_check_Inl [OF inv2] by (cases "ipc_lock_check K ids2 ps2 (p_id new')") auto
qed

lemma example_rm_run:
  "ids_run example_ipc_hdr 0 (example_ids 1 [0 \<mapsto> 10], [10 \<mapsto> example_added 0])
     (example_ids 1 Map.empty, [10 \<mapsto> (example_added 0)\<lparr>p_deleted := True\<rparr>])"
  using ids_run.rm [OF ids_run.refl _ _ example_rm, of "[10 \<mapsto> example_added 0]" 10]
  by (simp add: example_added_def example_perm_def)

lemma example_readd_run:
  "ids_run example_ipc_hdr 1 (example_ids 1 Map.empty, [10 \<mapsto> (example_added 0)\<lparr>p_deleted := True\<rparr>])
     (example_ids 2 [0 \<mapsto> 20], [10 \<mapsto> (example_added 0)\<lparr>p_deleted := True\<rparr>, 20 \<mapsto> example_added 1])"
  using ids_run.add [OF ids_run.refl example_idr_ok _ example_add1,
      of "[10 \<mapsto> (example_added 0)\<lparr>p_deleted := True\<rparr>]"]
  by simp

theorem stale_id_rejected_witness:
  "ipc_lock_check example_ipc_hdr (example_ids 2 [0 \<mapsto> 20])
     [10 \<mapsto> (example_added 0)\<lparr>p_deleted := True\<rparr>, 20 \<mapsto> example_added 1] 0 \<in> {Inl EINVAL, Inl EIDRM}"
proof -
  have "ids_inv example_ipc_hdr (example_ids 0 Map.empty) Map.empty"
    using ids_inv_init [OF example_ipc_hdr_ok, of Map.empty] by (simp add: example_init)
  moreover have "p_id (example_added 0) = 0" by (simp add: example_added_def)
  moreover have "id_dead [10 \<mapsto> (example_added 0)\<lparr>p_deleted := True\<rparr>] 0" by (simp add: id_dead_def)
  ultimately show ?thesis
    using stale_id_rejected [OF example_ipc_hdr_ok _ example_idr_ok _ example_add0 example_rm_run _
        example_readd_run]
    by (simp add: example_ids_def)
qed

text \<open>
  C35. The search for a key always returns, and returns \<^verbatim>\<open>NULL\<close> if and only if no live object has the
  key; otherwise the object it returns is live and has the key.
\<close>

theorem findkey_correct:
  assumes "ids_inv K ids ps"
  shows "\<exists>r. ipc_findkey ids ps key = Some (Inr r) \<and>
    (case r of
       None \<Rightarrow> key_free ps key
     | Some p \<Rightarrow> \<exists>q. ps p = Some q \<and> \<not> p_deleted q \<and> p_key q = key)"
  by (cases rule: findkey_cases [OF assms, of key]) auto

lemma example_inv1: "ids_inv example_ipc_hdr (example_ids 1 [0 \<mapsto> 10]) [10 \<mapsto> example_added 0]"
  using ids_run_inv [OF example_run0 example_ipc_hdr_ok] ids_inv_init [OF example_ipc_hdr_ok, of Map.empty]
  by simp

theorem findkey_correct_witness:
  "\<exists>r. ipc_findkey (example_ids 1 [0 \<mapsto> 10]) [10 \<mapsto> example_added 0] 77 = Some (Inr (Some r))"
proof -
  have "\<not> key_free [10 \<mapsto> example_added 0] 77"
    unfolding key_free_def
    by (auto simp: example_added_def example_perm_def intro!: exI [of _ 10])
  then show ?thesis using findkey_correct [OF example_inv1, of 77] by (auto split: option.splits)
qed

text \<open>
  \<^verbatim>\<open>ipc_get_maxid\<close> returns the largest index in use, and -1 for an empty table.
\<close>

theorem get_maxid_correct:
  assumes "ids_inv K ids ps"
  shows "ipc_get_maxid K ids =
    (if dom (ipcs_idr ids) = {} then - 1 else int (Max (dom (ipcs_idr ids))))"
proof -
  note fin = ids_invD(1) [OF assms] and cnt = ids_invD(2) [OF assms]
  have sub: "dom (ipcs_idr ids) \<subseteq> {..<IPCMNI K}"
    using ids_invD(3) [OF assms] by (auto simp: entry_ok_def)
  consider (empty) "in_use ids = 0" | (full) "in_use ids = int (IPCMNI K)" "in_use ids \<noteq> 0"
    | (scan) "in_use ids \<noteq> 0" "in_use ids \<noteq> int (IPCMNI K)" by blast
  then show ?thesis
  proof cases
    case empty
    then show ?thesis using fin cnt by (simp add: ipc_get_maxid_def)
  next
    case full
    then have "dom (ipcs_idr ids) = {..<IPCMNI K}"
      using card_subset_eq [OF _ sub] cnt by simp
    moreover from this have "Max (dom (ipcs_idr ids)) = IPCMNI K - 1"
      using full by (intro Max_eqI) auto
    ultimately show ?thesis using full by (auto simp: ipc_get_maxid_def)
  next
    case scan
    then show ?thesis using maxid_from_spec [OF assms, of "- 1" 0] by (simp add: ipc_get_maxid_def)
  qed
qed

theorem get_maxid_correct_witness:
  "ipc_get_maxid example_ipc_hdr (example_ids 1 [0 \<mapsto> 10]) = 0"
  using get_maxid_correct [OF example_inv1] by (simp add: example_ids_def)

fun proc_walk :: "'h ipc_hdr_scheme \<Rightarrow> ipc_ids \<Rightarrow> nat \<Rightarrow> int \<Rightarrow> addr list" where
  "proc_walk K ids 0 pos = []"
| "proc_walk K ids (Suc n) pos =
     (case sysvipc_proc_next K ids pos of
        (SEQ_ipc p, pos') \<Rightarrow> p # proc_walk K ids n pos'
      | (_, _) \<Rightarrow> [])"

lemma proc_walk_from:
  assumes inv: "ids_inv K ids ps" and "card {i \<in> dom (ipcs_idr ids). pos \<le> i} \<le> n"
  shows "proc_walk K ids n (int pos) =
    map (\<lambda>i. the (ipcs_idr ids i)) (sorted_list_of_set {i \<in> dom (ipcs_idr ids). pos \<le> i})"
  using assms(2)
proof (induction n arbitrary: pos)
  case 0
  then have "{i \<in> dom (ipcs_idr ids). pos \<le> i} = {}" using ids_invD(1) [OF inv] by simp
  then show ?case by (simp only: sorted_list_of_set_empty proc_walk.simps list.map)
next
  case (Suc n)
  let ?S = "{i \<in> dom (ipcs_idr ids). pos \<le> i}"
  have fin: "finite ?S" using ids_invD(1) [OF inv] by simp
  show ?case
  proof (cases "?S = {}")
    case True
    then have "sysvipc_find_ipc K ids pos = None" by (intro find_ipc_None [OF inv]) auto
    then show ?thesis
      unfolding True by (simp add: sysvipc_proc_next_def found_iter_def)
  next
    case False
    define i where "i = Min ?S"
    have m: "i \<in> ?S" using Min_in [OF fin False] by (simp add: i_def)
    then obtain p where p: "ipcs_idr ids i = Some p" "pos \<le> i" by blast
    have least: "i \<le> j" if "j \<in> dom (ipcs_idr ids)" "pos \<le> j" for j
      using Min_le [OF fin, of j] that by (simp add: i_def)
    have "ipcs_idr ids j = None" if "pos \<le> j" "j < i" for j
      using least [of j] that by fastforce
    then have f: "sysvipc_find_ipc K ids pos = Some (p, int i + 1)"
      using find_ipc_Some [OF inv p] by blast
    have rest: "{j \<in> dom (ipcs_idr ids). Suc i \<le> j} = ?S - {i}"
    proof (intro set_eqI iffI)
      fix j assume "j \<in> ?S - {i}"
      then have "i \<le> j" "j \<noteq> i" "j \<in> dom (ipcs_idr ids)" using least [of j] by simp_all
      then show "j \<in> {j \<in> dom (ipcs_idr ids). Suc i \<le> j}" by simp
    qed (use p(2) in auto)
    have "card (?S - {i}) \<le> n" using Suc.prems m fin by simp
    then have "proc_walk K ids n (int (Suc i)) =
      map (\<lambda>i. the (ipcs_idr ids i)) (sorted_list_of_set (?S - {i}))"
      using Suc.IH [of "Suc i"] unfolding rest by blast
    then show ?thesis
      using f p(1) sorted_list_of_set_nonempty [OF fin False, folded i_def]
      by (simp add: sysvipc_proc_next_def found_iter_def add.commute)
  qed
qed

text \<open>
  C36. Reading a file of \<^verbatim>\<open>/proc/sysvipc\<close> to its end, by \<^verbatim>\<open>sysvipc_proc_next\<close> from the position
  after the header, visits every object of the table once, in the order of the indices.
\<close>

theorem proc_walk_complete:
  assumes "ids_inv K ids ps" and "in_use ids \<le> int n"
  shows "proc_walk K ids n 0 =
    map (\<lambda>i. the (ipcs_idr ids i)) (sorted_list_of_set (dom (ipcs_idr ids)))"
proof -
  have "{i \<in> dom (ipcs_idr ids). 0 \<le> i} = dom (ipcs_idr ids)" by simp
  then show ?thesis
    using proc_walk_from [OF assms(1), of 0 n] ids_invD(2) [OF assms(1)] assms(2) by simp
qed

theorem proc_walk_complete_witness:
  "proc_walk example_ipc_hdr (example_ids 1 [0 \<mapsto> 10]) 5 0 = [10]"
  using proc_walk_complete [OF example_inv1, of 5] by (simp add: example_ids_def)

definition class_shift :: "'e ipc_env_scheme \<Rightarrow> kern_ipc_perm \<Rightarrow> nat" where
  "class_shift E q =
     (if current_euid E = p_cuid q \<or> current_euid E = p_uid q then 6
      else if in_group_p E (p_cgid q) \<or> in_group_p E (p_gid q) then 3
      else 0)"

lemma low3_iff: "w AND 7 \<noteq> (0 :: 32 word) \<longleftrightarrow> (\<exists>b<3. bit w b)"
proof -
  have "(7 :: 32 word) = mask 3" by (simp add: mask_eq_exp_minus_1)
  then have "w AND 7 = 0 \<longleftrightarrow> (\<forall>n<32. \<not> (bit w n \<and> n < 3))"
    by (auto simp: bit_eq_iff bit_simps)
  moreover have "b < 3 \<Longrightarrow> b < 32" for b :: nat by simp
  ultimately show ?thesis by blast
qed

text \<open>
  C34. \<^verbatim>\<open>ipcperms\<close> grants exactly when the capability overrides or each permission asked for, in any
  of the three classes of the request, is in the class of the mode that applies to the caller,
  and the security module agrees.
\<close>

theorem ipcperms_correct:
  "ipcperms E q flag = None \<longleftrightarrow>
     (ns_capable E CAP_IPC_OWNER \<or>
      (\<forall>b<3. bit flag b \<or> bit flag (b + 3) \<or> bit flag (b + 6) \<longrightarrow> bit (p_mode q) (b + class_shift E q))) \<and>
     security_ipc_permission E q flag = None"
proof -
  let ?f = "scast flag :: 32 word"
  have req: "bit (signed_drop_bit 6 ?f OR signed_drop_bit 3 ?f OR ?f) b \<longleftrightarrow>
    bit flag b \<or> bit flag (b + 3) \<or> bit flag (b + 6)" if "b < 3" for b
    using that by (auto simp: bit_simps min_def ac_simps)
  have gr: "bit (signed_drop_bit k (p_mode q)) b \<longleftrightarrow> bit (p_mode q) (b + k)" if "b < 3" "k \<le> 6" for b k
    using that by (auto simp: bit_simps min_def ac_simps)
  show ?thesis
    unfolding ipcperms_def Let_def and.assoc [symmetric] low3_iff class_shift_def
    using req gr [of _ 6] gr [of _ 3] by (auto simp: bit_and_iff bit_not_iff)
qed

theorem ipcperms_correct_witness:
  "ipcperms example_ipc_env (example_perm\<lparr>p_gid := 100\<rparr>) 292 = None"
proof -
  have "bit (416 :: 32 word) (b + 3)" if "b < 3" "bit (292 :: 16 word) b \<or> bit (292 :: 16 word) (b + 3) \<or> bit (292 :: 16 word) (b + 6)" for b
    using that by (auto simp: numeral_3_eq_3 less_Suc_eq)
  then show ?thesis
    using ipcperms_correct [of example_ipc_env "example_perm\<lparr>p_gid := 100\<rparr>" 292]
    by (simp add: example_ipc_env_def example_perm_def class_shift_def)
qed

end
