(* ===== verification/Msg_Util.thy ===== *)
theory Msg_Util
  imports Ipc_Util
begin

text \<open>
  \<^verbatim>\<open>ipc/msgutil.c\<close>: copying the text of a message from the user into a chain of page-sized
  segments (\<^verbatim>\<open>load_msg\<close>), back to the user (\<^verbatim>\<open>store_msg\<close>) and freeing the chain (\<^verbatim>\<open>free_msg\<close>).

  The blocks that hold messages are kept in a map from their addresses to their sizes; \<open>free_msg\<close>
  is \<open>None\<close> when it frees an address that holds no block. \<^verbatim>\<open>kmalloc\<close> and user memory access are
  fields of a \<open>msg_env\<close>: \<open>kmallocs E n\<close> answers the \<open>n\<close>-th allocation of a call,
  \<open>copy_from_user\<close> is \<open>None\<close> and \<open>copy_to_user\<close> gives \<open>False\<close> when the access faults.
\<close>

type_synonym byte = "8 word"
type_synonym umem = "addr \<Rightarrow> byte"
type_synonym mblocks = "addr \<rightharpoonup> nat"

record msg_hdr = ipc_hdr +
  sizeof_msg_msg :: ulong
  sizeof_msg_msgseg :: ulong

record msg_env = ipc_env +
  kmallocs :: "nat \<Rightarrow> ulong \<Rightarrow> addr option"
  copy_from_user :: "umem \<Rightarrow> addr \<Rightarrow> nat \<Rightarrow> byte list option"
  copy_to_user :: "umem \<Rightarrow> addr \<Rightarrow> byte list \<Rightarrow> bool \<times> umem"
  security_msg_msg_alloc :: "errno option"

text \<open>A message: its block, the text after the header, and the chain of segments.\<close>

record msg_msg =
  m_type :: int
  m_ts :: nat
  m_addr :: addr
  m_text :: "byte list"
  m_segs :: "(addr \<times> byte list) list"

subsection \<open>Operations\<close>

definition DATALEN_MSG :: "'h msg_hdr_scheme \<Rightarrow> nat" where
  "DATALEN_MSG H = unat (PAGE_SIZE H - sizeof_msg_msg H)"

definition DATALEN_SEG :: "'h msg_hdr_scheme \<Rightarrow> nat" where
  "DATALEN_SEG H = unat (PAGE_SIZE H - sizeof_msg_msgseg H)"

fun kfree_all :: "addr list \<Rightarrow> mblocks \<Rightarrow> mblocks option" where
  "kfree_all [] mb = Some mb"
| "kfree_all (a # as) mb = (if mb a = None then None else kfree_all as (mb(a := None)))"

definition msg_addrs :: "msg_msg \<Rightarrow> addr list" where
  "msg_addrs msg = m_addr msg # map fst (m_segs msg)"

definition free_msg :: "msg_msg \<Rightarrow> mblocks \<Rightarrow> mblocks option" where
  "free_msg msg mb = kfree_all (msg_addrs msg) mb"

text \<open>
  The loop over the segments: what went wrong, if anything, the segments linked so far (a segment
  is linked before its text is copied) and the blocks. It ends only if segments hold text at all.
\<close>

partial_function (option) load_segs ::
  "'h msg_hdr_scheme \<Rightarrow> 'e msg_env_scheme \<Rightarrow> umem \<Rightarrow> nat \<Rightarrow> addr \<Rightarrow> nat \<Rightarrow> (addr \<times> byte list) list \<Rightarrow> mblocks \<Rightarrow>
   (errno option \<times> (addr \<times> byte list) list \<times> mblocks) option" where
  "load_segs H E um n src len segs mb =
     (if len > 0 then
        (let alen = (if len > DATALEN_SEG H then DATALEN_SEG H else len)
         in case l30_size_add_overflow (sizeof_msg_msgseg H) (of_nat alen) of
              None \<Rightarrow> Some (Some EOVERFLOW, segs, mb)
            | Some allocation_size \<Rightarrow>
                (case kmallocs E n allocation_size of
                   None \<Rightarrow> Some (Some ENOMEM, segs, mb)
                 | Some seg \<Rightarrow>
                     (case copy_from_user E um src alen of
                        None \<Rightarrow> Some (Some EFAULT, segs @ [(seg, [])], mb(seg \<mapsto> unat allocation_size))
                      | Some bs \<Rightarrow>
                          load_segs H E um (n + 1) (src + int alen) (len - alen) (segs @ [(seg, bs)])
                            (mb(seg \<mapsto> unat allocation_size)))))
      else Some (None, segs, mb))"

definition load_msg ::
  "'h msg_hdr_scheme \<Rightarrow> 'e msg_env_scheme \<Rightarrow> umem \<Rightarrow> addr \<Rightarrow> int \<Rightarrow> mblocks \<Rightarrow> ((errno + msg_msg) \<times> mblocks) option" where
  "load_msg H E um src len0 mb =
     (if len0 < 0 then Some (Inl EINVAL, mb)
      else
        (let len = nat len0;
             alen = (if len > DATALEN_MSG H then DATALEN_MSG H else len);
             fail = (\<lambda>err msg mb. case free_msg msg mb of None \<Rightarrow> Some (Inl KBUG, mb) | Some mb' \<Rightarrow> Some (Inl err, mb'))
         in case l30_size_add_overflow (sizeof_msg_msg H) (of_nat alen) of
              None \<Rightarrow> Some (Inl EOVERFLOW, mb)
            | Some allocation_size \<Rightarrow>
                (case kmallocs E 0 allocation_size of
                   None \<Rightarrow> Some (Inl ENOMEM, mb)
                 | Some a \<Rightarrow>
                     (let msg = \<lparr>m_type = 0, m_ts = 0, m_addr = a, m_text = [], m_segs = []\<rparr>;
                          mb1 = mb(a \<mapsto> unat allocation_size)
                      in case copy_from_user E um src alen of
                           None \<Rightarrow> fail EFAULT msg mb1
                         | Some bs \<Rightarrow>
                             (case load_segs H E um 1 (src + int alen) (len - alen) [] mb1 of
                                None \<Rightarrow> None
                              | Some (Some err, segs, mb2) \<Rightarrow> fail err (msg\<lparr>m_text := bs, m_segs := segs\<rparr>) mb2
                              | Some (None, segs, mb2) \<Rightarrow>
                                  (let msg = msg\<lparr>m_text := bs, m_segs := segs\<rparr>
                                   in case security_msg_msg_alloc E of
                                        Some err \<Rightarrow> fail err msg mb2
                                      | None \<Rightarrow> Some (Inr msg, mb2)))))))"

text \<open>
  \<open>Inl KBUG\<close>: the copy reads past the end of a block or follows the end of the chain. Otherwise
  whether every copy succeeded, and user memory.
\<close>

fun store_segs ::
  "'h msg_hdr_scheme \<Rightarrow> 'e msg_env_scheme \<Rightarrow> umem \<Rightarrow> addr \<Rightarrow> nat \<Rightarrow> (addr \<times> byte list) list \<Rightarrow> errno + bool \<times> umem" where
  "store_segs H E um dest len segs =
     (if len > 0 then
        (let alen = (if len > DATALEN_SEG H then DATALEN_SEG H else len)
         in case segs of
              [] \<Rightarrow> Inl KBUG
            | (_, bs) # segs' \<Rightarrow>
                if length bs < alen then Inl KBUG
                else (case copy_to_user E um dest (take alen bs) of
                        (False, um') \<Rightarrow> Inr (False, um')
                      | (True, um') \<Rightarrow> store_segs H E um' (dest + int alen) (len - alen) segs'))
      else Inr (True, um))"

declare store_segs.simps [simp del]

definition store_msg ::
  "'h msg_hdr_scheme \<Rightarrow> 'e msg_env_scheme \<Rightarrow> umem \<Rightarrow> addr \<Rightarrow> msg_msg \<Rightarrow> nat \<Rightarrow> errno + bool \<times> umem" where
  "store_msg H E um dest msg len =
     (let alen = (if len > DATALEN_MSG H then DATALEN_MSG H else len)
      in if length (m_text msg) < alen then Inl KBUG
         else (case copy_to_user E um dest (take alen (m_text msg)) of
                 (False, um') \<Rightarrow> Inr (False, um')
               | (True, um') \<Rightarrow> store_segs H E um' (dest + int alen) (len - alen) (m_segs msg)))"

subsection \<open>What the code relies on\<close>

definition msg_hdr_ok :: "'h msg_hdr_scheme \<Rightarrow> bool" where
  "msg_hdr_ok H \<longleftrightarrow> sizeof_msg_msg H < PAGE_SIZE H \<and> sizeof_msg_msgseg H < PAGE_SIZE H"

text \<open>Every allocation of a call returns a block that is not in use.\<close>

definition kmallocs_ok :: "'e msg_env_scheme \<Rightarrow> mblocks \<Rightarrow> bool" where
  "kmallocs_ok E mb \<longleftrightarrow>
     (\<forall>n sz a. kmallocs E n sz = Some a \<longrightarrow> mb a = None) \<and>
     (\<forall>n n' sz sz' a. kmallocs E n sz = Some a \<longrightarrow> kmallocs E n' sz' = Some a \<longrightarrow> n = n')"

text \<open>A copy that succeeds copies, and changes nothing else.\<close>

definition uaccess_ok :: "'e msg_env_scheme \<Rightarrow> bool" where
  "uaccess_ok E \<longleftrightarrow>
     (\<forall>um src n bs. copy_from_user E um src n = Some bs \<longrightarrow> bs = map (\<lambda>i. um (src + int i)) [0..<n]) \<and>
     (\<forall>um dest bs um'. copy_to_user E um dest bs = (True, um') \<longrightarrow>
        um' = (\<lambda>a. if dest \<le> a \<and> a < dest + int (length bs) then bs ! nat (a - dest) else um a))"

subsection \<open>Chunks\<close>

text \<open>The layout of a text of length \<open>n\<close> on the segments.\<close>

fun segs_wf :: "nat \<Rightarrow> nat \<Rightarrow> (addr \<times> byte list) list \<Rightarrow> bool" where
  "segs_wf d n [] = (n = 0)"
| "segs_wf d n ((a, bs) # segs) = (0 < n \<and> length bs = min n d \<and> segs_wf d (n - length bs) segs)"

definition msg_wf :: "'h msg_hdr_scheme \<Rightarrow> nat \<Rightarrow> msg_msg \<Rightarrow> bool" where
  "msg_wf H n msg \<longleftrightarrow>
     length (m_text msg) = min n (DATALEN_MSG H) \<and> segs_wf (DATALEN_SEG H) (n - length (m_text msg)) (m_segs msg)"

definition msg_bytes_of :: "msg_msg \<Rightarrow> byte list" where
  "msg_bytes_of msg = m_text msg @ concat (map snd (m_segs msg))"

lemma DATALEN_pos:
  assumes "msg_hdr_ok H"
  shows "0 < DATALEN_MSG H" and "0 < DATALEN_SEG H"
proof -
  have "0 < unat (a - b)" if "b < a" for a b :: ulong
    using that by (simp add: unat_sub order_less_imp_le word_less_nat_alt)
  then show "0 < DATALEN_MSG H" and "0 < DATALEN_SEG H"
    using assms by (simp_all add: msg_hdr_ok_def DATALEN_MSG_def DATALEN_SEG_def)
qed

lemma chunk_no_overflow:
  assumes "n \<le> unat (p - s)" and "s \<le> (p :: ulong)"
  shows "\<exists>z. l30_size_add_overflow s (of_nat n) = Some z"
proof -
  have lt: "unat w < 2 ^ 64" for w :: ulong
  proof -
    have "unat w < 2 ^ LENGTH(64)" by (rule unsigned_less)
    then show ?thesis by simp
  qed
  have n: "unat (of_nat n :: ulong) = n"
    using assms(1) lt [of "p - s"] by (simp add: unat_of_nat_fits)
  have "unat s + n \<le> unat p" using assms by (simp add: unat_sub word_le_nat_alt)
  then have "unat s + n < 2 ^ 64" using lt [of p] by simp
  then show ?thesis
    by (simp add: add_overflow_fits n size_fits_def)
qed

subsection \<open>Blocks\<close>

text \<open>\<open>grown mb mb' as\<close>: the blocks \<open>as\<close> have been allocated on top of \<open>mb\<close>.\<close>

definition grown :: "mblocks \<Rightarrow> mblocks \<Rightarrow> addr list \<Rightarrow> bool" where
  "grown mb mb' as \<longleftrightarrow>
     distinct as \<and> (\<forall>a\<in>set as. mb a = None \<and> mb' a \<noteq> None) \<and> (\<forall>a. a \<notin> set as \<longrightarrow> mb' a = mb a)"

lemma grown_Nil [simp]: "grown mb mb' [] \<longleftrightarrow> mb' = mb"
  by (auto simp: grown_def)

lemma grown_one: "mb a = None \<Longrightarrow> grown mb (mb(a \<mapsto> n)) [a]"
  by (simp add: grown_def)

lemma grown_append:
  assumes "grown mb mb1 as" and "grown mb1 mb2 bs"
  shows "grown mb mb2 (as @ bs)"
proof -
  have disj: "set as \<inter> set bs = {}" using assms by (auto simp: grown_def)
  have "mb a = None \<and> mb2 a \<noteq> None" if "a \<in> set (as @ bs)" for a
    using that assms disj unfolding grown_def by (cases "a \<in> set as") auto
  moreover have "mb2 a = mb a" if "a \<notin> set (as @ bs)" for a
    using that assms by (simp add: grown_def)
  ultimately show ?thesis using assms disj by (auto simp: grown_def)
qed

lemma kfree_all_restrict:
  "distinct as \<Longrightarrow> set as \<subseteq> dom mb \<Longrightarrow> kfree_all as mb = Some (mb |` (- set as))"
proof (induction as arbitrary: mb)
  case (Cons a as)
  have "kfree_all as (mb(a := None)) = Some ((mb(a := None)) |` (- set as))"
    by (rule Cons.IH) (use Cons.prems in auto)
  moreover have "(mb(a := None)) |` (- set as) = mb |` (- set (a # as))"
    by (auto simp: restrict_map_def)
  moreover have "mb a \<noteq> None" using Cons.prems by auto
  ultimately show ?case by simp
qed (simp add: restrict_map_def)

lemma grown_free:
  assumes "grown mb mb' as"
  shows "kfree_all as mb' = Some mb"
proof -
  have "kfree_all as mb' = Some (mb' |` (- set as))"
    using assms by (intro kfree_all_restrict) (auto simp: grown_def)
  moreover have "mb' |` (- set as) = mb"
    using assms by (auto simp: restrict_map_def grown_def fun_eq_iff)
  ultimately show ?thesis by simp
qed

subsection \<open>Loading\<close>

text \<open>Blocks as a multiset: what an owner gives back or gets.\<close>

lemma dom_mset_delete:
  assumes "finite (dom mb)" and "X + mset as = mset_set (dom mb)"
  shows "\<exists>mb'. kfree_all as mb = Some mb' \<and> X = mset_set (dom mb') \<and> finite (dom mb')"
proof -
  have sub: "mset as \<subseteq># mset_set (dom mb)" using assms(2) by (metis mset_subset_eq_add_right)
  have le: "count (mset as) a \<le> 1" for a
    by (rule order_trans [OF mset_subset_eq_count [OF sub]]) (simp add: count_mset_set')
  have "count (mset as) a = (if a \<in> set as then 1 else 0)" for a
  proof (cases "a \<in> set as")
    case True
    then have "0 < count (mset as) a" by (simp only: count_greater_zero_iff set_mset_mset)
    then have "count (mset as) a = 1" using le [of a] by linarith
    then show ?thesis using True by simp
  next
    case False
    then show ?thesis by (simp add: not_in_iff [symmetric])
  qed
  then have dist: "distinct as" by (simp add: distinct_count_atmost_1)
  have dom: "set as \<subseteq> dom mb"
    using set_mset_mono [OF sub] assms(1) by simp
  have "X = mset_set (dom mb) - mset as" using assms(2) by (metis add_diff_cancel_right')
  also have "mset as = mset_set (set as)" using dist by (simp add: mset_set_set)
  also have "mset_set (dom mb) - mset_set (set as) = mset_set (dom mb - set as)"
    using assms(1) dom by (simp add: mset_set_Diff)
  also have "dom mb - set as = dom (mb |` (- set as))" by auto
  finally show ?thesis using kfree_all_restrict [OF dist dom] assms(1) by auto
qed

lemma dom_mset_grown:
  assumes "grown mb mb' as" and "finite (dom mb)"
  shows "mset_set (dom mb') = mset_set (dom mb) + mset as" and "finite (dom mb')"
proof -
  have dom: "dom mb' = dom mb \<union> set as" and disj: "dom mb \<inter> set as = {}"
    using assms(1) by (auto simp: grown_def domIff)
  have "mset_set (dom mb') = mset_set (dom mb) + mset_set (set as)"
    using assms(2) disj by (simp add: dom mset_set_Union)
  also have "mset_set (set as) = mset as" using assms(1) by (simp add: grown_def mset_set_set)
  finally show "mset_set (dom mb') = mset_set (dom mb) + mset as" .
  show "finite (dom mb')" using assms(2) dom by simp
qed

lemma copy_from_userD:
  "uaccess_ok E \<Longrightarrow> copy_from_user E um src n = Some bs \<Longrightarrow> bs = map (\<lambda>i. um (src + int i)) [0..<n]"
  by (simp add: uaccess_ok_def)

lemma map_upt_split:
  assumes "k \<le> n"
  shows "map (\<lambda>i. f (src + int i)) [0..<n] =
    map (\<lambda>i. f (src + int i)) [0..<k] @ map (\<lambda>i. f (src + int k + int i)) [0..<n - k]"
proof -
  have "[0..<n] = [0..<k] @ [k..<n]" using assms upt_add_eq_append [of 0 k "n - k"] by simp
  moreover have "[k..<n] = map (\<lambda>i. i + k) [0..<n - k]" using assms by (simp add: map_add_upt)
  ultimately show ?thesis by (simp add: ac_simps)
qed

text \<open>The addresses the later allocations of a call will return are free.\<close>

definition fresh_from :: "'e msg_env_scheme \<Rightarrow> nat \<Rightarrow> mblocks \<Rightarrow> bool" where
  "fresh_from E n mb \<longleftrightarrow> (\<forall>k\<ge>n. \<forall>sz a. kmallocs E k sz = Some a \<longrightarrow> mb a = None)"

lemma fresh_next:
  assumes "kmallocs_ok E mb0" and "fresh_from E n mb" and "kmallocs E n sz = Some a"
  shows "mb a = None" and "fresh_from E (Suc n) (mb(a \<mapsto> k))"
proof -
  show "mb a = None" using assms by (auto simp: fresh_from_def)
  have "b \<noteq> a" if "kmallocs E j z = Some b" "Suc n \<le> j" for j z b
  proof
    assume "b = a"
    then have "j = n" using assms(1,3) that(1) unfolding kmallocs_ok_def by blast
    then show False using that(2) by simp
  qed
  then show "fresh_from E (Suc n) (mb(a \<mapsto> k))"
    using assms(2) unfolding fresh_from_def by (metis Suc_leD fun_upd_apply)
qed

lemma load_segs_spec:
  assumes H: "msg_hdr_ok H" and U: "uaccess_ok E" and K: "kmallocs_ok E mb0"
    and "fresh_from E n mb"
  shows "\<exists>err new mb'. load_segs H E um n src len segs mb = Some (err, segs @ new, mb') \<and>
     grown mb mb' (map fst new) \<and> err \<noteq> Some KBUG \<and>
     (err = None \<longrightarrow> segs_wf (DATALEN_SEG H) len new \<and>
        concat (map snd new) = map (\<lambda>i. um (src + int i)) [0..<len])"
  using assms(4)
proof (induction len arbitrary: n src segs mb rule: less_induct)
  case (less len)
  let ?d = "DATALEN_SEG H"
  have d: "0 < ?d" by (rule DATALEN_pos [OF H])
  show ?case
  proof (cases "len = 0")
    case True
    then show ?thesis by (subst load_segs.simps) simp
  next
    case False
    define alen where "alen = (if len > ?d then ?d else len)"
    have alen: "0 < alen" "alen \<le> len" "alen = min len ?d" "alen \<le> ?d"
      using False d by (auto simp: alen_def)
    obtain z where z: "l30_size_add_overflow (sizeof_msg_msgseg H) (of_nat alen) = Some z"
      using chunk_no_overflow [of alen "PAGE_SIZE H" "sizeof_msg_msgseg H"] alen(4) H
      by (auto simp: DATALEN_SEG_def msg_hdr_ok_def dest: order_less_imp_le)
    note unf = load_segs.simps [of H E um n src len segs mb, folded alen_def]
    show ?thesis
    proof (cases "kmallocs E n z")
      case None
      then show ?thesis using unf z False by (simp add: alen_def [symmetric])
    next
      case (Some a)
      note fr = fresh_next [OF K less.prems Some]
      have g1: "grown mb (mb(a \<mapsto> unat z)) [a]" by (rule grown_one) (rule fr(1))
      show ?thesis
      proof (cases "copy_from_user E um src alen")
        case None
        then show ?thesis
          using unf z False Some g1 by (intro exI [of _ "Some EFAULT"] exI [of _ "[(a, [])]"]) (simp add: alen_def [symmetric])
      next
        case copied: (Some bs)
        have bs: "bs = map (\<lambda>i. um (src + int i)) [0..<alen]" by (rule copy_from_userD [OF U copied])
        have lt: "len - alen < len" using alen by simp
        have fr2: "fresh_from E (n + 1) (mb(a \<mapsto> unat z))" using fr(2) [of "unat z"] by simp
        obtain err new mb' where IH:
          "load_segs H E um (n + 1) (src + int alen) (len - alen) (segs @ [(a, bs)]) (mb(a \<mapsto> unat z)) =
             Some (err, (segs @ [(a, bs)]) @ new, mb')"
          "grown (mb(a \<mapsto> unat z)) mb' (map fst new)" "err \<noteq> Some KBUG"
          "err = None \<Longrightarrow> segs_wf ?d (len - alen) new \<and>
             concat (map snd new) = map (\<lambda>i. um (src + int alen + int i)) [0..<len - alen]"
          using less.IH [OF lt fr2, where src = "src + int alen" and segs = "segs @ [(a, bs)]"] by blast
        have "load_segs H E um n src len segs mb = Some (err, segs @ ((a, bs) # new), mb')"
          using unf z False Some copied IH(1) by (simp add: alen_def [symmetric])
        moreover have "grown mb mb' (map fst ((a, bs) # new))"
          using grown_append [OF g1 IH(2)] by simp
        moreover have "err = None \<Longrightarrow> segs_wf ?d len ((a, bs) # new) \<and>
          concat (map snd ((a, bs) # new)) = map (\<lambda>i. um (src + int i)) [0..<len]"
          using IH(4) False alen bs map_upt_split [OF alen(2), of um src] by simp
        ultimately show ?thesis using IH(3) by blast
      qed
    qed
  qed
qed

lemma load_msg_spec:
  assumes H: "msg_hdr_ok H" and U: "uaccess_ok E" and K: "kmallocs_ok E mb"
    and lsm: "security_msg_msg_alloc E \<noteq> Some KBUG"
  shows "(\<exists>err. load_msg H E um src len mb = Some (Inl err, mb) \<and> err \<noteq> KBUG) \<or>
    (\<exists>m mb'. load_msg H E um src len mb = Some (Inr m, mb') \<and> 0 \<le> len \<and>
       grown mb mb' (msg_addrs m) \<and> msg_wf H (nat len) m \<and>
       msg_bytes_of m = map (\<lambda>i. um (src + int i)) [0..<nat len])"
proof (cases "len < 0")
  case True
  then show ?thesis by (simp add: load_msg_def)
next
  case False
  let ?d = "DATALEN_MSG H" and ?len = "nat len"
  define alen where "alen = (if ?len > ?d then ?d else ?len)"
  have alen: "alen \<le> ?len" "alen = min ?len ?d" "alen \<le> ?d" by (auto simp: alen_def)
  obtain z where z: "l30_size_add_overflow (sizeof_msg_msg H) (of_nat alen) = Some z"
    using chunk_no_overflow [of alen "PAGE_SIZE H" "sizeof_msg_msg H"] alen(3) H
    by (auto simp: DATALEN_MSG_def msg_hdr_ok_def dest: order_less_imp_le)
  note unf = load_msg_def [of H E um src len mb, folded alen_def]
  show ?thesis
  proof (cases "kmallocs E 0 z")
    case None
    then show ?thesis using unf z False by (simp add: Let_def alen_def [symmetric])
  next
    case (Some a)
    have "fresh_from E 0 mb" using K by (auto simp: fresh_from_def kmallocs_ok_def)
    note fr = fresh_next [OF K this Some]
    have g1: "grown mb (mb(a \<mapsto> unat z)) [a]" by (rule grown_one) (rule fr(1))
    show ?thesis
    proof (cases "copy_from_user E um src alen")
      case None
      then show ?thesis
        using unf z False Some grown_free [OF g1]
        by (simp add: Let_def alen_def [symmetric] free_msg_def msg_addrs_def)
    next
      case copied: (Some bs)
      have bs: "bs = map (\<lambda>i. um (src + int i)) [0..<alen]" by (rule copy_from_userD [OF U copied])
      have fr2: "fresh_from E 1 (mb(a \<mapsto> unat z))" using fr(2) [of "unat z"] by simp
      obtain err new mb' where S:
        "load_segs H E um 1 (src + int alen) (?len - alen) [] (mb(a \<mapsto> unat z)) = Some (err, new, mb')"
        "grown (mb(a \<mapsto> unat z)) mb' (map fst new)" "err \<noteq> Some KBUG"
        "err = None \<Longrightarrow> segs_wf (DATALEN_SEG H) (?len - alen) new \<and>
           concat (map snd new) = map (\<lambda>i. um (src + int alen + int i)) [0..<?len - alen]"
        using load_segs_spec [OF H U K fr2, where um = um and src = "src + int alen"
            and len = "?len - alen" and segs = "[]"]
        unfolding append_Nil by blast
      define m where "m = \<lparr>m_type = 0, m_ts = 0, m_addr = a, m_text = bs, m_segs = new\<rparr>"
      have g: "grown mb mb' (msg_addrs m)"
        using grown_append [OF g1 S(2)] by (simp add: m_def msg_addrs_def)
      then have fm: "free_msg m mb' = Some mb" by (simp add: free_msg_def grown_free)
      have fin: "msg_wf H ?len m \<and> msg_bytes_of m = map (\<lambda>i. um (src + int i)) [0..<?len]" if "err = None"
        using S(4) [OF that] alen bs map_upt_split [OF alen(1), of um src]
        by (simp add: m_def msg_wf_def msg_bytes_of_def)
      have L: "load_msg H E um src len mb =
        (case err of
           Some e \<Rightarrow> Some (Inl e, mb)
         | None \<Rightarrow> (case security_msg_msg_alloc E of Some e \<Rightarrow> Some (Inl e, mb) | None \<Rightarrow> Some (Inr m, mb')))"
        using unf z False Some copied S(1) fm [unfolded m_def]
        by (simp add: Let_def alen_def [symmetric] m_def split: option.split)
      show ?thesis
        using L S(3) lsm fin g False by (cases err; cases "security_msg_msg_alloc E") auto
    qed
  qed
qed

subsection \<open>Storing\<close>

definition overwrite :: "umem \<Rightarrow> addr \<Rightarrow> byte list \<Rightarrow> umem" where
  "overwrite um dest bs = (\<lambda>a. if dest \<le> a \<and> a < dest + int (length bs) then bs ! nat (a - dest) else um a)"

lemma overwrite_Nil [simp]: "overwrite um dest [] = um"
  by (auto simp: overwrite_def fun_eq_iff)

lemma overwrite_append:
  "overwrite (overwrite um dest xs) (dest + int (length xs)) ys = overwrite um dest (xs @ ys)"
proof
  fix a
  have "nat (a - dest) - length xs = nat (a - (dest + int (length xs)))" by arith
  then show "overwrite (overwrite um dest xs) (dest + int (length xs)) ys a = overwrite um dest (xs @ ys) a"
    by (auto simp: overwrite_def nth_append nat_less_iff)
qed

lemma copy_to_userD:
  "uaccess_ok E \<Longrightarrow> copy_to_user E um dest bs = (True, um') \<Longrightarrow> um' = overwrite um dest bs"
  by (simp add: uaccess_ok_def overwrite_def)

lemma store_segs_spec:
  assumes U: "uaccess_ok E" and d: "0 < DATALEN_SEG H"
    and "segs_wf (DATALEN_SEG H) n segs" and "len \<le> n"
  shows "\<exists>ok um'. store_segs H E um dest len segs = Inr (ok, um') \<and>
    (ok \<longrightarrow> um' = overwrite um dest (take len (concat (map snd segs))))"
  using assms(3,4)
proof (induction segs arbitrary: n len um dest)
  case Nil
  then show ?case by (intro exI [of _ True] exI [of _ um]) (simp add: store_segs.simps)
next
  case (Cons seg segs)
  obtain a bs where seg: "seg = (a, bs)" by (cases seg)
  let ?d = "DATALEN_SEG H"
  show ?case
  proof (cases "len = 0")
    case True
    then show ?thesis by (intro exI [of _ True] exI [of _ um]) (simp add: store_segs.simps)
  next
    case False
    define alen where "alen = (if len > ?d then ?d else len)"
    have wf: "length bs = min n ?d" "segs_wf ?d (n - length bs) segs"
      using Cons.prems unfolding seg segs_wf.simps by blast+
    have alen: "alen \<le> length bs" using wf(1) Cons.prems(2) by (simp add: alen_def)
    obtain c um1 where c: "copy_to_user E um dest (take alen bs) = (c, um1)" by fastforce
    note unf = store_segs.simps [of H E um dest len "seg # segs", folded alen_def]
    show ?thesis
    proof (cases c)
      case False
      then show ?thesis
        using unf c alen \<open>len \<noteq> 0\<close>
        by (intro exI [of _ False] exI [of _ um1]) (simp add: seg alen_def [symmetric])
    next
      case True
      have um1: "um1 = overwrite um dest (take alen bs)" using copy_to_userD [OF U] c True by simp
      have "len - alen \<le> n - length bs \<or> len - alen = 0"
        using wf(1) Cons.prems(2) by (auto simp: alen_def min_def)
      then obtain ok um' where rest: "store_segs H E um1 (dest + int alen) (len - alen) segs = Inr (ok, um')"
        "ok \<longrightarrow> um' = overwrite um1 (dest + int alen) (take (len - alen) (concat (map snd segs)))"
        using Cons.IH [OF wf(2), of "len - alen" um1 "dest + int alen"]
        by (auto simp: store_segs.simps [where len = 0])
      have "take alen bs @ take (len - alen) (concat (map snd segs)) = take len (bs @ concat (map snd segs))"
        using alen wf(1) Cons.prems(2) by (auto simp: alen_def min_def split: if_splits)
      then have "ok \<longrightarrow> um' = overwrite um dest (take len (concat (map snd (seg # segs))))"
        using rest(2) um1 alen overwrite_append [of um dest "take alen bs"] by (simp add: seg)
      moreover have "store_segs H E um dest len (seg # segs) = Inr (ok, um')"
        using unf c True alen rest(1) \<open>len \<noteq> 0\<close> by (simp add: seg alen_def [symmetric])
      ultimately show ?thesis by blast
    qed
  qed
qed

lemma store_msg_spec:
  assumes H: "msg_hdr_ok H" and U: "uaccess_ok E" and wf: "msg_wf H n m" and le: "len \<le> n"
  shows "\<exists>ok um'. store_msg H E um dest m len = Inr (ok, um') \<and>
    (ok \<longrightarrow> um' = overwrite um dest (take len (msg_bytes_of m)))"
proof -
  let ?d = "DATALEN_MSG H"
  define alen where "alen = (if len > ?d then ?d else len)"
  have lt: "length (m_text m) = min n ?d" "segs_wf (DATALEN_SEG H) (n - length (m_text m)) (m_segs m)"
    using wf unfolding msg_wf_def by blast+
  have alen: "alen \<le> length (m_text m)" using lt(1) le by (simp add: alen_def)
  obtain c um1 where c: "copy_to_user E um dest (take alen (m_text m)) = (c, um1)" by fastforce
  note unf = store_msg_def [of H E um dest m len, folded alen_def]
  show ?thesis
  proof (cases c)
    case False
    then show ?thesis
      using unf c alen by (intro exI [of _ False] exI [of _ um1]) (simp add: alen_def [symmetric])
  next
    case True
    have um1: "um1 = overwrite um dest (take alen (m_text m))" using copy_to_userD [OF U] c True by simp
    have "len - alen \<le> n - length (m_text m) \<or> len - alen = 0"
      using lt(1) le by (auto simp: alen_def min_def)
    then obtain ok um' where rest: "store_segs H E um1 (dest + int alen) (len - alen) (m_segs m) = Inr (ok, um')"
      "ok \<longrightarrow> um' = overwrite um1 (dest + int alen) (take (len - alen) (concat (map snd (m_segs m))))"
      using store_segs_spec [OF U DATALEN_pos(2) [OF H] lt(2), of "len - alen" um1 "dest + int alen"]
      by (auto simp: store_segs.simps [where len = 0])
    have "take alen (m_text m) @ take (len - alen) (concat (map snd (m_segs m))) = take len (msg_bytes_of m)"
      using alen lt(1) le by (auto simp: alen_def min_def msg_bytes_of_def split: if_splits)
    then have "ok \<longrightarrow> um' = overwrite um dest (take len (msg_bytes_of m))"
      using rest(2) um1 alen overwrite_append [of um dest "take alen (m_text m)"] by simp
    moreover have "store_msg H E um dest m len = Inr (ok, um')"
      using unf c True alen rest(1) by (simp add: alen_def [symmetric])
    ultimately show ?thesis by blast
  qed
qed

subsection \<open>Properties\<close>

definition example_msg_hdr :: msg_hdr where
  "example_msg_hdr =
     \<lparr>PAGE_SIZE = 64, sizeof_rcu_hdr = 8, sizeof_rcu_grace = 16, sizeof_rcu_sched = 32,
      IPCMNI = 32768, IPC_CREAT = 512, IPC_EXCL = 1024, IPC_NOWAIT = 2048, IPC_64_bit = 256,
      S_IRWXUGO = 511, S_IRUGO = 292, S_IWUGO = 146, high2lowuid = ucast, high2lowgid = ucast,
      sizeof_msg_msg = 62, sizeof_msg_msgseg = 61\<rparr>"

definition example_copy_to :: "umem \<Rightarrow> addr \<Rightarrow> byte list \<Rightarrow> bool \<times> umem" where
  "example_copy_to um dest bs = (True, overwrite um dest bs)"

definition example_msg_env :: msg_env where
  "example_msg_env =
     \<lparr>kmalloc = (\<lambda>n. Some 65536), vmalloc = (\<lambda>n. Some 1048576),
      current = 7, current_tgid = 7, current_euid = 1000, current_egid = 100,
      in_group_p = (\<lambda>g. g = 100), ns_capable = (\<lambda>c. False), get_seconds = 1300000000,
      idr_pre_get = True, idr_get_new = first_free 3 0, security_ipc_permission = (\<lambda>q f. None),
      kmallocs = (\<lambda>n sz. Some (4096 * int n)),
      copy_from_user = (\<lambda>um src n. Some (map (\<lambda>i. um (src + int i)) [0..<n])),
      copy_to_user = example_copy_to,
      security_msg_msg_alloc = None\<rparr>"

lemma example_msg_ok:
  "msg_hdr_ok example_msg_hdr" "uaccess_ok example_msg_env" "kmallocs_ok example_msg_env Map.empty"
  "security_msg_msg_alloc example_msg_env \<noteq> Some KBUG"
  by (auto simp: msg_hdr_ok_def example_msg_hdr_def uaccess_ok_def example_msg_env_def kmallocs_ok_def
      example_copy_to_def overwrite_def)

text \<open>
  C31. \<^verbatim>\<open>load_msg\<close> always returns. When it fails, every block it had allocated is freed again; when it
  succeeds, \<^verbatim>\<open>free_msg\<close> frees exactly the blocks it has allocated, each once.
\<close>

theorem load_msg_no_leak:
  assumes "msg_hdr_ok H" and "uaccess_ok E" and "kmallocs_ok E mb" and "security_msg_msg_alloc E \<noteq> Some KBUG"
  shows "\<exists>r mb'. load_msg H E um src len mb = Some (r, mb') \<and>
    (case r of Inl err \<Rightarrow> mb' = mb \<and> err \<noteq> KBUG | Inr m \<Rightarrow> free_msg m mb' = Some mb)"
  using load_msg_spec [OF assms, of um src len] by (auto simp: free_msg_def grown_free)

lemma example_load:
  "load_msg example_msg_hdr example_msg_env um 100 4 Map.empty =
     Some (Inr \<lparr>m_type = 0, m_ts = 0, m_addr = 0, m_text = [um 100, um 101], m_segs = [(4096, [um 102, um 103])]\<rparr>,
       [0 \<mapsto> 64, 4096 \<mapsto> 63])"
proof -
  have "DATALEN_MSG example_msg_hdr = 2" "DATALEN_SEG example_msg_hdr = 3"
    by (simp_all add: DATALEN_MSG_def DATALEN_SEG_def example_msg_hdr_def)
  moreover have "[0..<2] = [0, Suc 0]" by (simp add: upt_rec)
  ultimately show ?thesis
    by (simp add: load_msg_def load_segs.simps example_msg_env_def Let_def example_msg_hdr_def
        l30_size_add_overflow_def word_less_nat_alt unsigned_minus_1_eq_mask)
qed

theorem load_msg_no_leak_witness:
  "\<exists>m mb'. load_msg example_msg_hdr example_msg_env (\<lambda>a. of_int a) 100 4 Map.empty = Some (Inr m, mb') \<and>
     free_msg m mb' = Some Map.empty"
  using load_msg_no_leak [OF example_msg_ok, of "\<lambda>a. of_int a" 100 4] by (simp add: example_load)

text \<open>
  C30. A message that \<^verbatim>\<open>load_msg\<close> has copied in can be copied out by \<^verbatim>\<open>store_msg\<close> up to its length
  without reading outside its blocks, whatever the segments; a copy that does not fault puts the
  bytes the sender had in user memory at the destination and changes nothing else.
\<close>

theorem load_store_roundtrip:
  assumes "msg_hdr_ok H" and "uaccess_ok E" and "kmallocs_ok E mb" and "security_msg_msg_alloc E \<noteq> Some KBUG"
    and "load_msg H E um src len mb = Some (Inr m, mb')" and "uaccess_ok E'" and "int n \<le> len"
  shows "\<exists>ok um2. store_msg H E' um1 dest m n = Inr (ok, um2) \<and>
    (ok \<longrightarrow> (\<forall>i<n. um2 (dest + int i) = um (src + int i)) \<and>
             (\<forall>a. a < dest \<or> dest + int n \<le> a \<longrightarrow> um2 a = um1 a))"
proof -
  have m: "msg_wf H (nat len) m" "msg_bytes_of m = map (\<lambda>i. um (src + int i)) [0..<nat len]"
    using load_msg_spec [OF assms(1-4), of um src len] assms(5) by auto
  have len: "n \<le> nat len" using assms(7) by simp
  obtain ok um2 where s: "store_msg H E' um1 dest m n = Inr (ok, um2)"
    "ok \<longrightarrow> um2 = overwrite um1 dest (take n (msg_bytes_of m))"
    using store_msg_spec [OF assms(1,6) m(1) len] by blast
  have "take n (msg_bytes_of m) = map (\<lambda>i. um (src + int i)) [0..<n]"
    using len by (simp add: m(2) take_map min_def)
  then show ?thesis using s by (auto simp: overwrite_def)
qed

theorem load_store_roundtrip_witness:
  "\<exists>m mb' ok um2.
     load_msg example_msg_hdr example_msg_env (\<lambda>a. of_int a) 100 4 Map.empty = Some (Inr m, mb') \<and>
     store_msg example_msg_hdr example_msg_env (\<lambda>a. 0) 500 m 3 = Inr (ok, um2)"
  using load_store_roundtrip [OF example_msg_ok example_load example_msg_ok(2), where n = 3
      and um = "\<lambda>a. of_int a" and ?um1.0 = "\<lambda>a. 0" and dest = 500]
  by (simp add: example_load) blast

end
