(* ===== verification/Ipc_Msg.thy ===== *)
theory Ipc_Msg
  imports Msg_Util
begin

text \<open>
  \<^verbatim>\<open>ipc/msg.c\<close>: System V message queues.

  A namespace is a \<open>msg_ns\<close>: the limits and counters of \<^verbatim>\<open>struct ipc_namespace\<close>, the identifier
  table, the queues by address, the reference counts (\<open>mem\<close>), the blocks that hold messages and
  the tasks that sleep in \<^verbatim>\<open>msgsnd\<close> or \<^verbatim>\<open>msgrcv\<close>. The \<^verbatim>\<open>struct msg_sender\<close> and
  \<^verbatim>\<open>struct msg_receiver\<close> of a sleeping task live on its kernel stack; here they are in the frame of
  the task, and the wait queues hold tasks. A call runs until it returns or sleeps; a sleeping task
  goes on with \<open>resume_snd\<close> or \<open>resume_rcv\<close>. Everything between taking and dropping the lock of a
  queue is one step, so the transient \<^verbatim>\<open>NULL\<close> that \<^verbatim>\<open>pipelined_send\<close> and \<^verbatim>\<open>expunge_all\<close> leave in
  \<^verbatim>\<open>r_msg\<close> while they wake the receiver is not visible.
\<close>

subsection \<open>State\<close>

datatype search_mode = SEARCH_ANY | SEARCH_EQUAL | SEARCH_NOTEQUAL | SEARCH_LESSEQUAL

text \<open>The pointer \<^verbatim>\<open>r_msg\<close>: an \<^verbatim>\<open>ERR_PTR\<close>, \<^verbatim>\<open>-EAGAIN\<close> while there is no answer, or a message.\<close>

datatype r_msg = R_ERR errno | R_MSG msg_msg

record rcv_frame =
  fr_msq :: addr
  fr_mode :: search_mode
  fr_msgtype :: int
  fr_maxsize :: int
  fr_msg :: r_msg
  fr_msgsz :: ulong
  fr_flg :: flags
  fr_dest :: addr

record snd_frame =
  fs_msq :: addr
  fs_msg :: msg_msg
  fs_msgsz :: ulong
  fs_flg :: flags
  fs_linked :: bool

record msg_queue =
  q_perm :: kern_ipc_perm
  q_stime :: int
  q_rtime :: int
  q_ctime :: int
  q_cbytes :: ulong
  q_qnum :: ulong
  q_qbytes :: ulong
  q_lspid :: int
  q_lrpid :: int
  q_messages :: "msg_msg list"
  q_receivers :: "task list"
  q_senders :: "task list"

record msg_ns =
  msg_ctlmax :: ulong
  msg_ctlmnb :: ulong
  msg_ctlmni :: int
  msg_bytes :: "32 word"
  msg_hdrs :: "32 word"
  msg_ids :: ipc_ids
  queues :: "addr \<rightharpoonup> msg_queue"
  mem :: ipc_mem
  mblocks :: mblocks
  snds :: "task \<rightharpoonup> snd_frame"
  rcvs :: "task \<rightharpoonup> rcv_frame"
  asleep :: "task set"

datatype msg_cmd = MSG_STAT | MSG_INFO

record msgq_hdr = msg_hdr +
  sizeof_msg_queue :: ulong
  MSG_NOERROR :: flags
  MSG_EXCEPT :: flags
  MSG_MEM_SCALE :: ulong
  MSGMNI :: ulong
  MSGMAX :: ulong
  MSGMNB :: ulong
  MSGSSZ :: int
  MSGSEG :: int
  MSGMAP :: int
  MSGPOOL :: int
  MSGTQL :: int
  msg_decode :: "flags \<Rightarrow> msg_cmd ipc_cmd"

record msqid64_ds =
  msg_perm :: ipc64_perm
  msg_stime :: int
  msg_rtime :: int
  msg_ctime :: int
  msg_cbytes :: ulong
  msg_qnum :: ulong
  msg_qbytes :: ulong
  msg_lspid :: int
  msg_lrpid :: int

record msqid_ds =
  old_perm :: ipc_perm_old
  old_stime :: int
  old_rtime :: int
  old_ctime :: int
  old_cbytes :: "16 word"
  old_lcbytes :: ulong
  old_qnum :: "16 word"
  old_qbytes :: "16 word"
  old_lqbytes :: ulong
  old_lspid :: int
  old_lrpid :: int

record msginfo =
  msgpool :: int
  msgmap :: int
  msgmax :: int
  msgmnb :: int
  msgmni :: int
  msgssz :: int
  msgtql :: int
  msgseg :: int

datatype msg_out = NoOut | OutInfo msginfo | Out64 msqid64_ds | OutOld msqid_ds

record msgq_env = msg_env +
  capable :: "capability \<Rightarrow> bool"
  signal_pending :: bool
  task_pid_vnr :: "task \<Rightarrow> int"
  security_msg_queue_alloc :: "errno option"
  security_msg_queue_associate :: "msg_queue \<Rightarrow> flags \<Rightarrow> errno option"
  security_msg_queue_msgctl :: "msg_queue option \<Rightarrow> msg_cmd ipc_cmd \<Rightarrow> errno option"
  security_msg_queue_msgsnd :: "msg_queue \<Rightarrow> msg_msg \<Rightarrow> flags \<Rightarrow> errno option"
  security_msg_queue_msgrcv :: "msg_queue \<Rightarrow> msg_msg \<Rightarrow> task \<Rightarrow> int \<Rightarrow> search_mode \<Rightarrow> errno option"
  user_msqid64 :: "msqid64_ds option"
  user_msqid :: "msqid_ds option"
  struct_copy_ok :: bool
  user_mtype :: "int option"
  put_user_ok :: bool

text \<open>What \<^verbatim>\<open>si_meminfo\<close> reports.\<close>

record sysinfo =
  totalram :: ulong
  totalhigh :: ulong
  mem_unit :: ulong

subsection \<open>Namespaces\<close>

definition recompute_msgmni :: "'h msgq_hdr_scheme \<Rightarrow> sysinfo \<Rightarrow> int \<Rightarrow> msg_ns \<Rightarrow> msg_ns" where
  "recompute_msgmni K i nb_ns ns =
     (let allowed = (((totalram i - totalhigh i) div MSG_MEM_SCALE K) * mem_unit i) div MSGMNB K;
          allowed = allowed div word_of_int nb_ns
      in if allowed < MSGMNI K then ns\<lparr>msg_ctlmni := c_int (uint (MSGMNI K))\<rparr>
         else if allowed > word_of_int (int (IPCMNI K) div nb_ns)
              then ns\<lparr>msg_ctlmni := int (IPCMNI K) div nb_ns\<rparr>
         else ns\<lparr>msg_ctlmni := c_int (uint allowed)\<rparr>)"

definition msg_init_ns :: "'h msgq_hdr_scheme \<Rightarrow> sysinfo \<Rightarrow> int \<Rightarrow> msg_ns \<Rightarrow> msg_ns" where
  "msg_init_ns K i nb_ns ns =
     (recompute_msgmni K i nb_ns (ns\<lparr>msg_ctlmax := MSGMAX K, msg_ctlmnb := MSGMNB K\<rparr>))
       \<lparr>msg_bytes := 0, msg_hdrs := 0, msg_ids := ipc_init_ids K\<rparr>"

definition msg_perms :: "msg_ns \<Rightarrow> perms" where
  "msg_perms ns = (\<lambda>p. map_option q_perm (queues ns p))"

definition msg_lock :: "'h msgq_hdr_scheme \<Rightarrow> msg_ns \<Rightarrow> int \<Rightarrow> errno + addr" where
  "msg_lock K ns x = ipc_lock K (msg_ids ns) (msg_perms ns) x"

definition msg_lock_check :: "'h msgq_hdr_scheme \<Rightarrow> msg_ns \<Rightarrow> int \<Rightarrow> errno + addr" where
  "msg_lock_check K ns x = ipc_lock_check K (msg_ids ns) (msg_perms ns) x"

definition set_queue :: "addr \<Rightarrow> msg_queue \<Rightarrow> msg_ns \<Rightarrow> msg_ns" where
  "set_queue p q ns = ns\<lparr>queues := (queues ns)(p \<mapsto> q)\<rparr>"

text \<open>\<^verbatim>\<open>msg_rmid\<close> marks the queue and takes it out of the table.\<close>

definition msg_rmid :: "'h msgq_hdr_scheme \<Rightarrow> addr \<Rightarrow> msg_queue \<Rightarrow> msg_ns \<Rightarrow> msg_ns" where
  "msg_rmid K p msq ns =
     (case ipc_rmid K (msg_ids ns) (q_perm msq) of
        (ids, perm) \<Rightarrow> set_queue p (msq\<lparr>q_perm := perm\<rparr>) (ns\<lparr>msg_ids := ids\<rparr>))"

text \<open>Dropping a reference; the last one makes the queue go away at the end of the grace period.\<close>

definition msq_putref :: "'h msgq_hdr_scheme \<Rightarrow> addr \<Rightarrow> msg_ns \<Rightarrow> msg_ns option" where
  "msq_putref K p ns =
     (case ipc_rcu_putref K p (mem ns) of
        None \<Rightarrow> None
      | Some m \<Rightarrow>
          Some (ns\<lparr>mem := m,
                   queues := (if hdrs m (container_hdr K p) = None then (queues ns)(p := None)
                              else queues ns)\<rparr>))"

subsection \<open>Creating queues\<close>

definition newque ::
  "'h msgq_hdr_scheme \<Rightarrow> 'e msgq_env_scheme \<Rightarrow> ipc_params \<Rightarrow> msg_ns \<Rightarrow> (errno + int) \<times> msg_ns" where
  "newque K E params ns =
     (case ipc_rcu_alloc K E (sizeof_msg_queue K) (mem ns) of
        (None, m) \<Rightarrow> (Inl ENOMEM, ns)
      | (Some msq, m) \<Rightarrow>
          (let fail = (\<lambda>err. case ipc_rcu_putref K msq m of
                               None \<Rightarrow> (Inl KBUG, ns\<lparr>mem := m\<rparr>)
                             | Some m' \<Rightarrow> (Inl err, ns\<lparr>mem := m'\<rparr>));
               perm = new_perm (par_key params) (par_flg params AND S_IRWXUGO K)
           in case security_msg_queue_alloc E of
                Some retval \<Rightarrow> fail retval
              | None \<Rightarrow>
                  (case ipc_addid K E (msg_ids ns) msq perm (msg_ctlmni ns) of
                     (Inl err, ids, perm') \<Rightarrow> fail err
                   | (Inr i, ids, perm') \<Rightarrow>
                       (Inr (p_id perm'),
                        set_queue msq
                          \<lparr>q_perm = perm', q_stime = 0, q_rtime = 0, q_ctime = get_seconds E,
                           q_cbytes = 0, q_qnum = 0, q_qbytes = msg_ctlmnb ns, q_lspid = 0, q_lrpid = 0,
                           q_messages = [], q_receivers = [], q_senders = []\<rparr>
                          (ns\<lparr>mem := m, msg_ids := ids\<rparr>)))))"

definition msg_security :: "'e msgq_env_scheme \<Rightarrow> addr \<Rightarrow> flags \<Rightarrow> msg_ns \<Rightarrow> errno option" where
  "msg_security E p msgflg ns =
     (case queues ns p of
        None \<Rightarrow> Some KBUG
      | Some msq \<Rightarrow> security_msg_queue_associate E msq msgflg)"

definition msg_ops :: "'h msgq_hdr_scheme \<Rightarrow> (msg_ns, 'e msgq_env_scheme) ipc_ops" where
  "msg_ops K =
     \<lparr>ns_ids = msg_ids, ns_perms = msg_perms, getnew = newque K, associate = msg_security,
      more_checks = (\<lambda>E p params ns. None)\<rparr>"

definition msgget ::
  "'h msgq_hdr_scheme \<Rightarrow> int \<Rightarrow> flags \<Rightarrow> 'e msgq_env_scheme list \<Rightarrow> msg_ns \<Rightarrow> ((errno + int) \<times> msg_ns) option" where
  "msgget K key msgflg Es ns =
     ipcget K (msg_ops K) \<lparr>par_key = key, par_flg = msgflg, par_size = 0, par_nsems = 0\<rparr> Es ns"

subsection \<open>Wait queues\<close>

definition wake_up_process :: "task \<Rightarrow> msg_ns \<Rightarrow> msg_ns" where
  "wake_up_process t ns = ns\<lparr>asleep := asleep ns - {t}\<rparr>"

definition ss_add :: "task \<Rightarrow> addr \<Rightarrow> msg_queue \<Rightarrow> msg_ns \<Rightarrow> msg_ns" where
  "ss_add t p msq ns =
     set_queue p (msq\<lparr>q_senders := q_senders msq @ [t]\<rparr>) (ns\<lparr>asleep := insert t (asleep ns)\<rparr>)"

definition ss_del :: "task \<Rightarrow> snd_frame \<Rightarrow> msg_queue \<Rightarrow> msg_queue" where
  "ss_del t mss msq = (if fs_linked mss then msq\<lparr>q_senders := remove1 t (q_senders msq)\<rparr> else msq)"

fun ss_wakeup :: "task list \<Rightarrow> bool \<Rightarrow> msg_ns \<Rightarrow> msg_ns" where
  "ss_wakeup [] kill ns = ns"
| "ss_wakeup (t # ts) kill ns =
     ss_wakeup ts kill
       (wake_up_process t
         (if kill then ns\<lparr>snds := (snds ns)(t := map_option (fs_linked_update (\<lambda>_. False)) (snds ns t))\<rparr>
          else ns))"

fun expunge_all :: "task list \<Rightarrow> errno \<Rightarrow> msg_ns \<Rightarrow> msg_ns" where
  "expunge_all [] res ns = ns"
| "expunge_all (t # ts) res ns =
     expunge_all ts res
       (wake_up_process t
         (ns\<lparr>rcvs := (rcvs ns)(t := map_option (fr_msg_update (\<lambda>_. R_ERR res)) (rcvs ns t))\<rparr>))"

subsection \<open>Removing queues\<close>

fun free_messages :: "msg_msg list \<Rightarrow> msg_ns \<Rightarrow> msg_ns option" where
  "free_messages [] ns = Some ns"
| "free_messages (msg # msgs) ns =
     (case free_msg msg (mblocks ns) of
        None \<Rightarrow> None
      | Some mb \<Rightarrow> free_messages msgs (ns\<lparr>msg_hdrs := msg_hdrs ns - 1, mblocks := mb\<rparr>))"

definition freeque :: "'h msgq_hdr_scheme \<Rightarrow> addr \<Rightarrow> msg_ns \<Rightarrow> msg_ns option" where
  "freeque K p ns =
     (case queues ns p of
        None \<Rightarrow> None
      | Some msq \<Rightarrow>
          (let ns = expunge_all (q_receivers msq) EIDRM ns;
               ns = ss_wakeup (q_senders msq) True ns;
               ns = msg_rmid K p msq ns
           in case free_messages (q_messages msq) ns of
                None \<Rightarrow> None
              | Some ns \<Rightarrow> msq_putref K p (ns\<lparr>msg_bytes := msg_bytes ns - ucast (q_cbytes msq)\<rparr>)))"

subsection \<open>Control\<close>

definition cap_ushort :: "ulong \<Rightarrow> 16 word" where
  "cap_ushort n = (if uint n > USHRT_MAX then word_of_int USHRT_MAX else ucast n)"

definition copy_msqid_to_user :: "'h msgq_hdr_scheme \<Rightarrow> msqid64_ds \<Rightarrow> ipc_version \<Rightarrow> msg_out" where
  "copy_msqid_to_user K inp version =
     (case version of
        IPC_64 \<Rightarrow> Out64 inp
      | IPC_OLD \<Rightarrow>
          OutOld \<lparr>old_perm = ipc64_perm_to_ipc_perm K (msg_perm inp),
                  old_stime = msg_stime inp, old_rtime = msg_rtime inp, old_ctime = msg_ctime inp,
                  old_cbytes = cap_ushort (msg_cbytes inp), old_lcbytes = msg_cbytes inp,
                  old_qnum = cap_ushort (msg_qnum inp),
                  old_qbytes = cap_ushort (msg_qbytes inp), old_lqbytes = msg_qbytes inp,
                  old_lspid = msg_lspid inp, old_lrpid = msg_lrpid inp\<rparr>)"

text \<open>Of the result only the owner, the mode and the size are used.\<close>

definition copy_msqid_from_user :: "'e msgq_env_scheme \<Rightarrow> ipc_version \<Rightarrow> errno + ipc64_perm \<times> ulong" where
  "copy_msqid_from_user E version =
     (case version of
        IPC_64 \<Rightarrow>
          (case user_msqid64 E of None \<Rightarrow> Inl EFAULT | Some b \<Rightarrow> Inr (msg_perm b, msg_qbytes b))
      | IPC_OLD \<Rightarrow>
          (case user_msqid E of
             None \<Rightarrow> Inl EFAULT
           | Some b \<Rightarrow>
               Inr (\<lparr>i_key = 0, i_uid = ucast (o_uid (old_perm b)), i_gid = ucast (o_gid (old_perm b)),
                     i_cuid = 0, i_cgid = 0, i_mode = o_mode (old_perm b), i_seq = 0\<rparr>,
                    if old_qbytes b = 0 then old_lqbytes b else ucast (old_qbytes b))))"

definition msgctl_set ::
  "'h msgq_hdr_scheme \<Rightarrow> 'e msgq_env_scheme \<Rightarrow> addr \<Rightarrow> msg_queue \<Rightarrow> ipc64_perm \<Rightarrow> ulong \<Rightarrow> msg_ns \<Rightarrow>
   (errno + int) \<times> msg_ns" where
  "msgctl_set K E p msq perm qbytes ns =
     (if qbytes > msg_ctlmnb ns \<and> \<not> capable E CAP_SYS_RESOURCE then (Inl EPERM, ns)
      else
        (let ns = set_queue p
                    (msq\<lparr>q_qbytes := qbytes, q_perm := ipc_update_perm K perm (q_perm msq),
                         q_ctime := get_seconds E\<rparr>) ns;
             ns = expunge_all (q_receivers msq) EAGAIN ns;
             ns = ss_wakeup (q_senders msq) False ns
         in (Inr 0, ns)))"

definition msgctl_down ::
  "'h msgq_hdr_scheme \<Rightarrow> 'e msgq_env_scheme \<Rightarrow> int \<Rightarrow> msg_cmd ipc_cmd \<Rightarrow> ipc_version \<Rightarrow> msg_ns \<Rightarrow>
   (errno + int) \<times> msg_ns" where
  "msgctl_down K E msqid cmd version ns =
     (let ubuf = copy_msqid_from_user E version
      in if cmd = IPC_SET \<and> isl ubuf then (Inl EFAULT, ns)
         else
           (case ipcctl_pre_down K E (msg_ids ns) (msg_perms ns) msqid of
              Inl err \<Rightarrow> (Inl err, ns)
            | Inr p \<Rightarrow>
                (case queues ns p of
                   None \<Rightarrow> (Inl KBUG, ns)
                 | Some msq \<Rightarrow>
                     (case security_msg_queue_msgctl E (Some msq) cmd of
                        Some err \<Rightarrow> (Inl err, ns)
                      | None \<Rightarrow>
                          (case cmd of
                             IPC_RMID \<Rightarrow>
                               (case freeque K p ns of None \<Rightarrow> (Inl KBUG, ns) | Some ns' \<Rightarrow> (Inr 0, ns'))
                           | IPC_SET \<Rightarrow> msgctl_set K E p msq (fst (projr ubuf)) (snd (projr ubuf)) ns
                           | _ \<Rightarrow> (Inl EINVAL, ns))))))"

definition msg_info :: "'h msgq_hdr_scheme \<Rightarrow> msg_cmd ipc_cmd \<Rightarrow> msg_ns \<Rightarrow> msginfo" where
  "msg_info K cmd ns =
     (let i = \<lparr>msgpool = MSGPOOL K, msgmap = MSGMAP K, msgmax = c_int (uint (msg_ctlmax ns)),
               msgmnb = c_int (uint (msg_ctlmnb ns)), msgmni = msg_ctlmni ns, msgssz = MSGSSZ K,
               msgtql = MSGTQL K, msgseg = MSGSEG K\<rparr>
      in if cmd = CMD MSG_INFO
         then i\<lparr>msgpool := in_use (msg_ids ns), msgmap := sint (msg_hdrs ns), msgtql := sint (msg_bytes ns)\<rparr>
         else i)"

definition msg_stat :: "msg_queue \<Rightarrow> msqid64_ds" where
  "msg_stat msq =
     \<lparr>msg_perm = kernel_to_ipc64_perm (q_perm msq), msg_stime = q_stime msq, msg_rtime = q_rtime msq,
      msg_ctime = q_ctime msq, msg_cbytes = q_cbytes msq, msg_qnum = q_qnum msq, msg_qbytes = q_qbytes msq,
      msg_lspid = q_lspid msq, msg_lrpid = q_lrpid msq\<rparr>"

definition msgctl_stat ::
  "'h msgq_hdr_scheme \<Rightarrow> 'e msgq_env_scheme \<Rightarrow> int \<Rightarrow> msg_cmd ipc_cmd \<Rightarrow> ipc_version \<Rightarrow> msg_ns \<Rightarrow>
   errno + int \<times> msg_out" where
  "msgctl_stat K E msqid cmd version ns =
     (case (if cmd = CMD MSG_STAT then msg_lock K ns msqid else msg_lock_check K ns msqid) of
        Inl err \<Rightarrow> Inl err
      | Inr p \<Rightarrow>
          (case queues ns p of
             None \<Rightarrow> Inl KBUG
           | Some msq \<Rightarrow>
               (let success_return = (if cmd = CMD MSG_STAT then p_id (q_perm msq) else 0)
                in if ipcperms E (q_perm msq) (ucast (S_IRUGO K)) \<noteq> None then Inl EACCES
                   else (case security_msg_queue_msgctl E (Some msq) cmd of
                           Some err \<Rightarrow> Inl err
                         | None \<Rightarrow>
                             if struct_copy_ok E
                             then Inr (success_return, copy_msqid_to_user K (msg_stat msq) version)
                             else Inl EFAULT))))"

definition msgctl ::
  "'h msgq_hdr_scheme \<Rightarrow> 'e msgq_env_scheme \<Rightarrow> int \<Rightarrow> flags \<Rightarrow> bool \<Rightarrow> msg_ns \<Rightarrow>
   (errno + int \<times> msg_out) \<times> msg_ns" where
  "msgctl K E msqid cmd0 buf_null ns =
     (if msqid < 0 \<or> sint cmd0 < 0 then (Inl EINVAL, ns)
      else
        (case ipc_parse_version K cmd0 of
           (version, cmd1) \<Rightarrow>
             (let cmd = msg_decode K cmd1
              in if cmd = IPC_INFO \<or> cmd = CMD MSG_INFO then
                   (if buf_null then (Inl EFAULT, ns)
                    else (case security_msg_queue_msgctl E None cmd of
                            Some err \<Rightarrow> (Inl err, ns)
                          | None \<Rightarrow>
                              (let max_id = ipc_get_maxid K (msg_ids ns)
                               in if struct_copy_ok E
                                  then (Inr (if max_id < 0 then 0 else max_id, OutInfo (msg_info K cmd ns)), ns)
                                  else (Inl EFAULT, ns))))
                 else if cmd = CMD MSG_STAT \<or> cmd = IPC_STAT then
                   (if buf_null then (Inl EFAULT, ns) else (msgctl_stat K E msqid cmd version ns, ns))
                 else if cmd = IPC_SET \<or> cmd = IPC_RMID then
                   (case msgctl_down K E msqid cmd version ns of
                      (r, ns') \<Rightarrow> (case r of Inl err \<Rightarrow> Inl err | Inr n \<Rightarrow> Inr (n, NoOut), ns'))
                 else (Inl EINVAL, ns))))"

subsection \<open>Sending\<close>

definition testmsg :: "msg_msg \<Rightarrow> int \<Rightarrow> search_mode \<Rightarrow> bool" where
  "testmsg msg type mode =
     (case mode of
        SEARCH_ANY \<Rightarrow> True
      | SEARCH_LESSEQUAL \<Rightarrow> m_type msg \<le> type
      | SEARCH_EQUAL \<Rightarrow> m_type msg = type
      | SEARCH_NOTEQUAL \<Rightarrow> m_type msg \<noteq> type)"

text \<open>
  The walk over the receivers \<open>ts\<close>; the queue, the frames and the sleeping tasks are what the walk
  changes. A receiver without a frame is \<open>None\<close>.
\<close>

fun pipelined_send ::
  "'e msgq_env_scheme \<Rightarrow> msg_msg \<Rightarrow> task list \<Rightarrow> msg_queue \<Rightarrow> (task \<rightharpoonup> rcv_frame) \<Rightarrow> task set \<Rightarrow>
   (bool \<times> msg_queue \<times> (task \<rightharpoonup> rcv_frame) \<times> task set) option" where
  "pipelined_send E msg [] msq rc sl = Some (False, msq, rc, sl)"
| "pipelined_send E msg (t # ts) msq rc sl =
     (case rc t of
        None \<Rightarrow> None
      | Some msr \<Rightarrow>
          if testmsg msg (fr_msgtype msr) (fr_mode msr) \<and>
             security_msg_queue_msgrcv E msq msg t (fr_msgtype msr) (fr_mode msr) = None
          then
            (let msq = msq\<lparr>q_receivers := remove1 t (q_receivers msq)\<rparr>
             in if fr_maxsize msr < int (m_ts msg)
                then pipelined_send E msg ts msq (rc(t \<mapsto> msr\<lparr>fr_msg := R_ERR E2BIG\<rparr>)) (sl - {t})
                else Some (True,
                           msq\<lparr>q_lrpid := task_pid_vnr E t, q_rtime := get_seconds E\<rparr>,
                           rc(t \<mapsto> msr\<lparr>fr_msg := R_MSG msg\<rparr>), sl - {t}))
          else pipelined_send E msg ts msq rc sl)"

definition snd_fail :: "errno \<Rightarrow> msg_msg \<Rightarrow> msg_ns \<Rightarrow> int outcome \<times> msg_ns" where
  "snd_fail err msg ns =
     (case free_msg msg (mblocks ns) of
        None \<Rightarrow> (Done (Inl KBUG), ns)
      | Some mb \<Rightarrow> (Done (Inl err), ns\<lparr>mblocks := mb\<rparr>))"

definition snd_deliver ::
  "'e msgq_env_scheme \<Rightarrow> addr \<Rightarrow> msg_queue \<Rightarrow> msg_msg \<Rightarrow> ulong \<Rightarrow> msg_ns \<Rightarrow> int outcome \<times> msg_ns" where
  "snd_deliver E p msq msg msgsz ns =
     (let msq = msq\<lparr>q_lspid := current_tgid E, q_stime := get_seconds E\<rparr>
      in case pipelined_send E msg (q_receivers msq) msq (rcvs ns) (asleep ns) of
           None \<Rightarrow> (Done (Inl KBUG), ns)
         | Some (True, msq', rc, sl) \<Rightarrow>
             (Done (Inr 0), set_queue p msq' (ns\<lparr>rcvs := rc, asleep := sl\<rparr>))
         | Some (False, msq', rc, sl) \<Rightarrow>
             (Done (Inr 0),
              set_queue p
                (msq'\<lparr>q_messages := q_messages msq' @ [msg], q_cbytes := q_cbytes msq' + msgsz,
                      q_qnum := q_qnum msq' + 1\<rparr>)
                (ns\<lparr>rcvs := rc, asleep := sl, msg_bytes := msg_bytes ns + ucast msgsz,
                    msg_hdrs := msg_hdrs ns + 1\<rparr>)))"

definition has_room :: "msg_queue \<Rightarrow> ulong \<Rightarrow> bool" where
  "has_room msq msgsz \<longleftrightarrow> msgsz + q_cbytes msq \<le> q_qbytes msq \<and> 1 + q_qnum msq \<le> q_qbytes msq"

text \<open>One turn of the loop of \<^verbatim>\<open>do_msgsnd\<close>, up to the call of \<^verbatim>\<open>schedule\<close>.\<close>

definition snd_attempt ::
  "'h msgq_hdr_scheme \<Rightarrow> 'e msgq_env_scheme \<Rightarrow> addr \<Rightarrow> msg_msg \<Rightarrow> ulong \<Rightarrow> flags \<Rightarrow> msg_ns \<Rightarrow>
   int outcome \<times> msg_ns" where
  "snd_attempt K E p msg msgsz msgflg ns =
     (case queues ns p of
        None \<Rightarrow> (Done (Inl KBUG), ns)
      | Some msq \<Rightarrow>
          if ipcperms E (q_perm msq) (ucast (S_IWUGO K)) \<noteq> None then snd_fail EACCES msg ns
          else
            (case security_msg_queue_msgsnd E msq msg msgflg of
               Some err \<Rightarrow> snd_fail err msg ns
             | None \<Rightarrow>
                 if has_room msq msgsz then snd_deliver E p msq msg msgsz ns
                 else if msgflg AND IPC_NOWAIT K \<noteq> 0 then snd_fail EAGAIN msg ns
                 else
                   (let t = current E;
                        ns = ss_add t p msq ns
                    in case ipc_rcu_getref K p (mem ns) of
                         None \<Rightarrow> (Done (Inl KBUG), ns)
                       | Some m \<Rightarrow>
                           (Sleep,
                            ns\<lparr>mem := m,
                               snds := (snds ns)(t \<mapsto> \<lparr>fs_msq = p, fs_msg = msg, fs_msgsz = msgsz,
                                                       fs_flg = msgflg, fs_linked = True\<rparr>)\<rparr>))))"

definition do_msgsnd ::
  "'h msgq_hdr_scheme \<Rightarrow> 'e msgq_env_scheme \<Rightarrow> umem \<Rightarrow> int \<Rightarrow> int \<Rightarrow> addr \<Rightarrow> ulong \<Rightarrow> flags \<Rightarrow> msg_ns \<Rightarrow>
   int outcome \<times> msg_ns" where
  "do_msgsnd K E um msqid mtype mtext msgsz msgflg ns =
     (if msgsz > msg_ctlmax ns \<or> sint msgsz < 0 \<or> msqid < 0 then (Done (Inl EINVAL), ns)
      else if mtype < 1 then (Done (Inl EINVAL), ns)
      else
        (case load_msg K E um mtext (c_int (uint msgsz)) (mblocks ns) of
           None \<Rightarrow> (Hang, ns)
         | Some (Inl err, mb) \<Rightarrow> (Done (Inl err), ns\<lparr>mblocks := mb\<rparr>)
         | Some (Inr m, mb) \<Rightarrow>
             (let msg = m\<lparr>m_type := mtype, m_ts := unat msgsz\<rparr>;
                  ns = ns\<lparr>mblocks := mb\<rparr>
              in case msg_lock_check K ns msqid of
                   Inl err \<Rightarrow> snd_fail err msg ns
                 | Inr p \<Rightarrow> snd_attempt K E p msg msgsz msgflg ns)))"

definition msgsnd ::
  "'h msgq_hdr_scheme \<Rightarrow> 'e msgq_env_scheme \<Rightarrow> umem \<Rightarrow> int \<Rightarrow> addr \<Rightarrow> ulong \<Rightarrow> flags \<Rightarrow> msg_ns \<Rightarrow>
   int outcome \<times> msg_ns" where
  "msgsnd K E um msqid mtext msgsz msgflg ns =
     (case user_mtype E of
        None \<Rightarrow> (Done (Inl EFAULT), ns)
      | Some mtype \<Rightarrow> do_msgsnd K E um msqid mtype mtext msgsz msgflg ns)"

text \<open>
  A sender that has been woken goes on behind \<^verbatim>\<open>schedule\<close>. The queue is read under
  \<^verbatim>\<open>rcu_read_lock\<close>, so it is still there when the reference dropped was the last one.
\<close>

definition resume_snd ::
  "'h msgq_hdr_scheme \<Rightarrow> 'e msgq_env_scheme \<Rightarrow> msg_ns \<Rightarrow> int outcome \<times> msg_ns" where
  "resume_snd K E ns =
     (let t = current E
      in case snds ns t of
           None \<Rightarrow> (Done (Inl KBUG), ns)
         | Some s \<Rightarrow>
             (case queues ns (fs_msq s) of
                None \<Rightarrow> (Done (Inl KBUG), ns)
              | Some msq \<Rightarrow>
                  (case msq_putref K (fs_msq s) (ns\<lparr>snds := (snds ns)(t := None)\<rparr>) of
                     None \<Rightarrow> (Done (Inl KBUG), ns)
                   | Some ns1 \<Rightarrow>
                       if p_deleted (q_perm msq) then snd_fail EIDRM (fs_msg s) ns1
                       else
                         (let ns2 = set_queue (fs_msq s) (ss_del t s msq) ns1
                          in if signal_pending E then snd_fail ERESTARTNOHAND (fs_msg s) ns2
                             else snd_attempt K E (fs_msq s) (fs_msg s) (fs_msgsz s) (fs_flg s) ns2))))"

subsection \<open>Receiving\<close>

definition convert_mode :: "'h msgq_hdr_scheme \<Rightarrow> int \<Rightarrow> flags \<Rightarrow> search_mode \<times> int" where
  "convert_mode K msgtyp msgflg =
     (if msgtyp = 0 then (SEARCH_ANY, msgtyp)
      else if msgtyp < 0 then (SEARCH_LESSEQUAL, c_long (- msgtyp))
      else if msgflg AND MSG_EXCEPT K \<noteq> 0 then (SEARCH_NOTEQUAL, msgtyp)
      else (SEARCH_EQUAL, msgtyp))"

text \<open>The walk over the messages of a queue; \<open>found\<close> is the best message so far.\<close>

fun walk_messages ::
  "'e msgq_env_scheme \<Rightarrow> msg_queue \<Rightarrow> search_mode \<Rightarrow> int \<Rightarrow> msg_msg option \<Rightarrow> msg_msg list \<Rightarrow> msg_msg option" where
  "walk_messages E msq mode msgtyp found [] = found"
| "walk_messages E msq mode msgtyp found (walk_msg # msgs) =
     (if testmsg walk_msg msgtyp mode \<and>
         security_msg_queue_msgrcv E msq walk_msg (current E) msgtyp mode = None
      then
        (if mode = SEARCH_LESSEQUAL \<and> m_type walk_msg \<noteq> 1
         then walk_messages E msq mode (m_type walk_msg - 1) (Some walk_msg) msgs
         else Some walk_msg)
      else walk_messages E msq mode msgtyp found msgs)"

text \<open>Length, type and user memory after a receive.\<close>

type_synonym rcv_result = "nat \<times> int \<times> umem"

definition rcv_finish ::
  "'h msgq_hdr_scheme \<Rightarrow> 'e msgq_env_scheme \<Rightarrow> umem \<Rightarrow> addr \<Rightarrow> msg_msg \<Rightarrow> ulong \<Rightarrow> msg_ns \<Rightarrow>
   rcv_result outcome \<times> msg_ns" where
  "rcv_finish K E um mtext msg msgsz ns =
     (let n = (if unat msgsz > m_ts msg then m_ts msg else unat msgsz)
      in case store_msg K E um mtext msg n of
           Inl err \<Rightarrow> (Done (Inl err), ns)
         | Inr (ok, um') \<Rightarrow>
             (case free_msg msg (mblocks ns) of
                None \<Rightarrow> (Done (Inl KBUG), ns)
              | Some mb \<Rightarrow>
                  (Done (if ok then Inr (n, m_type msg, um') else Inl EFAULT), ns\<lparr>mblocks := mb\<rparr>)))"

text \<open>One turn of the loop of \<^verbatim>\<open>do_msgrcv\<close>, up to the call of \<^verbatim>\<open>schedule\<close>.\<close>

definition rcv_attempt ::
  "'h msgq_hdr_scheme \<Rightarrow> 'e msgq_env_scheme \<Rightarrow> umem \<Rightarrow> addr \<Rightarrow> search_mode \<Rightarrow> int \<Rightarrow> ulong \<Rightarrow> flags \<Rightarrow> addr \<Rightarrow>
   msg_ns \<Rightarrow> rcv_result outcome \<times> msg_ns" where
  "rcv_attempt K E um p mode msgtyp msgsz msgflg mtext ns =
     (case queues ns p of
        None \<Rightarrow> (Done (Inl KBUG), ns)
      | Some msq \<Rightarrow>
          if ipcperms E (q_perm msq) (ucast (S_IRUGO K)) \<noteq> None then (Done (Inl EACCES), ns)
          else
            (case walk_messages E msq mode msgtyp None (q_messages msq) of
               Some msg \<Rightarrow>
                 if unat msgsz < m_ts msg \<and> msgflg AND MSG_NOERROR K = 0 then (Done (Inl E2BIG), ns)
                 else
                   (let ns = set_queue p
                               (msq\<lparr>q_messages := remove1 msg (q_messages msq), q_qnum := q_qnum msq - 1,
                                    q_rtime := get_seconds E, q_lrpid := current_tgid E,
                                    q_cbytes := q_cbytes msq - of_nat (m_ts msg)\<rparr>)
                               (ns\<lparr>msg_bytes := msg_bytes ns - of_nat (m_ts msg), msg_hdrs := msg_hdrs ns - 1\<rparr>);
                        ns = ss_wakeup (q_senders msq) False ns
                    in rcv_finish K E um mtext msg msgsz ns)
             | None \<Rightarrow>
                 if msgflg AND IPC_NOWAIT K \<noteq> 0 then (Done (Inl ENOMSG), ns)
                 else
                   (let t = current E
                    in (Sleep,
                        set_queue p (msq\<lparr>q_receivers := q_receivers msq @ [t]\<rparr>)
                          (ns\<lparr>rcvs := (rcvs ns)(t \<mapsto>
                                 \<lparr>fr_msq = p, fr_mode = mode, fr_msgtype = msgtyp,
                                  fr_maxsize = (if msgflg AND MSG_NOERROR K \<noteq> 0 then INT_MAX else sint msgsz),
                                  fr_msg = R_ERR EAGAIN, fr_msgsz = msgsz, fr_flg = msgflg,
                                  fr_dest = mtext\<rparr>),
                              asleep := insert t (asleep ns)\<rparr>)))))"

definition do_msgrcv ::
  "'h msgq_hdr_scheme \<Rightarrow> 'e msgq_env_scheme \<Rightarrow> umem \<Rightarrow> int \<Rightarrow> addr \<Rightarrow> ulong \<Rightarrow> int \<Rightarrow> flags \<Rightarrow> msg_ns \<Rightarrow>
   rcv_result outcome \<times> msg_ns" where
  "do_msgrcv K E um msqid mtext msgsz msgtyp msgflg ns =
     (if msqid < 0 \<or> sint msgsz < 0 then (Done (Inl EINVAL), ns)
      else
        (case convert_mode K msgtyp msgflg of
           (mode, typ) \<Rightarrow>
             (case msg_lock_check K ns msqid of
                Inl err \<Rightarrow> (Done (Inl err), ns)
              | Inr p \<Rightarrow> rcv_attempt K E um p mode typ msgsz msgflg mtext ns)))"

text \<open>
  A receiver that has been woken. An answer other than \<^verbatim>\<open>-EAGAIN\<close> is taken without touching the
  queue; with \<^verbatim>\<open>-EAGAIN\<close> the queue is locked through the pointer kept on the stack.
\<close>

definition resume_rcv ::
  "'h msgq_hdr_scheme \<Rightarrow> 'e msgq_env_scheme \<Rightarrow> umem \<Rightarrow> msg_ns \<Rightarrow> rcv_result outcome \<times> msg_ns" where
  "resume_rcv K E um ns =
     (let t = current E
      in case rcvs ns t of
           None \<Rightarrow> (Done (Inl KBUG), ns)
         | Some r \<Rightarrow>
             (let ns1 = ns\<lparr>rcvs := (rcvs ns)(t := None)\<rparr>
              in case fr_msg r of
                   R_MSG msg \<Rightarrow> rcv_finish K E um (fr_dest r) msg (fr_msgsz r) ns1
                 | R_ERR err \<Rightarrow>
                     if err \<noteq> EAGAIN then (Done (Inl err), ns1)
                     else
                       (case queues ns (fr_msq r) of
                          None \<Rightarrow> (Done (Inl KBUG), ns)
                        | Some msq \<Rightarrow>
                            (let ns2 = set_queue (fr_msq r)
                                         (msq\<lparr>q_receivers := remove1 t (q_receivers msq)\<rparr>) ns1
                             in if signal_pending E then (Done (Inl ERESTARTNOHAND), ns2)
                                else rcv_attempt K E um (fr_msq r) (fr_mode r) (fr_msgtype r) (fr_msgsz r)
                                       (fr_flg r) (fr_dest r) ns2))))"

text \<open>The type is stored for the user last; when that faults the message is gone.\<close>

definition msgrcv ::
  "'h msgq_hdr_scheme \<Rightarrow> 'e msgq_env_scheme \<Rightarrow> umem \<Rightarrow> int \<Rightarrow> addr \<Rightarrow> ulong \<Rightarrow> int \<Rightarrow> flags \<Rightarrow> msg_ns \<Rightarrow>
   rcv_result outcome \<times> msg_ns" where
  "msgrcv K E um msqid mtext msgsz msgtyp msgflg ns =
     (case do_msgrcv K E um msqid mtext msgsz msgtyp msgflg ns of
        (Done (Inr r), ns') \<Rightarrow> (Done (if put_user_ok E then Inr r else Inl EFAULT), ns')
      | (r, ns') \<Rightarrow> (r, ns'))"

text \<open>A line of \<^verbatim>\<open>/proc/sysvipc/msg\<close>: the numbers printed, in their order.\<close>

definition sysvipc_msg_proc_show :: "msg_queue \<Rightarrow> int list" where
  "sysvipc_msg_proc_show msq =
     [p_key (q_perm msq), p_id (q_perm msq), uint (p_mode (q_perm msq)), uint (q_cbytes msq),
      uint (q_qnum msq), q_lspid msq, q_lrpid msq, uint (p_uid (q_perm msq)), uint (p_gid (q_perm msq)),
      uint (p_cuid (q_perm msq)), uint (p_cgid (q_perm msq)), q_stime msq, q_rtime msq, q_ctime msq]"

end
