(* ===== verification/Msg_Correct.thy ===== *)
theory Msg_Correct
  imports Ipc_Msg
begin

text \<open>
  Correctness of the message queues of \<^verbatim>\<open>ipc/msg.c\<close>: the invariant of a namespace, that every system
  call and every wake-up keeps it, and what follows from it. The invariant has five parts, each
  over the components of the state it speaks about: the identifier table, the counters, the
  ownership of message memory, the wait queues, and the references that keep a queue in memory.
\<close>

subsection \<open>The parts of the invariant\<close>

definition q_live :: "msg_queue \<Rightarrow> bool" where
  "q_live q = (\<not> p_deleted (q_perm q))"

definition msgs_cnt :: "msg_queue \<Rightarrow> int" where
  "msgs_cnt q = (if q_live q then int (length (q_messages q)) else 0)"

definition msgs_sum :: "msg_queue \<Rightarrow> int" where
  "msgs_sum q = (if q_live q then (\<Sum>m\<leftarrow>q_messages q. int (m_ts m)) else 0)"

definition acct_inv :: "(addr \<rightharpoonup> msg_queue) \<Rightarrow> 32 word \<Rightarrow> 32 word \<Rightarrow> bool" where
  "acct_inv qs nh nb \<longleftrightarrow>
     finite (dom qs) \<and>
     (\<forall>p q. qs p = Some q \<longrightarrow> q_live q \<longrightarrow>
        q_qnum q = word_of_int (msgs_cnt q) \<and> q_cbytes q = word_of_int (msgs_sum q)) \<and>
     nh = word_of_int (map_sum msgs_cnt qs) \<and> nb = word_of_int (map_sum msgs_sum qs)"

text \<open>
  Each block that holds a message belongs to one message in one place; \<open>X\<close> are the blocks of the
  message the running call has in its hands.
\<close>

definition q_own :: "msg_queue \<Rightarrow> addr multiset" where
  "q_own q = (if q_live q then mset (concat (map msg_addrs (q_messages q))) else {#})"

definition s_own :: "snd_frame \<Rightarrow> addr multiset" where
  "s_own f = mset (msg_addrs (fs_msg f))"

definition r_own :: "rcv_frame \<Rightarrow> addr multiset" where
  "r_own f = (case fr_msg f of R_MSG m \<Rightarrow> mset (msg_addrs m) | R_ERR e \<Rightarrow> {#})"

definition own_inv ::
  "(addr \<rightharpoonup> msg_queue) \<Rightarrow> (task \<rightharpoonup> snd_frame) \<Rightarrow> (task \<rightharpoonup> rcv_frame) \<Rightarrow> mblocks \<Rightarrow> addr multiset \<Rightarrow> bool" where
  "own_inv qs sn rc mb X \<longleftrightarrow>
     finite (dom qs) \<and> finite (dom sn) \<and> finite (dom rc) \<and> finite (dom mb) \<and>
     map_sum q_own qs + map_sum s_own sn + map_sum r_own rc + X = mset_set (dom mb)"

definition waiting :: "(task \<rightharpoonup> rcv_frame) \<Rightarrow> task \<Rightarrow> addr \<Rightarrow> bool" where
  "waiting rc t p \<longleftrightarrow> (\<exists>f. rc t = Some f \<and> fr_msq f = p \<and> fr_msg f = R_ERR EAGAIN)"

definition sending :: "(task \<rightharpoonup> snd_frame) \<Rightarrow> task \<Rightarrow> addr \<Rightarrow> bool" where
  "sending sn t p \<longleftrightarrow> (\<exists>f. sn t = Some f \<and> fs_msq f = p)"

definition wait_inv ::
  "(addr \<rightharpoonup> msg_queue) \<Rightarrow> (task \<rightharpoonup> snd_frame) \<Rightarrow> (task \<rightharpoonup> rcv_frame) \<Rightarrow> bool" where
  "wait_inv qs sn rc \<longleftrightarrow>
     (\<forall>p q. qs p = Some q \<longrightarrow> q_live q \<longrightarrow>
        distinct (q_receivers q) \<and> (\<forall>t. t \<in> set (q_receivers q) \<longleftrightarrow> waiting rc t p) \<and>
        distinct (q_senders q) \<and> (\<forall>t. t \<in> set (q_senders q) \<longleftrightarrow> sending sn t p)) \<and>
     (\<forall>t p. waiting rc t p \<longrightarrow> (\<exists>q. qs p = Some q \<and> q_live q)) \<and>
     (\<forall>t f. sn t = Some f \<longrightarrow> (\<exists>q. qs (fs_msq f) = Some q \<and> fs_linked f = q_live q)) \<and>
     dom sn \<inter> dom rc = {}"

definition scount :: "(task \<rightharpoonup> snd_frame) \<Rightarrow> addr \<Rightarrow> int" where
  "scount sn p = map_sum (\<lambda>f. of_bool (fs_msq f = p)) sn"

text \<open>A queue is kept by its place in the table and by each sender that sleeps on it.\<close>

definition ref_inv ::
  "'h alloc_hdr_scheme \<Rightarrow> (addr \<rightharpoonup> msg_queue) \<Rightarrow> (task \<rightharpoonup> snd_frame) \<Rightarrow> ipc_mem \<Rightarrow> bool" where
  "ref_inv K qs sn m \<longleftrightarrow>
     rcu_inv K m \<and> finite (dom sn) \<and>
     (\<forall>p q. qs p = Some q \<longrightarrow> rcu_count K m p = Some (of_bool (q_live q) + scount sn p))"

definition msg_ok :: "'h msgq_hdr_scheme \<Rightarrow> msg_msg \<Rightarrow> bool" where
  "msg_ok K m \<longleftrightarrow> msg_wf K (m_ts m) m \<and> 1 \<le> m_type m"

text \<open>The answers that are written into \<^verbatim>\<open>r_msg\<close>.\<close>

primrec r_msg_ok :: "'h msgq_hdr_scheme \<Rightarrow> r_msg \<Rightarrow> bool" where
  "r_msg_ok K (R_ERR e) \<longleftrightarrow> e \<in> {EAGAIN, E2BIG, EIDRM}"
| "r_msg_ok K (R_MSG m) \<longleftrightarrow> msg_ok K m"

definition msgs_ok ::
  "'h msgq_hdr_scheme \<Rightarrow> (addr \<rightharpoonup> msg_queue) \<Rightarrow> (task \<rightharpoonup> snd_frame) \<Rightarrow> (task \<rightharpoonup> rcv_frame) \<Rightarrow> bool" where
  "msgs_ok K qs sn rc \<longleftrightarrow>
     (\<forall>p q. qs p = Some q \<longrightarrow> q_live q \<longrightarrow> (\<forall>m\<in>set (q_messages q). msg_ok K m)) \<and>
     (\<forall>t f. sn t = Some f \<longrightarrow> msg_ok K (fs_msg f) \<and> m_ts (fs_msg f) = unat (fs_msgsz f)) \<and>
     (\<forall>t f. rc t = Some f \<longrightarrow> r_msg_ok K (fr_msg f))"

definition msgq_hdr_ok :: "'h msgq_hdr_scheme \<Rightarrow> bool" where
  "msgq_hdr_ok K \<longleftrightarrow> ipc_hdr_ok K \<and> msg_hdr_ok K \<and> alloc_hdr_ok K"

definition msg_held :: "'h msgq_hdr_scheme \<Rightarrow> addr multiset \<Rightarrow> msg_ns \<Rightarrow> bool" where
  "msg_held K X ns \<longleftrightarrow>
     msgq_hdr_ok K \<and> uint (msg_ctlmax ns) \<le> INT_MAX \<and>
     ids_inv K (msg_ids ns) (msg_perms ns) \<and>
     acct_inv (queues ns) (msg_hdrs ns) (msg_bytes ns) \<and>
     own_inv (queues ns) (snds ns) (rcvs ns) (mblocks ns) X \<and>
     wait_inv (queues ns) (snds ns) (rcvs ns) \<and>
     ref_inv K (queues ns) (snds ns) (mem ns) \<and>
     msgs_ok K (queues ns) (snds ns) (rcvs ns)"

text \<open>Between calls no message is in the hands of a call.\<close>

definition msg_inv :: "'h msgq_hdr_scheme \<Rightarrow> msg_ns \<Rightarrow> bool" where
  "msg_inv K ns = msg_held K {#} ns"

text \<open>What a call needs of its environment.\<close>

definition hooks_ok :: "'e msgq_env_scheme \<Rightarrow> bool" where
  "hooks_ok E \<longleftrightarrow>
     security_msg_msg_alloc E \<noteq> Some KBUG \<and> security_msg_queue_alloc E \<noteq> Some KBUG \<and>
     (\<forall>q f. security_msg_queue_associate E q f \<noteq> Some KBUG) \<and>
     (\<forall>q c. security_msg_queue_msgctl E q c \<noteq> Some KBUG) \<and>
     (\<forall>q m f. security_msg_queue_msgsnd E q m f \<noteq> Some KBUG) \<and>
     (\<forall>m. idr_get_new E m \<noteq> Inl KBUG)"

definition msgq_env_ok :: "'e msgq_env_scheme \<Rightarrow> msg_ns \<Rightarrow> bool" where
  "msgq_env_ok E ns \<longleftrightarrow>
     hooks_ok E \<and> idr_ok E \<and> uaccess_ok E \<and> alloc_env_ok E (mem ns) \<and> kmallocs_ok E (mblocks ns)"

subsection \<open>Counters\<close>

lemma acct_upd:
  assumes "acct_inv qs nh nb" and "qs p = Some q"
    and "q_live q' \<Longrightarrow> q_qnum q' = word_of_int (msgs_cnt q') \<and> q_cbytes q' = word_of_int (msgs_sum q')"
    and "nh' = nh + word_of_int (msgs_cnt q' - msgs_cnt q)"
    and "nb' = nb + word_of_int (msgs_sum q' - msgs_sum q)"
  shows "acct_inv (qs(p \<mapsto> q')) nh' nb'"
proof -
  have "map_sum f (qs(p \<mapsto> q')) = map_sum f qs + (f q' - f q)" for f :: "msg_queue \<Rightarrow> int"
    using map_sum_upd [of qs p q f q'] assms(1,2) by (simp add: acct_inv_def)
  then show ?thesis
    using assms by (auto simp: acct_inv_def)
qed

lemma acct_same:
  assumes "acct_inv qs nh nb" and "qs p = Some q"
    and "q_live q' = q_live q" "q_qnum q' = q_qnum q" "q_cbytes q' = q_cbytes q" "q_messages q' = q_messages q"
  shows "acct_inv (qs(p \<mapsto> q')) nh nb"
proof (rule acct_upd [OF assms(1,2)])
  show "q_qnum q' = word_of_int (msgs_cnt q') \<and> q_cbytes q' = word_of_int (msgs_sum q')" if "q_live q'"
    using assms that by (simp add: acct_inv_def msgs_cnt_def msgs_sum_def)
qed (use assms in \<open>simp_all add: msgs_cnt_def msgs_sum_def\<close>)

lemma acct_new:
  assumes "acct_inv qs nh nb" and "qs p = None"
    and "q_qnum q = 0" "q_cbytes q = 0" "q_messages q = []"
  shows "acct_inv (qs(p \<mapsto> q)) nh nb"
proof -
  have "map_sum f (qs(p \<mapsto> q)) = map_sum f qs + f q" for f :: "msg_queue \<Rightarrow> int"
    using map_sum_new [of qs p f q] assms(1,2) by (simp add: acct_inv_def)
  then show ?thesis
    using assms by (auto simp: acct_inv_def msgs_cnt_def msgs_sum_def)
qed

lemma acct_drop:
  assumes "acct_inv qs nh nb" and "qs p = Some q" and "\<not> q_live q"
  shows "acct_inv (qs(p := None)) nh nb"
proof -
  have "map_sum f (qs(p := None)) = map_sum f qs - f q" for f :: "msg_queue \<Rightarrow> int"
    using map_sum_delete [of qs p q f] assms(1,2) by (simp add: acct_inv_def)
  then show ?thesis
    using assms by (auto simp: acct_inv_def msgs_cnt_def msgs_sum_def)
qed

subsection \<open>Ownership\<close>

lemma free_msg_owned:
  assumes "own_inv qs sn rc mb (X + mset (msg_addrs m))"
  shows "\<exists>mb'. free_msg m mb = Some mb' \<and> own_inv qs sn rc mb' X"
  using assms dom_mset_delete [of mb "map_sum q_own qs + map_sum s_own sn + map_sum r_own rc + X" "msg_addrs m"]
  by (auto simp: own_inv_def free_msg_def add.assoc)

lemma grown_owned:
  "own_inv qs sn rc mb X \<Longrightarrow> grown mb mb' (msg_addrs m) \<Longrightarrow> own_inv qs sn rc mb' (X + mset (msg_addrs m))"
  using dom_mset_grown [of mb mb' "msg_addrs m"] by (auto simp: own_inv_def add.assoc [symmetric])

lemma exchange1:
  assumes "a' + x' = a + (x :: 'm multiset)"
  shows "(b + a') + c + d + x' = (b + a) + c + d + x"
proof -
  have "(b + a') + c + d + x' = b + c + d + (a' + x')" by (simp add: ac_simps)
  also have "\<dots> = b + c + d + (a + x)" by (simp only: assms)
  finally show ?thesis by (simp add: ac_simps)
qed

lemma exchange2:
  assumes "a' + x' = a + (x :: 'm multiset)"
  shows "c + d + (b + a') + x' = c + d + (b + a) + x"
proof -
  have "c + d + (b + a') + x' = b + c + d + (a' + x')" by (simp add: ac_simps)
  also have "\<dots> = b + c + d + (a + x)" by (simp only: assms)
  finally show ?thesis by (simp add: ac_simps)
qed

lemma own_queue:
  assumes "own_inv qs sn rc mb X" and "qs p = Some q" and "q_own q' + X' = q_own q + X"
  shows "own_inv (qs(p \<mapsto> q')) sn rc mb X'"
proof -
  have eqs: "map_sum q_own qs = map_sum q_own (qs(p := None)) + q_own q"
    "map_sum q_own (qs(p \<mapsto> q')) = map_sum q_own (qs(p := None)) + q_own q'"
    using assms(1,2) map_sum_split [of qs p q q_own] map_sum_replace [of qs q_own p q']
    by (simp_all add: own_inv_def)
  have sw: "map_sum q_own (qs(p \<mapsto> q')) + S + R + X' = map_sum q_own qs + S + R + X" for S R
    unfolding eqs by (rule exchange1 [OF assms(3)])
  have "finite (dom (qs(p \<mapsto> q')))" using assms(1) by (simp add: own_inv_def)
  then show ?thesis using assms(1) unfolding own_inv_def sw by blast
qed

lemma own_same:
  "own_inv qs sn rc mb X \<Longrightarrow> qs p = Some q \<Longrightarrow> q_live q' = q_live q \<Longrightarrow> q_messages q' = q_messages q \<Longrightarrow>
   own_inv (qs(p \<mapsto> q')) sn rc mb X"
  by (erule own_queue) (auto simp: q_own_def)

lemma own_new:
  "own_inv qs sn rc mb X \<Longrightarrow> qs p = None \<Longrightarrow> q_messages q = [] \<Longrightarrow> own_inv (qs(p \<mapsto> q)) sn rc mb X"
  using map_sum_new [of qs p q_own q] by (simp add: own_inv_def q_own_def)

lemma own_drop:
  "own_inv qs sn rc mb X \<Longrightarrow> qs p = Some q \<Longrightarrow> \<not> q_live q \<Longrightarrow> own_inv (qs(p := None)) sn rc mb X"
  using map_sum_split [of qs p q q_own] by (simp add: own_inv_def q_own_def)

lemma own_snd_add:
  "own_inv qs sn rc mb (X + s_own f) \<Longrightarrow> sn t = None \<Longrightarrow> own_inv qs (sn(t \<mapsto> f)) rc mb X"
  using map_sum_new [of sn t s_own f] by (simp add: own_inv_def ac_simps)

lemma own_snd_del:
  "own_inv qs sn rc mb X \<Longrightarrow> sn t = Some f \<Longrightarrow> own_inv qs (sn(t := None)) rc mb (X + s_own f)"
  using map_sum_split [of sn t f s_own] by (simp add: own_inv_def ac_simps)

lemma own_rcv_add:
  "own_inv qs sn rc mb X \<Longrightarrow> rc t = None \<Longrightarrow> r_own f = {#} \<Longrightarrow> own_inv qs sn (rc(t \<mapsto> f)) mb X"
  using map_sum_new [of rc t r_own f] by (simp add: own_inv_def ac_simps)

lemma own_rcv_del:
  "own_inv qs sn rc mb X \<Longrightarrow> rc t = Some f \<Longrightarrow> own_inv qs sn (rc(t := None)) mb (X + r_own f)"
  using map_sum_split [of rc t f r_own] by (simp add: own_inv_def ac_simps)

lemma own_rcv_upd:
  assumes "own_inv qs sn rc mb X" and "rc t = Some f" and "r_own f' + X' = r_own f + X"
  shows "own_inv qs sn (rc(t \<mapsto> f')) mb X'"
proof -
  have eqs: "map_sum r_own rc = map_sum r_own (rc(t := None)) + r_own f"
    "map_sum r_own (rc(t \<mapsto> f')) = map_sum r_own (rc(t := None)) + r_own f'"
    using assms(1,2) map_sum_split [of rc t f r_own] map_sum_replace [of rc r_own t f']
    by (simp_all add: own_inv_def)
  have sw: "S + R + map_sum r_own (rc(t \<mapsto> f')) + X' = S + R + map_sum r_own rc + X" for S R
    unfolding eqs by (rule exchange2 [OF assms(3)])
  have "finite (dom (rc(t \<mapsto> f')))" using assms(1) by (simp add: own_inv_def)
  then show ?thesis using assms(1) unfolding own_inv_def sw by blast
qed

subsection \<open>Wait queues\<close>

lemma waiting_upd:
  "waiting (rc(t \<mapsto> f)) u p \<longleftrightarrow> (if u = t then fr_msq f = p \<and> fr_msg f = R_ERR EAGAIN else waiting rc u p)"
  "waiting (rc(t := None)) u p \<longleftrightarrow> u \<noteq> t \<and> waiting rc u p"
  by (auto simp: waiting_def)

lemma sending_upd:
  "sending (sn(t \<mapsto> f)) u p \<longleftrightarrow> (if u = t then fs_msq f = p else sending sn u p)"
  "sending (sn(t := None)) u p \<longleftrightarrow> u \<noteq> t \<and> sending sn u p"
  by (auto simp: sending_def)

lemma wait_invD:
  assumes "wait_inv qs sn rc"
  shows "qs p = Some q \<Longrightarrow> q_live q \<Longrightarrow> distinct (q_receivers q) \<and> distinct (q_senders q)"
    and "qs p = Some q \<Longrightarrow> q_live q \<Longrightarrow> t \<in> set (q_receivers q) \<longleftrightarrow> waiting rc t p"
    and "qs p = Some q \<Longrightarrow> q_live q \<Longrightarrow> t \<in> set (q_senders q) \<longleftrightarrow> sending sn t p"
    and "waiting rc t p \<Longrightarrow> \<exists>q. qs p = Some q \<and> q_live q"
    and "sn t = Some f \<Longrightarrow> \<exists>q. qs (fs_msq f) = Some q \<and> fs_linked f = q_live q"
    and "dom sn \<inter> dom rc = {}"
  using assms unfolding wait_inv_def by blast+

lemma wait_invI:
  assumes "\<And>p q. qs p = Some q \<Longrightarrow> q_live q \<Longrightarrow> distinct (q_receivers q) \<and> distinct (q_senders q)"
    and "\<And>p q t. qs p = Some q \<Longrightarrow> q_live q \<Longrightarrow> t \<in> set (q_receivers q) \<longleftrightarrow> waiting rc t p"
    and "\<And>p q t. qs p = Some q \<Longrightarrow> q_live q \<Longrightarrow> t \<in> set (q_senders q) \<longleftrightarrow> sending sn t p"
    and "\<And>t p. waiting rc t p \<Longrightarrow> \<exists>q. qs p = Some q \<and> q_live q"
    and "\<And>t f. sn t = Some f \<Longrightarrow> \<exists>q. qs (fs_msq f) = Some q \<and> fs_linked f = q_live q"
    and "dom sn \<inter> dom rc = {}"
  shows "wait_inv qs sn rc"
  using assms by (simp add: wait_inv_def)

text \<open>A step that works on one queue and on the frames of tasks that sleep on it.\<close>

lemma wait_upd:
  assumes inv: "wait_inv qs sn rc"
    and others: "\<And>t r. r \<noteq> p \<Longrightarrow> waiting rc' t r = waiting rc t r" "\<And>t r. r \<noteq> p \<Longrightarrow> sending sn' t r = sending sn t r"
      "\<And>t f. sn' t = Some f \<Longrightarrow> fs_msq f \<noteq> p \<Longrightarrow> sn t = Some f"
    and here: "q_live q' \<Longrightarrow> distinct (q_receivers q') \<and> distinct (q_senders q')"
      "\<And>t. q_live q' \<Longrightarrow> t \<in> set (q_receivers q') \<longleftrightarrow> waiting rc' t p"
      "\<And>t. q_live q' \<Longrightarrow> t \<in> set (q_senders q') \<longleftrightarrow> sending sn' t p"
      "\<And>t. waiting rc' t p \<Longrightarrow> q_live q'"
      "\<And>t f. sn' t = Some f \<Longrightarrow> fs_msq f = p \<Longrightarrow> fs_linked f = q_live q'"
    and "dom sn' \<inter> dom rc' = {}"
  shows "wait_inv (qs(p \<mapsto> q')) sn' rc'"
proof (rule wait_invI)
  fix r u assume "(qs(p \<mapsto> q')) r = Some u" "q_live u"
  then show "distinct (q_receivers u) \<and> distinct (q_senders u)"
    using here(1) wait_invD(1) [OF inv, of r u] by (cases "r = p") auto
next
  fix r u t assume "(qs(p \<mapsto> q')) r = Some u" "q_live u"
  then show "t \<in> set (q_receivers u) \<longleftrightarrow> waiting rc' t r"
    using here(2) others(1) wait_invD(2) [OF inv, of r u] by (cases "r = p") auto
next
  fix r u t assume "(qs(p \<mapsto> q')) r = Some u" "q_live u"
  then show "t \<in> set (q_senders u) \<longleftrightarrow> sending sn' t r"
    using here(3) others(2) wait_invD(3) [OF inv, of r u] by (cases "r = p") auto
next
  fix t r assume "waiting rc' t r"
  then show "\<exists>u. (qs(p \<mapsto> q')) r = Some u \<and> q_live u"
    using here(4) others(1) wait_invD(4) [OF inv, of t r] by (cases "r = p") auto
next
  fix t f assume "sn' t = Some f"
  then show "\<exists>u. (qs(p \<mapsto> q')) (fs_msq f) = Some u \<and> fs_linked f = q_live u"
    using here(5) others(3) wait_invD(5) [OF inv, of t f] by (cases "fs_msq f = p") auto
qed (rule assms)

lemma wait_same:
  assumes inv: "wait_inv qs sn rc" and q: "qs p = Some q"
    and eq: "q_live q' = q_live q" "q_receivers q' = q_receivers q" "q_senders q' = q_senders q"
  shows "wait_inv (qs(p \<mapsto> q')) sn rc"
proof (rule wait_upd [OF inv])
  fix t assume "waiting rc t p"
  then show "q_live q'" using wait_invD(4) [OF inv, of t p] q eq by auto
next
  fix t f assume "sn t = Some f" "fs_msq f = p"
  then show "fs_linked f = q_live q'" using wait_invD(5) [OF inv, of t f] q eq by auto
qed (use wait_invD(1-3) [OF inv q] wait_invD(6) [OF inv] eq in auto)

lemma wait_new:
  assumes inv: "wait_inv qs sn rc" and none: "qs p = None" and "q_receivers q = []" "q_senders q = []"
  shows "wait_inv (qs(p \<mapsto> q)) sn rc"
proof -
  have w: "\<not> waiting rc t p" for t using wait_invD(4) [OF inv, of t p] none by auto
  have s: "sn t = Some f \<Longrightarrow> fs_msq f \<noteq> p" for t f using wait_invD(5) [OF inv, of t f] none by auto
  then have "\<not> sending sn t p" for t by (auto simp: sending_def)
  then show ?thesis
    by (intro wait_upd [OF inv]) (use w s assms(3,4) wait_invD(6) [OF inv] in auto)
qed

lemma wait_snd_sleep:
  assumes inv: "wait_inv qs sn rc" and q: "qs p = Some q" "q_live q" and t: "sn t = None" "rc t = None"
    and "q_live q'" "q_receivers q' = q_receivers q" "q_senders q' = q_senders q @ [t]"
    and "fs_msq f = p" "fs_linked f"
  shows "wait_inv (qs(p \<mapsto> q')) (sn(t \<mapsto> f)) rc"
proof -
  have "\<not> sending sn t r" for r using t by (simp add: sending_def)
  moreover then have "t \<notin> set (q_senders q)" using wait_invD(3) [OF inv q] by simp
  moreover have "fs_linked g" if "sn u = Some g" "fs_msq g = p" for u g
    using wait_invD(5) [OF inv that(1)] that(2) q by auto
  ultimately show ?thesis
    by (intro wait_upd [OF inv])
      (use wait_invD(1-3) [OF inv q] wait_invD(6) [OF inv] t assms in \<open>auto simp: sending_upd split: if_splits\<close>)
qed

lemma wait_snd_del:
  assumes inv: "wait_inv qs sn rc" and q: "qs p = Some q" and t: "sn t = Some f" "fs_msq f = p"
    and "q_live q' = q_live q" "q_receivers q' = q_receivers q"
    and "q_live q \<Longrightarrow> q_senders q' = remove1 t (q_senders q)"
  shows "wait_inv (qs(p \<mapsto> q')) (sn(t := None)) rc"
proof -
  have lk: "fs_linked g = q_live q'" if "sn u = Some g" "fs_msq g = p" for u g
    using wait_invD(5) [OF inv that(1)] that(2) q assms(5) by auto
  have w: "q_live q'" if "waiting rc u p" for u
    using wait_invD(4) [OF inv that] q assms(5) by auto
  show ?thesis
    by (intro wait_upd [OF inv])
      (use wait_invD(1-3) [OF inv q] wait_invD(6) [OF inv] t assms(5-7) lk w in
        \<open>auto simp: sending_upd sending_def split: if_splits\<close>)
qed

lemma wait_rcv_sleep:
  assumes inv: "wait_inv qs sn rc" and q: "qs p = Some q" "q_live q" and t: "sn t = None" "rc t = None"
    and "q_live q'" "q_receivers q' = q_receivers q @ [t]" "q_senders q' = q_senders q"
    and "fr_msq f = p" "fr_msg f = R_ERR EAGAIN"
  shows "wait_inv (qs(p \<mapsto> q')) sn (rc(t \<mapsto> f))"
proof -
  have "\<not> waiting rc t r" for r using t by (simp add: waiting_def)
  moreover then have "t \<notin> set (q_receivers q)" using wait_invD(2) [OF inv q] by simp
  moreover have "fs_linked g" if "sn u = Some g" "fs_msq g = p" for u g
    using wait_invD(5) [OF inv that(1)] that(2) q by auto
  ultimately show ?thesis
    by (intro wait_upd [OF inv])
      (use wait_invD(1-3) [OF inv q] wait_invD(6) [OF inv] t assms in \<open>auto simp: waiting_upd split: if_splits\<close>)
qed

text \<open>A receiver leaves the list, with an answer or because it goes away.\<close>

lemma wait_rcv_leave:
  assumes inv: "wait_inv qs sn rc" and q: "qs p = Some q" "q_live q" and t: "t \<in> set (q_receivers q)"
    and "q_live q'" "q_receivers q' = remove1 t (q_receivers q)" "q_senders q' = q_senders q"
    and rc': "rc' = rc(t := None) \<or> rc' = rc(t \<mapsto> f) \<and> fr_msg f \<noteq> R_ERR EAGAIN"
  shows "wait_inv (qs(p \<mapsto> q')) sn rc'"
proof -
  have wt: "waiting rc t p" using t wait_invD(2) [OF inv q] by simp
  then obtain g where g: "rc t = Some g" by (auto simp: waiting_def)
  have w: "waiting rc' u r \<longleftrightarrow> u \<noteq> t \<and> waiting rc u r" for u r using rc' by (auto simp: waiting_upd split: if_splits)
  have w': "waiting rc t r \<longleftrightarrow> r = p" for r using wt by (auto simp: waiting_def)
  have "fs_linked g" if "sn u = Some g" "fs_msq g = p" for u g
    using wait_invD(5) [OF inv that(1)] that(2) q by auto
  moreover have "dom sn \<inter> dom rc' = {}"
    using rc' g wait_invD(6) [OF inv] by (auto split: if_splits)
  ultimately show ?thesis
    by (intro wait_upd [OF inv])
      (use wait_invD(1-3) [OF inv q] wait_invD(6) [OF inv] w w' assms(5-7) in \<open>auto split: if_splits\<close>)
qed

lemma wait_rcv_done:
  assumes inv: "wait_inv qs sn rc" and "rc t = Some f" "fr_msg f \<noteq> R_ERR EAGAIN"
  shows "wait_inv qs sn (rc(t := None))"
proof -
  have "waiting (rc(t := None)) u p = waiting rc u p" for u p
    using assms(2,3) by (auto simp: waiting_def)
  then show ?thesis
    using wait_invD [OF inv] by (intro wait_invI) auto
qed

lemma wait_drop:
  assumes inv: "wait_inv qs sn rc" and "qs p = Some q" "\<not> q_live q" and "\<And>t. \<not> sending sn t p"
  shows "wait_inv (qs(p := None)) sn rc"
proof (rule wait_invI)
  fix t r assume "waiting rc t r"
  then show "\<exists>u. (qs(p := None)) r = Some u \<and> q_live u"
    using wait_invD(4) [OF inv, of t r] assms(2,3) by (cases "r = p") auto
next
  fix t f assume f: "sn t = Some f"
  then have "fs_msq f \<noteq> p" using assms(4) by (auto simp: sending_def)
  then show "\<exists>u. (qs(p := None)) (fs_msq f) = Some u \<and> fs_linked f = q_live u"
    using wait_invD(5) [OF inv f] by simp
qed (use wait_invD(1-3,6) [OF inv] in \<open>auto split: if_splits\<close>)

text \<open>What the two wake-up loops do.\<close>

definition expunged :: "task list \<Rightarrow> errno \<Rightarrow> (task \<rightharpoonup> rcv_frame) \<Rightarrow> (task \<rightharpoonup> rcv_frame)" where
  "expunged ts res rc = (\<lambda>t. if t \<in> set ts then map_option (fr_msg_update (\<lambda>_. R_ERR res)) (rc t) else rc t)"

definition unlinked :: "task list \<Rightarrow> (task \<rightharpoonup> snd_frame) \<Rightarrow> (task \<rightharpoonup> snd_frame)" where
  "unlinked ts sn = (\<lambda>t. if t \<in> set ts then map_option (fs_linked_update (\<lambda>_. False)) (sn t) else sn t)"

lemma Diff_step: "A - {t} - set ts = A - set (t # ts)"
  by auto

lemma expunge_all_eq:
  "expunge_all ts res ns = ns\<lparr>rcvs := expunged ts res (rcvs ns), asleep := asleep ns - set ts\<rparr>"
proof (induction ts arbitrary: ns)
  case (Cons t ts)
  have "map_option (fr_msg_update (\<lambda>_. R_ERR res)) (map_option (fr_msg_update (\<lambda>_. R_ERR res)) f) =
    map_option (fr_msg_update (\<lambda>_. R_ERR res)) f" for f by (cases f) simp_all
  then have "expunged ts res ((rcvs ns)(t := map_option (fr_msg_update (\<lambda>_. R_ERR res)) (rcvs ns t))) =
    expunged (t # ts) res (rcvs ns)"
    by (auto simp: expunged_def fun_eq_iff)
  then show ?case
    using Cons.IH by (simp add: wake_up_process_def Diff_step del: list.set fun_upd_apply)
qed (simp add: expunged_def)

lemma ss_wakeup_kill:
  "ss_wakeup ts True ns = ns\<lparr>snds := unlinked ts (snds ns), asleep := asleep ns - set ts\<rparr>"
proof (induction ts arbitrary: ns)
  case (Cons t ts)
  have "map_option (fs_linked_update (\<lambda>_. False)) (map_option (fs_linked_update (\<lambda>_. False)) f) =
    map_option (fs_linked_update (\<lambda>_. False)) f" for f by (cases f) simp_all
  then have "unlinked ts ((snds ns)(t := map_option (fs_linked_update (\<lambda>_. False)) (snds ns t))) =
    unlinked (t # ts) (snds ns)"
    by (auto simp: unlinked_def fun_eq_iff)
  then show ?case
    using Cons.IH by (simp add: wake_up_process_def Diff_step del: list.set fun_upd_apply)
qed (simp add: unlinked_def)

lemma ss_wakeup_soft: "ss_wakeup ts False ns = ns\<lparr>asleep := asleep ns - set ts\<rparr>"
proof (induction ts arbitrary: ns)
  case (Cons t ts)
  then show ?case by (simp add: wake_up_process_def Diff_step del: list.set)
qed simp

text \<open>Writing \<^verbatim>\<open>-EAGAIN\<close> into \<^verbatim>\<open>r_msg\<close> of a waiting receiver writes what is there.\<close>

lemma expunged_again:
  assumes "wait_inv qs sn rc" and "qs p = Some q" and "q_live q"
  shows "expunged (q_receivers q) EAGAIN rc = rc"
proof
  fix t
  show "expunged (q_receivers q) EAGAIN rc t = rc t"
  proof (cases "t \<in> set (q_receivers q)")
    case True
    then obtain f where "rc t = Some f" "fr_msg f = R_ERR EAGAIN"
      using wait_invD(2) [OF assms] by (auto simp: waiting_def)
    then show ?thesis using True by (simp add: expunged_def)
  qed (simp add: expunged_def)
qed

lemma dom_expunged [simp]: "dom (expunged ts e rc) = dom rc"
  by (auto simp: expunged_def split: if_splits)

lemma dom_unlinked [simp]: "dom (unlinked ts sn) = dom sn"
  by (auto simp: unlinked_def split: if_splits)

lemma waiting_expunged:
  "e \<noteq> EAGAIN \<Longrightarrow> waiting (expunged ts e rc) t p \<longleftrightarrow> t \<notin> set ts \<and> waiting rc t p"
  by (auto simp: waiting_def expunged_def split: if_splits)

lemma sending_unlinked [simp]: "sending (unlinked ts sn) t p = sending sn t p"
  by (auto simp: sending_def unlinked_def split: if_splits)

lemma wait_free:
  assumes inv: "wait_inv qs sn rc" and q: "qs p = Some q" "q_live q" and "\<not> q_live q'"
  shows "wait_inv (qs(p \<mapsto> q')) (unlinked (q_senders q) sn) (expunged (q_receivers q) EIDRM rc)"
proof (rule wait_upd [OF inv])
  fix t r assume r: "r \<noteq> p"
  have "waiting rc t r \<Longrightarrow> \<not> waiting rc t p" using r by (auto simp: waiting_def)
  then show "waiting (expunged (q_receivers q) EIDRM rc) t r = waiting rc t r"
    using wait_invD(2) [OF inv q] by (auto simp: waiting_expunged)
next
  fix t f assume f: "unlinked (q_senders q) sn t = Some f" "fs_msq f \<noteq> p"
  then have "\<not> sending sn t p" using sending_unlinked [of "q_senders q" sn t p] by (auto simp: sending_def)
  then show "sn t = Some f" using f(1) wait_invD(3) [OF inv q] by (simp add: unlinked_def)
next
  fix t f assume f: "unlinked (q_senders q) sn t = Some f" "fs_msq f = p"
  then have "sending sn t p" using sending_unlinked [of "q_senders q" sn t p] by (auto simp: sending_def)
  then have "t \<in> set (q_senders q)" using wait_invD(3) [OF inv q] by simp
  then show "fs_linked f = q_live q'" using f(1) assms(4) by (auto simp: unlinked_def)
next
  fix t assume "waiting (expunged (q_receivers q) EIDRM rc) t p"
  then show "q_live q'" using wait_invD(2) [OF inv q] by (simp add: waiting_expunged)
qed (use wait_invD(6) [OF inv] assms(4) in auto)

subsection \<open>References\<close>

lemma scount_simps:
  assumes "finite (dom sn)"
  shows "sn t = None \<Longrightarrow> scount (sn(t \<mapsto> f)) p = scount sn p + of_bool (fs_msq f = p)"
    and "sn t = Some f \<Longrightarrow> scount (sn(t := None)) p = scount sn p - of_bool (fs_msq f = p)"
    and "scount (unlinked ts sn) p = scount sn p"
proof -
  show "sn t = None \<Longrightarrow> scount (sn(t \<mapsto> f)) p = scount sn p + of_bool (fs_msq f = p)"
    using map_sum_new [OF assms, of t "\<lambda>f. of_bool (fs_msq f = p) :: int" f] by (simp add: scount_def)
  show "sn t = Some f \<Longrightarrow> scount (sn(t := None)) p = scount sn p - of_bool (fs_msq f = p)"
    using map_sum_delete [OF assms, of t f "\<lambda>f. of_bool (fs_msq f = p) :: int"] by (simp add: scount_def)
  have "fs_msq (the (unlinked ts sn t)) = fs_msq (the (sn t))" if "t \<in> dom sn" for t
    using that by (auto simp: unlinked_def)
  then show "scount (unlinked ts sn) p = scount sn p"
    unfolding scount_def map_sum_def by (auto intro!: sum.cong)
qed

lemma scount_pos:
  assumes "finite (dom sn)"
  shows "0 \<le> scount sn p" and "scount sn p = 0 \<longleftrightarrow> (\<forall>t. \<not> sending sn t p)"
proof -
  show "0 \<le> scount sn p"
    unfolding scount_def map_sum_def by (rule sum_nonneg) simp
  have "scount sn p = 0 \<longleftrightarrow> (\<forall>t\<in>dom sn. of_bool (fs_msq (the (sn t)) = p) = (0 :: int))"
    unfolding scount_def map_sum_def by (rule sum_nonneg_eq_0_iff [OF assms]) simp
  also have "\<dots> \<longleftrightarrow> (\<forall>t. \<not> sending sn t p)"
    unfolding sending_def of_bool_eq_0_iff by (metis domD domI option.sel)
  finally show "scount sn p = 0 \<longleftrightarrow> (\<forall>t. \<not> sending sn t p)" .
qed

lemma ref_invD:
  assumes "ref_inv K qs sn m"
  shows "rcu_inv K m" and "finite (dom sn)"
    and "qs p = Some q \<Longrightarrow> rcu_count K m p = Some (of_bool (q_live q) + scount sn p)"
  using assms unfolding ref_inv_def by blast+

lemma ref_same:
  assumes "ref_inv K qs sn m" and "qs p = Some q" and "q_live q' = q_live q"
  shows "ref_inv K (qs(p \<mapsto> q')) sn m"
  using assms unfolding ref_inv_def by auto

lemma ref_new:
  assumes "ref_inv K qs sn m" and "rcu_inv K m'" and "rcu_count K m' = (rcu_count K m)(p \<mapsto> 1)"
    and "q_live q" and "scount sn p = 0"
  shows "ref_inv K (qs(p \<mapsto> q)) sn m'"
  using assms unfolding ref_inv_def by auto

lemma ref_get:
  assumes inv: "ref_inv K qs sn m" and q: "qs p = Some q" and "sn t = None" and "fs_msq f = p"
  shows "\<exists>m'. ipc_rcu_getref K p m = Some m' \<and> ref_inv K qs (sn(t \<mapsto> f)) m'"
proof -
  note c = ref_invD(3) [OF inv q]
  obtain m' where m': "ipc_rcu_getref K p m = Some m'"
    "rcu_count K m' = (rcu_count K m)(p \<mapsto> of_bool (q_live q) + scount sn p + 1)"
    using rcu.get_live [OF c] by blast
  have "ref_inv K qs (sn(t \<mapsto> f)) m'"
    using inv q m'(2) getref_inv [OF ref_invD(1) [OF inv] m'(1)] scount_simps(1) [OF ref_invD(2) [OF inv] assms(3)] assms(4)
    unfolding ref_inv_def by auto
  then show ?thesis using m'(1) by blast
qed

text \<open>
  Dropping the reference of the table (\<open>d\<close> is the queue after \<^verbatim>\<open>msg_rmid\<close>) or of a sender: the
  queue stays in memory exactly as long as somebody refers to it.
\<close>

lemma ref_put:
  assumes K: "alloc_hdr_ok K" and inv: "rcu_inv K m" and fin: "finite (dom sn')"
    and others: "\<And>r u. r \<noteq> p \<Longrightarrow> qs r = Some u \<Longrightarrow> rcu_count K m r = Some (of_bool (q_live u) + scount sn' r)"
    and q: "qs p = Some q" and c: "rcu_count K m p = Some (of_bool (q_live q) + scount sn' p + 1)"
  shows "\<exists>m'. ipc_rcu_putref K p m = Some m' \<and>
    (if of_bool (q_live q) + scount sn' p = 0
     then hdrs m' (container_hdr K p) = None \<and> ref_inv K (qs(p := None)) sn' m'
     else hdrs m' (container_hdr K p) \<noteq> None \<and> ref_inv K qs sn' m')"
proof -
  let ?c = "of_bool (q_live q) + scount sn' p"
  have nn: "0 \<le> ?c" using scount_pos(1) [OF fin, of p] by simp
  show ?thesis
  proof (cases "?c = 0")
    case True
    obtain m' where m': "ipc_rcu_putref K p m = Some m'" "rcu_count K m' = (rcu_count K m)(p := None)"
      using rcu.put_last [OF c] True by auto
    have "hdrs m' (container_hdr K p) = None" using fun_cong [OF m'(2), of p] by (simp add: rcu_count_def)
    moreover have "ref_inv K (qs(p := None)) sn' m'"
      using putref_inv [OF K inv m'(1)] fin others m'(2) unfolding ref_inv_def by auto
    ultimately show ?thesis using m'(1) True by simp
  next
    case False
    then obtain m' where m': "ipc_rcu_putref K p m = Some m'" "rcu_count K m' = (rcu_count K m)(p \<mapsto> ?c)"
      using rcu.put_live [OF c] nn by auto
    have "hdrs m' (container_hdr K p) \<noteq> None" using fun_cong [OF m'(2), of p] by (auto simp: rcu_count_def)
    moreover have "rcu_count K m' r = Some (of_bool (q_live u) + scount sn' r)" if "qs r = Some u" for r u
      using others [of r u] m'(2) q that by (cases "r = p") auto
    then have "ref_inv K qs sn' m'"
      using putref_inv [OF K inv m'(1)] fin unfolding ref_inv_def by blast
    ultimately show ?thesis using m'(1) False by simp
  qed
qed

subsection \<open>Sending\<close>

lemma msg_perms_simps [simp]:
  "msg_perms (set_queue p q ns) = (msg_perms ns)(p \<mapsto> q_perm q)"
  "msg_perms (ns\<lparr>mem := a\<rparr>) = msg_perms ns"
  "msg_perms (ns\<lparr>mblocks := b\<rparr>) = msg_perms ns"
  "msg_perms (ns\<lparr>snds := c\<rparr>) = msg_perms ns"
  "msg_perms (ns\<lparr>rcvs := d\<rparr>) = msg_perms ns"
  "msg_perms (ns\<lparr>asleep := e\<rparr>) = msg_perms ns"
  "msg_perms (ns\<lparr>msg_bytes := f\<rparr>) = msg_perms ns"
  "msg_perms (ns\<lparr>msg_hdrs := g\<rparr>) = msg_perms ns"
  "msg_perms (ns\<lparr>msg_ids := h\<rparr>) = msg_perms ns"
  by (auto simp: msg_perms_def set_queue_def)

lemma set_queue_simps [simp]:
  "queues (set_queue p q ns) = (queues ns)(p \<mapsto> q)"
  "msg_ids (set_queue p q ns) = msg_ids ns" "mem (set_queue p q ns) = mem ns"
  "mblocks (set_queue p q ns) = mblocks ns" "snds (set_queue p q ns) = snds ns"
  "rcvs (set_queue p q ns) = rcvs ns" "asleep (set_queue p q ns) = asleep ns"
  "msg_bytes (set_queue p q ns) = msg_bytes ns" "msg_hdrs (set_queue p q ns) = msg_hdrs ns"
  "msg_ctlmax (set_queue p q ns) = msg_ctlmax ns" "msg_ctlmnb (set_queue p q ns) = msg_ctlmnb ns"
  "msg_ctlmni (set_queue p q ns) = msg_ctlmni ns"
  by (simp_all add: set_queue_def)

lemma msg_perms_iff: "msg_perms ns p = Some u \<longleftrightarrow> (\<exists>q. queues ns p = Some q \<and> u = q_perm q)"
  by (auto simp: msg_perms_def)

lemma msg_heldD:
  assumes "msg_held K X ns"
  shows "msgq_hdr_ok K" "uint (msg_ctlmax ns) \<le> INT_MAX"
    and "ids_inv K (msg_ids ns) (msg_perms ns)"
    and "acct_inv (queues ns) (msg_hdrs ns) (msg_bytes ns)"
    and "own_inv (queues ns) (snds ns) (rcvs ns) (mblocks ns) X"
    and "wait_inv (queues ns) (snds ns) (rcvs ns)"
    and "ref_inv K (queues ns) (snds ns) (mem ns)"
    and "msgs_ok K (queues ns) (snds ns) (rcvs ns)"
  using assms unfolding msg_held_def by blast+

lemma msg_heldI:
  assumes "msgq_hdr_ok K" "uint (msg_ctlmax ns) \<le> INT_MAX"
    and "ids_inv K (msg_ids ns) (msg_perms ns)"
    and "acct_inv (queues ns) (msg_hdrs ns) (msg_bytes ns)"
    and "own_inv (queues ns) (snds ns) (rcvs ns) (mblocks ns) X"
    and "wait_inv (queues ns) (snds ns) (rcvs ns)"
    and "ref_inv K (queues ns) (snds ns) (mem ns)"
    and "msgs_ok K (queues ns) (snds ns) (rcvs ns)"
  shows "msg_held K X ns"
  using assms unfolding msg_held_def by blast

lemma msgs_okD:
  assumes "msgs_ok K qs sn rc"
  shows "qs p = Some q \<Longrightarrow> q_live q \<Longrightarrow> m \<in> set (q_messages q) \<Longrightarrow> msg_ok K m"
    and "sn t = Some f \<Longrightarrow> msg_ok K (fs_msg f) \<and> m_ts (fs_msg f) = unat (fs_msgsz f)"
    and "rc t = Some g \<Longrightarrow> r_msg_ok K (fr_msg g)"
  using assms unfolding msgs_ok_def by blast+

lemma msgs_ok_queue:
  assumes "msgs_ok K qs sn rc"
    and "\<And>m. q_live q' \<Longrightarrow> m \<in> set (q_messages q') \<Longrightarrow> msg_ok K m"
  shows "msgs_ok K (qs(p \<mapsto> q')) sn rc"
  using assms unfolding msgs_ok_def by auto

lemma snd_fail_ok:
  assumes "msg_held K (mset (msg_addrs m)) ns"
  shows "\<exists>mb. snd_fail err m ns = (Done (Inl err), ns\<lparr>mblocks := mb\<rparr>) \<and> msg_held K {#} (ns\<lparr>mblocks := mb\<rparr>)"
proof -
  note H = msg_heldD [OF assms]
  obtain mb where mb: "free_msg m (mblocks ns) = Some mb" "own_inv (queues ns) (snds ns) (rcvs ns) mb {#}"
    using free_msg_owned [of "queues ns" "snds ns" "rcvs ns" "mblocks ns" "{#}" m] H(5) by auto
  have "msg_held K {#} (ns\<lparr>mblocks := mb\<rparr>)"
    by (rule msg_heldI) (use H mb(2) in simp_all)
  then show ?thesis using mb(1) by (auto simp: snd_fail_def)
qed

lemma r_own_simps [simp]:
  "r_own (f\<lparr>fr_msg := R_ERR e\<rparr>) = {#}" "r_own (f\<lparr>fr_msg := R_MSG m\<rparr>) = mset (msg_addrs m)"
  by (simp_all add: r_own_def)

text \<open>The walk over the receivers, for the queue at \<open>p\<close>.\<close>

definition pipe_ok ::
  "'h msgq_hdr_scheme \<Rightarrow> (addr \<rightharpoonup> msg_queue) \<Rightarrow> (task \<rightharpoonup> snd_frame) \<Rightarrow> mblocks \<Rightarrow> addr \<Rightarrow> addr multiset \<Rightarrow>
   msg_queue \<Rightarrow> (task \<rightharpoonup> rcv_frame) \<Rightarrow> bool" where
  "pipe_ok K qs sn mb p X q rc \<longleftrightarrow>
     q_live q \<and> wait_inv (qs(p \<mapsto> q)) sn rc \<and> own_inv (qs(p \<mapsto> q)) sn rc mb X \<and> msgs_ok K (qs(p \<mapsto> q)) sn rc"

definition queue_core :: "msg_queue \<Rightarrow> kern_ipc_perm \<times> msg_msg list \<times> ulong \<times> ulong \<times> ulong \<times> task list" where
  "queue_core q = (q_perm q, q_messages q, q_cbytes q, q_qnum q, q_qbytes q, q_senders q)"

lemma pipe_answer:
  assumes P: "pipe_ok K qs sn mb p X q rc" and t: "t \<in> set (q_receivers q)" and f: "rc t = Some f"
    and q': "queue_core q' = queue_core q" "q_receivers q' = remove1 t (q_receivers q)"
    and r: "r \<noteq> R_ERR EAGAIN" "r_own (f\<lparr>fr_msg := r\<rparr>) + X' = X" "r_msg_ok K r"
  shows "pipe_ok K qs sn mb p X' q' (rc(t \<mapsto> f\<lparr>fr_msg := r\<rparr>))"
proof -
  let ?qs = "qs(p \<mapsto> q)"
  have live: "q_live q" "q_live q'" and sn: "q_senders q' = q_senders q" "q_messages q' = q_messages q"
    using P q'(1) by (auto simp: pipe_ok_def queue_core_def q_live_def)
  have W: "wait_inv ?qs sn rc" and O: "own_inv ?qs sn rc mb X" and M: "msgs_ok K ?qs sn rc"
    using P by (auto simp: pipe_ok_def)
  have "waiting rc t p" using wait_invD(2) [OF W, of p q t] t live by simp
  then have "r_own f = {#}" using f by (auto simp: waiting_def r_own_def)
  then have o1: "own_inv ?qs sn (rc(t \<mapsto> f\<lparr>fr_msg := r\<rparr>)) mb X'"
    by (intro own_rcv_upd [OF O f]) (use r(2) in simp)
  have o2: "own_inv (?qs(p \<mapsto> q')) sn (rc(t \<mapsto> f\<lparr>fr_msg := r\<rparr>)) mb X'"
    by (rule own_same [OF o1, of p q]) (use live sn in simp_all)
  have w2: "wait_inv (?qs(p \<mapsto> q')) sn (rc(t \<mapsto> f\<lparr>fr_msg := r\<rparr>))"
    by (rule wait_rcv_leave [OF W, of p q t q' _ "f\<lparr>fr_msg := r\<rparr>"]) (use t live q'(2) sn r(1) in simp_all)
  have "msgs_ok K (?qs(p \<mapsto> q')) sn rc"
    by (rule msgs_ok_queue [OF M]) (use msgs_okD(1) [OF M, of p q] live sn in simp)
  then have m2: "msgs_ok K (?qs(p \<mapsto> q')) sn (rc(t \<mapsto> f\<lparr>fr_msg := r\<rparr>))"
    using r(3) unfolding msgs_ok_def by auto
  show ?thesis using o2 w2 m2 live by (simp add: pipe_ok_def)
qed

lemma pipelined_send_ok:
  assumes "pipe_ok K qs sn mb p (mset (msg_addrs msg)) q rc" and "msg_ok K msg"
    and "set ts \<subseteq> set (q_receivers q)" and "distinct ts"
  shows "\<exists>b q' rc' sl'. pipelined_send E msg ts q rc sl = Some (b, q', rc', sl') \<and>
    queue_core q' = queue_core q \<and>
    pipe_ok K qs sn mb p (if b then {#} else mset (msg_addrs msg)) q' rc'"
  using assms
proof (induction ts arbitrary: q rc sl)
  case Nil
  then show ?case by (intro exI [of _ False]) simp
next
  case (Cons t ts)
  have W: "wait_inv (qs(p \<mapsto> q)) sn rc" and live: "q_live q" using Cons.prems by (auto simp: pipe_ok_def)
  have t: "t \<in> set (q_receivers q)" using Cons.prems by simp
  then have "waiting rc t p" using wait_invD(2) [OF W, of p q t] live by simp
  then obtain f where f: "rc t = Some f" "fr_msg f = R_ERR EAGAIN" by (auto simp: waiting_def)
  have dist: "distinct (q_receivers q)" using wait_invD(1) [OF W, of p q] live by simp
  show ?case
  proof (cases "testmsg msg (fr_msgtype f) (fr_mode f) \<and>
      security_msg_queue_msgrcv E q msg t (fr_msgtype f) (fr_mode f) = None")
    case False
    have "set ts \<subseteq> set (q_receivers q)" "distinct ts" using Cons.prems by simp_all
    from Cons.IH [OF Cons.prems(1,2) this, of sl] show ?thesis
      using False f(1) by (simp split del: if_split) (auto split: if_splits)
  next
    case True
    define q1 where "q1 = q\<lparr>q_receivers := remove1 t (q_receivers q)\<rparr>"
    have c1: "queue_core q1 = queue_core q" "q_receivers q1 = remove1 t (q_receivers q)"
      by (simp_all add: q1_def queue_core_def)
    show ?thesis
    proof (cases "fr_maxsize f < int (m_ts msg)")
      case big: True
      have P1: "pipe_ok K qs sn mb p (mset (msg_addrs msg)) q1 (rc(t \<mapsto> f\<lparr>fr_msg := R_ERR E2BIG\<rparr>))"
        by (rule pipe_answer [OF Cons.prems(1) t f(1) c1]) simp_all
      have "set ts \<subseteq> set (q_receivers q1)" "distinct ts"
        using Cons.prems(3,4) dist c1(2) by auto
      from Cons.IH [OF P1 Cons.prems(2) this, of "sl - {t}"] show ?thesis
        using True big f(1) c1 by (simp add: q1_def [symmetric] del: fun_upd_apply)
    next
      case False
      define q2 where "q2 = q1\<lparr>q_lrpid := task_pid_vnr E t, q_rtime := get_seconds E\<rparr>"
      have c2: "queue_core q2 = queue_core q" "q_receivers q2 = remove1 t (q_receivers q)"
        using c1 by (simp_all add: q2_def queue_core_def)
      have "pipe_ok K qs sn mb p {#} q2 (rc(t \<mapsto> f\<lparr>fr_msg := R_MSG msg\<rparr>))"
        by (rule pipe_answer [OF Cons.prems(1) t f(1) c2]) (use Cons.prems(2) in simp_all)
      then show ?thesis
        using True False f(1) c2
        by (intro exI [of _ True]) (simp add: q1_def [symmetric] q2_def [symmetric] del: fun_upd_apply)
    qed
  qed
qed

lemma held_live_queue:
  assumes "msg_held K X ns" and "msg_lock_check K ns x = Inr p"
  shows "\<exists>q. queues ns p = Some q \<and> q_live q"
  using lock_check_iff [of K "msg_ids ns" "msg_perms ns" x p] msg_heldD(1,3) [OF assms(1)] assms(2)
  by (auto simp: msg_lock_check_def msg_perms_iff q_live_def msgq_hdr_ok_def)

text \<open>Replacing a queue by one with the same permissions.\<close>

lemma ids_inv_same_perm:
  assumes "ids_inv K (msg_ids ns) (msg_perms ns)" and "queues ns p = Some q" and "q_perm q' = q_perm q"
  shows "ids_inv K (msg_ids ns) ((msg_perms ns)(p \<mapsto> q_perm q'))"
  using assms by (simp add: msg_perms_def fun_upd_idem)

lemma snd_deliver_ok:
  assumes held: "msg_held K (mset (msg_addrs msg)) ns" and q: "queues ns p = Some q" "q_live q"
    and msg: "msg_ok K msg" "m_ts msg = unat msgsz"
    and d: "snd_deliver E p q msg msgsz ns = (r, ns')"
  shows "r = Done (Inr 0) \<and> msg_held K {#} ns'"
proof -
  note H = msg_heldD [OF held]
  define q0 where "q0 = q\<lparr>q_lspid := current_tgid E, q_stime := get_seconds E\<rparr>"
  have core0: "queue_core q0 = queue_core q" "q_receivers q0 = q_receivers q" "q_live q0"
    using q(2) by (simp_all add: q0_def queue_core_def q_live_def)
  have P0: "pipe_ok K (queues ns) (snds ns) (mblocks ns) p (mset (msg_addrs msg)) q0 (rcvs ns)"
    unfolding pipe_ok_def
  proof (intro conjI)
    show "wait_inv ((queues ns)(p \<mapsto> q0)) (snds ns) (rcvs ns)"
      by (rule wait_same [OF H(6) q(1)]) (use q in \<open>simp_all add: q0_def q_live_def\<close>)
    show "own_inv ((queues ns)(p \<mapsto> q0)) (snds ns) (rcvs ns) (mblocks ns) (mset (msg_addrs msg))"
      by (rule own_same [OF H(5) q(1)]) (use q in \<open>simp_all add: q0_def q_live_def\<close>)
    show "msgs_ok K ((queues ns)(p \<mapsto> q0)) (snds ns) (rcvs ns)"
      by (rule msgs_ok_queue [OF H(8)]) (use msgs_okD(1) [OF H(8) q] in \<open>simp add: q0_def\<close>)
  qed (rule core0)
  have dist: "distinct (q_receivers q0)" using wait_invD(1) [OF H(6) q] core0(2) by simp
  obtain b q1 rc sl where ps: "pipelined_send E msg (q_receivers q0) q0 (rcvs ns) (asleep ns) = Some (b, q1, rc, sl)"
    "queue_core q1 = queue_core q0"
    "pipe_ok K (queues ns) (snds ns) (mblocks ns) p (if b then {#} else mset (msg_addrs msg)) q1 rc"
    using pipelined_send_ok [OF P0 msg(1) subset_refl dist, of E "asleep ns"] by blast
  have core: "q_perm q1 = q_perm q" "q_messages q1 = q_messages q" "q_cbytes q1 = q_cbytes q"
    "q_qnum q1 = q_qnum q" "q_live q1"
    using ps(2,3) core0(1) by (auto simp: queue_core_def pipe_ok_def)
  have W: "wait_inv ((queues ns)(p \<mapsto> q1)) (snds ns) rc"
    and M: "msgs_ok K ((queues ns)(p \<mapsto> q1)) (snds ns) rc"
    using ps(3) by (auto simp: pipe_ok_def)
  show ?thesis
  proof (cases b)
    case True
    then have r: "r = Done (Inr 0)" "ns' = set_queue p q1 (ns\<lparr>rcvs := rc, asleep := sl\<rparr>)"
      using d ps(1) by (simp_all add: snd_deliver_def q0_def [symmetric])
    have "msg_held K {#} ns'"
    proof (rule msg_heldI)
      show "own_inv (queues ns') (snds ns') (rcvs ns') (mblocks ns') {#}"
        using ps(3) True by (simp add: r pipe_ok_def)
      show "acct_inv (queues ns') (msg_hdrs ns') (msg_bytes ns')"
        using acct_same [OF H(4) q(1), of q1] core q(2) by (simp add: r)
      show "ids_inv K (msg_ids ns') (msg_perms ns')"
        using ids_inv_same_perm [OF H(3) q(1) core(1)] by (simp add: r)
      show "ref_inv K (queues ns') (snds ns') (mem ns')"
        using ref_same [OF H(7) q(1), of q1] core(5) q(2) by (simp add: r)
    qed (use H W M in \<open>simp_all add: r\<close>)
    then show ?thesis using r by simp
  next
    case False
    define q2 where "q2 = q1\<lparr>q_messages := q_messages q1 @ [msg], q_cbytes := q_cbytes q1 + msgsz,
                             q_qnum := q_qnum q1 + 1\<rparr>"
    have r: "r = Done (Inr 0)"
      "ns' = set_queue p q2 (ns\<lparr>rcvs := rc, asleep := sl, msg_bytes := msg_bytes ns + ucast msgsz,
                               msg_hdrs := msg_hdrs ns + 1\<rparr>)"
      using d ps(1) False by (simp_all add: snd_deliver_def q0_def [symmetric] q2_def)
    have live2: "q_live q2" using core(5) by (simp add: q2_def q_live_def)
    have O: "own_inv ((queues ns)(p \<mapsto> q1)) (snds ns) rc (mblocks ns) (mset (msg_addrs msg))"
      using ps(3) False by (simp add: pipe_ok_def)
    have up: "((queues ns)(p \<mapsto> q1))(p \<mapsto> q2) = (queues ns)(p \<mapsto> q2)" by simp
    have cnt: "msgs_cnt q2 = msgs_cnt q + 1" "msgs_sum q2 = msgs_sum q + int (unat msgsz)"
      using live2 q(2) core(2) msg(2) by (simp_all add: msgs_cnt_def msgs_sum_def q2_def)
    have "msg_held K {#} ns'"
    proof (rule msg_heldI)
      have "own_inv (((queues ns)(p \<mapsto> q1))(p \<mapsto> q2)) (snds ns) rc (mblocks ns) {#}"
        by (rule own_queue [OF O, of p q1]) (use live2 core(5) in \<open>simp_all add: q_own_def q2_def\<close>)
      then show "own_inv (queues ns') (snds ns') (rcvs ns') (mblocks ns') {#}" by (simp add: r)
      have "wait_inv (((queues ns)(p \<mapsto> q1))(p \<mapsto> q2)) (snds ns) rc"
        by (rule wait_same [OF W, of p q1]) (use live2 core(5) in \<open>simp_all add: q2_def\<close>)
      then show "wait_inv (queues ns') (snds ns') (rcvs ns')" by (simp add: r)
      have "msgs_ok K (((queues ns)(p \<mapsto> q1))(p \<mapsto> q2)) (snds ns) rc"
        by (rule msgs_ok_queue [OF M]) (use msgs_okD(1) [OF M, of p q1] core(5) msg(1) in \<open>auto simp: q2_def\<close>)
      then show "msgs_ok K (queues ns') (snds ns') (rcvs ns')" by (simp add: r)
      have "acct_inv ((queues ns)(p \<mapsto> q2)) (msg_hdrs ns + 1) (msg_bytes ns + ucast msgsz)"
      proof (rule acct_upd [OF H(4) q(1)])
        have "q_qnum q = word_of_int (msgs_cnt q)" "q_cbytes q = word_of_int (msgs_sum q)"
          using H(4) q by (auto simp: acct_inv_def)
        then show "q_qnum q2 = word_of_int (msgs_cnt q2) \<and> q_cbytes q2 = word_of_int (msgs_sum q2)"
          using core cnt by (simp add: q2_def)
      qed (simp_all add: cnt)
      then show "acct_inv (queues ns') (msg_hdrs ns') (msg_bytes ns')" by (simp add: r)
      have "q_perm q2 = q_perm q" using core(1) by (simp add: q2_def)
      then show "ids_inv K (msg_ids ns') (msg_perms ns')"
        using ids_inv_same_perm [OF H(3) q(1), of q2] by (simp add: r)
      show "ref_inv K (queues ns') (snds ns') (mem ns')"
        using ref_same [OF H(7) q(1), of q2] live2 q(2) by (simp add: r)
    qed (use H in \<open>simp_all add: r\<close>)
    then show ?thesis using r by simp
  qed
qed

lemma snd_sleep_ok:
  assumes held: "msg_held K (mset (msg_addrs msg)) ns" and q: "queues ns p = Some q" "q_live q"
    and msg: "msg_ok K msg" "m_ts msg = unat msgsz" and t: "snds ns t = None" "rcvs ns t = None"
  shows "\<exists>m. ipc_rcu_getref K p (mem ns) = Some m \<and>
    msg_held K {#} ((ss_add t p q ns)\<lparr>mem := m,
      snds := (snds ns)(t \<mapsto> \<lparr>fs_msq = p, fs_msg = msg, fs_msgsz = msgsz, fs_flg = flg, fs_linked = True\<rparr>)\<rparr>)"
proof -
  note H = msg_heldD [OF held]
  define f where "f = \<lparr>fs_msq = p, fs_msg = msg, fs_msgsz = msgsz, fs_flg = flg, fs_linked = True\<rparr>"
  define q' where "q' = q\<lparr>q_senders := q_senders q @ [t]\<rparr>"
  have live: "q_live q'" using q(2) by (simp add: q'_def q_live_def)
  obtain m where m: "ipc_rcu_getref K p (mem ns) = Some m" "ref_inv K (queues ns) ((snds ns)(t \<mapsto> f)) m"
    using ref_get [OF H(7) q(1) t(1), of f] by (auto simp: f_def)
  have "msg_held K {#} ((ss_add t p q ns)\<lparr>mem := m, snds := (snds ns)(t \<mapsto> f)\<rparr>)" (is "msg_held K {#} ?ns")
  proof (rule msg_heldI)
    show "ids_inv K (msg_ids ?ns) (msg_perms ?ns)"
      using ids_inv_same_perm [OF H(3) q(1), of q'] by (simp add: ss_add_def q'_def [symmetric]) (simp add: q'_def)
    show "acct_inv (queues ?ns) (msg_hdrs ?ns) (msg_bytes ?ns)"
      using acct_same [OF H(4) q(1), of q'] live q(2) by (simp add: ss_add_def q'_def)
    have "own_inv ((queues ns)(p \<mapsto> q')) (snds ns) (rcvs ns) (mblocks ns) (mset (msg_addrs msg))"
      by (rule own_same [OF H(5) q(1)]) (use live q(2) in \<open>simp_all add: q'_def\<close>)
    then show "own_inv (queues ?ns) (snds ?ns) (rcvs ?ns) (mblocks ?ns) {#}"
      using own_snd_add [of "(queues ns)(p \<mapsto> q')" "snds ns" "rcvs ns" "mblocks ns" "{#}" f t] t(1)
      by (simp add: ss_add_def q'_def [symmetric] s_own_def f_def)
    show "wait_inv (queues ?ns) (snds ?ns) (rcvs ?ns)"
      using wait_snd_sleep [OF H(6) q t, of q' f] live by (simp add: ss_add_def q'_def f_def)
    show "ref_inv K (queues ?ns) (snds ?ns) (mem ?ns)"
      using ref_same [OF m(2) q(1), of q'] live q(2) by (simp add: ss_add_def q'_def)
    have "msgs_ok K ((queues ns)(p \<mapsto> q')) (snds ns) (rcvs ns)"
      by (rule msgs_ok_queue [OF H(8)]) (use msgs_okD(1) [OF H(8) q] in \<open>simp add: q'_def\<close>)
    then show "msgs_ok K (queues ?ns) (snds ?ns) (rcvs ?ns)"
      using msg by (auto simp: ss_add_def q'_def msgs_ok_def f_def)
  qed (use H in \<open>simp_all add: ss_add_def\<close>)
  then show ?thesis using m(1) by (auto simp: f_def)
qed

lemma snd_attempt_ok:
  assumes held: "msg_held K (mset (msg_addrs msg)) ns" and q: "queues ns p = Some q" "q_live q"
    and msg: "msg_ok K msg" "m_ts msg = unat msgsz"
    and t: "snds ns (current E) = None" "rcvs ns (current E) = None" and E: "hooks_ok E"
    and a: "snd_attempt K E p msg msgsz flg ns = (r, ns')"
  shows "returns_ok r \<and> msg_held K {#} ns'"
proof -
  have fail: "returns_ok r' \<and> msg_held K {#} ns''" if "snd_fail err msg ns = (r', ns'')" "err \<noteq> KBUG" for err r' ns''
    using snd_fail_ok [OF held, of err] that by (auto simp: returns_ok_def)
  have deliver: "returns_ok r' \<and> msg_held K {#} ns''" if "snd_deliver E p q msg msgsz ns = (r', ns'')" for r' ns''
    using snd_deliver_ok [OF held q msg that] by (simp add: returns_ok_def)
  have hook: "security_msg_queue_msgsnd E q msg flg \<noteq> Some KBUG" using E by (simp add: hooks_ok_def)
  show ?thesis
    using a q(1) hook snd_sleep_ok [OF held q msg t, of flg]
    by (auto simp: snd_attempt_def Let_def returns_ok_def ss_add_def fail deliver
        split: if_splits option.splits dest!: fail deliver)
qed

lemma do_msgsnd_ok:
  assumes inv: "msg_inv K ns" and E: "msgq_env_ok E ns"
    and t: "snds ns (current E) = None" "rcvs ns (current E) = None"
    and d: "do_msgsnd K E um msqid mtype mtext msgsz flg ns = (r, ns')"
  shows "returns_ok r \<and> msg_inv K ns'"
proof (cases "msgsz > msg_ctlmax ns \<or> sint msgsz < 0 \<or> msqid < 0 \<or> mtype < 1")
  case True
  then show ?thesis using d inv by (auto simp: do_msgsnd_def returns_ok_def split: if_splits)
next
  case False
  note H = msg_heldD [OF inv [unfolded msg_inv_def]]
  have hdr: "msg_hdr_ok K" using H(1) by (simp add: msgq_hdr_ok_def)
  have Eo: "uaccess_ok E" "kmallocs_ok E (mblocks ns)" "security_msg_msg_alloc E \<noteq> Some KBUG" "hooks_ok E"
    using E by (auto simp: msgq_env_ok_def hooks_ok_def)
  have "uint msgsz \<le> INT_MAX" using False H(2) by (simp add: word_le_def not_less)
  then have len: "c_int (uint msgsz) = uint msgsz" by (intro c_int_id) (simp_all add: INT_MAX_def order_trans [OF _ uint_ge_0])
  from load_msg_spec [OF hdr Eo(1-3), of um mtext "uint msgsz"]
  consider (err) err where "load_msg K E um mtext (uint msgsz) (mblocks ns) = Some (Inl err, mblocks ns)" "err \<noteq> KBUG"
    | (ok) m mb where "load_msg K E um mtext (uint msgsz) (mblocks ns) = Some (Inr m, mb)"
        "grown (mblocks ns) mb (msg_addrs m)" "msg_wf K (nat (uint msgsz)) m" by blast
  then show ?thesis
  proof cases
    case err
    then show ?thesis using d inv False len by (auto simp: do_msgsnd_def returns_ok_def)
  next
    case ok
    define msg where "msg = m\<lparr>m_type := mtype, m_ts := unat msgsz\<rparr>"
    define ns1 where "ns1 = ns\<lparr>mblocks := mb\<rparr>"
    have addrs: "msg_addrs msg = msg_addrs m" by (simp add: msg_def msg_addrs_def)
    have msg: "msg_ok K msg" "m_ts msg = unat msgsz"
    proof -
      have "msg_wf K n msg = msg_wf K n m" for n by (simp add: msg_wf_def msg_def)
      then show "msg_ok K msg" using ok(3) False by (simp add: msg_ok_def) (simp add: msg_def)
    qed (simp add: msg_def)
    have held: "msg_held K (mset (msg_addrs msg)) ns1"
    proof (rule msg_heldI)
      show "own_inv (queues ns1) (snds ns1) (rcvs ns1) (mblocks ns1) (mset (msg_addrs msg))"
        using grown_owned [OF H(5) ok(2)] by (simp add: ns1_def addrs)
    qed (use H in \<open>simp_all add: ns1_def\<close>)
    have d1: "(case msg_lock_check K ns1 msqid of
        Inl err \<Rightarrow> snd_fail err msg ns1 | Inr p \<Rightarrow> snd_attempt K E p msg msgsz flg ns1) = (r, ns')"
      using d False len ok(1) unfolding do_msgsnd_def Let_def msg_def ns1_def by simp
    show ?thesis
    proof (cases "msg_lock_check K ns1 msqid")
      case (Inl err)
      then have "err \<noteq> KBUG" using lock_check_Inl [OF msg_heldD(3) [OF held]] by (auto simp: msg_lock_check_def)
      then show ?thesis
        using snd_fail_ok [OF held, of err] d1 Inl by (auto simp: returns_ok_def msg_inv_def)
    next
      case (Inr p)
      then obtain q where q: "queues ns1 p = Some q" "q_live q" using held_live_queue [OF held] by blast
      have "snds ns1 (current E) = None" "rcvs ns1 (current E) = None" using t by (simp_all add: ns1_def)
      then show ?thesis
        using snd_attempt_ok [OF held q msg _ _ Eo(4)] d1 Inr by (simp add: msg_inv_def)
    qed
  qed
qed

subsection \<open>Dropping references\<close>

lemma msq_putref_ok:
  assumes hdr: "msgq_hdr_ok K" and mx: "uint (msg_ctlmax ns) \<le> INT_MAX"
    and ids: "ids_inv K (msg_ids ns) (msg_perms ns)"
    and acct: "acct_inv (queues ns) (msg_hdrs ns) (msg_bytes ns)"
    and own: "own_inv (queues ns) (snds ns) (rcvs ns) (mblocks ns) X"
    and wait: "wait_inv (queues ns) (snds ns) (rcvs ns)"
    and msgs: "msgs_ok K (queues ns) (snds ns) (rcvs ns)"
    and rcu: "rcu_inv K (mem ns)" and fin: "finite (dom (snds ns))" and q: "queues ns p = Some q"
    and others: "\<And>r u. r \<noteq> p \<Longrightarrow> queues ns r = Some u \<Longrightarrow>
      rcu_count K (mem ns) r = Some (of_bool (q_live u) + scount (snds ns) r)"
    and c: "rcu_count K (mem ns) p = Some (of_bool (q_live q) + scount (snds ns) p + 1)"
  shows "\<exists>m qs. msq_putref K p ns = Some (ns\<lparr>mem := m, queues := qs\<rparr>) \<and>
    msg_held K X (ns\<lparr>mem := m, queues := qs\<rparr>) \<and> (q_live q \<longrightarrow> qs = queues ns)"
proof -
  have K: "alloc_hdr_ok K" using hdr by (simp add: msgq_hdr_ok_def)
  obtain m where m: "ipc_rcu_putref K p (mem ns) = Some m" and alt:
    "if of_bool (q_live q) + scount (snds ns) p = 0
     then hdrs m (container_hdr K p) = None \<and> ref_inv K ((queues ns)(p := None)) (snds ns) m
     else hdrs m (container_hdr K p) \<noteq> None \<and> ref_inv K (queues ns) (snds ns) m"
    using ref_put [of K "mem ns" "snds ns" p "queues ns" q, OF K rcu fin others q c] by blast
  show ?thesis
  proof (cases "of_bool (q_live q) + scount (snds ns) p = 0")
    case True
    then have dead: "\<not> q_live q" and s0: "scount (snds ns) p = 0"
      using scount_pos(1) [OF fin, of p] by (auto split: if_splits simp: of_bool_def)
    have none: "\<not> sending (snds ns) t p" for t using scount_pos(2) [OF fin, of p] s0 by blast
    let ?ns = "ns\<lparr>mem := m, queues := (queues ns)(p := None)\<rparr>"
    have "msg_held K X ?ns"
    proof (rule msg_heldI)
      have "msg_perms ?ns = (msg_perms ns)(p := None)" by (auto simp: msg_perms_def)
      then show "ids_inv K (msg_ids ?ns) (msg_perms ?ns)"
        using ids_inv_drop [OF ids, of p] dead q by (simp add: msg_perms_def q_live_def)
      show "acct_inv (queues ?ns) (msg_hdrs ?ns) (msg_bytes ?ns)" using acct_drop [OF acct q dead] by simp
      show "own_inv (queues ?ns) (snds ?ns) (rcvs ?ns) (mblocks ?ns) X" using own_drop [OF own q dead] by simp
      show "wait_inv (queues ?ns) (snds ?ns) (rcvs ?ns)" using wait_drop [OF wait q dead none] by simp
      show "ref_inv K (queues ?ns) (snds ?ns) (mem ?ns)" using alt True by simp
      show "msgs_ok K (queues ?ns) (snds ?ns) (rcvs ?ns)" using msgs by (auto simp: msgs_ok_def)
    qed (use hdr mx in simp_all)
    then show ?thesis using m alt True dead by (auto simp: msq_putref_def)
  next
    case False
    let ?ns = "ns\<lparr>mem := m, queues := queues ns\<rparr>"
    have "msg_perms ?ns = msg_perms ns" by (simp add: msg_perms_def)
    then have "msg_held K X ?ns"
      using hdr mx ids acct own wait msgs alt False by (intro msg_heldI) simp_all
    moreover have "msq_putref K p ns = Some ?ns" using m alt False by (auto simp: msq_putref_def)
    ultimately show ?thesis by blast
  qed
qed

lemma resume_snd_ok:
  assumes inv: "msg_inv K ns" and E: "msgq_env_ok E ns" and s: "snds ns (current E) = Some s"
    and d: "resume_snd K E ns = (r, ns')"
  shows "returns_ok r \<and> msg_inv K ns'"
proof -
  note H = msg_heldD [OF inv [unfolded msg_inv_def]]
  let ?t = "current E" and ?p = "fs_msq s"
  obtain q where q: "queues ns ?p = Some q" "fs_linked s = q_live q" using wait_invD(5) [OF H(6) s] by blast
  have rcn: "rcvs ns ?t = None" using wait_invD(6) [OF H(6)] s by blast
  have fin: "finite (dom (snds ns))" by (rule ref_invD(2) [OF H(7)])
  have hooks: "hooks_ok E" using E by (simp add: msgq_env_ok_def)
  define ns0 where "ns0 = ns\<lparr>snds := (snds ns)(?t := None)\<rparr>"
  have sc: "scount (snds ns0) u = scount (snds ns) u - of_bool (?p = u)" for u
    using scount_simps(2) [OF fin s] by (simp add: ns0_def)
  have msg: "msg_ok K (fs_msg s)" "m_ts (fs_msg s) = unat (fs_msgsz s)"
    using msgs_okD(2) [OF H(8) s] by simp_all
  have cnt: "rcu_count K (mem ns) ?p = Some (of_bool (q_live q) + scount (snds ns0) ?p + 1)"
    and others: "\<And>u v. u \<noteq> ?p \<Longrightarrow> queues ns u = Some v \<Longrightarrow>
      rcu_count K (mem ns) u = Some (of_bool (q_live v) + scount (snds ns0) u)"
    using ref_invD(3) [OF H(7)] q(1) sc by auto
  have fin0: "finite (dom (snds ns0))" using fin by (simp add: ns0_def)
  have own0: "own_inv (queues ns) (snds ns0) (rcvs ns) (mblocks ns) (mset (msg_addrs (fs_msg s)))"
    using own_snd_del [OF H(5) s] by (simp add: ns0_def s_own_def)
  have msgs0: "msgs_ok K (queues ns) (snds ns0) (rcvs ns)" using H(8) by (auto simp: ns0_def msgs_ok_def)
  show ?thesis
  proof (cases "q_live q")
    case False
    have "wait_inv ((queues ns)(?p \<mapsto> q)) (snds ns0) (rcvs ns)"
      using wait_snd_del [OF H(6) q(1) s HOL.refl, of q] False by (simp add: ns0_def)
    then have W: "wait_inv (queues ns) (snds ns0) (rcvs ns)" using q(1) by (simp add: fun_upd_idem)
    obtain m qs where ns1: "msq_putref K ?p ns0 = Some (ns0\<lparr>mem := m, queues := qs\<rparr>)"
      "msg_held K (mset (msg_addrs (fs_msg s))) (ns0\<lparr>mem := m, queues := qs\<rparr>)"
      using msq_putref_ok [of K ns0 "mset (msg_addrs (fs_msg s))" ?p q] H(1-4) own0 W msgs0
        ref_invD(1) [OF H(7)] fin0 q(1) others cnt by (auto simp: ns0_def)
    have del: "p_deleted (q_perm q)" using False by (simp add: q_live_def)
    have "snd_fail EIDRM (fs_msg s) (ns0\<lparr>mem := m, queues := qs\<rparr>) = (r, ns')"
      using d s q(1) ns1(1) del by (simp add: resume_snd_def Let_def ns0_def)
    then show ?thesis using snd_fail_ok [OF ns1(2), of EIDRM] by (auto simp: returns_ok_def msg_inv_def)
  next
    case True
    have K: "alloc_hdr_ok K" using H(1) by (simp add: msgq_hdr_ok_def)
    have "of_bool (q_live q) + scount (snds ns0) ?p \<noteq> 0" using True scount_pos(1) [OF fin0, of ?p] by simp
    then obtain m where m: "ipc_rcu_putref K ?p (mem ns) = Some m" "hdrs m (container_hdr K ?p) \<noteq> None"
      "ref_inv K (queues ns) (snds ns0) m"
      using ref_put [of K "mem ns" "snds ns0" ?p "queues ns" q, OF K ref_invD(1) [OF H(7)] fin0 others q(1) cnt]
      by auto
    define q1 where "q1 = q\<lparr>q_senders := remove1 ?t (q_senders q)\<rparr>"
    define ns2 where "ns2 = set_queue ?p q1 (ns0\<lparr>mem := m\<rparr>)"
    have live1: "q_live q1" using True by (simp add: q1_def q_live_def)
    have put: "msq_putref K ?p ns0 = Some (ns0\<lparr>mem := m\<rparr>)"
      using m by (auto simp: msq_putref_def ns0_def)
    have held: "msg_held K (mset (msg_addrs (fs_msg s))) ns2"
    proof (rule msg_heldI)
      show "ids_inv K (msg_ids ns2) (msg_perms ns2)"
        using ids_inv_same_perm [OF H(3) q(1), of q1] by (simp add: ns2_def ns0_def q1_def)
      show "acct_inv (queues ns2) (msg_hdrs ns2) (msg_bytes ns2)"
        using acct_same [OF H(4) q(1), of q1] live1 True by (simp add: ns2_def ns0_def q1_def)
      show "own_inv (queues ns2) (snds ns2) (rcvs ns2) (mblocks ns2) (mset (msg_addrs (fs_msg s)))"
        using own_same [OF own0 q(1), of q1] live1 True by (simp add: ns2_def ns0_def q1_def)
      show "wait_inv (queues ns2) (snds ns2) (rcvs ns2)"
        using wait_snd_del [OF H(6) q(1) s HOL.refl, of q1] live1 True by (simp add: ns2_def ns0_def q1_def)
      show "ref_inv K (queues ns2) (snds ns2) (mem ns2)"
        using ref_same [OF m(3) q(1), of q1] live1 True by (simp add: ns2_def ns0_def)
      show "msgs_ok K (queues ns2) (snds ns2) (rcvs ns2)"
        using msgs_ok_queue [OF msgs0, of q1 ?p] msgs_okD(1) [OF H(8) q(1) True]
        by (simp add: ns2_def ns0_def q1_def)
    qed (use H in \<open>simp_all add: ns2_def ns0_def\<close>)
    have d2: "(if signal_pending E then snd_fail ERESTARTNOHAND (fs_msg s) ns2
      else snd_attempt K E ?p (fs_msg s) (fs_msgsz s) (fs_flg s) ns2) = (r, ns')"
      unfolding ns2_def q1_def using d s q put True
      by (simp add: resume_snd_def Let_def ns0_def [symmetric] ss_del_def q_live_def split del: if_split)
    have t2: "snds ns2 ?t = None" "rcvs ns2 ?t = None" using rcn by (simp_all add: ns2_def ns0_def)
    have q2: "queues ns2 ?p = Some q1" by (simp add: ns2_def)
    show ?thesis
    proof (cases "signal_pending E")
      case sig: True
      then show ?thesis using snd_fail_ok [OF held, of ERESTARTNOHAND] d2 by (auto simp: returns_ok_def msg_inv_def)
    next
      case False
      then show ?thesis using snd_attempt_ok [OF held q2 live1 msg t2 hooks] d2 by (simp add: msg_inv_def)
    qed
  qed
qed

end
