(* ===== verification/Msg_Calls.thy ===== *)
theory Msg_Calls
  imports Msg_Correct
begin

text \<open>
  The rest of the calls of \<^verbatim>\<open>ipc/msg.c\<close> keep the invariant of \<open>Msg_Correct\<close>: receiving, removing a
  queue, \<^verbatim>\<open>msgctl\<close> and \<^verbatim>\<open>msgget\<close>. \<open>msg_step\<close> puts the calls and the wake-ups together, and the
  properties of the message queues are stated for every state it reaches.
\<close>

subsection \<open>Receiving\<close>

lemma walk_messages_in:
  "walk_messages E q mode typ found ms = Some m \<Longrightarrow> m \<in> set ms \<or> found = Some m"
  by (induction E q mode "typ" found ms rule: walk_messages.induct) (auto split: if_splits)

lemma mset_concat_remove1:
  "m \<in> set ms \<Longrightarrow> mset (concat (map f (remove1 m ms))) + mset (f m) = mset (concat (map f ms))"
  by (induction ms) (auto simp: ac_simps)

lemma rcv_finish_ok:
  assumes held: "msg_held K (mset (msg_addrs m)) ns" and m: "msg_ok K m" and E: "uaccess_ok E"
    and d: "rcv_finish K E um dest m sz ns = (r, ns')"
  shows "returns_ok r \<and> msg_held K {#} ns'"
proof -
  note H = msg_heldD [OF held]
  define n where "n = (if unat sz > m_ts m then m_ts m else unat sz)"
  have K: "msg_hdr_ok K" using H(1) by (simp add: msgq_hdr_ok_def)
  have wf: "msg_wf K (m_ts m) m" and le: "n \<le> m_ts m" using m by (simp_all add: msg_ok_def n_def)
  obtain ok um' where st: "store_msg K E um dest m n = Inr (ok, um')"
    using store_msg_spec [OF K E wf le] by blast
  obtain mb where mb: "free_msg m (mblocks ns) = Some mb" "own_inv (queues ns) (snds ns) (rcvs ns) mb {#}"
    using free_msg_owned [of "queues ns" "snds ns" "rcvs ns" "mblocks ns" "{#}" m] H(5) by auto
  have "msg_held K {#} (ns\<lparr>mblocks := mb\<rparr>)"
    by (rule msg_heldI) (use H mb(2) in simp_all)
  then show ?thesis
    using d st mb(1) by (auto simp: rcv_finish_def Let_def n_def [symmetric] returns_ok_def split: if_splits)
qed

lemma rcv_take_ok:
  assumes held: "msg_held K {#} ns" and q: "queues ns p = Some q" "q_live q" and m: "m \<in> set (q_messages q)"
    and q': "q' = q\<lparr>q_messages := remove1 m (q_messages q), q_qnum := q_qnum q - 1, q_rtime := tm, q_lrpid := pid,
                    q_cbytes := q_cbytes q - of_nat (m_ts m)\<rparr>"
    and ns': "ns' = set_queue p q' (ns\<lparr>msg_bytes := msg_bytes ns - of_nat (m_ts m), msg_hdrs := msg_hdrs ns - 1\<rparr>)"
  shows "msg_held K (mset (msg_addrs m)) ns'"
proof -
  note H = msg_heldD [OF held]
  have live: "q_live q'" using q(2) by (simp add: q' q_live_def)
  have cnt: "msgs_cnt q' = msgs_cnt q - 1" "msgs_sum q' = msgs_sum q - int (m_ts m)"
    using live q(2) length_remove1_int [OF m] sum_list_remove1 [OF m, of "\<lambda>m. int (m_ts m)"]
    by (simp_all add: msgs_cnt_def msgs_sum_def q')
  show ?thesis
  proof (rule msg_heldI)
    show "ids_inv K (msg_ids ns') (msg_perms ns')"
      using ids_inv_same_perm [OF H(3) q(1), of q'] by (simp add: ns' q')
    have "acct_inv ((queues ns)(p \<mapsto> q')) (msg_hdrs ns - 1) (msg_bytes ns - of_nat (m_ts m))"
    proof (rule acct_upd [OF H(4) q(1)])
      have "q_qnum q = word_of_int (msgs_cnt q)" "q_cbytes q = word_of_int (msgs_sum q)"
        using H(4) q by (auto simp: acct_inv_def)
      then show "q_qnum q' = word_of_int (msgs_cnt q') \<and> q_cbytes q' = word_of_int (msgs_sum q')"
        unfolding cnt by (simp add: q')
    qed (simp_all add: cnt)
    then show "acct_inv (queues ns') (msg_hdrs ns') (msg_bytes ns')" by (simp add: ns')
    have "own_inv ((queues ns)(p \<mapsto> q')) (snds ns) (rcvs ns) (mblocks ns) (mset (msg_addrs m))"
      by (rule own_queue [OF H(5) q(1)])
        (use live q(2) mset_concat_remove1 [OF m, of msg_addrs] in \<open>simp add: q_own_def q'\<close>)
    then show "own_inv (queues ns') (snds ns') (rcvs ns') (mblocks ns') (mset (msg_addrs m))" by (simp add: ns')
    show "wait_inv (queues ns') (snds ns') (rcvs ns')"
      using wait_same [OF H(6) q(1), of q'] live q(2) by (simp add: ns' q')
    show "ref_inv K (queues ns') (snds ns') (mem ns')"
      using ref_same [OF H(7) q(1), of q'] live q(2) by (simp add: ns')
    have "msgs_ok K ((queues ns)(p \<mapsto> q')) (snds ns) (rcvs ns)"
      by (rule msgs_ok_queue [OF H(8)])
        (use msgs_okD(1) [OF H(8) q] in \<open>auto simp: q' dest: notin_set_remove1\<close>)
    then show "msgs_ok K (queues ns') (snds ns') (rcvs ns')" by (simp add: ns')
  qed (use H in \<open>simp_all add: ns'\<close>)
qed

lemma held_asleep: "msg_held K X (ns\<lparr>asleep := S\<rparr>) = msg_held K X ns"
  by (simp add: msg_held_def)

lemma rcv_sleep_ok:
  assumes held: "msg_held K {#} ns" and q: "queues ns p = Some q" "q_live q"
    and t: "snds ns t = None" "rcvs ns t = None" and f: "fr_msq f = p" "fr_msg f = R_ERR EAGAIN"
  shows "msg_held K {#} (set_queue p (q\<lparr>q_receivers := q_receivers q @ [t]\<rparr>)
    (ns\<lparr>rcvs := (rcvs ns)(t \<mapsto> f), asleep := S\<rparr>))" (is "msg_held K {#} ?ns")
proof -
  note H = msg_heldD [OF held]
  define q' where "q' = q\<lparr>q_receivers := q_receivers q @ [t]\<rparr>"
  have live: "q_live q'" and core: "queue_core q' = queue_core q"
    using q(2) by (simp_all add: q'_def q_live_def queue_core_def)
  show ?thesis unfolding q'_def [symmetric]
  proof (rule msg_heldI, goal_cases)
    case 3
    then show ?case using ids_inv_same_perm [OF H(3) q(1), of q'] by (simp add: q'_def)
  next
    case 4
    then show ?case using acct_same [OF H(4) q(1), of q'] live q(2) by (simp add: q'_def)
  next
    case 5
    have "own_inv ((queues ns)(p \<mapsto> q')) (snds ns) (rcvs ns) (mblocks ns) {#}"
      by (rule own_same [OF H(5) q(1)]) (use live q(2) in \<open>simp_all add: q'_def\<close>)
    then have "own_inv ((queues ns)(p \<mapsto> q')) (snds ns) ((rcvs ns)(t \<mapsto> f)) (mblocks ns) {#}"
      by (rule own_rcv_add) (simp_all add: r_own_def f t)
    then show ?case by simp
  next
    case 6
    then show ?case using wait_rcv_sleep [OF H(6) q t, of q' f] live f by (simp add: q'_def)
  next
    case 7
    then show ?case using ref_same [OF H(7) q(1), of q'] live q(2) by simp
  next
    case 8
    have "msgs_ok K ((queues ns)(p \<mapsto> q')) (snds ns) (rcvs ns)"
      by (rule msgs_ok_queue [OF H(8)]) (use msgs_okD(1) [OF H(8) q] in \<open>simp add: q'_def\<close>)
    then show ?case using f by (auto simp: msgs_ok_def)
  qed (use H in simp_all)
qed

lemma rcv_attempt_ok:
  assumes held: "msg_held K {#} ns" and q: "queues ns p = Some q" "q_live q"
    and t: "snds ns (current E) = None" "rcvs ns (current E) = None" and E: "uaccess_ok E"
    and d: "rcv_attempt K E um p mode typ sz flg dest ns = (r, ns')"
  shows "returns_ok r \<and> msg_held K {#} ns'"
proof (cases "ipcperms E (q_perm q) (ucast (S_IRUGO K)) = None")
  case False
  then show ?thesis using d q held by (auto simp: rcv_attempt_def returns_ok_def)
next
  case perm: True
  show ?thesis
  proof (cases "walk_messages E q mode typ None (q_messages q)")
    case None
    then show ?thesis
      using d q perm held rcv_sleep_ok [OF held q t]
      by (auto simp: rcv_attempt_def returns_ok_def Let_def split: if_splits)
  next
    case (Some m)
    then have m: "m \<in> set (q_messages q)" using walk_messages_in by fastforce
    have ok: "msg_ok K m" using msgs_okD(1) [OF msg_heldD(8) [OF held] q m] .
    show ?thesis
    proof (cases "unat sz < m_ts m \<and> flg AND MSG_NOERROR K = 0")
      case True
      then show ?thesis using d q perm Some held by (auto simp: rcv_attempt_def returns_ok_def)
    next
      case False
      define q' where "q' = q\<lparr>q_messages := remove1 m (q_messages q), q_qnum := q_qnum q - 1,
        q_rtime := get_seconds E, q_lrpid := current_tgid E, q_cbytes := q_cbytes q - of_nat (m_ts m)\<rparr>"
      define ns1 where "ns1 = set_queue p q' (ns\<lparr>msg_bytes := msg_bytes ns - of_nat (m_ts m), msg_hdrs := msg_hdrs ns - 1\<rparr>)"
      have h1: "msg_held K (mset (msg_addrs m)) (ns1\<lparr>asleep := S\<rparr>)" for S
        unfolding held_asleep by (rule rcv_take_ok [OF held q m q'_def ns1_def])
      have "rcv_finish K E um dest m sz (ss_wakeup (q_senders q) False ns1) = (r, ns')"
        using d q perm Some False unfolding rcv_attempt_def Let_def ns1_def q'_def by auto
      then show ?thesis unfolding ss_wakeup_soft by (rule rcv_finish_ok [OF h1 ok E])
    qed
  qed
qed

lemma do_msgrcv_ok:
  assumes inv: "msg_inv K ns" and E: "msgq_env_ok E ns"
    and t: "snds ns (current E) = None" "rcvs ns (current E) = None"
    and d: "do_msgrcv K E um msqid dest sz typ flg ns = (r, ns')"
  shows "returns_ok r \<and> msg_inv K ns'"
proof (cases "msqid < 0 \<or> sint sz < 0")
  case True
  then show ?thesis using d inv by (auto simp: do_msgrcv_def returns_ok_def)
next
  case False
  note held = inv [unfolded msg_inv_def]
  have U: "uaccess_ok E" using E by (simp add: msgq_env_ok_def)
  obtain mode ty where cm: "convert_mode K typ flg = (mode, ty)" by fastforce
  show ?thesis
  proof (cases "msg_lock_check K ns msqid")
    case (Inl err)
    then have "err \<noteq> KBUG" using lock_check_Inl [OF msg_heldD(3) [OF held]] by (auto simp: msg_lock_check_def)
    then show ?thesis using d inv False cm Inl by (auto simp: do_msgrcv_def returns_ok_def)
  next
    case (Inr p)
    then obtain q where q: "queues ns p = Some q" "q_live q" using held_live_queue [OF held] by blast
    then show ?thesis
      using rcv_attempt_ok [OF held q t U] d False cm Inr by (simp add: do_msgrcv_def msg_inv_def)
  qed
qed

lemma resume_rcv_ok:
  assumes inv: "msg_inv K ns" and E: "msgq_env_ok E ns" and f: "rcvs ns (current E) = Some f"
    and d: "resume_rcv K E um ns = (r, ns')"
  shows "returns_ok r \<and> msg_inv K ns'"
proof -
  note H = msg_heldD [OF inv [unfolded msg_inv_def]]
  let ?t = "current E" and ?p = "fr_msq f"
  have U: "uaccess_ok E" using E by (simp add: msgq_env_ok_def)
  have sn: "snds ns ?t = None" using wait_invD(6) [OF H(6)] f by blast
  define ns1 where "ns1 = ns\<lparr>rcvs := (rcvs ns)(?t := None)\<rparr>"
  have msgs1: "msgs_ok K (queues ns) (snds ns) (rcvs ns1)" using H(8) by (auto simp: ns1_def msgs_ok_def)
  have own1: "own_inv (queues ns) (snds ns) (rcvs ns1) (mblocks ns) (r_own f)"
    using own_rcv_del [OF H(5) f] by (simp add: ns1_def)
  show ?thesis
  proof (cases "fr_msg f = R_ERR EAGAIN")
    case False
    have "wait_inv (queues ns) (snds ns) (rcvs ns1)"
      using wait_rcv_done [OF H(6) f False] by (simp add: ns1_def)
    then have held: "msg_held K (r_own f) ns1"
      by (intro msg_heldI) (use H msgs1 own1 in \<open>simp_all add: ns1_def\<close>)
    have ok: "r_msg_ok K (fr_msg f)" using msgs_okD(3) [OF H(8) f] .
    show ?thesis
    proof (cases "fr_msg f")
      case (R_MSG m)
      then show ?thesis
        using rcv_finish_ok [of K m ns1 E] held ok U d f
        by (simp add: r_own_def resume_rcv_def Let_def ns1_def [symmetric] msg_inv_def)
    next
      case (R_ERR e)
      then show ?thesis
        using held ok False d f
        by (auto simp: r_own_def resume_rcv_def Let_def ns1_def [symmetric] msg_inv_def returns_ok_def)
    qed
  next
    case True
    then have "waiting (rcvs ns) ?t ?p" using f by (simp add: waiting_def)
    then obtain q where q: "queues ns ?p = Some q" "q_live q" and tq: "?t \<in> set (q_receivers q)"
      using wait_invD(2,4) [OF H(6)] by blast
    define q' where "q' = q\<lparr>q_receivers := remove1 ?t (q_receivers q)\<rparr>"
    have live: "q_live q'" using q(2) by (simp add: q'_def q_live_def)
    define ns2 where "ns2 = set_queue ?p q' ns1"
    have own0: "own_inv (queues ns) (snds ns) (rcvs ns1) (mblocks ns) {#}"
      using own1 True by (simp add: r_own_def)
    have held: "msg_held K {#} ns2"
    proof (rule msg_heldI)
      show "ids_inv K (msg_ids ns2) (msg_perms ns2)"
        using ids_inv_same_perm [OF H(3) q(1), of q'] by (simp add: ns2_def ns1_def q'_def)
      show "acct_inv (queues ns2) (msg_hdrs ns2) (msg_bytes ns2)"
        using acct_same [OF H(4) q(1), of q'] live q(2) by (simp add: ns2_def ns1_def q'_def)
      show "own_inv (queues ns2) (snds ns2) (rcvs ns2) (mblocks ns2) {#}"
        using own_same [OF own0 q(1), of q'] live q(2) by (simp add: ns2_def ns1_def q'_def)
      show "wait_inv (queues ns2) (snds ns2) (rcvs ns2)"
        using wait_rcv_leave [OF H(6) q tq live, of "(rcvs ns)(?t := None)"] by (simp add: ns2_def ns1_def q'_def)
      show "ref_inv K (queues ns2) (snds ns2) (mem ns2)"
        using ref_same [OF H(7) q(1), of q'] live q(2) by (simp add: ns2_def ns1_def)
      show "msgs_ok K (queues ns2) (snds ns2) (rcvs ns2)"
        using msgs_ok_queue [OF msgs1, of q' ?p] msgs_okD(1) [OF H(8) q] by (simp add: ns2_def ns1_def q'_def)
    qed (use H in \<open>simp_all add: ns2_def ns1_def\<close>)
    have d2: "(if signal_pending E then (Done (Inl ERESTARTNOHAND), ns2)
       else rcv_attempt K E um ?p (fr_mode f) (fr_msgtype f) (fr_msgsz f) (fr_flg f) (fr_dest f) ns2) = (r, ns')"
      unfolding ns2_def q'_def using d f q(1) True
      by (simp add: resume_rcv_def Let_def ns1_def [symmetric] split del: if_split)
    have "snds ns2 ?t = None" "rcvs ns2 ?t = None" "queues ns2 ?p = Some q'"
      using sn by (simp_all add: ns2_def ns1_def)
    then show ?thesis
      using rcv_attempt_ok [OF held, of ?p q' E um "fr_mode f" "fr_msgtype f" "fr_msgsz f" "fr_flg f" "fr_dest f" r ns']
        live U d2 held
      by (auto simp: msg_inv_def returns_ok_def split: if_splits)
  qed
qed

subsection \<open>Removing a queue\<close>

lemma own_free:
  assumes own: "own_inv qs sn rc mb X" and "\<And>t. t \<in> set rs \<Longrightarrow> waiting rc t p"
  shows "own_inv qs (unlinked ss sn) (expunged rs e rc) mb X"
proof -
  have "map_sum s_own (unlinked ss sn) = map_sum s_own sn"
    by (rule map_sum_cong_dom) (auto simp: unlinked_def s_own_def split: if_splits)
  moreover have "map_sum r_own (expunged rs e rc) = map_sum r_own rc"
  proof (rule map_sum_cong_dom)
    fix t assume t: "t \<in> dom (expunged rs e rc)"
    show "r_own (the (expunged rs e rc t)) = r_own (the (rc t))"
    proof (cases "t \<in> set rs")
      case True
      then obtain f where "rc t = Some f" "fr_msg f = R_ERR EAGAIN" using assms(2) by (auto simp: waiting_def)
      then show ?thesis using True by (simp add: expunged_def) (simp add: r_own_def)
    qed (simp add: expunged_def)
  qed simp
  ultimately show ?thesis using own by (simp add: own_inv_def)
qed

lemma free_messages_ok:
  assumes "own_inv qs sn rc (mblocks ns) (mset (concat (map msg_addrs ms)) + X)"
  shows "\<exists>mb. free_messages ms ns = Some (ns\<lparr>msg_hdrs := msg_hdrs ns - of_nat (length ms), mblocks := mb\<rparr>) \<and>
    own_inv qs sn rc mb X"
  using assms
proof (induction ms arbitrary: ns)
  case Nil
  then show ?case by (intro exI [of _ "mblocks ns"]) simp
next
  case (Cons m ms)
  have "own_inv qs sn rc (mblocks ns) ((mset (concat (map msg_addrs ms)) + X) + mset (msg_addrs m))"
    using Cons.prems by (simp add: ac_simps)
  then obtain mb where mb: "free_msg m (mblocks ns) = Some mb"
    "own_inv qs sn rc mb (mset (concat (map msg_addrs ms)) + X)"
    using free_msg_owned by blast
  show ?case
    using Cons.IH [of "ns\<lparr>msg_hdrs := msg_hdrs ns - 1, mblocks := mb\<rparr>"] mb by (auto simp: algebra_simps)
qed

lemma ucast_word_of_int: "ucast (word_of_int x :: 64 word) = (word_of_int x :: 32 word)"
  by (rule bit_word_eqI) (auto simp: bit_simps)

lemma putref_queues:
  "msq_putref K p ns = Some ns' \<Longrightarrow> queues ns' = queues ns \<or> queues ns' = (queues ns)(p := None)"
  by (auto simp: msq_putref_def split: option.splits)

lemma freeque_ok:
  assumes inv: "msg_inv K ns" and q: "queues ns p = Some q" "q_live q"
  shows "\<exists>ns'. freeque K p ns = Some ns' \<and> msg_inv K ns' \<and>
    rcvs ns' = expunged (q_receivers q) EIDRM (rcvs ns) \<and> snds ns' = unlinked (q_senders q) (snds ns) \<and>
    asleep ns' = asleep ns - set (q_receivers q) - set (q_senders q) \<and>
    (\<forall>u. queues ns' p = Some u \<longrightarrow> \<not> q_live u)"
proof -
  note H = msg_heldD [OF inv [unfolded msg_inv_def]]
  have K: "ipc_hdr_ok K" using H(1) by (simp add: msgq_hdr_ok_def)
  obtain ids perm where rm: "ipc_rmid K (msg_ids ns) (q_perm q) = (ids, perm)" by fastforce
  have pq: "msg_perms ns p = Some (q_perm q)" "\<not> p_deleted (q_perm q)"
    using q by (simp_all add: msg_perms_def q_live_def)
  note R = rmid_inv [OF K H(3) pq rm]
  define q' where "q' = q\<lparr>q_perm := perm\<rparr>"
  have dead: "\<not> q_live q'" using R(2) by (simp add: q'_def q_live_def)
  let ?sn = "unlinked (q_senders q) (snds ns)" and ?rc = "expunged (q_receivers q) EIDRM (rcvs ns)"
  let ?qs = "(queues ns)(p \<mapsto> q')" and ?S = "asleep ns - set (q_receivers q) - set (q_senders q)"
  define ns3 where "ns3 = set_queue p q' (ns\<lparr>rcvs := ?rc, snds := ?sn, asleep := ?S, msg_ids := ids\<rparr>)"
  have own1: "own_inv (queues ns) ?sn ?rc (mblocks ns) {#}"
    by (rule own_free [OF H(5), of _ p]) (use wait_invD(2) [OF H(6) q] in simp)
  have own3: "own_inv ?qs ?sn ?rc (mblocks ns) (mset (concat (map msg_addrs (q_messages q))) + {#})"
    by (rule own_queue [OF own1 q(1)]) (use dead q(2) in \<open>simp add: q_own_def\<close>)
  obtain mb where mb: "free_messages (q_messages q) ns3 =
      Some (ns3\<lparr>msg_hdrs := msg_hdrs ns3 - of_nat (length (q_messages q)), mblocks := mb\<rparr>)"
    "own_inv ?qs ?sn ?rc mb {#}"
    using free_messages_ok [of ?qs ?sn ?rc ns3 "q_messages q" "{#}"] own3 by (auto simp: ns3_def)
  define ns5 where "ns5 = ns3\<lparr>msg_hdrs := msg_hdrs ns3 - of_nat (length (q_messages q)), mblocks := mb,
    msg_bytes := msg_bytes ns3 - ucast (q_cbytes q)\<rparr>"
  have fq: "freeque K p ns = msq_putref K p ns5"
    using q(1) mb(1)
    by (simp add: freeque_def Let_def expunge_all_eq ss_wakeup_kill msg_rmid_def rm ns3_def q'_def ns5_def
        del: fun_upd_apply)
  have cb: "q_cbytes q = word_of_int (msgs_sum q)" using H(4) q by (auto simp: acct_inv_def)
  have acct: "acct_inv (queues ns5) (msg_hdrs ns5) (msg_bytes ns5)"
    unfolding ns5_def ns3_def cb ucast_word_of_int
    by simp (rule acct_upd [OF H(4) q(1)]; use dead q(2) in \<open>simp add: msgs_cnt_def msgs_sum_def\<close>)
  have fin: "finite (dom (snds ns))" by (rule ref_invD(2) [OF H(7)])
  have "\<exists>m qs. msq_putref K p ns5 = Some (ns5\<lparr>mem := m, queues := qs\<rparr>) \<and>
    msg_held K {#} (ns5\<lparr>mem := m, queues := qs\<rparr>) \<and> (q_live q' \<longrightarrow> qs = queues ns5)"
  proof (rule msq_putref_ok [of K ns5 "{#}" p q'])
    show "ids_inv K (msg_ids ns5) (msg_perms ns5)" using R(1) by (simp add: ns5_def ns3_def q'_def)
    show "own_inv (queues ns5) (snds ns5) (rcvs ns5) (mblocks ns5) {#}" using mb(2) by (simp add: ns5_def ns3_def)
    show "wait_inv (queues ns5) (snds ns5) (rcvs ns5)"
      using wait_free [OF H(6) q dead] by (simp add: ns5_def ns3_def)
    show "msgs_ok K (queues ns5) (snds ns5) (rcvs ns5)"
      using H(8) dead by (auto simp: ns5_def ns3_def msgs_ok_def unlinked_def expunged_def split: if_splits)
    fix r u assume "r \<noteq> p" "queues ns5 r = Some u"
    then show "rcu_count K (mem ns5) r = Some (of_bool (q_live u) + scount (snds ns5) r)"
      using ref_invD(3) [OF H(7)] scount_simps(3) [OF fin] by (simp add: ns5_def ns3_def)
  next
    show "rcu_count K (mem ns5) p = Some (of_bool (q_live q') + scount (snds ns5) p + 1)"
      using ref_invD(3) [OF H(7) q(1)] q(2) dead scount_simps(3) [OF fin] by (simp add: ns5_def ns3_def)
  qed (use H acct fin ref_invD(1) [OF H(7)] in \<open>simp_all add: ns5_def ns3_def\<close>)
  then obtain m qs where put: "msq_putref K p ns5 = Some (ns5\<lparr>mem := m, queues := qs\<rparr>)"
    "msg_held K {#} (ns5\<lparr>mem := m, queues := qs\<rparr>)" by blast
  have "\<not> q_live u" if "qs p = Some u" for u
    using putref_queues [OF put(1)] that dead by (auto simp: ns5_def ns3_def)
  then show ?thesis
    unfolding fq put(1) using put(2) by (auto simp: msg_inv_def ns5_def ns3_def)
qed

subsection \<open>Control\<close>

lemma msgctl_set_ok:
  assumes inv: "msg_inv K ns" and q: "queues ns p = Some q" "q_live q"
    and d: "msgctl_set K E p q perm qbytes ns = (r, ns')"
  shows "r \<noteq> Inl KBUG \<and> msg_inv K ns'"
proof (cases "qbytes > msg_ctlmnb ns \<and> \<not> capable E CAP_SYS_RESOURCE")
  case True
  then show ?thesis using d inv by (auto simp: msgctl_set_def)
next
  case False
  note H = msg_heldD [OF inv [unfolded msg_inv_def]]
  define q' where "q' = q\<lparr>q_qbytes := qbytes, q_perm := ipc_update_perm K perm (q_perm q), q_ctime := get_seconds E\<rparr>"
  have live: "q_live q'" using q(2) by (simp add: q'_def q_live_def ipc_update_perm_def)
  define S where "S = asleep ns - set (q_receivers q) - set (q_senders q)"
  have r: "r = Inr 0" "ns' = (set_queue p q' ns)\<lparr>asleep := S\<rparr>"
    using d False expunged_again [OF H(6) q]
    by (auto simp: msgctl_set_def Let_def expunge_all_eq ss_wakeup_soft q'_def S_def)
  have "msg_held K {#} (set_queue p q' ns)" (is "msg_held K {#} ?ns")
  proof (rule msg_heldI)
    show "ids_inv K (msg_ids ?ns) (msg_perms ?ns)"
      using ids_inv_upd [OF H(3), of p "q_perm q" "q_perm q'"] q(1)
      by (simp add: msg_perms_def [of ns]) (simp add: q'_def ipc_update_perm_def)
    show "acct_inv (queues ?ns) (msg_hdrs ?ns) (msg_bytes ?ns)"
      using acct_same [OF H(4) q(1), of q'] live q(2) by (simp add: q'_def)
    show "own_inv (queues ?ns) (snds ?ns) (rcvs ?ns) (mblocks ?ns) {#}"
      using own_same [OF H(5) q(1), of q'] live q(2) by (simp add: q'_def)
    show "wait_inv (queues ?ns) (snds ?ns) (rcvs ?ns)"
      using wait_same [OF H(6) q(1), of q'] live q(2) by (simp add: q'_def)
    show "ref_inv K (queues ?ns) (snds ?ns) (mem ?ns)"
      using ref_same [OF H(7) q(1), of q'] live q(2) by simp
    show "msgs_ok K (queues ?ns) (snds ?ns) (rcvs ?ns)"
      using msgs_ok_queue [OF H(8), of q' p] msgs_okD(1) [OF H(8) q] by (simp add: q'_def)
  qed (use H in simp_all)
  then show ?thesis by (simp add: r msg_inv_def held_asleep)
qed

lemma msgctl_down_ok:
  assumes inv: "msg_inv K ns" and E: "hooks_ok E"
    and d: "msgctl_down K E msqid cmd version ns = (r, ns')"
  shows "r \<noteq> Inl KBUG \<and> msg_inv K ns'"
proof -
  note H = msg_heldD [OF inv [unfolded msg_inv_def]]
  have K: "ipc_hdr_ok K" using H(1) by (simp add: msgq_hdr_ok_def)
  let ?pre = "ipcctl_pre_down K E (msg_ids ns) (msg_perms ns) msqid"
  consider (inval) "cmd = IPC_SET \<and> isl (copy_msqid_from_user E version)"
    | (err) e where "\<not> (cmd = IPC_SET \<and> isl (copy_msqid_from_user E version))" "?pre = Inl e"
    | (found) p where "\<not> (cmd = IPC_SET \<and> isl (copy_msqid_from_user E version))" "?pre = Inr p"
    by (cases ?pre) auto
  then show ?thesis
  proof cases
    case inval
    then show ?thesis using d inv by (auto simp: msgctl_down_def Let_def)
  next
    case err
    then show ?thesis using d inv pre_down_Inl [OF K H(3) err(2)] by (auto simp: msgctl_down_def Let_def)
  next
    case found
    obtain q where q: "queues ns p = Some q" "q_live q"
      using pre_down_Inr [OF K H(3) found(2)] by (auto simp: msg_perms_iff q_live_def)
    have hook: "security_msg_queue_msgctl E (Some q) cmd \<noteq> Some KBUG" using E by (simp add: hooks_ok_def)
    obtain ns1 where fr: "freeque K p ns = Some ns1" "msg_inv K ns1" using freeque_ok [OF inv q] by blast
    show ?thesis
    proof (cases "security_msg_queue_msgctl E (Some q) cmd")
      case None
      show ?thesis
      proof (cases cmd)
        case IPC_RMID
        then show ?thesis using d found q(1) None fr by (simp add: msgctl_down_def Let_def) auto
      next
        case IPC_SET
        then show ?thesis using msgctl_set_ok [OF inv q] d found q(1) None by (simp add: msgctl_down_def Let_def)
      qed (use d found q(1) None inv in \<open>auto simp: msgctl_down_def Let_def\<close>)
    next
      case (Some e)
      then show ?thesis using d found q(1) hook inv by (auto simp: msgctl_down_def Let_def)
    qed
  qed
qed

lemma msgctl_stat_ok:
  assumes inv: "msg_inv K ns" and E: "hooks_ok E"
  shows "msgctl_stat K E msqid cmd version ns \<noteq> Inl KBUG"
proof -
  note H = msg_heldD [OF inv [unfolded msg_inv_def]]
  have K: "ipc_hdr_ok K" using H(1) by (simp add: msgq_hdr_ok_def)
  let ?l = "if cmd = CMD MSG_STAT then msg_lock K ns msqid else msg_lock_check K ns msqid"
  show ?thesis
  proof (cases ?l)
    case (Inl e)
    then have "e \<noteq> KBUG"
      using lock_Inl [OF H(3)] lock_check_Inl [OF H(3)]
      by (fastforce simp: msg_lock_def msg_lock_check_def split: if_splits)
    then show ?thesis using Inl by (simp add: msgctl_stat_def)
  next
    case (Inr p)
    then have "\<exists>u. msg_perms ns p = Some u"
      using lock_Inr [OF H(3)] lock_check_iff [OF K H(3)]
      by (metis msg_lock_check_def msg_lock_def)
    then obtain q where "queues ns p = Some q" by (auto simp: msg_perms_iff)
    moreover have "security_msg_queue_msgctl E (Some q) cmd \<noteq> Some KBUG" using E by (simp add: hooks_ok_def)
    ultimately show ?thesis
      using Inr by (auto simp: msgctl_stat_def Let_def split: option.splits if_splits)
  qed
qed

lemma msgctl_ok:
  assumes inv: "msg_inv K ns" and E: "hooks_ok E" and d: "msgctl K E msqid cmd0 buf_null ns = (r, ns')"
  shows "r \<noteq> Inl KBUG \<and> msg_inv K ns'"
proof (cases "msqid < 0 \<or> sint cmd0 < 0")
  case True
  then show ?thesis using d inv by (auto simp: msgctl_def)
next
  case False
  obtain version cmd1 where pv: "ipc_parse_version K cmd0 = (version, cmd1)" by fastforce
  define cmd where "cmd = msg_decode K cmd1"
  have "security_msg_queue_msgctl E None cmd \<noteq> Some KBUG" using E by (simp add: hooks_ok_def)
  moreover obtain r1 ns1 where dn: "msgctl_down K E msqid cmd version ns = (r1, ns1)" by fastforce
  ultimately show ?thesis
    using d inv False pv msgctl_stat_ok [OF inv E] msgctl_down_ok [OF inv E dn]
    by (auto simp: msgctl_def Let_def cmd_def [symmetric] split: if_splits option.splits sum.splits)
qed

subsection \<open>Creating a queue\<close>

lemma new_queue_ok:
  assumes inv: "msg_inv K ns" and E: "msgq_env_ok E ns"
    and al: "ipc_rcu_alloc K E sz (mem ns) = (Some p, m)"
    and add: "ipc_addid K E (msg_ids ns) p perm lim = (Inr i, ids, perm')"
    and q: "q_perm q = perm'" "q_qnum q = 0" "q_cbytes q = 0" "q_messages q = []" "q_receivers q = []"
      "q_senders q = []"
  shows "queues ns p = None" and "msg_inv K (set_queue p q (ns\<lparr>mem := m, msg_ids := ids\<rparr>))" (is "msg_inv K ?ns")
    and "q_live q"
proof -
  note H = msg_heldD [OF inv [unfolded msg_inv_def]]
  have K: "alloc_hdr_ok K" using H(1) by (simp add: msgq_hdr_ok_def)
  have Eo: "alloc_env_ok E (mem ns)" "idr_ok E" using E by (simp_all add: msgq_env_ok_def)
  note C = rcu_alloc_count [OF K ref_invD(1) [OF H(7)] Eo(1) al]
  show none: "queues ns p = None" using C(1) ref_invD(3) [OF H(7), of p] by (cases "queues ns p") auto
  have "sending (snds ns) t p \<Longrightarrow> False" for t
    using wait_invD(5) [OF H(6), of t] none by (auto simp: sending_def)
  then have s0: "scount (snds ns) p = 0" using scount_pos(2) [OF ref_invD(2) [OF H(7)]] by blast
  have np: "msg_perms ns p = None" using none by (simp add: msg_perms_def)
  note A = addid_inv [OF H(3) Eo(2) np add]
  show live: "q_live q" using A(2) q(1) by (simp add: entry_ok_def q_live_def)
  have rcu: "rcu_inv K m" using alloc_inv [OF K ref_invD(1) [OF H(7)] Eo(1), of sz] al by simp
  show "msg_inv K ?ns" unfolding msg_inv_def
  proof (rule msg_heldI)
    show "ids_inv K (msg_ids ?ns) (msg_perms ?ns)" using A(1) by (simp add: q)
    show "acct_inv (queues ?ns) (msg_hdrs ?ns) (msg_bytes ?ns)" using acct_new [OF H(4) none q(2-4)] by simp
    show "own_inv (queues ?ns) (snds ?ns) (rcvs ?ns) (mblocks ?ns) {#}" using own_new [OF H(5) none q(4)] by simp
    show "wait_inv (queues ?ns) (snds ?ns) (rcvs ?ns)" using wait_new [OF H(6) none q(5,6)] by simp
    show "ref_inv K (queues ?ns) (snds ?ns) (mem ?ns)" using ref_new [OF H(7) rcu C(2) live s0] by simp
    show "msgs_ok K (queues ?ns) (snds ?ns) (rcvs ?ns)" using msgs_ok_queue [OF H(8), of q p] q(4) by simp
  qed (use H in simp_all)
qed

lemma newque_fail_ok:
  assumes inv: "msg_inv K ns" and E: "msgq_env_ok E ns"
    and al: "ipc_rcu_alloc K E sz (mem ns) = (Some p, m)"
  shows "\<exists>m'. ipc_rcu_putref K p m = Some m' \<and> msg_inv K (ns\<lparr>mem := m'\<rparr>)"
proof -
  note H = msg_heldD [OF inv [unfolded msg_inv_def]]
  have K: "alloc_hdr_ok K" using H(1) by (simp add: msgq_hdr_ok_def)
  have Eo: "alloc_env_ok E (mem ns)" using E by (simp add: msgq_env_ok_def)
  note C = rcu_alloc_count [OF K ref_invD(1) [OF H(7)] Eo al]
  have rcu: "rcu_inv K m" using alloc_inv [OF K ref_invD(1) [OF H(7)] Eo, of sz] al by simp
  obtain m' where m': "ipc_rcu_putref K p m = Some m'" "rcu_count K m' = (rcu_count K m)(p := None)"
    using rcu.put_last [of K m p] C(2) by auto
  have "rcu_count K m' = rcu_count K (mem ns)" using m'(2) C by (auto simp: fun_eq_iff)
  then have "ref_inv K (queues ns) (snds ns) m'"
    using putref_inv [OF K rcu m'(1)] H(7) by (simp add: ref_inv_def)
  then have "msg_inv K (ns\<lparr>mem := m'\<rparr>)"
    using H unfolding msg_inv_def by (intro msg_heldI) simp_all
  then show ?thesis using m'(1) by blast
qed

lemma newque_ok:
  assumes inv: "msg_inv K ns" and E: "msgq_env_ok E ns" and d: "newque K E par ns = (r, ns')"
  shows "msg_inv K ns' \<and>
    (case r of
       Inl e \<Rightarrow> e \<noteq> KBUG \<and> msg_ids ns' = msg_ids ns \<and> msg_perms ns' = msg_perms ns
     | Inr x \<Rightarrow> \<exists>p q. msg_perms ns p = None \<and> msg_perms ns' = (msg_perms ns)(p \<mapsto> q) \<and>
         \<not> p_deleted q \<and> p_id q = x \<and> p_key q = par_key par)"
proof -
  have hooks: "hooks_ok E" using E by (simp add: msgq_env_ok_def)
  obtain a m where al: "ipc_rcu_alloc K E (sizeof_msg_queue K) (mem ns) = (a, m)" by fastforce
  show ?thesis
  proof (cases a)
    case None
    then show ?thesis using d al inv by (auto simp: newque_def)
  next
    case (Some p)
    note al = al [unfolded Some]
    obtain m' where m': "ipc_rcu_putref K p m = Some m'" "msg_inv K (ns\<lparr>mem := m'\<rparr>)"
      using newque_fail_ok [OF inv E al] by blast
    define perm where "perm = new_perm (par_key par) (par_flg par AND S_IRWXUGO K)"
    obtain s ids perm' where add: "ipc_addid K E (msg_ids ns) p perm (msg_ctlmni ns) = (s, ids, perm')"
      by (cases "ipc_addid K E (msg_ids ns) p perm (msg_ctlmni ns)")
    note dd = d [unfolded newque_def al Let_def perm_def [symmetric] add, simplified]
    show ?thesis
    proof (cases "security_msg_queue_alloc E")
      case (Some e)
      then show ?thesis using dd m' hooks by (auto simp: hooks_ok_def)
    next
      case None
      show ?thesis
      proof (cases s)
        case (Inl e)
        then have "e \<noteq> KBUG" using addid_no_bug add hooks by (fastforce simp: hooks_ok_def)
        then show ?thesis using dd None Inl m' add by auto
      next
        case (Inr i)
        define q where "q = \<lparr>q_perm = perm', q_stime = 0, q_rtime = 0, q_ctime = get_seconds E,
           q_cbytes = 0, q_qnum = 0, q_qbytes = msg_ctlmnb ns, q_lspid = 0, q_lrpid = 0,
           q_messages = [], q_receivers = [], q_senders = []\<rparr>"
        have r: "r = Inr (p_id perm')" "ns' = set_queue p q (ns\<lparr>mem := m, msg_ids := ids\<rparr>)"
          using dd None Inr add by (simp_all add: q_def)
        note N = new_queue_ok [OF inv E al add [unfolded Inr], of q]
        have "msg_perms ns p = None" using N(1) by (simp add: msg_perms_def q_def)
        moreover have "p_key perm' = par_key par"
          using addid_InrD(5) [OF add [unfolded Inr]] by (simp add: added_def perm_def new_perm_def)
        moreover have "\<not> p_deleted perm'" using N(3) by (simp add: q_live_def q_def)
        ultimately show ?thesis using N(2) by (simp add: r q_def) blast
      qed
    qed
  qed
qed

interpretation msq: ipc_client K "msg_ops K" "msg_inv K" msgq_env_ok for K :: "'h msgq_hdr_scheme"
proof
  fix ns :: msg_ns and E :: "'e msgq_env_scheme" and par e ns' x
  assume inv: "msg_inv K ns"
  note H = msg_heldD [OF inv [unfolded msg_inv_def]]
  show "ipc_hdr_ok K" using H(1) by (simp add: msgq_hdr_ok_def)
  show "ids_inv K (ns_ids (msg_ops K) ns) (ns_perms (msg_ops K) ns)" using H(3) by (simp add: msg_ops_def)
  assume E: "msgq_env_ok E ns"
  show "msg_inv K (snd (getnew (msg_ops K) E par ns))"
    using newque_ok [OF inv E, of par] by (cases "newque K E par ns") (simp add: msg_ops_def)
  show "e \<noteq> KBUG \<and> ns_ids (msg_ops K) ns' = ns_ids (msg_ops K) ns \<and> ns_perms (msg_ops K) ns' = ns_perms (msg_ops K) ns"
    if "getnew (msg_ops K) E par ns = (Inl e, ns')"
    using newque_ok [OF inv E, of par "Inl e" ns'] that by (simp add: msg_ops_def)
  show "\<exists>p q. ns_perms (msg_ops K) ns p = None \<and> ns_perms (msg_ops K) ns' = (ns_perms (msg_ops K) ns)(p \<mapsto> q) \<and>
      \<not> p_deleted q \<and> p_id q = x \<and> p_key q = par_key par"
    if "getnew (msg_ops K) E par ns = (Inr x, ns')"
    using newque_ok [OF inv E, of par "Inr x" ns'] that by (simp add: msg_ops_def)
next
  fix ns :: msg_ns and E :: "'e msgq_env_scheme" and p q flg par
  assume "msgq_env_ok E ns" "ns_perms (msg_ops K) ns p = Some q"
  then show "associate (msg_ops K) E p flg ns \<noteq> Some KBUG" "more_checks (msg_ops K) E p par ns \<noteq> Some KBUG"
    by (auto simp: msg_ops_def msg_perms_iff msg_security_def msgq_env_ok_def hooks_ok_def)
qed

text \<open>
  The retry loops of \<^verbatim>\<open>ipcget\<close> go round on \<^verbatim>\<open>EAGAIN\<close>. The code relies on \<^verbatim>\<open>idr_get_new\<close> giving it only
  when somebody else has used up what \<^verbatim>\<open>idr_pre_get\<close> has set aside, and on the hooks not giving it at all:
  \<open>get_settles\<close> is an attempt to which this does not happen.
\<close>

definition get_settles :: "'e msgq_env_scheme \<Rightarrow> bool" where
  "get_settles E \<longleftrightarrow>
     (\<forall>m. idr_get_new E m \<noteq> Inl EAGAIN) \<and> security_msg_queue_alloc E \<noteq> Some EAGAIN \<and>
     (\<forall>q flg. security_msg_queue_associate E q flg \<noteq> Some EAGAIN)"

lemma newque_settles:
  assumes "get_settles E"
  shows "fst (newque K E par ns) \<noteq> Inl EAGAIN"
proof -
  have a: "fst (ipc_addid K E ids p new sz) \<noteq> Inl EAGAIN" for ids p new sz
    using assms by (auto simp: get_settles_def ipc_addid_def Let_def split: sum.splits)
  have "ipc_addid K E ids p new sz \<noteq> (Inl EAGAIN, ids', new')" for ids p new sz ids' new'
    using a by (metis fst_conv)
  moreover have "security_msg_queue_alloc E \<noteq> Some EAGAIN" using assms by (simp add: get_settles_def)
  ultimately show ?thesis by (auto simp: newque_def Let_def split: option.splits prod.splits sum.splits)
qed

lemma msg_ops_settle:
  fixes K :: "'h msgq_hdr_scheme"
  shows "get_settles E \<Longrightarrow> msq.settles TYPE('h) K E par"
  unfolding msq.settles_def
  using newque_settles [of E K] by (auto simp: msg_ops_def msg_security_def get_settles_def split: option.splits)

lemma msgget_ok:
  fixes Es :: "'e msgq_env_scheme list"
  assumes "msg_inv K ns" and "envs_ok msgq_env_ok (msg_ops K) \<lparr>par_key = key, par_flg = flg, par_size = 0, par_nsems = 0\<rparr> Es ns"
    and "\<exists>E\<in>set Es. get_settles E"
  shows "\<exists>r ns'. msgget K key flg Es ns = Some (r, ns') \<and> r \<noteq> Inl KBUG \<and> msg_inv K ns' \<and>
    get_post K (msg_ops K :: (msg_ns, 'e msgq_env_scheme) ipc_ops) \<lparr>par_key = key, par_flg = flg, par_size = 0, par_nsems = 0\<rparr> ns r ns'"
proof -
  obtain r ns' where g: "msgget K key flg Es ns = Some (r, ns')"
    using msq.ipcget_returns [OF assms(1,2)] assms(3) msg_ops_settle unfolding msgget_def by blast
  then have p: "msg_inv K ns' \<and> get_post K (msg_ops K :: (msg_ns, 'e msgq_env_scheme) ipc_ops) \<lparr>par_key = key, par_flg = flg, par_size = 0, par_nsems = 0\<rparr> ns r ns'"
    using msq.ipcget_post [OF assms(1,2), of r ns'] by (simp add: msgget_def)
  then have "r \<noteq> Inl KBUG" by (auto simp: get_post_def)
  then show ?thesis using g p by blast
qed

subsection \<open>All calls\<close>

text \<open>
  A step is a system call of a task that does not sleep, or a task that goes on after a sleep, which
  may happen at any time: a wake-up, a signal, or no reason at all. The flag says whether the call
  came to an end or to a sleep without touching memory it must not touch; for \<^verbatim>\<open>msgget\<close> it is false also
  when the attempts run out before the retry loop has ended.
\<close>

inductive msg_step :: "msgq_hdr \<Rightarrow> msg_ns \<Rightarrow> bool \<Rightarrow> msg_ns \<Rightarrow> bool" for K :: msgq_hdr where
  step_msgget: "envs_ok msgq_env_ok (msg_ops K) \<lparr>par_key = key, par_flg = flg, par_size = 0, par_nsems = 0\<rparr>
      (Es :: msgq_env list) ns \<Longrightarrow> \<exists>E\<in>set Es. get_settles E \<Longrightarrow>
    msgget K key flg Es ns = g \<Longrightarrow>
    msg_step K ns (\<exists>r. map_option fst g = Some r \<and> r \<noteq> Inl KBUG) (case g of None \<Rightarrow> ns | Some (r, ns') \<Rightarrow> ns')"
| step_msgctl: "msgq_env_ok (E :: msgq_env) ns \<Longrightarrow>
    msgctl K E msqid cmd buf_null ns = (c, ns') \<Longrightarrow> msg_step K ns (c \<noteq> Inl KBUG) ns'"
| step_msgsnd: "msgq_env_ok (E :: msgq_env) ns \<Longrightarrow> snds ns (current E) = None \<Longrightarrow> rcvs ns (current E) = None \<Longrightarrow>
    msgsnd K E um msqid mtext msgsz flg ns = (s, ns') \<Longrightarrow> msg_step K ns (returns_ok s) ns'"
| step_resume_snd: "msgq_env_ok (E :: msgq_env) ns \<Longrightarrow> snds ns (current E) = Some f \<Longrightarrow>
    resume_snd K E ns = (s, ns') \<Longrightarrow> msg_step K ns (returns_ok s) ns'"
| step_msgrcv: "msgq_env_ok (E :: msgq_env) ns \<Longrightarrow> snds ns (current E) = None \<Longrightarrow> rcvs ns (current E) = None \<Longrightarrow>
    msgrcv K E um msqid mtext msgsz msgtyp flg ns = (v, ns') \<Longrightarrow> msg_step K ns (returns_ok v) ns'"
| step_resume_rcv: "msgq_env_ok (E :: msgq_env) ns \<Longrightarrow> rcvs ns (current E) = Some g \<Longrightarrow>
    resume_rcv K E um ns = (v, ns') \<Longrightarrow> msg_step K ns (returns_ok v) ns'"

inductive msg_reach :: "msgq_hdr \<Rightarrow> msg_ns \<Rightarrow> msg_ns \<Rightarrow> bool" for K :: msgq_hdr and ns0 :: msg_ns where
  msg_reach_init: "msg_reach K ns0 ns0"
| msg_reach_step: "msg_reach K ns0 ns \<Longrightarrow> msg_step K ns ok ns' \<Longrightarrow> msg_reach K ns0 ns'"

text \<open>A namespace before the first call, as \<^verbatim>\<open>create_ipc_ns\<close> allocates it.\<close>

definition raw_msg_ns :: "ipc_mem \<Rightarrow> msg_ns" where
  "raw_msg_ns m =
     \<lparr>msg_ctlmax = 0, msg_ctlmnb = 0, msg_ctlmni = 0, msg_bytes = 0, msg_hdrs = 0,
      msg_ids = \<lparr>in_use = 0, ids_seq = 0, ids_seq_max = 0, ipcs_idr = Map.empty\<rparr>, queues = Map.empty, mem = m,
      mblocks = Map.empty, snds = Map.empty, rcvs = Map.empty, asleep = {}\<rparr>"

definition fresh_msg_ns :: "msgq_hdr \<Rightarrow> sysinfo \<Rightarrow> int \<Rightarrow> ipc_mem \<Rightarrow> msg_ns" where
  "fresh_msg_ns K si nb m = msg_init_ns K si nb (raw_msg_ns m)"

lemma msg_step_ok:
  assumes "msg_inv K ns" and "msg_step K ns ok ns'"
  shows "ok \<and> msg_inv K ns'"
  using assms(2,1)
proof cases
  case (step_msgsnd E um msqid mtext msgsz flg s)
  then show ?thesis
    using do_msgsnd_ok [OF assms(1) step_msgsnd(2-4)] assms(1)
    by (auto simp: msgsnd_def returns_ok_def split: option.splits)
next
  case (step_msgrcv E um msqid mtext msgsz msgtyp flg v)
  obtain v' ns1 where dr: "do_msgrcv K E um msqid mtext msgsz msgtyp flg ns = (v', ns1)" by fastforce
  show ?thesis
    using do_msgrcv_ok [OF assms(1) step_msgrcv(2-4) dr] step_msgrcv dr
    by (auto simp: msgrcv_def returns_ok_def split: outcome.splits sum.splits if_splits)
next
  case (step_msgctl E msqid cmd buf_null c)
  moreover have "hooks_ok E" using step_msgctl by (simp add: msgq_env_ok_def)
  ultimately show ?thesis using msgctl_ok [OF assms(1)] by blast
next
  case (step_msgget key flg Es g)
  then show ?thesis using msgget_ok [OF assms(1) step_msgget(3,4)] by auto
qed (use resume_snd_ok resume_rcv_ok in blast)+

lemma recompute_msgmni_simps [simp]:
  "msg_ctlmax (recompute_msgmni K si nb ns) = msg_ctlmax ns" "queues (recompute_msgmni K si nb ns) = queues ns"
  "mem (recompute_msgmni K si nb ns) = mem ns" "mblocks (recompute_msgmni K si nb ns) = mblocks ns"
  "snds (recompute_msgmni K si nb ns) = snds ns" "rcvs (recompute_msgmni K si nb ns) = rcvs ns"
  by (simp_all add: recompute_msgmni_def Let_def)

lemma fresh_msg_inv:
  assumes "msgq_hdr_ok K" and "uint (MSGMAX K) \<le> INT_MAX" and "rcu_inv K m"
  shows "msg_inv K (fresh_msg_ns K si nb m)"
  unfolding msg_inv_def
proof (rule msg_heldI)
  let ?ns = "fresh_msg_ns K si nb m"
  have "msg_perms ?ns = Map.empty" by (simp add: msg_perms_def fresh_msg_ns_def msg_init_ns_def raw_msg_ns_def)
  then show "ids_inv K (msg_ids ?ns) (msg_perms ?ns)"
    using ids_inv_init [of K Map.empty] assms(1) by (simp add: fresh_msg_ns_def msg_init_ns_def msgq_hdr_ok_def)
qed (use assms in \<open>simp_all add: fresh_msg_ns_def msg_init_ns_def raw_msg_ns_def acct_inv_def own_inv_def
    wait_inv_def ref_inv_def msgs_ok_def waiting_def\<close>)

lemma msg_reach_inv:
  assumes "msg_reach K ns0 ns" and "msg_inv K ns0"
  shows "msg_inv K ns"
  using assms by (induction rule: msg_reach.induct) (auto dest: msg_step_ok)

subsection \<open>Keys\<close>

text \<open>Only \<^verbatim>\<open>msgget\<close> makes a key known: every live queue after another call has been there, with its key.\<close>

definition keys_kept :: "(addr \<rightharpoonup> msg_queue) \<Rightarrow> (addr \<rightharpoonup> msg_queue) \<Rightarrow> bool" where
  "keys_kept qs qs' \<longleftrightarrow>
     (\<forall>p q'. qs' p = Some q' \<and> q_live q' \<longrightarrow>
        (\<exists>q. qs p = Some q \<and> q_live q \<and> p_key (q_perm q) = p_key (q_perm q')))"

lemma keys_kept_refl [simp]: "keys_kept qs qs"
  by (auto simp: keys_kept_def)

lemma keys_kept_trans: "keys_kept a b \<Longrightarrow> keys_kept b c \<Longrightarrow> keys_kept a c"
  unfolding keys_kept_def by metis

lemma keys_kept_drop [simp]: "keys_kept qs (qs(p := None))"
  by (simp add: keys_kept_def)

lemma keys_kept_upd [intro]:
  assumes "qs p = Some q" and "q_live q' \<Longrightarrow> q_live q \<and> p_key (q_perm q) = p_key (q_perm q')"
  shows "keys_kept qs (qs(p \<mapsto> q'))"
  using assms by (auto simp: keys_kept_def)

lemma keys_kept_perm: "qs p = Some q \<Longrightarrow> q_perm q' = q_perm q \<Longrightarrow> keys_kept qs (qs(p \<mapsto> q'))"
  by (rule keys_kept_upd) (simp_all add: q_live_def)

lemma keys_kept_putref: "msq_putref K p ns = Some ns' \<Longrightarrow> keys_kept (queues ns) (queues ns')"
  using putref_queues [of K p ns ns'] by auto

lemma snd_fail_queues [simp]: "queues (snd (snd_fail err msg ns)) = queues ns"
  by (simp add: snd_fail_def split: option.split)

lemma rcv_finish_queues [simp]: "queues (snd (rcv_finish K E um dest m sz ns)) = queues ns"
  by (simp add: rcv_finish_def Let_def split: option.split sum.split prod.split)

lemma wake_queues [simp]:
  "queues (ss_wakeup ts kill ns) = queues ns" "queues (expunge_all ts e ns) = queues ns"
proof -
  show "queues (ss_wakeup ts kill ns) = queues ns"
    by (induction ts kill ns rule: ss_wakeup.induct) (simp_all add: wake_up_process_def)
  show "queues (expunge_all ts e ns) = queues ns"
    by (induction ts e ns rule: expunge_all.induct) (simp_all add: wake_up_process_def)
qed

lemma free_messages_queues: "free_messages ms ns = Some ns' \<Longrightarrow> queues ns' = queues ns"
  by (induction ms arbitrary: ns) (auto split: option.splits)

lemma pipelined_send_perm:
  "pipelined_send E msg ts q rc sl = Some (b, q', rc', sl') \<Longrightarrow> q_perm q' = q_perm q"
  by (induction E msg ts q rc sl rule: pipelined_send.induct) (auto simp: Let_def split: option.splits if_splits)

lemma snd_deliver_keys:
  assumes "queues ns p = Some q"
  shows "keys_kept (queues ns) (queues (snd (snd_deliver E p q msg sz ns)))"
  using assms
  by (auto simp: snd_deliver_def Let_def dest!: pipelined_send_perm intro: keys_kept_perm split: option.split bool.split)

lemma snd_attempt_keys: "keys_kept (queues ns) (queues (snd (snd_attempt K E p msg sz flg ns)))"
  using snd_deliver_keys [of ns p]
  by (auto simp: snd_attempt_def ss_add_def Let_def intro: keys_kept_perm split: option.split)

lemma rcv_attempt_keys: "keys_kept (queues ns) (queues (snd (rcv_attempt K E um p mode typ sz flg dest ns)))"
  by (auto simp: rcv_attempt_def Let_def intro: keys_kept_perm split: option.split)

lemma do_msgsnd_keys: "keys_kept (queues ns) (queues (snd (do_msgsnd K E um msqid mtype mtext sz flg ns)))"
  using snd_attempt_keys [where ns = "ns\<lparr>mblocks := mb\<rparr>" for mb]
  by (auto simp: do_msgsnd_def Let_def split: option.split sum.split)

lemma resume_snd_keys: "keys_kept (queues ns) (queues (snd (resume_snd K E ns)))"
proof (cases "snds ns (current E)")
  case (Some f)
  show ?thesis
  proof (cases "\<exists>q ns1. queues ns (fs_msq f) = Some q \<and> msq_putref K (fs_msq f) (ns\<lparr>snds := (snds ns)(current E := None)\<rparr>) = Some ns1")
    case True
    then obtain q ns1 where q: "queues ns (fs_msq f) = Some q"
      and ns1: "msq_putref K (fs_msq f) (ns\<lparr>snds := (snds ns)(current E := None)\<rparr>) = Some ns1" by blast
    define ns2 where "ns2 = set_queue (fs_msq f) (ss_del (current E) f q) ns1"
    have k1: "keys_kept (queues ns) (queues ns1)" using keys_kept_putref [OF ns1] by simp
    have "queues ns2 = (queues ns)(fs_msq f \<mapsto> ss_del (current E) f q)"
      using putref_queues [OF ns1] by (auto simp: ns2_def)
    then have k2: "keys_kept (queues ns) (queues ns2)"
      using q by (auto simp: ss_del_def intro: keys_kept_perm)
    show ?thesis
      using Some q ns1 k1 k2 keys_kept_trans [OF k2 snd_attempt_keys [where ns = ns2 and K = K and E = E]]
      by (simp add: resume_snd_def Let_def ns2_def [symmetric])
  qed (use Some in \<open>auto simp: resume_snd_def Let_def split: option.split\<close>)
qed (simp add: resume_snd_def Let_def)

lemma resume_rcv_keys: "keys_kept (queues ns) (queues (snd (resume_rcv K E um ns)))"
proof (cases "rcvs ns (current E)")
  case (Some f)
  define ns1 where "ns1 = ns\<lparr>rcvs := (rcvs ns)(current E := None)\<rparr>"
  have "keys_kept (queues ns) (queues (snd (if signal_pending E then (Done (Inl ERESTARTNOHAND), ns2)
      else rcv_attempt K E um (fr_msq f) (fr_mode f) (fr_msgtype f) (fr_msgsz f) (fr_flg f) (fr_dest f) ns2)))"
    if "queues ns (fr_msq f) = Some q" "ns2 = set_queue (fr_msq f) (q\<lparr>q_receivers := rs\<rparr>) ns1" for q rs ns2
  proof -
    have "keys_kept (queues ns) (queues ns2)" using that by (auto simp: ns1_def intro: keys_kept_perm)
    then show ?thesis using keys_kept_trans [OF _ rcv_attempt_keys [where K = K and E = E]] by simp
  qed
  then show ?thesis
    using Some by (auto simp: resume_rcv_def Let_def ns1_def [symmetric] split: option.split r_msg.split)
      (simp_all add: ns1_def)
qed (simp add: resume_rcv_def Let_def)

lemma freeque_keys:
  assumes "freeque K p ns = Some ns'"
  shows "keys_kept (queues ns) (queues ns')"
proof -
  obtain q where q: "queues ns p = Some q" using assms by (auto simp: freeque_def split: option.splits)
  define ns1 where "ns1 = msg_rmid K p q (ss_wakeup (q_senders q) True (expunge_all (q_receivers q) EIDRM ns))"
  obtain ns2 where ns2: "free_messages (q_messages q) ns1 = Some ns2"
    "msq_putref K p (ns2\<lparr>msg_bytes := msg_bytes ns2 - ucast (q_cbytes q)\<rparr>) = Some ns'"
    using assms q by (auto simp: freeque_def Let_def ns1_def split: option.splits)
  have "keys_kept (queues ns) (queues ns1)"
    using q by (auto simp: ns1_def msg_rmid_def ipc_rmid_def Let_def q_live_def intro!: keys_kept_upd)
  then show ?thesis
    using free_messages_queues [OF ns2(1)] keys_kept_putref [OF ns2(2)] keys_kept_trans by simp
qed

lemma msgctl_keys: "keys_kept (queues ns) (queues (snd (msgctl K E msqid cmd buf_null ns)))"
proof -
  have set: "keys_kept (queues ns) (queues (snd (msgctl_set K E p q perm n ns)))" if "queues ns p = Some q" for p q perm n
    using that by (auto simp: msgctl_set_def Let_def ipc_update_perm_def q_live_def intro!: keys_kept_upd)
  then have "keys_kept (queues ns) (queues (snd (msgctl_down K E msqid c version ns)))" for c version
    using freeque_keys [of K _ ns]
    by (auto simp: msgctl_down_def Let_def split: option.split sum.split ipc_cmd.split)
  then show ?thesis by (auto simp: msgctl_def Let_def split: option.split prod.split) (metis snd_conv)+
qed

lemma keys_kept_unique:
  assumes "keys_kept (queues ns) (queues ns')" and "keys_unique (msg_ops K) ns"
  shows "keys_unique (msg_ops K) ns'"
  unfolding keys_unique_def
proof (intro allI impI)
  fix p p' u u'
  assume A: "ns_perms (msg_ops K) ns' p = Some u \<and> ns_perms (msg_ops K) ns' p' = Some u' \<and> \<not> p_deleted u \<and>
    \<not> p_deleted u' \<and> p_key u = p_key u' \<and> p_key u \<noteq> IPC_PRIVATE"
  then obtain q q' where "queues ns' p = Some q" "q_perm q = u" "queues ns' p' = Some q'" "q_perm q' = u'"
    by (auto simp: msg_ops_def msg_perms_iff)
  then obtain r r' where "queues ns p = Some r" "q_live r" "p_key (q_perm r) = p_key u"
    "queues ns p' = Some r'" "q_live r'" "p_key (q_perm r') = p_key u'"
    using assms(1) A unfolding keys_kept_def q_live_def by metis
  then have "ns_perms (msg_ops K) ns p = Some (q_perm r)" "ns_perms (msg_ops K) ns p' = Some (q_perm r')"
    "\<not> p_deleted (q_perm r)" "\<not> p_deleted (q_perm r')" "p_key (q_perm r) = p_key (q_perm r')" "p_key (q_perm r) \<noteq> IPC_PRIVATE"
    using A by (auto simp: msg_ops_def msg_perms_def q_live_def)
  then show "p = p'" using assms(2) unfolding keys_unique_def by blast
qed

abbreviation msg_keys_unique :: "msgq_hdr \<Rightarrow> msg_ns \<Rightarrow> bool" where
  "msg_keys_unique K ns \<equiv> keys_unique (msg_ops K :: (msg_ns, msgq_env) ipc_ops) ns"

lemma msg_step_keys:
  assumes "msg_inv K ns" and "msg_step K ns ok ns'" and "msg_keys_unique K ns"
  shows "msg_keys_unique K ns'"
  using assms(2)
proof cases
  case (step_msgget key flg Es g)
  then show ?thesis
    using msgget_ok [OF assms(1) step_msgget(3,4)] msq.get_post_keys_unique [OF _ assms(3)] by auto
next
  case (step_msgctl E msqid cmd buf_null c)
  then show ?thesis using msgctl_keys [of ns K E msqid cmd buf_null] keys_kept_unique [OF _ assms(3)] by simp
next
  case (step_msgsnd E um msqid mtext msgsz flg s)
  then have "keys_kept (queues ns) (queues ns')"
    using do_msgsnd_keys [of ns K E um msqid _ mtext msgsz flg]
    by (auto simp: msgsnd_def split: option.splits) (metis snd_conv)+
  then show ?thesis using keys_kept_unique assms(3) by blast
next
  case (step_msgrcv E um msqid mtext msgsz msgtyp flg v)
  have "keys_kept (queues ns) (queues (snd (do_msgrcv K E um msqid mtext msgsz msgtyp flg ns)))"
    using rcv_attempt_keys by (auto simp: do_msgrcv_def split: prod.split sum.split)
  then have "keys_kept (queues ns) (queues ns')"
    using step_msgrcv by (auto simp: msgrcv_def split: prod.splits outcome.splits sum.splits)
  then show ?thesis using keys_kept_unique assms(3) by blast
next
  case (step_resume_snd E f s)
  then show ?thesis using resume_snd_keys [of ns K E] keys_kept_unique [OF _ assms(3)] by simp
next
  case (step_resume_rcv E g um v)
  then show ?thesis using resume_rcv_keys [of ns K E um] keys_kept_unique [OF _ assms(3)] by simp
qed

lemma msg_reach_keys:
  assumes "msg_reach K (fresh_msg_ns K si nb m) ns" and "msg_inv K (fresh_msg_ns K si nb m)"
  shows "msg_keys_unique K ns"
  using assms
proof (induction rule: msg_reach.induct)
  case msg_reach_init
  show ?case by (simp add: keys_unique_def msg_ops_def msg_perms_def fresh_msg_ns_def msg_init_ns_def raw_msg_ns_def)
next
  case (msg_reach_step ns ok ns')
  then show ?case using msg_step_keys msg_reach_inv by blast
qed

end
