(* ===== verification/Msg_Theorems.thy ===== *)
theory Msg_Theorems
  imports Msg_Calls
begin

text \<open>
  The properties of the message queues: what holds in every state the calls can reach, the queue as a
  list of typed texts that sending and receiving refine, and what removing a queue does to the tasks
  that sleep on it. A small run (one queue, one message) instantiates the hypotheses.
\<close>

subsection \<open>A run\<close>

definition example_msgq_hdr :: msgq_hdr where
  "example_msgq_hdr =
     \<lparr>PAGE_SIZE = 4096, sizeof_rcu_hdr = 8, sizeof_rcu_grace = 16, sizeof_rcu_sched = 32,
      IPCMNI = 32768, IPC_CREAT = 512, IPC_EXCL = 1024, IPC_NOWAIT = 2048, IPC_64_bit = 256,
      S_IRWXUGO = 511, S_IRUGO = 292, S_IWUGO = 146, high2lowuid = ucast, high2lowgid = ucast,
      sizeof_msg_msg = 48, sizeof_msg_msgseg = 8, sizeof_msg_queue = 200, MSG_NOERROR = 4096,
      MSG_EXCEPT = 8192, MSG_MEM_SCALE = 32, MSGMNI = 16, MSGMAX = 8192, MSGMNB = 16384, MSGSSZ = 16,
      MSGSEG = 65535, MSGMAP = 16384, MSGPOOL = 256, MSGTQL = 16384,
      msg_decode = (\<lambda>c. if c = 0 then IPC_RMID else if c = 1 then IPC_SET else if c = 2 then IPC_STAT else BAD_CMD)\<rparr>"

text \<open>\<open>al\<close> is the answer of the allocator, \<open>b\<close> where the blocks of messages come from.\<close>

definition example_msgq_env :: "addr option \<Rightarrow> int \<Rightarrow> task \<Rightarrow> msgq_env" where
  "example_msgq_env al b t =
     \<lparr>kmalloc = (\<lambda>n. al), vmalloc = (\<lambda>n. None),
      current = t, current_tgid = 7, current_euid = 1000, current_egid = 100,
      in_group_p = (\<lambda>g. g = 100), ns_capable = (\<lambda>c. False), get_seconds = 1300000000,
      idr_pre_get = True, idr_get_new = first_free 3 0, security_ipc_permission = (\<lambda>q f. None),
      kmallocs = (\<lambda>n sz. Some (4096 * int n + b)),
      copy_from_user = (\<lambda>um src n. Some (map (\<lambda>i. um (src + int i)) [0..<n])),
      copy_to_user = example_copy_to, security_msg_msg_alloc = None,
      capable = (\<lambda>c. False), signal_pending = False, task_pid_vnr = int,
      security_msg_queue_alloc = None, security_msg_queue_associate = (\<lambda>q f. None),
      security_msg_queue_msgctl = (\<lambda>q c. None), security_msg_queue_msgsnd = (\<lambda>q m f. None),
      security_msg_queue_msgrcv = (\<lambda>q m t ty md. None),
      user_msqid64 = None, user_msqid = None, struct_copy_ok = True, user_mtype = Some 5, put_user_ok = True\<rparr>"

definition example_si :: sysinfo where
  "example_si = \<lparr>totalram = 65536, totalhigh = 0, mem_unit = 4096\<rparr>"

definition example_ns0 :: msg_ns where
  "example_ns0 = fresh_msg_ns example_msgq_hdr example_si 1 empty_mem"

definition example_msgq :: msg_queue where
  "example_msgq =
     \<lparr>q_perm = \<lparr>p_deleted = False, p_id = 0, p_key = 77, p_uid = 1000, p_gid = 100, p_cuid = 1000, p_cgid = 100,
                p_mode = 438, p_seq = 0\<rparr>,
      q_stime = 0, q_rtime = 0, q_ctime = 1300000000, q_cbytes = 0, q_qnum = 0, q_qbytes = 16384,
      q_lspid = 0, q_lrpid = 0, q_messages = [], q_receivers = [], q_senders = []\<rparr>"

definition example_qmem :: ipc_mem where
  "example_qmem =
     \<lparr>blocks = [65536 \<mapsto> (Kmalloc, 216)], hdrs = [65544 \<mapsto> \<lparr>refcount = 1, is_vmalloc = False\<rparr>],
      rcu_queue = [], work_queue = []\<rparr>"

definition example_ns1 :: msg_ns where
  "example_ns1 =
     \<lparr>msg_ctlmax = 8192, msg_ctlmnb = 16384, msg_ctlmni = 512, msg_bytes = 0, msg_hdrs = 0,
      msg_ids = \<lparr>in_use = 1, ids_seq = 1, ids_seq_max = 65535, ipcs_idr = [0 \<mapsto> 65552]\<rparr>,
      queues = [65552 \<mapsto> example_msgq], mem = example_qmem, mblocks = Map.empty, snds = Map.empty,
      rcvs = Map.empty, asleep = {}\<rparr>"

definition example_text :: umem where
  "example_text a = word_of_int a"

definition example_sent :: msg_msg where
  "example_sent = \<lparr>m_type = 5, m_ts = 2, m_addr = 0, m_text = [100, 101], m_segs = []\<rparr>"

definition example_ns2 :: msg_ns where
  "example_ns2 =
     example_ns1\<lparr>queues := [65552 \<mapsto> example_msgq\<lparr>q_lspid := 7, q_stime := 1300000000, q_messages := [example_sent],
                     q_cbytes := 2, q_qnum := 1\<rparr>],
       msg_bytes := 2, msg_hdrs := 1, mblocks := [0 \<mapsto> 50]\<rparr>"

lemma example_hdr_ok: "msgq_hdr_ok example_msgq_hdr" "uint (MSGMAX example_msgq_hdr) \<le> INT_MAX"
  "rcu_inv example_msgq_hdr empty_mem"
  by (simp_all add: msgq_hdr_ok_def ipc_hdr_ok_def msg_hdr_ok_def alloc_hdr_ok_def example_msgq_hdr_def
      SEQ_MULTIPLIER_def INT_MAX_def rcu_inv_def empty_mem_def dying_def)

lemma first_free_no_bug: "first_free n i m \<noteq> Inl KBUG"
  by (induction n i m rule: first_free.induct) auto

lemma example_env_ok:
  assumes "mem ns = empty_mem \<or> al = None" and "\<And>n. mblocks ns (4096 * int n + b) = None"
  shows "msgq_env_ok (example_msgq_env al b t) ns"
proof -
  have "idr_ok (example_msgq_env al b t)" by (rule idr_ok_first_free [of _ 3]) (simp add: example_msgq_env_def)
  moreover have "alloc_env_ok (example_msgq_env al b t) (mem ns)"
    using assms(1) by (auto simp: alloc_env_ok_def example_msgq_env_def disjoint_block_def empty_mem_def)
  ultimately show ?thesis
    using assms(2)
    by (simp add: msgq_env_ok_def)
      (simp add: hooks_ok_def example_msgq_env_def kmallocs_ok_def uaccess_ok_def
        example_copy_to_def overwrite_def first_free_no_bug)
qed

lemma example_ns0_eq:
  "example_ns0 =
     example_ns1\<lparr>msg_ids := \<lparr>in_use = 0, ids_seq = 0, ids_seq_max = 65535, ipcs_idr = Map.empty\<rparr>, queues := Map.empty,
       mem := empty_mem\<rparr>"
  by (simp add: example_ns0_def fresh_msg_ns_def msg_init_ns_def recompute_msgmni_def raw_msg_ns_def example_ns1_def
      example_msgq_hdr_def example_si_def ipc_init_ids_def SEQ_MULTIPLIER_def INT_MAX_def USHRT_MAX_def Let_def c_int_def)

lemma example_addid:
  "ipc_addid example_msgq_hdr (example_msgq_env al b t)
     \<lparr>in_use = 0, ids_seq = 0, ids_seq_max = 65535, ipcs_idr = Map.empty\<rparr> 65552 (new_perm 77 438) 512 =
   (Inr 0, msg_ids example_ns1, q_perm example_msgq)"
  by (simp add: ipc_addid_def example_msgq_hdr_def example_msgq_env_def numeral_3_eq_3 Let_def new_perm_def
      ipc_buildid_def SEQ_MULTIPLIER_def c_int_def example_ns1_def example_msgq_def)

lemma example_alloc:
  "ipc_rcu_alloc example_msgq_hdr (example_msgq_env (Some 65536) b t) 200 empty_mem = (Some 65552, example_qmem)"
  by (simp add: example_msgq_hdr_def example_msgq_env_def ipc_rcu_alloc_def
         ipc_rcu_use_vmalloc_def ipc_rcu_header_size_def HDRLEN_KMALLOC_def HDRLEN_VMALLOC_def
         l30_size_add_overflow_def ipc_rcu_init_header_def container_hdr_def add_block_def
         Let_def example_qmem_def empty_mem_def)

lemma example_sel:
  "sizeof_msg_queue example_msgq_hdr = 200" "S_IRWXUGO example_msgq_hdr = 511" "IPC_CREAT example_msgq_hdr = 512"
  "S_IRUGO example_msgq_hdr = 292" "S_IWUGO example_msgq_hdr = 146" "MSG_NOERROR example_msgq_hdr = 4096"
  "IPC_NOWAIT example_msgq_hdr = 2048" "MSG_EXCEPT example_msgq_hdr = 8192"
  "security_msg_queue_alloc (example_msgq_env al b t) = None" "get_seconds (example_msgq_env al b t) = 1300000000"
  "idr_pre_get (example_msgq_env al b t)" "user_mtype (example_msgq_env al b t) = Some 5"
  "security_msg_queue_msgsnd (example_msgq_env al b t) q m f = None" "current_tgid (example_msgq_env al b t) = 7"
  "security_msg_queue_msgrcv (example_msgq_env al b t) q m u ty md = None" "current (example_msgq_env al b t) = t"
  "msg_ctlmni example_ns1 = 512" "msg_ctlmnb example_ns1 = 16384" "msg_ctlmax example_ns1 = 8192"
  "queues example_ns1 = [65552 \<mapsto> example_msgq]" "mblocks example_ns1 = Map.empty"
  "msg_bytes example_ns1 = 0" "msg_hdrs example_ns1 = 0"
  by (simp_all add: example_msgq_hdr_def example_msgq_env_def example_ns1_def)

lemma example_msgget:
  "msgget example_msgq_hdr 77 950 [example_msgq_env (Some 65536) 0 7] example_ns0 = Some (Inr 0, example_ns1)"
proof -
  have "newque example_msgq_hdr (example_msgq_env (Some 65536) 0 7)
    \<lparr>par_key = 77, par_flg = 950, par_size = 0, par_nsems = 0\<rparr> example_ns0 = (Inr 0, example_ns1)"
    using example_alloc [of 0 7] example_addid [of "Some 65536" 0 7]
    by (simp add: newque_def example_ns0_eq example_sel Let_def)
      (simp add: example_msgq_def example_ns1_def set_queue_def)
  moreover have "ipc_findkey (msg_ids example_ns0) (msg_perms example_ns0) 77 = Some (Inr None)"
    by (simp add: ipc_findkey_def example_ns0_eq findkey_from.simps)
  ultimately show ?thesis
    by (simp add: msgget_def ipcget_def ipcget_public_once_def IPC_PRIVATE_def msg_ops_def example_sel)
qed

lemma example_loads:
  "load_msg example_msgq_hdr (example_msgq_env al 0 t) example_text 100 2 Map.empty =
     Some (Inr (example_sent\<lparr>m_type := 0, m_ts := 0\<rparr>), [0 \<mapsto> 50])"
proof -
  have "DATALEN_MSG example_msgq_hdr = 4048" "DATALEN_SEG example_msgq_hdr = 4088"
    by (simp_all add: DATALEN_MSG_def DATALEN_SEG_def example_msgq_hdr_def)
  moreover have "[0..<2] = [0, Suc 0]" by (simp add: upt_rec)
  ultimately show ?thesis
    by (simp add: load_msg_def load_segs.simps example_msgq_env_def Let_def example_msgq_hdr_def example_text_def
        example_sent_def l30_size_add_overflow_def word_less_nat_alt unsigned_minus_1_eq_mask)
qed

lemma example_msgsnd:
  "msgsnd example_msgq_hdr (example_msgq_env None 0 7) example_text 0 100 2 0 example_ns1 = (Done (Inr 0), example_ns2)"
proof -
  have lk: "msg_lock_check example_msgq_hdr (example_ns1\<lparr>mblocks := b\<rparr>) 0 = Inr 65552" for b
    by (simp add: msg_lock_check_def ipc_lock_check_def ipc_lock_def ipc_checkid_def idr_find_def ipcid_to_idx_def
        example_ns1_def example_msgq_hdr_def SEQ_MULTIPLIER_def msg_perms_def example_msgq_def)
  have "ipcperms (example_msgq_env None 0 7) (q_perm example_msgq) 146 = None"
    by (simp add: ipcperms_def example_msgq_env_def example_msgq_def)
  moreover have "has_room example_msgq 2" by (simp add: has_room_def example_msgq_def)
  moreover have "snd_deliver (example_msgq_env None 0 7) 65552 example_msgq example_sent 2 (example_ns1\<lparr>mblocks := [0 \<mapsto> 50]\<rparr>) =
    (Done (Inr 0), example_ns2)"
    by (simp add: snd_deliver_def Let_def example_sel)
      (simp add: example_msgq_def example_ns2_def example_ns1_def set_queue_def)
  ultimately show ?thesis
    using lk example_loads
    by (simp add: msgsnd_def example_sel do_msgsnd_def c_int_def snd_attempt_def Let_def example_sent_def)
qed


lemma example_settles: "get_settles (example_msgq_env al b t)"
proof -
  have "first_free n i m \<noteq> Inl EAGAIN" for n i and m :: "nat \<rightharpoonup> addr"
    by (induction n i m rule: first_free.induct) auto
  then show ?thesis by (simp add: get_settles_def example_msgq_env_def)
qed

lemma example_reach: "msg_reach example_msgq_hdr example_ns0 example_ns1" "msg_reach example_msgq_hdr example_ns0 example_ns2"
proof -
  have "msgq_env_ok (example_msgq_env (Some 65536) 0 7) example_ns0"
    by (rule example_env_ok) (simp_all add: example_ns0_eq example_sel)
  then show r1: "msg_reach example_msgq_hdr example_ns0 example_ns1"
    using msg_reach_step [OF msg_reach_init step_msgget [OF _ _ example_msgget]] example_settles [of "Some 65536" 0 7] by simp
  have E: "msgq_env_ok (example_msgq_env None 0 7) example_ns1"
    by (rule example_env_ok) (simp_all add: example_sel)
  show "msg_reach example_msgq_hdr example_ns0 example_ns2"
    by (rule msg_reach_step [OF r1 step_msgsnd [OF E _ _ example_msgsnd]]) (simp_all add: example_ns1_def)
qed

lemma example_inv: "msg_inv example_msgq_hdr example_ns0" "msg_inv example_msgq_hdr example_ns1"
  "msg_inv example_msgq_hdr example_ns2"
  using fresh_msg_inv [OF example_hdr_ok] msg_reach_inv example_reach by (simp_all add: example_ns0_def)

subsection \<open>The queue as a list of typed texts\<close>

type_synonym abs_msg = "int \<times> byte list"

definition abs_msg_of :: "msg_msg \<Rightarrow> abs_msg" where
  "abs_msg_of m = (m_type m, msg_bytes_of m)"

definition abs_q :: "msg_queue \<Rightarrow> abs_msg list" where
  "abs_q q = map abs_msg_of (q_messages q)"

text \<open>
  What \<^verbatim>\<open>msgrcv\<close> promises: any message, the first one of the type, the first one of another type, or
  the first one of the lowest type not above the bound.
\<close>

definition wanted :: "search_mode \<Rightarrow> int \<Rightarrow> abs_msg list \<Rightarrow> abs_msg \<Rightarrow> bool" where
  "wanted mode ty xs x =
     (case mode of
        SEARCH_ANY \<Rightarrow> True
      | SEARCH_EQUAL \<Rightarrow> fst x = ty
      | SEARCH_NOTEQUAL \<Rightarrow> fst x \<noteq> ty
      | SEARCH_LESSEQUAL \<Rightarrow> fst x \<le> ty \<and> list_all (\<lambda>y. fst x \<le> fst y) xs)"

definition abs_rcv :: "search_mode \<Rightarrow> int \<Rightarrow> abs_msg list \<Rightarrow> (abs_msg \<times> abs_msg list) option" where
  "abs_rcv mode ty xs =
     (case dropWhile (\<lambda>x. \<not> wanted mode ty xs x) xs of
        [] \<Rightarrow> None
      | x # post \<Rightarrow> Some (x, takeWhile (\<lambda>x. \<not> wanted mode ty xs x) xs @ post))"

lemma abs_rcv_Some:
  assumes "xs = pre @ x # post" and "wanted mode ty xs x" and "\<And>y. y \<in> set pre \<Longrightarrow> \<not> wanted mode ty xs y"
  shows "abs_rcv mode ty xs = Some (x, pre @ post)"
proof -
  have "dropWhile (\<lambda>x. \<not> wanted mode ty xs x) xs = x # post" "takeWhile (\<lambda>x. \<not> wanted mode ty xs x) xs = pre"
    using assms(2,3) unfolding assms(1) by (simp_all add: dropWhile_append2 takeWhile_append2)
  then show ?thesis by (simp add: abs_rcv_def)
qed

lemma abs_rcv_None: "(\<And>y. y \<in> set xs \<Longrightarrow> \<not> wanted mode ty xs y) \<Longrightarrow> abs_rcv mode ty xs = None"
proof -
  assume "\<And>y. y \<in> set xs \<Longrightarrow> \<not> wanted mode ty xs y"
  then have "dropWhile (\<lambda>x. \<not> wanted mode ty xs x) xs = []" unfolding dropWhile_eq_Nil_conv by blast
  then show ?thesis by (simp only: abs_rcv_def list.case)
qed

definition free_choice :: "'e msgq_env_scheme \<Rightarrow> bool" where
  "free_choice E \<longleftrightarrow> (\<forall>q m t ty md. security_msg_queue_msgrcv E q m t ty md = None)"

lemma walk_lesseq:
  assumes E: "free_choice E" and pos: "\<forall>m\<in>set ms. 1 \<le> m_type m"
  shows "(\<exists>pre m post. ms = pre @ m # post \<and> walk_messages E q SEARCH_LESSEQUAL ty found ms = Some m \<and>
      m_type m \<le> ty \<and> (\<forall>x\<in>set pre. m_type m < m_type x) \<and> (\<forall>x\<in>set post. m_type m \<le> m_type x)) \<or>
    walk_messages E q SEARCH_LESSEQUAL ty found ms = found \<and> (\<forall>x\<in>set ms. ty < m_type x)"
  using pos
proof (induction ms arbitrary: ty found)
  case (Cons x ms)
  have pos: "\<forall>m\<in>set ms. 1 \<le> m_type m" using Cons.prems by simp
  show ?case
  proof (cases "m_type x \<le> ty")
    case True
    show ?thesis
    proof (cases "m_type x = 1")
      case one: True
      then show ?thesis
        using True E pos by (intro disjI1 exI [of _ "[]"]) (auto simp: testmsg_def free_choice_def)
    next
      case False
      have w: "walk_messages E q SEARCH_LESSEQUAL ty found (x # ms) =
          walk_messages E q SEARCH_LESSEQUAL (m_type x - 1) (Some x) ms"
        using True False E by (simp add: testmsg_def free_choice_def)
      from Cons.IH [OF pos, of "m_type x - 1" "Some x"] show ?thesis
      proof (elim disjE exE conjE)
        fix pre m post
        assume A: "ms = pre @ m # post" "walk_messages E q SEARCH_LESSEQUAL (m_type x - 1) (Some x) ms = Some m"
          "m_type m \<le> m_type x - 1" "\<forall>x\<in>set pre. m_type m < m_type x" "\<forall>x\<in>set post. m_type m \<le> m_type x"
        then have "x # ms = (x # pre) @ m # post \<and> walk_messages E q SEARCH_LESSEQUAL ty found (x # ms) = Some m \<and>
            m_type m \<le> ty \<and> (\<forall>x\<in>set (x # pre). m_type m < m_type x) \<and> (\<forall>x\<in>set post. m_type m \<le> m_type x)"
          unfolding w using True by simp
        then show ?thesis by blast
      next
        assume "walk_messages E q SEARCH_LESSEQUAL (m_type x - 1) (Some x) ms = Some x"
          "\<forall>y\<in>set ms. m_type x - 1 < m_type y"
        then have "x # ms = [] @ x # ms \<and> walk_messages E q SEARCH_LESSEQUAL ty found (x # ms) = Some x \<and>
            m_type x \<le> ty \<and> (\<forall>y\<in>set []. m_type x < m_type y) \<and> (\<forall>y\<in>set ms. m_type x \<le> m_type y)"
          unfolding w using True by auto
        then show ?thesis by blast
      qed
    qed
  next
    case False
    have w: "walk_messages E q SEARCH_LESSEQUAL ty found (x # ms) = walk_messages E q SEARCH_LESSEQUAL ty found ms"
      using False by (simp add: testmsg_def)
    from Cons.IH [OF pos, of ty found] show ?thesis
    proof (elim disjE exE conjE)
      fix pre m post
      assume A: "ms = pre @ m # post" "walk_messages E q SEARCH_LESSEQUAL ty found ms = Some m"
        "m_type m \<le> ty" "\<forall>x\<in>set pre. m_type m < m_type x" "\<forall>x\<in>set post. m_type m \<le> m_type x"
      then have "x # ms = (x # pre) @ m # post \<and> walk_messages E q SEARCH_LESSEQUAL ty found (x # ms) = Some m \<and>
          m_type m \<le> ty \<and> (\<forall>x\<in>set (x # pre). m_type m < m_type x) \<and> (\<forall>x\<in>set post. m_type m \<le> m_type x)"
        unfolding w using False by simp
      then show ?thesis by blast
    next
      assume "walk_messages E q SEARCH_LESSEQUAL ty found ms = found" "\<forall>x\<in>set ms. ty < m_type x"
      then show ?thesis using False w by auto
    qed
  qed
qed simp

lemma walk_first:
  assumes "free_choice E" and "mode \<noteq> SEARCH_LESSEQUAL"
  shows "walk_messages E q mode ty None ms = find (\<lambda>m. testmsg m ty mode) ms"
  using assms by (induction ms) (auto simp: free_choice_def)

lemma find_split:
  assumes "find P xs = Some x"
  obtains pre post where "xs = pre @ x # post" "P x" "\<And>y. y \<in> set pre \<Longrightarrow> \<not> P y"
proof -
  obtain i where i: "i < length xs" "P (xs ! i)" "x = xs ! i" "\<forall>j<i. \<not> P (xs ! j)"
    using assms by (auto simp: find_Some_iff)
  show ?thesis
    by (rule that [of "take i xs" "drop (Suc i) xs"])
      (use i in \<open>auto simp: id_take_nth_drop [symmetric] in_set_conv_nth\<close>)
qed

text \<open>The walk of \<^verbatim>\<open>do_msgrcv\<close> implements \<open>abs_rcv\<close>.\<close>

lemma walk_refines:
  assumes E: "free_choice E" and pos: "\<forall>m\<in>set ms. 1 \<le> m_type m"
  shows "abs_rcv mode ty (map abs_msg_of ms) =
    map_option (\<lambda>m. (abs_msg_of m, map abs_msg_of (remove1 m ms))) (walk_messages E q mode ty None ms)"
proof (cases "mode = SEARCH_LESSEQUAL")
  case True
  from walk_lesseq [OF E pos, of q ty None] show ?thesis
  proof (elim disjE exE conjE)
    fix pre m post
    assume A: "ms = pre @ m # post" "walk_messages E q SEARCH_LESSEQUAL ty None ms = Some m"
      "m_type m \<le> ty" "\<forall>x\<in>set pre. m_type m < m_type x" "\<forall>x\<in>set post. m_type m \<le> m_type x"
    have "m \<notin> set pre" using A(4) by auto
    moreover have "abs_rcv mode ty (map abs_msg_of ms) = Some (abs_msg_of m, map abs_msg_of pre @ map abs_msg_of post)"
    proof (rule abs_rcv_Some)
      show "wanted mode ty (map abs_msg_of ms) (abs_msg_of m)"
        using A True by (force simp: wanted_def abs_msg_of_def list_all_iff)
      show "\<not> wanted mode ty (map abs_msg_of ms) y" if "y \<in> set (map abs_msg_of pre)" for y
        using A True that by (force simp: wanted_def abs_msg_of_def list_all_iff)
    qed (simp add: A(1))
    ultimately show ?thesis using A(1,2) True by (simp add: remove1_append)
  next
    assume "walk_messages E q SEARCH_LESSEQUAL ty None ms = None" "\<forall>x\<in>set ms. ty < m_type x"
    moreover from this(2) have "abs_rcv mode ty (map abs_msg_of ms) = None"
      by (intro abs_rcv_None) (auto simp: wanted_def abs_msg_of_def True)
    ultimately show ?thesis using True by simp
  qed
next
  case False
  have wt: "wanted mode ty xs (abs_msg_of m) = testmsg m ty mode" for xs m
    using False by (cases mode) (simp_all add: wanted_def abs_msg_of_def testmsg_def)
  show ?thesis
  proof (cases "find (\<lambda>m. testmsg m ty mode) ms")
    case None
    then have "abs_rcv mode ty (map abs_msg_of ms) = None"
      by (intro abs_rcv_None) (auto simp: wt find_None_iff)
    then show ?thesis using None by (simp add: walk_first [OF E False])
  next
    case (Some m)
    then obtain pre post where A: "ms = pre @ m # post" "testmsg m ty mode" "\<And>y. y \<in> set pre \<Longrightarrow> \<not> testmsg y ty mode"
      by (rule find_split) blast
    have "m \<notin> set pre" using A(2,3) by auto
    moreover have "abs_rcv mode ty (map abs_msg_of ms) = Some (abs_msg_of m, map abs_msg_of pre @ map abs_msg_of post)"
      by (rule abs_rcv_Some) (use A wt in auto)
    ultimately show ?thesis using A(1) Some by (simp add: walk_first [OF E False] remove1_append)
  qed
qed

subsection \<open>Receiving and sending refine the list\<close>

lemma segs_wf_length: "segs_wf d n segs \<Longrightarrow> length (concat (map snd segs)) = n"
  by (induction d n segs rule: segs_wf.induct) auto

lemma msg_wf_length: "msg_wf K n m \<Longrightarrow> length (msg_bytes_of m) = n"
  using segs_wf_length [of "DATALEN_SEG K" "n - length (m_text m)" "m_segs m"]
  unfolding msg_wf_def msg_bytes_of_def length_append by linarith

text \<open>
  C3. Receiving implements its contract. In a state the calls can reach, with a security module that
  objects to no message, \<^verbatim>\<open>do_msgrcv\<close> on a live queue either takes exactly the message the search mode
  asks for out of the queue, reports its type and stores the first bytes of its text and nothing
  else in user memory; or it fails; it only reports \<^verbatim>\<open>ENOMSG\<close> or sleeps when no message fits. Senders
  that wait are woken when a message leaves.
\<close>

theorem receive_refines:
  assumes inv: "msg_inv K ns" and E: "msgq_env_ok E ns" "free_choice E"
    and lk: "0 \<le> msqid" "msg_lock_check K ns msqid = Inr p" "queues ns p = Some q" and sz: "0 \<le> sint sz"
    and cm: "convert_mode K msgtyp flg = (mode, ty)"
    and d: "do_msgrcv K E um msqid mtext sz msgtyp flg ns = (r, ns')"
  shows "case r of
      Done (Inr (n, mt, um')) \<Rightarrow>
        (\<exists>bs rest q'. abs_rcv mode ty (abs_q q) = Some ((mt, bs), rest) \<and> queues ns' p = Some q' \<and> abs_q q' = rest \<and>
           n = min (unat sz) (length bs) \<and> um' = overwrite um mtext (take n bs) \<and>
           set (q_senders q) \<inter> asleep ns' = {})
    | Done (Inl e) \<Rightarrow> e = ENOMSG \<longrightarrow> abs_rcv mode ty (abs_q q) = None
    | Sleep \<Rightarrow> abs_rcv mode ty (abs_q q) = None
    | Hang \<Rightarrow> False"
proof -
  note held = inv [unfolded msg_inv_def]
  have live: "q_live q" using held_live_queue [OF held lk(2)] lk(3) by auto
  have ok: "\<forall>m\<in>set (q_messages q). msg_ok K m" using msgs_okD(1) [OF msg_heldD(8) [OF held] lk(3) live] by blast
  then have "\<forall>m\<in>set (q_messages q). 1 \<le> m_type m" by (auto simp: msg_ok_def)
  note W = walk_refines [OF E(2) this, of mode ty q, folded abs_q_def]
  have a: "rcv_attempt K E um p mode ty sz flg mtext ns = (r, ns')"
    using d lk sz cm by (simp add: do_msgrcv_def)
  show ?thesis
  proof (cases "walk_messages E q mode ty None (q_messages q)")
    case None
    then show ?thesis using a lk(3) W by (auto simp: rcv_attempt_def Let_def split: if_splits)
  next
    case (Some m)
    then have m: "m \<in> set (q_messages q)" using walk_messages_in by fastforce
    have mok: "msg_ok K m" using ok m by blast
    have len: "length (msg_bytes_of m) = m_ts m"
      using mok msg_wf_length [of K "m_ts m" m] by (simp add: msg_ok_def)
    define n where "n = (if unat sz > m_ts m then m_ts m else unat sz)"
    have K: "msg_hdr_ok K" using msg_heldD(1) [OF held] by (simp add: msgq_hdr_ok_def)
    have U: "uaccess_ok E" using E(1) by (simp add: msgq_env_ok_def)
    have le: "n \<le> m_ts m" and wf: "msg_wf K (m_ts m) m" using mok by (simp_all add: n_def msg_ok_def)
    obtain st um2 where st: "store_msg K E um mtext m n = Inr (st, um2)"
      "st \<longrightarrow> um2 = overwrite um mtext (take n (msg_bytes_of m))"
      using store_msg_spec [OF K U wf le] by blast
    have nmin: "n = min (unat sz) (length (msg_bytes_of m))" by (simp add: n_def len min_def)
    show ?thesis
      using a lk(3) W Some st nmin
      by (auto simp: rcv_attempt_def rcv_finish_def Let_def n_def [symmetric] ss_wakeup_soft abs_q_def abs_msg_of_def
          split: if_splits option.splits)
  qed
qed

definition example_q2 :: msg_queue where
  "example_q2 = the (queues example_ns2 65552)"

lemma example_q2: "0 \<le> (0 :: int)" "msg_lock_check example_msgq_hdr example_ns2 0 = Inr 65552"
  "queues example_ns2 65552 = Some example_q2" "0 \<le> sint (10 :: 64 word)"
  "convert_mode example_msgq_hdr 0 0 = (SEARCH_ANY, 0)"
    by (simp_all add: msg_lock_check_def ipc_lock_check_def ipc_lock_def ipc_checkid_def idr_find_def ipcid_to_idx_def
        example_q2_def example_ns2_def example_ns1_def example_msgq_hdr_def SEQ_MULTIPLIER_def msg_perms_def
        example_msgq_def convert_mode_def)

lemma example_received:
  "fst (do_msgrcv example_msgq_hdr (example_msgq_env None 1 9) example_text 0 500 10 0 0 example_ns2) =
     Done (Inr (2, 5, overwrite example_text 500 [100, 101]))"
proof -
  let ?E = "example_msgq_env None 1 9"
  have q2: "example_q2 = example_msgq\<lparr>q_lspid := 7, q_stime := 1300000000, q_messages := [example_sent],
      q_cbytes := 2, q_qnum := 1\<rparr>"
    by (simp add: example_q2_def example_ns2_def)
  have w: "walk_messages ?E example_q2 SEARCH_ANY 0 None (q_messages example_q2) = Some example_sent"
    by (simp add: q2 testmsg_def example_sel)
  have p: "ipcperms ?E (q_perm example_q2) 292 = None"
    by (simp add: ipcperms_def example_msgq_env_def q2 example_msgq_def)
  have f: "fst (rcv_finish example_msgq_hdr ?E example_text 500 example_sent 10 ns) =
      Done (Inr (2, 5, overwrite example_text 500 [100, 101]))" if "mblocks ns = [0 \<mapsto> 50]" for ns
    using that by (simp add: rcv_finish_def example_sent_def store_msg_def DATALEN_MSG_def example_msgq_hdr_def
        example_msgq_env_def example_copy_to_def free_msg_def msg_addrs_def store_segs.simps Let_def)
  have ts: "m_ts example_sent = 2" "unat (10 :: ulong) = 10" by (simp_all add: example_sent_def)
  have mb: "mblocks example_ns2 = [0 \<mapsto> 50]" by (simp add: example_ns2_def)
  have r: "do_msgrcv example_msgq_hdr ?E example_text 0 500 10 0 0 example_ns2 =
      rcv_attempt example_msgq_hdr ?E example_text 65552 SEARCH_ANY 0 10 0 500 example_ns2"
    using example_q2(4) by (simp only: do_msgrcv_def example_q2(2,5) prod.case sum.case not_less [symmetric] less_irrefl if_False simp_thms)
  have "\<exists>ns. rcv_attempt example_msgq_hdr ?E example_text 65552 SEARCH_ANY 0 10 0 500 example_ns2 =
      rcv_finish example_msgq_hdr ?E example_text 500 example_sent 10 ns \<and> mblocks ns = mblocks example_ns2"
    unfolding rcv_attempt_def example_q2(3) option.case example_sel(4) Let_def ss_wakeup_soft
    by (simp add: w p ts) (rule exI, rule conjI [OF HOL.refl], simp add: set_queue_def)
  then obtain ns where "rcv_attempt example_msgq_hdr ?E example_text 65552 SEARCH_ANY 0 10 0 500 example_ns2 =
      rcv_finish example_msgq_hdr ?E example_text 500 example_sent 10 ns" "mblocks ns = mblocks example_ns2"
    by blast
  then show ?thesis using f [of ns] mb r by metis
qed

lemma example_env2: "msgq_env_ok (example_msgq_env None 1 t) example_ns2"
proof (rule example_env_ok)
  have "4096 * int n + 1 \<noteq> 0" for n using of_nat_0_le_iff [of n, where 'a = int] by linarith
  then show "mblocks example_ns2 (4096 * int n + 1) = None" for n by (simp add: example_ns2_def)
qed simp

theorem receive_refines_witness:
  "\<exists>bs rest. abs_rcv SEARCH_ANY 0 (abs_q example_q2) = Some ((5, bs), rest)"
proof -
  note E = example_env2 [of 9]
  have F: "free_choice (example_msgq_env None 1 9)" by (simp add: free_choice_def example_sel)
  show ?thesis
    using receive_refines [OF example_inv(3) E F example_q2 surjective_pairing, of example_text 500]
    by (auto simp: example_received)
qed

lemma pipelined_send_messages:
  "pipelined_send E msg ts q rc sl = Some (b, q', rc', sl') \<Longrightarrow> q_messages q' = q_messages q"
  by (induction ts arbitrary: q rc sl) (fastforce simp: Let_def split: option.splits if_splits)+

lemma pipelined_send_to:
  "pipelined_send E msg ts q rc sl = Some (True, q', rc', sl') \<Longrightarrow>
   \<exists>t f. t \<in> set ts \<and> rc' t = Some f \<and> fr_msg f = R_MSG msg \<and> testmsg msg (fr_msgtype f) (fr_mode f) \<and> t \<notin> sl'"
proof (induction ts arbitrary: q rc sl)
  case (Cons t ts)
  obtain f where f: "rc t = Some f" using Cons.prems by (cases "rc t") auto
  let ?hit = "testmsg msg (fr_msgtype f) (fr_mode f) \<and> security_msg_queue_msgrcv E q msg t (fr_msgtype f) (fr_mode f) = None"
  show ?case
  proof (cases "?hit \<and> int (m_ts msg) \<le> fr_maxsize f")
    case True
    then have "rc' t = Some (f\<lparr>fr_msg := R_MSG msg\<rparr>)" "t \<notin> sl'" using Cons.prems f by (auto simp: Let_def)
    then show ?thesis using True by (intro exI [of _ t] exI [of _ "f\<lparr>fr_msg := R_MSG msg\<rparr>"]) simp
  next
    case False
    then obtain q1 rc1 sl1 where "pipelined_send E msg ts q1 rc1 sl1 = Some (True, q', rc', sl')"
      using Cons.prems f by (auto simp: Let_def not_le split: if_splits)
    from Cons.IH [OF this] show ?thesis by auto
  qed
qed simp

text \<open>
  C4. Sending implements its contract: when \<^verbatim>\<open>do_msgsnd\<close> reports success, the text has either been
  appended to the queue, or the queue holds what it held and a receiver that waited for such a
  message has it and is no longer asleep.
\<close>

theorem send_refines:
  assumes inv: "msg_inv K ns" and E: "msgq_env_ok E ns"
    and lk: "msg_lock_check K ns msqid = Inr p" "queues ns p = Some q"
    and d: "do_msgsnd K E um msqid mtype mtext msgsz flg ns = (Done (Inr v), ns')"
  shows "\<exists>q'. queues ns' p = Some q' \<and>
    (let text = map (\<lambda>i. um (mtext + int i)) [0..<unat msgsz]
     in abs_q q' = abs_q q @ [(mtype, text)] \<or>
        abs_q q' = abs_q q \<and>
        (\<exists>t f m. t \<in> set (q_receivers q) \<and> rcvs ns' t = Some f \<and> fr_msg f = R_MSG m \<and> abs_msg_of m = (mtype, text) \<and>
           testmsg m (fr_msgtype f) (fr_mode f) \<and> t \<notin> asleep ns'))"
proof -
  note H = msg_heldD [OF inv [unfolded msg_inv_def]]
  have hdr: "msg_hdr_ok K" using H(1) by (simp add: msgq_hdr_ok_def)
  have Eo: "uaccess_ok E" "kmallocs_ok E (mblocks ns)" "security_msg_msg_alloc E \<noteq> Some KBUG"
    using E by (auto simp: msgq_env_ok_def hooks_ok_def)
  have ok: "\<not> (msgsz > msg_ctlmax ns \<or> sint msgsz < 0 \<or> msqid < 0 \<or> mtype < 1)"
    using d by (auto simp: do_msgsnd_def split: if_splits)
  have "uint msgsz \<le> INT_MAX" using ok H(2) by (simp add: word_le_def not_less)
  then have len: "c_int (uint msgsz) = uint msgsz" by (intro c_int_id) (simp_all add: INT_MAX_def order_trans [OF _ uint_ge_0])
  from load_msg_spec [OF hdr Eo, of um mtext "uint msgsz"] d ok len
  obtain m mb where m: "load_msg K E um mtext (uint msgsz) (mblocks ns) = Some (Inr m, mb)"
    "msg_bytes_of m = map (\<lambda>i. um (mtext + int i)) [0..<nat (uint msgsz)]"
    by (auto simp: do_msgsnd_def)
  define msg where "msg = m\<lparr>m_type := mtype, m_ts := unat msgsz\<rparr>"
  have am: "abs_msg_of msg = (mtype, map (\<lambda>i. um (mtext + int i)) [0..<unat msgsz])"
    using m(2) by (simp add: abs_msg_of_def msg_def msg_bytes_of_def)
  define ns1 where "ns1 = ns\<lparr>mblocks := mb\<rparr>"
  have lk1: "msg_lock_check K ns1 msqid = Inr p" using lk(1) by (simp add: msg_lock_check_def ns1_def)
  have q1: "queues ns1 p = Some q" using lk(2) by (simp add: ns1_def)
  have "(case msg_lock_check K ns1 msqid of
      Inl err \<Rightarrow> snd_fail err msg ns1 | Inr p \<Rightarrow> snd_attempt K E p msg msgsz flg ns1) = (Done (Inr v), ns')"
    using d ok len m(1) unfolding do_msgsnd_def Let_def msg_def ns1_def by simp
  then have "snd_attempt K E p msg msgsz flg ns1 = (Done (Inr v), ns')" using lk1 by simp
  then have dl: "snd_deliver E p q msg msgsz ns1 = (Done (Inr v), ns')"
    using q1 by (auto simp: snd_attempt_def snd_fail_def Let_def split: if_splits option.splits)
  define q0 where "q0 = q\<lparr>q_lspid := current_tgid E, q_stime := get_seconds E\<rparr>"
  obtain b q2 rc sl where ps: "pipelined_send E msg (q_receivers q0) q0 (rcvs ns1) (asleep ns1) = Some (b, q2, rc, sl)"
    using dl by (auto simp: snd_deliver_def Let_def q0_def split: option.splits)
  have msgs: "q_messages q2 = q_messages q" using pipelined_send_messages [OF ps] by (simp add: q0_def)
  show ?thesis
  proof (cases b)
    case True
    obtain t f where t: "t \<in> set (q_receivers q)" "rc t = Some f" "fr_msg f = R_MSG msg"
      "testmsg msg (fr_msgtype f) (fr_mode f)" "t \<notin> sl"
      using pipelined_send_to [of E msg "q_receivers q0" q0 "rcvs ns1" "asleep ns1" q2 rc sl] ps True
      by (auto simp: q0_def)
    have "ns' = set_queue p q2 (ns1\<lparr>rcvs := rc, asleep := sl\<rparr>)"
      using True ps dl by (simp add: snd_deliver_def Let_def q0_def)
    then show ?thesis using t msgs am by (auto simp: Let_def abs_q_def)
  next
    case False
    then show ?thesis
      using ps dl msgs am by (auto simp: snd_deliver_def Let_def q0_def abs_q_def)
  qed
qed

theorem send_refines_witness:
  "\<exists>q'. queues example_ns2 65552 = Some q' \<and> (abs_q q' = [(5, [100, 101])] \<or> q_receivers example_msgq \<noteq> [])"
proof -
  have E: "msgq_env_ok (example_msgq_env None 0 7) example_ns1"
    by (rule example_env_ok) (simp_all add: example_sel)
  have lk: "msg_lock_check example_msgq_hdr example_ns1 0 = Inr 65552" "queues example_ns1 65552 = Some example_msgq"
    by (simp_all add: msg_lock_check_def ipc_lock_check_def ipc_lock_def ipc_checkid_def idr_find_def ipcid_to_idx_def
        example_ns1_def example_msgq_hdr_def SEQ_MULTIPLIER_def msg_perms_def example_msgq_def)
  have d: "do_msgsnd example_msgq_hdr (example_msgq_env None 0 7) example_text 0 5 100 2 0 example_ns1 = (Done (Inr 0), example_ns2)"
    using example_msgsnd by (simp add: msgsnd_def example_sel)
  have "[0..<2] = [0, Suc 0]" by (simp add: upt_rec)
  then show ?thesis
    using send_refines [OF example_inv(2) E lk d] by (auto simp: Let_def abs_q_def example_msgq_def example_text_def)
qed

subsection \<open>What holds in every state\<close>

text \<open>
  C5. In every state the calls can reach from a new namespace, every call and every task that goes on
  after a sleep comes to its end or to a sleep: none of them follows a pointer to a queue, a message
  or a waiter that is gone, frees a block twice, or runs forever. Of the code below it is assumed what
  \<open>msgq_env_ok\<close> says (the allocator gives free memory, the hooks do not fault), and for the retry loop of
  \<^verbatim>\<open>msgget\<close> that some attempt does not get \<^verbatim>\<open>EAGAIN\<close> from \<^verbatim>\<open>idr_get_new\<close> or a hook (\<open>get_settles\<close>):
  \<^verbatim>\<open>msgget\<close> then comes back, which is part of the flag.
\<close>

theorem msg_calls_safe:
  assumes "msgq_hdr_ok K" and "uint (MSGMAX K) \<le> INT_MAX" and "rcu_inv K m"
    and "msg_reach K (fresh_msg_ns K si nb m) ns" and "msg_step K ns ok ns'"
  shows "ok"
  using msg_step_ok [OF msg_reach_inv [OF assms(4) fresh_msg_inv [OF assms(1-3)]] assms(5)] by simp

theorem msg_calls_safe_witness: "\<exists>ok. msg_step example_msgq_hdr example_ns1 ok example_ns2 \<and> ok"
proof -
  have E: "msgq_env_ok (example_msgq_env None 0 7) example_ns1"
    by (rule example_env_ok) (simp_all add: example_sel)
  have "msg_step example_msgq_hdr example_ns1 (returns_ok (Done (Inr 0) :: int outcome)) example_ns2"
    by (rule step_msgsnd [OF E _ _ example_msgsnd]) (simp_all add: example_ns1_def)
  then show ?thesis
    using msg_calls_safe [OF example_hdr_ok example_reach(1) [unfolded example_ns0_def]] by blast
qed

text \<open>
  C6. The counters are exact: \<^verbatim>\<open>msg_hdrs\<close> and \<^verbatim>\<open>msg_bytes\<close> of the namespace count the messages and the
  bytes of all live queues (modulo the width of \<^verbatim>\<open>atomic_t\<close>), and \<^verbatim>\<open>q_qnum\<close> and \<^verbatim>\<open>q_cbytes\<close> of each
  live queue count its own.
\<close>

theorem msg_counters_exact:
  assumes "msgq_hdr_ok K" and "uint (MSGMAX K) \<le> INT_MAX" and "rcu_inv K m"
    and "msg_reach K (fresh_msg_ns K si nb m) ns"
  shows "msg_hdrs ns = word_of_int (map_sum msgs_cnt (queues ns)) \<and>
    msg_bytes ns = word_of_int (map_sum msgs_sum (queues ns)) \<and>
    (\<forall>p q. queues ns p = Some q \<and> q_live q \<longrightarrow>
       q_qnum q = of_nat (length (q_messages q)) \<and>
       q_cbytes q = word_of_int (\<Sum>x\<leftarrow>q_messages q. int (length (msg_bytes_of x))))"
proof -
  have inv: "msg_inv K ns" by (rule msg_reach_inv [OF assms(4) fresh_msg_inv [OF assms(1-3)]])
  note H = msg_heldD [OF inv [unfolded msg_inv_def]]
  have "(\<Sum>x\<leftarrow>q_messages q. int (m_ts x)) = (\<Sum>x\<leftarrow>q_messages q. int (length (msg_bytes_of x)))"
    if "queues ns p = Some q" "q_live q" for p q
    using msgs_okD(1) [OF H(8) that] msg_wf_length [of K]
    by (intro arg_cong [where f = sum_list] map_cong) (fastforce simp: msg_ok_def)+
  then show ?thesis
    using H(4) by (auto simp: acct_inv_def msgs_cnt_def msgs_sum_def)
qed

theorem msg_counters_exact_witness: "msg_hdrs example_ns2 = word_of_int (map_sum msgs_cnt (queues example_ns2)) \<and> msg_hdrs example_ns2 = 1"
  using msg_counters_exact [OF example_hdr_ok example_reach(2) [unfolded example_ns0_def]]
  by (simp add: example_ns2_def)

text \<open>
  C7. No message memory is lost or shared: in every reachable state each allocated block belongs to
  exactly one message, which is in exactly one place: a live queue, the frame of a sleeping sender,
  or the frame of a receiver that has been handed the message and has not run yet.
\<close>

theorem msg_memory_owned:
  assumes "msgq_hdr_ok K" and "uint (MSGMAX K) \<le> INT_MAX" and "rcu_inv K m"
    and "msg_reach K (fresh_msg_ns K si nb m) ns"
  shows "mset_set (dom (mblocks ns)) = map_sum q_own (queues ns) + map_sum s_own (snds ns) + map_sum r_own (rcvs ns) \<and>
    finite (dom (mblocks ns))"
proof -
  have inv: "msg_inv K ns" by (rule msg_reach_inv [OF assms(4) fresh_msg_inv [OF assms(1-3)]])
  then show ?thesis
    using msg_heldD(5) [OF inv [unfolded msg_inv_def]] by (simp add: own_inv_def)
qed

theorem msg_memory_owned_witness: "map_sum q_own (queues example_ns2) = {#0#}"
  using msg_memory_owned [OF example_hdr_ok example_reach(2) [unfolded example_ns0_def]]
  by (simp add: example_ns2_def example_ns1_def)

text \<open>
  C8. Lifetime: in every reachable state the reference count of a queue is one for its place in the
  table plus one for each sender that sleeps on it; the queue of every sleeping sender is in memory,
  and so is, alive, the queue of every receiver that still waits, which is then on its list.
\<close>

theorem msg_queue_lifetime:
  assumes "msgq_hdr_ok K" and "uint (MSGMAX K) \<le> INT_MAX" and "rcu_inv K m"
    and "msg_reach K (fresh_msg_ns K si nb m) ns"
  shows "(\<forall>p q. queues ns p = Some q \<longrightarrow>
       rcu_count K (mem ns) p = Some (of_bool (q_live q) + int (card {t. sending (snds ns) t p}))) \<and>
    (\<forall>t f. snds ns t = Some f \<longrightarrow> (\<exists>q. queues ns (fs_msq f) = Some q \<and> (q_live q \<longrightarrow> t \<in> set (q_senders q)))) \<and>
    (\<forall>t p. waiting (rcvs ns) t p \<longrightarrow> (\<exists>q. queues ns p = Some q \<and> q_live q \<and> t \<in> set (q_receivers q)))"
proof -
  have inv: "msg_inv K ns" by (rule msg_reach_inv [OF assms(4) fresh_msg_inv [OF assms(1-3)]])
  note H = msg_heldD [OF inv [unfolded msg_inv_def]]
  have sc: "scount (snds ns) p = int (card {t. sending (snds ns) t p})" for p
  proof -
    have "scount (snds ns) p = (\<Sum>t\<in>dom (snds ns). of_bool (sending (snds ns) t p))"
      unfolding scount_def map_sum_def by (rule sum.cong) (auto simp: sending_def)
    also have "\<dots> = int (card {t \<in> dom (snds ns). sending (snds ns) t p})"
      using ref_invD(2) [OF H(7)] by (simp add: sum.If_cases of_bool_def Int_def conj_commute Collect_conj_eq [symmetric])
    also have "{t \<in> dom (snds ns). sending (snds ns) t p} = {t. sending (snds ns) t p}" by (auto simp: sending_def)
    finally show ?thesis .
  qed
  have "t \<in> set (q_senders q)" if "snds ns t = Some f" "queues ns (fs_msq f) = Some q" "q_live q" for t f q
    using wait_invD(3) [OF H(6) that(2,3)] that(1) by (auto simp: sending_def)
  then have "\<exists>q. queues ns (fs_msq f) = Some q \<and> (q_live q \<longrightarrow> t \<in> set (q_senders q))" if "snds ns t = Some f" for t f
    using wait_invD(5) [OF H(6) that] that by blast
  moreover have "\<exists>q. queues ns p = Some q \<and> q_live q \<and> t \<in> set (q_receivers q)" if "waiting (rcvs ns) t p" for t p
    using wait_invD(4) [OF H(6) that] wait_invD(2) [OF H(6)] that by blast
  ultimately show ?thesis using ref_invD(3) [OF H(7)] unfolding sc by blast
qed

theorem msg_queue_lifetime_witness: "rcu_count example_msgq_hdr (mem example_ns2) 65552 = Some 1"
proof -
  have "{t. sending (snds example_ns2) t 65552} = {}" by (simp add: sending_def example_ns2_def example_ns1_def)
  moreover have "q_live example_q2" by (simp add: q_live_def example_q2_def example_ns2_def example_msgq_def)
  ultimately show ?thesis
    using msg_queue_lifetime [OF example_hdr_ok example_reach(2) [unfolded example_ns0_def]] example_q2(3)
    by fastforce
qed

subsection \<open>Removing and creating queues\<close>

lemma kfree_all_is: "kfree_all as mb = Some mb' \<Longrightarrow> mb' = mb |` (- set as)"
  by (induction as mb rule: kfree_all.induct) (auto split: if_splits simp: restrict_map_def fun_eq_iff)

lemma resume_snd_removed:
  assumes inv: "msg_inv K ns" and E: "msgq_env_ok E ns" and f: "snds ns (current E) = Some f"
    and q: "queues ns (fs_msq f) = Some q" "\<not> q_live q"
  shows "\<exists>n ns2. resume_snd K E ns = (Done (Inl EIDRM), ns2) \<and> snds ns2 = (snds ns)(current E := None) \<and>
    mblocks ns2 = mblocks ns |` (- set (msg_addrs (fs_msg f))) \<and> rcu_count K (mem ns) (fs_msq f) = Some n \<and>
    rcu_count K (mem ns2) (fs_msq f) = (if n \<le> 1 then None else Some (n - 1)) \<and>
    queues ns2 = (if n \<le> 1 then (queues ns)(fs_msq f := None) else queues ns)"
proof -
  let ?p = "fs_msq f"
  obtain r ns2 where d: "resume_snd K E ns = (r, ns2)" by fastforce
  have ok: "returns_ok r" using resume_snd_ok [OF inv E f d] by simp
  define n where "n = of_bool (q_live q) + scount (snds ns) ?p"
  have n: "rcu_count K (mem ns) ?p = Some n"
    using ref_invD(3) [OF msg_heldD(7) [OF inv [unfolded msg_inv_def]] q(1)] by (simp add: n_def)
  obtain m where m: "ipc_rcu_putref K ?p (mem ns) = Some m"
    "rcu_count K m = (rcu_count K (mem ns))(?p := (if n \<le> 1 then None else Some (n - 1)))"
    using rcu.put_live [OF n] rcu.put_last [OF n] by (cases "n \<le> 1") auto
  have hd: "hdrs m (container_hdr K ?p) = None \<longleftrightarrow> n \<le> 1"
    using fun_cong [OF m(2), of ?p] by (auto simp: rcu_count_def split: if_splits)
  define ns1 where "ns1 = ns\<lparr>snds := (snds ns)(current E := None), mem := m,
    queues := (if n \<le> 1 then (queues ns)(?p := None) else queues ns)\<rparr>"
  have "msq_putref K ?p (ns\<lparr>snds := (snds ns)(current E := None)\<rparr>) = Some ns1"
    using m(1) hd by (simp add: msq_putref_def ns1_def)
  then have "snd_fail EIDRM (fs_msg f) ns1 = (r, ns2)"
    using d f q by (simp add: resume_snd_def Let_def q_live_def)
  then obtain mb where "free_msg (fs_msg f) (mblocks ns) = Some mb" "ns2 = ns1\<lparr>mblocks := mb\<rparr>" "r = Done (Inl EIDRM)"
    using ok by (auto simp: snd_fail_def returns_ok_def ns1_def split: option.splits)
  then show ?thesis using d n m(2) kfree_all_is by (auto simp: ns1_def free_msg_def)
qed

text \<open>
  C9. Removing a queue wakes everybody: after \<^verbatim>\<open>freeque\<close> no task that waited on the queue is asleep.
  A receiver that waited goes on with \<^verbatim>\<open>EIDRM\<close> and has left. So does a sender (whose environment satisfies
  \<open>msgq_env_ok\<close>): exactly the blocks of its message are freed and its reference to the queue is dropped,
  which frees the queue when no other sender has one.
\<close>

theorem freeque_wakes_all:
  assumes inv: "msg_inv K ns" and q: "queues ns p = Some q" "q_live q"
  shows "\<exists>ns'. freeque K p ns = Some ns' \<and> msg_inv K ns' \<and>
    (\<forall>(E :: msgq_env) um. waiting (rcvs ns) (current E) p \<longrightarrow>
       current E \<notin> asleep ns' \<and>
       resume_rcv K E um ns' = (Done (Inl EIDRM), ns'\<lparr>rcvs := (rcvs ns')(current E := None)\<rparr>)) \<and>
    (\<forall>(E :: msgq_env) f. snds ns (current E) = Some f \<and> fs_msq f = p \<and> msgq_env_ok E ns' \<longrightarrow>
       current E \<notin> asleep ns' \<and>
       (\<exists>n ns2. resume_snd K E ns' = (Done (Inl EIDRM), ns2) \<and> snds ns2 = (snds ns')(current E := None) \<and>
          mblocks ns2 = mblocks ns' |` (- set (msg_addrs (fs_msg f))) \<and>
          rcu_count K (mem ns') p = Some n \<and> rcu_count K (mem ns2) p = (if n \<le> 1 then None else Some (n - 1)) \<and>
          queues ns2 = (if n \<le> 1 then (queues ns')(p := None) else queues ns')))"
proof -
  obtain ns' where ns': "freeque K p ns = Some ns'" "msg_inv K ns'"
    "rcvs ns' = expunged (q_receivers q) EIDRM (rcvs ns)" "snds ns' = unlinked (q_senders q) (snds ns)"
    "asleep ns' = asleep ns - set (q_receivers q) - set (q_senders q)" "\<forall>u. queues ns' p = Some u \<longrightarrow> \<not> q_live u"
    using freeque_ok [OF inv q] by blast
  note W = msg_heldD(6) [OF inv [unfolded msg_inv_def]] and W' = msg_heldD(6) [OF ns'(2) [unfolded msg_inv_def]]
  have "current E \<notin> asleep ns' \<and>
      resume_rcv K E um ns' = (Done (Inl EIDRM), ns'\<lparr>rcvs := (rcvs ns')(current E := None)\<rparr>)"
    if wt: "waiting (rcvs ns) (current E) p" for E :: msgq_env and um
  proof -
    have t: "current E \<in> set (q_receivers q)" using wait_invD(2) [OF W q] wt by simp
    moreover obtain f where "rcvs ns (current E) = Some f" using wt by (auto simp: waiting_def)
    ultimately show ?thesis by (simp add: ns' resume_rcv_def expunged_def Let_def)
  qed
  moreover have "current E \<notin> asleep ns' \<and>
      (\<exists>n ns2. resume_snd K E ns' = (Done (Inl EIDRM), ns2) \<and> snds ns2 = (snds ns')(current E := None) \<and>
         mblocks ns2 = mblocks ns' |` (- set (msg_addrs (fs_msg f))) \<and>
         rcu_count K (mem ns') p = Some n \<and> rcu_count K (mem ns2) p = (if n \<le> 1 then None else Some (n - 1)) \<and>
         queues ns2 = (if n \<le> 1 then (queues ns')(p := None) else queues ns'))"
    if st: "snds ns (current E) = Some f" "fs_msq f = p" "msgq_env_ok E ns'" for E :: msgq_env and f
  proof -
    have t: "current E \<in> set (q_senders q)" using wait_invD(3) [OF W q] st(1,2) by (simp add: sending_def)
    obtain f' where f': "snds ns' (current E) = Some f'" "fs_msq f' = p" "fs_msg f' = fs_msg f"
      using st(1,2) t by (simp add: ns'(4) unlinked_def)
    obtain u where u: "queues ns' p = Some u" "\<not> q_live u" using wait_invD(5) [OF W' f'(1)] f'(2) ns'(6) by auto
    show ?thesis
      using t resume_snd_removed [OF ns'(2) st(3) f'(1), unfolded f'(2,3), OF u] by (simp add: ns'(5) split del: if_split)
  qed
  ultimately show ?thesis using ns'(1,2) by blast
qed

definition example_waiting :: msg_ns where
  "example_waiting = snd (do_msgrcv example_msgq_hdr (example_msgq_env None 0 9) example_text 0 500 10 0 0 example_ns1)"

lemma example_waiting:
  "msg_inv example_msgq_hdr example_waiting" "waiting (rcvs example_waiting) 9 65552"
  "\<exists>q. queues example_waiting 65552 = Some q \<and> q_live q"
proof -
  let ?E = "example_msgq_env None 0 9"
  have lk: "msg_lock_check example_msgq_hdr example_ns1 0 = Inr 65552" "convert_mode example_msgq_hdr 0 0 = (SEARCH_ANY, 0)"
    by (simp_all add: msg_lock_check_def ipc_lock_check_def ipc_lock_def ipc_checkid_def idr_find_def ipcid_to_idx_def
        example_ns1_def example_msgq_hdr_def SEQ_MULTIPLIER_def msg_perms_def example_msgq_def convert_mode_def)
  have p: "ipcperms ?E (q_perm example_msgq) 292 = None"
    by (simp add: ipcperms_def example_msgq_env_def example_msgq_def)
  have w: "q_messages example_msgq = []" "q_receivers example_msgq = []" "q_live example_msgq" by (simp_all add: example_msgq_def q_live_def)
  have E: "msgq_env_ok ?E example_ns1" by (rule example_env_ok) (simp_all add: example_sel)
  have "snds example_ns1 (current ?E) = None" "rcvs example_ns1 (current ?E) = None" by (simp_all add: example_ns1_def)
  from do_msgrcv_ok [OF example_inv(2) E this surjective_pairing] show "msg_inv example_msgq_hdr example_waiting"
    by (simp add: example_waiting_def)
  show "waiting (rcvs example_waiting) 9 65552" "\<exists>q. queues example_waiting 65552 = Some q \<and> q_live q"
    using p w by (simp_all add: example_waiting_def do_msgrcv_def lk rcv_attempt_def example_sel Let_def waiting_def q_live_def)
qed

theorem freeque_wakes_all_witness:
  "\<exists>ns'. freeque example_msgq_hdr 65552 example_waiting = Some ns' \<and>
     fst (resume_rcv example_msgq_hdr (example_msgq_env None 0 9) example_text ns') = Done (Inl EIDRM)"
proof -
  obtain q where "queues example_waiting 65552 = Some q" "q_live q" using example_waiting(3) by blast
  from freeque_wakes_all [OF example_waiting(1) this] show ?thesis
    using example_waiting(2) example_sel(16) [of None 0 9] by (metis fst_conv)
qed

text \<open>
  C10. In every reachable state \<^verbatim>\<open>msgget\<close> comes back (where some attempt does not get \<^verbatim>\<open>EAGAIN\<close> from
  \<^verbatim>\<open>idr_get_new\<close> or a hook, \<open>get_settles\<close>) and returns the identifier of a live queue that has the key: the
  queue that has had it, or a new one where there was none and \<^verbatim>\<open>IPC_CREAT\<close> is set (always a new one for
  \<^verbatim>\<open>IPC_PRIVATE\<close>). An error changes nothing in the table and an existing queue is not opened under
  \<^verbatim>\<open>IPC_CREAT | IPC_EXCL\<close>. No two live queues share a key other than \<^verbatim>\<open>IPC_PRIVATE\<close>, before the call and
  after it.
\<close>

theorem msgget_correct:
  fixes Es :: "msgq_env list"
  assumes hdr: "msgq_hdr_ok K" "uint (MSGMAX K) \<le> INT_MAX" "rcu_inv K m"
    and reach: "msg_reach K (fresh_msg_ns K si nb m) ns"
    and E: "envs_ok msgq_env_ok (msg_ops K) \<lparr>par_key = key, par_flg = flg, par_size = 0, par_nsems = 0\<rparr> Es ns"
      "\<exists>E\<in>set Es. get_settles E"
  shows "\<exists>r ns'. msgget K key flg Es ns = Some (r, ns') \<and> msg_keys_unique K ns \<and> msg_keys_unique K ns' \<and>
    (case r of
       Inl e \<Rightarrow> e \<noteq> KBUG \<and> msg_ids ns' = msg_ids ns \<and> msg_perms ns' = msg_perms ns
     | Inr x \<Rightarrow>
         \<exists>p q. msg_lock_check K ns' x = Inr p \<and> queues ns' p = Some q \<and> q_live q \<and> p_key (q_perm q) = key \<and>
           (if key \<noteq> IPC_PRIVATE \<and> \<not> key_free (msg_perms ns) key
            then msg_perms ns' = msg_perms ns \<and> \<not> (flg AND IPC_CREAT K \<noteq> 0 \<and> flg AND IPC_EXCL K \<noteq> 0)
            else queues ns p = None \<and> (key = IPC_PRIVATE \<or> flg AND IPC_CREAT K \<noteq> 0)))"
proof -
  let ?par = "\<lparr>par_key = key, par_flg = flg, par_size = 0, par_nsems = 0\<rparr>"
  have inv0: "msg_inv K (fresh_msg_ns K si nb m)" by (rule fresh_msg_inv [OF hdr])
  have inv: "msg_inv K ns" by (rule msg_reach_inv [OF reach inv0])
  have uniq: "msg_keys_unique K ns" by (rule msg_reach_keys [OF reach inv0])
  obtain r ns' where g: "msgget K key flg Es ns = Some (r, ns')"
    and P: "get_post K (msg_ops K :: (msg_ns, msgq_env) ipc_ops) ?par ns r ns'"
    using msgget_ok [OF inv E] by blast
  have u: "msg_keys_unique K ns'" by (rule msq.get_post_keys_unique [OF P uniq])
  have "case r of
       Inl e \<Rightarrow> e \<noteq> KBUG \<and> msg_ids ns' = msg_ids ns \<and> msg_perms ns' = msg_perms ns
     | Inr x \<Rightarrow>
         \<exists>p q. msg_lock_check K ns' x = Inr p \<and> queues ns' p = Some q \<and> q_live q \<and> p_key (q_perm q) = key \<and>
           (if key \<noteq> IPC_PRIVATE \<and> \<not> key_free (msg_perms ns) key
            then msg_perms ns' = msg_perms ns \<and> \<not> (flg AND IPC_CREAT K \<noteq> 0 \<and> flg AND IPC_EXCL K \<noteq> 0)
            else queues ns p = None \<and> (key = IPC_PRIVATE \<or> flg AND IPC_CREAT K \<noteq> 0))"
  proof (cases r)
    case (Inl e)
    then show ?thesis using P by (simp add: get_post_def msg_ops_def)
  next
    case (Inr x)
    then obtain p u where pu: "msg_lock_check K ns' x = Inr p" "msg_perms ns' p = Some u" "p_key u = key"
      "if key \<noteq> IPC_PRIVATE \<and> \<not> key_free (msg_perms ns) key
       then msg_perms ns' = msg_perms ns \<and> \<not> (flg AND IPC_CREAT K \<noteq> 0 \<and> flg AND IPC_EXCL K \<noteq> 0)
       else msg_perms ns p = None \<and> (key = IPC_PRIVATE \<or> flg AND IPC_CREAT K \<noteq> 0)"
      using P by (auto simp: get_post_def msg_ops_def has_key_def msg_lock_check_def split: if_splits)
    obtain q where "queues ns' p = Some q" "q_perm q = u" using pu(2) by (auto simp: msg_perms_iff)
    moreover have "\<not> p_deleted u"
      using pu(1,2) by (auto simp: msg_lock_check_def ipc_lock_check_def ipc_lock_def split: option.splits if_splits sum.splits)
    moreover have "msg_perms ns p = None \<longleftrightarrow> queues ns p = None" by (simp add: msg_perms_def)
    ultimately show ?thesis using Inr pu by (auto simp: q_live_def)
  qed
  then show ?thesis using g u uniq by blast
qed

theorem msgget_correct_witness:
  "msg_keys_unique example_msgq_hdr example_ns1 \<and> (\<exists>p. msg_lock_check example_msgq_hdr example_ns1 0 = Inr p)"
proof -
  have "msgq_env_ok (example_msgq_env (Some 65536) 0 7) example_ns0"
    by (rule example_env_ok) (simp_all add: example_ns0_eq example_sel)
  then have "envs_ok msgq_env_ok (msg_ops example_msgq_hdr) \<lparr>par_key = 77, par_flg = 950, par_size = 0, par_nsems = 0\<rparr>
      [example_msgq_env (Some 65536) 0 7] example_ns0" by simp
  moreover have "\<exists>E\<in>set [example_msgq_env (Some 65536) 0 7]. get_settles E" by (simp add: example_settles)
  ultimately show ?thesis
    using msgget_correct [OF example_hdr_ok msg_reach_init, of 77 950 "[example_msgq_env (Some 65536) 0 7]" example_si 1]
      example_msgget
    by (auto simp: example_ns0_def [symmetric])
qed

text \<open>
  C29. \<^verbatim>\<open>recompute_msgmni\<close> keeps \<^verbatim>\<open>msg_ctlmni\<close> between \<^verbatim>\<open>MSGMNI\<close> and \<^verbatim>\<open>IPCMNI\<close> divided by the number of
  namespaces, unless there are so many namespaces that the second is below the first. The value is then
  \<^verbatim>\<open>MSGMNI\<close> where the share of the memory is below \<^verbatim>\<open>MSGMNI\<close>, and the quotient, which is smaller than
  \<^verbatim>\<open>MSGMNI\<close>, everywhere else; the comment at the function names the range only.
\<close>

theorem msgmni_bounds:
  assumes "0 < nb" and "0 < uint (MSGMNI K)" and "uint (MSGMNI K) \<le> INT_MAX" and "int (IPCMNI K) \<le> INT_MAX"
  shows "let v = msg_ctlmni (recompute_msgmni K si nb ns); top = int (IPCMNI K) div nb; low = uint (MSGMNI K)
    in 0 \<le> v \<and>
       (low \<le> top \<longrightarrow> low \<le> v \<and> v \<le> top) \<and>
       (top < low \<longrightarrow>
          v = (if (((totalram si - totalhigh si) div MSG_MEM_SCALE K) * mem_unit si) div MSGMNB K div word_of_int nb < MSGMNI K
               then low else top))"
proof -
  define top where "top = int (IPCMNI K) div nb"
  have "top \<le> int (IPCMNI K) div 1" unfolding top_def using assms(1) by (intro zdiv_mono2) simp_all
  then have top: "0 \<le> top" "top \<le> INT_MAX" using assms(1,4) by (simp_all add: top_def pos_imp_zdiv_nonneg_iff)
  then have w: "uint (word_of_int top :: 64 word) = top"
    unfolding uint_word_of_int by (intro mod_pos_pos_trivial) (simp_all add: INT_MAX_def)
  define al where "al = (((totalram si - totalhigh si) div MSG_MEM_SCALE K) * mem_unit si) div MSGMNB K div word_of_int nb"
  have v: "msg_ctlmni (recompute_msgmni K si nb ns) =
      (if al < MSGMNI K then c_int (uint (MSGMNI K)) else if al > word_of_int top then top else c_int (uint al))"
    by (simp add: recompute_msgmni_def Let_def al_def top_def)
  have c: "c_int x = x" if "0 \<le> x" "x \<le> INT_MAX" for x using that by (intro c_int_id) (simp_all add: INT_MAX_def)
  show ?thesis
    unfolding top_def [symmetric] al_def [symmetric] v Let_def
    using top w assms(2,3) c [of "uint (MSGMNI K)"] c [of "uint al"] by (auto simp: word_less_def not_less)
qed

theorem msgmni_bounds_witness:
  "msg_ctlmni (recompute_msgmni example_msgq_hdr example_si 1 example_ns1) \<le> 32768"
  using msgmni_bounds [of 1 example_msgq_hdr example_si example_ns1]
  by (simp add: Let_def example_msgq_hdr_def INT_MAX_def)

end
