(* ===== verification/Ipc_Sem.thy ===== *)
theory Ipc_Sem
  imports Ipc_Util
begin

text \<open>
  \<^verbatim>\<open>ipc/sem.c\<close>: System V semaphores.

  A namespace is a \<open>sem_ns\<close>: the limits and \<^verbatim>\<open>used_sems\<close> of \<^verbatim>\<open>struct ipc_namespace\<close>, the identifier
  table, the arrays by address with their reference counts, the undo structures and undo lists, and
  the tasks that sleep in \<^verbatim>\<open>semtimedop\<close>. The \<^verbatim>\<open>struct sem_queue\<close> of a sleeping task lives on its
  kernel stack; here it is in \<open>sleepers\<close>, and the pending lists hold tasks.

  A call runs until it returns or sleeps, and a sleeping task goes on with \<open>resume_sem\<close>. Where a call
  drops the lock of the array in the middle and takes it again, \<open>others E n\<close> is what the other tasks
  do to the namespace meanwhile.
\<close>

subsection \<open>State\<close>

record sembuf =
  sem_num :: nat
  sem_op :: int
  sem_flg :: flags

record sem =
  semval :: int
  sempid :: int
  sem_simple :: "task list"

record sem_array =
  sem_perm :: kern_ipc_perm
  sem_otime :: int
  sem_ctime :: int
  sem_base :: "sem list"
  sem_pending :: "task list"
  list_id :: "addr list"
  sem_nsems :: int
  complex_count :: int

record sem_undo =
  un_semid :: int
  un_semadj :: "int list"
  un_ulp :: addr

record sem_undo_list =
  ul_refcnt :: int
  list_proc :: "addr list"

text \<open>
  \<^verbatim>\<open>queue.pid\<close> is the process while the task waits and the result from the wake-up on;
  \<^verbatim>\<open>queue.status\<close> is \<^verbatim>\<open>-EINTR\<close>, \<^verbatim>\<open>IN_WAKEUP\<close>, or the result (\<open>None\<close> is 0).
\<close>

datatype q_pid = Q_PID int | Q_RESULT "errno option"

datatype q_status = Q_EINTR | Q_IN_WAKEUP | Q_DONE "errno option"

record sem_queue =
  sq_undo :: "addr option"
  sq_pid :: q_pid
  sq_status :: q_status
  sq_sops :: "sembuf list"
  sq_alter :: bool
  sq_semid :: int
  sq_timeout :: bool

record sem_ns =
  sc_semmsl :: int
  sc_semmns :: int
  sc_semopm :: int
  sc_semmni :: int
  used_sems :: int
  sem_ids :: ipc_ids
  arrays :: "addr \<rightharpoonup> sem_array"
  sem_mem :: ipc_mem
  undos :: "addr \<rightharpoonup> sem_undo"
  undo_rcu :: "addr list"
  undo_lists :: "addr \<rightharpoonup> sem_undo_list"
  sysvsem :: "task \<rightharpoonup> addr"
  sleepers :: "task \<rightharpoonup> sem_queue"
  sem_asleep :: "task set"

datatype sem_cmd =
  SEM_STAT | SEM_INFO | GETALL | GETVAL | GETPID | GETNCNT | GETZCNT | SETVAL | SETALL

record sem_hdr = ipc_hdr +
  sizeof_sem_array :: ulong
  sizeof_sem :: ulong
  sizeof_sem_undo :: ulong
  sizeof_short :: ulong
  sizeof_sembuf :: ulong
  SEMMSL :: int
  SEMMNS :: int
  SEMOPM :: int
  SEMMNI :: int
  SEMVMX :: int
  SEMAEM :: int
  SEMMNU :: int
  SEMMAP :: int
  SEMUME :: int
  SEMUSZ :: int
  SEM_UNDO :: flags
  sem_decode :: "flags \<Rightarrow> sem_cmd ipc_cmd"

record semid64_ds =
  s64_perm :: ipc64_perm
  s64_otime :: int
  s64_ctime :: int
  s64_nsems :: ulong

record semid_ds =
  sold_perm :: ipc_perm_old
  sold_otime :: int
  sold_ctime :: int
  sold_nsems :: "16 word"

record seminfo =
  i_semmap :: int
  i_semmni :: int
  i_semmns :: int
  i_semmnu :: int
  i_semmsl :: int
  i_semopm :: int
  i_semume :: int
  i_semusz :: int
  i_semvmx :: int
  i_semaem :: int

datatype sem_out = NoSemOut | OutSeminfo seminfo | OutSem64 semid64_ds | OutSemOld semid_ds | OutVals "int list"

record timespec =
  tv_sec :: int
  tv_nsec :: int

record sem_env = ipc_env +
  others :: "nat \<Rightarrow> sem_ns \<Rightarrow> sem_ns"
  security_sem_alloc :: "errno option"
  security_sem_associate :: "sem_array \<Rightarrow> flags \<Rightarrow> errno option"
  security_sem_semctl :: "sem_array option \<Rightarrow> sem_cmd ipc_cmd \<Rightarrow> errno option"
  security_sem_semop :: "sem_array \<Rightarrow> sembuf list \<Rightarrow> bool \<Rightarrow> errno option"
  sops_kmalloc_ok :: bool
  io_alloc_ok :: bool
  undo_list_kzalloc :: "addr option"
  undo_kzalloc :: "ulong \<Rightarrow> addr option"
  user_sops :: "nat \<Rightarrow> sembuf list option"
  user_timespec :: "timespec option"
  timespec_to_jiffies :: "timespec \<Rightarrow> nat"
  schedule_timeout :: nat
  user_vals :: "nat \<Rightarrow> int list option"
  vals_copy_ok :: bool
  sem_copy_ok :: bool
  user_semid64 :: "semid64_ds option"
  user_semid :: "semid_ds option"

definition SEMMSL_FAST :: int where
  "SEMMSL_FAST = 256"

definition SEMOPM_FAST :: nat where
  "SEMOPM_FAST = 64"

subsection \<open>Namespaces and locks\<close>

definition sem_init_ns :: "'h sem_hdr_scheme \<Rightarrow> sem_ns \<Rightarrow> sem_ns" where
  "sem_init_ns K ns =
     ns\<lparr>sc_semmsl := SEMMSL K, sc_semmns := SEMMNS K, sc_semopm := SEMOPM K, sc_semmni := SEMMNI K,
        used_sems := 0, sem_ids := ipc_init_ids K\<rparr>"

definition sem_perms :: "sem_ns \<Rightarrow> perms" where
  "sem_perms ns = (\<lambda>p. map_option sem_perm (arrays ns p))"

definition sem_lock :: "'h sem_hdr_scheme \<Rightarrow> sem_ns \<Rightarrow> int \<Rightarrow> errno + addr" where
  "sem_lock K ns x = ipc_lock K (sem_ids ns) (sem_perms ns) x"

definition sem_lock_check :: "'h sem_hdr_scheme \<Rightarrow> sem_ns \<Rightarrow> int \<Rightarrow> errno + addr" where
  "sem_lock_check K ns x = ipc_lock_check K (sem_ids ns) (sem_perms ns) x"

definition set_array :: "addr \<Rightarrow> sem_array \<Rightarrow> sem_ns \<Rightarrow> sem_ns" where
  "set_array p sma ns = ns\<lparr>arrays := (arrays ns)(p \<mapsto> sma)\<rparr>"

definition sem_getref_and_unlock :: "'h sem_hdr_scheme \<Rightarrow> addr \<Rightarrow> sem_ns \<Rightarrow> sem_ns option" where
  "sem_getref_and_unlock K p ns =
     (case ipc_rcu_getref K p (sem_mem ns) of None \<Rightarrow> None | Some m \<Rightarrow> Some (ns\<lparr>sem_mem := m\<rparr>))"

text \<open>
  Dropping a reference; the last one makes the array go away at the end of the grace period. The
  caller of \<open>sem_lock_and_putref\<close> still reads the array, under \<^verbatim>\<open>rcu_read_lock\<close>.
\<close>

definition sem_putref :: "'h sem_hdr_scheme \<Rightarrow> addr \<Rightarrow> sem_ns \<Rightarrow> sem_ns option" where
  "sem_putref K p ns =
     (case ipc_rcu_putref K p (sem_mem ns) of
        None \<Rightarrow> None
      | Some m \<Rightarrow>
          Some (ns\<lparr>sem_mem := m,
                   arrays := (if hdrs m (container_hdr K p) = None then (arrays ns)(p := None)
                              else arrays ns)\<rparr>))"

definition sem_lock_and_putref :: "'h sem_hdr_scheme \<Rightarrow> addr \<Rightarrow> sem_ns \<Rightarrow> (sem_array \<times> sem_ns) option" where
  "sem_lock_and_putref K p ns =
     (case arrays ns p of
        None \<Rightarrow> None
      | Some sma \<Rightarrow> (case sem_putref K p ns of None \<Rightarrow> None | Some ns' \<Rightarrow> Some (sma, ns')))"

definition sem_rmid :: "'h sem_hdr_scheme \<Rightarrow> addr \<Rightarrow> sem_array \<Rightarrow> sem_ns \<Rightarrow> sem_ns" where
  "sem_rmid K p sma ns =
     (case ipc_rmid K (sem_ids ns) (sem_perm sma) of
        (ids, perm) \<Rightarrow> set_array p (sma\<lparr>sem_perm := perm\<rparr>) (ns\<lparr>sem_ids := ids\<rparr>))"

subsection \<open>Creating arrays\<close>

definition newary ::
  "'h sem_hdr_scheme \<Rightarrow> 'e sem_env_scheme \<Rightarrow> ipc_params \<Rightarrow> sem_ns \<Rightarrow> (errno + int) \<times> sem_ns" where
  "newary K E params ns =
     (let nsems = par_nsems params
      in if nsems \<le> 0 then (Inl EINVAL, ns)
         else if used_sems ns > sc_semmns ns \<or> nsems > sc_semmns ns - used_sems ns then (Inl ENOSPC, ns)
         else
           (case l30_size_flex_bytes (sizeof_sem_array K) (word_of_int nsems) (sizeof_sem K) of
              None \<Rightarrow> (Inl EOVERFLOW, ns)
            | Some sz \<Rightarrow>
                (case ipc_rcu_alloc K E sz (sem_mem ns) of
                   (None, m) \<Rightarrow> (Inl ENOMEM, ns)
                 | (Some p, m) \<Rightarrow>
                     (let fail = (\<lambda>err. case ipc_rcu_putref K p m of
                                          None \<Rightarrow> (Inl KBUG, ns\<lparr>sem_mem := m\<rparr>)
                                        | Some m' \<Rightarrow> (Inl err, ns\<lparr>sem_mem := m'\<rparr>));
                          perm = new_perm (par_key params) (par_flg params AND S_IRWXUGO K)
                      in case security_sem_alloc E of
                           Some retval \<Rightarrow> fail retval
                         | None \<Rightarrow>
                             (case ipc_addid K E (sem_ids ns) p perm (sc_semmni ns) of
                                (Inl err, ids, perm') \<Rightarrow> fail err
                              | (Inr i, ids, perm') \<Rightarrow>
                                  (Inr (p_id perm'),
                                   set_array p
                                     \<lparr>sem_perm = perm', sem_otime = 0, sem_ctime = get_seconds E,
                                      sem_base = replicate (nat nsems) \<lparr>semval = 0, sempid = 0, sem_simple = []\<rparr>,
                                      sem_pending = [], list_id = [], sem_nsems = nsems, complex_count = 0\<rparr>
                                     (ns\<lparr>sem_mem := m, sem_ids := ids, used_sems := used_sems ns + nsems\<rparr>)))))))"

definition sem_security :: "'e sem_env_scheme \<Rightarrow> addr \<Rightarrow> flags \<Rightarrow> sem_ns \<Rightarrow> errno option" where
  "sem_security E p semflg ns =
     (case arrays ns p of None \<Rightarrow> Some KBUG | Some sma \<Rightarrow> security_sem_associate E sma semflg)"

definition sem_more_checks :: "'e sem_env_scheme \<Rightarrow> addr \<Rightarrow> ipc_params \<Rightarrow> sem_ns \<Rightarrow> errno option" where
  "sem_more_checks E p params ns =
     (case arrays ns p of
        None \<Rightarrow> Some KBUG
      | Some sma \<Rightarrow> if par_nsems params > sem_nsems sma then Some EINVAL else None)"

definition sem_ops :: "'h sem_hdr_scheme \<Rightarrow> (sem_ns, 'e sem_env_scheme) ipc_ops" where
  "sem_ops K =
     \<lparr>ns_ids = sem_ids, ns_perms = sem_perms, getnew = newary K, associate = sem_security,
      more_checks = sem_more_checks\<rparr>"

definition semget ::
  "'h sem_hdr_scheme \<Rightarrow> int \<Rightarrow> int \<Rightarrow> flags \<Rightarrow> 'e sem_env_scheme list \<Rightarrow> sem_ns \<Rightarrow> ((errno + int) \<times> sem_ns) option" where
  "semget K key nsems semflg Es ns =
     (if nsems < 0 \<or> nsems > sc_semmsl ns then Some (Inl EINVAL, ns)
      else ipcget K (sem_ops K) \<lparr>par_key = key, par_flg = semflg, par_size = 0, par_nsems = nsems\<rparr> Es ns)"

subsection \<open>Performing operations\<close>

datatype semop_result = SEMOP_OK | SEMOP_SLEEP | SEMOP_ERR errno

definition would_block :: "'h sem_hdr_scheme \<Rightarrow> sembuf \<Rightarrow> semop_result" where
  "would_block K sop = (if sem_flg sop AND IPC_NOWAIT K \<noteq> 0 then SEMOP_ERR EAGAIN else SEMOP_SLEEP)"

text \<open>
  The first loop of \<^verbatim>\<open>try_atomic_semop\<close>; \<open>dn\<close> are the operations already done, the last one first. An
  index outside the array or a missing undo structure is \<open>KBUG\<close>.
\<close>

fun semop_forward ::
  "'h sem_hdr_scheme \<Rightarrow> int list option \<Rightarrow> sembuf list \<Rightarrow> sembuf list \<Rightarrow> sem list \<Rightarrow>
   semop_result \<times> sembuf list \<times> sem list" where
  "semop_forward K adj dn [] base = (SEMOP_OK, dn, base)"
| "semop_forward K adj dn (sop # sops) base =
     (let n = sem_num sop
      in if n \<ge> length base then (SEMOP_ERR KBUG, dn, base)
         else
           (let curr = base ! n;
                result = semval curr + sem_op sop;
                undo_err = (if sem_flg sop AND SEM_UNDO K \<noteq> 0 then
                              (case adj of
                                 None \<Rightarrow> Some KBUG
                               | Some a \<Rightarrow>
                                   if n \<ge> length a then Some KBUG
                                   else if a ! n - sem_op sop < - SEMAEM K - 1 \<or> a ! n - sem_op sop > SEMAEM K
                                        then Some ERANGE
                                   else None)
                            else None)
            in if sem_op sop = 0 \<and> semval curr \<noteq> 0 then (would_block K sop, dn, base)
               else if result < 0 then (would_block K sop, dn, base)
               else if result > SEMVMX K then (SEMOP_ERR ERANGE, dn, base)
               else (case undo_err of
                       Some err \<Rightarrow> (SEMOP_ERR err, dn, base)
                     | None \<Rightarrow> semop_forward K adj (sop # dn) sops (base[n := curr\<lparr>semval := result\<rparr>]))))"

text \<open>The loop behind it when all operations can be done, and the one at \<^verbatim>\<open>undo\<close>.\<close>

fun semop_commit :: "'h sem_hdr_scheme \<Rightarrow> int \<Rightarrow> sembuf list \<Rightarrow> sem list \<times> int list option \<Rightarrow> sem list \<times> int list option" where
  "semop_commit K pid [] ba = ba"
| "semop_commit K pid (sop # dn) (base, adj) =
     (let n = sem_num sop
      in semop_commit K pid dn
           (base[n := (base ! n)\<lparr>sempid := pid\<rparr>],
            if sem_flg sop AND SEM_UNDO K \<noteq> 0 then map_option (\<lambda>a. a[n := c_short (a ! n - sem_op sop)]) adj
            else adj))"

fun semop_undo :: "sembuf list \<Rightarrow> sem list \<Rightarrow> sem list" where
  "semop_undo [] base = base"
| "semop_undo (sop # dn) base =
     (let n = sem_num sop
      in semop_undo dn (base[n := (base ! n)\<lparr>semval := semval (base ! n) - sem_op sop\<rparr>]))"

definition try_atomic_semop ::
  "'h sem_hdr_scheme \<Rightarrow> sem list \<Rightarrow> sembuf list \<Rightarrow> int list option \<Rightarrow> int \<Rightarrow>
   semop_result \<times> sem list \<times> int list option" where
  "try_atomic_semop K base sops adj pid =
     (case semop_forward K adj [] sops base of
        (SEMOP_OK, dn, base') \<Rightarrow> (SEMOP_OK, semop_commit K pid dn (base', adj))
      | (result, dn, base') \<Rightarrow> (result, semop_undo dn base', adj))"

subsection \<open>Completing the operations of sleeping tasks\<close>

text \<open>What the scan of a pending list changes; \<open>up_tasks\<close> is the list \<^verbatim>\<open>pt\<close> of tasks to wake.\<close>

record sem_upd =
  up_sma :: sem_array
  up_undos :: "addr \<rightharpoonup> sem_undo"
  up_sleepers :: "task \<rightharpoonup> sem_queue"
  up_tasks :: "task list"

definition undo_adj :: "(addr \<rightharpoonup> sem_undo) \<Rightarrow> addr option \<Rightarrow> int list option" where
  "undo_adj us un = (case un of None \<Rightarrow> None | Some a \<Rightarrow> map_option un_semadj (us a))"

definition set_undo_adj :: "addr option \<Rightarrow> int list option \<Rightarrow> (addr \<rightharpoonup> sem_undo) \<Rightarrow> (addr \<rightharpoonup> sem_undo)" where
  "set_undo_adj un adj us =
     (case (un, adj) of
        (Some a, Some ad) \<Rightarrow> us(a := map_option (un_semadj_update (\<lambda>_. ad)) (us a))
      | _ \<Rightarrow> us)"

definition wake_up_sem_queue_prepare :: "task \<Rightarrow> errno option \<Rightarrow> sem_upd \<Rightarrow> sem_upd option" where
  "wake_up_sem_queue_prepare t error U =
     (case up_sleepers U t of
        None \<Rightarrow> None
      | Some q \<Rightarrow>
          Some (U\<lparr>up_sleepers := (up_sleepers U)(t \<mapsto> q\<lparr>sq_status := Q_IN_WAKEUP, sq_pid := Q_RESULT error\<rparr>),
                  up_tasks := up_tasks U @ [t]\<rparr>))"

text \<open>Writing the result into \<^verbatim>\<open>q->status\<close> is the last thing done to a queue entry.\<close>

fun wake_up_sem_queue_do :: "task list \<Rightarrow> sem_ns \<Rightarrow> sem_ns option" where
  "wake_up_sem_queue_do [] ns = Some ns"
| "wake_up_sem_queue_do (t # ts) ns =
     (case sleepers ns t of
        None \<Rightarrow> None
      | Some q \<Rightarrow>
          (case sq_pid q of
             Q_PID _ \<Rightarrow> None
           | Q_RESULT error \<Rightarrow>
               wake_up_sem_queue_do ts
                 (ns\<lparr>sem_asleep := sem_asleep ns - {t}, sleepers := (sleepers ns)(t \<mapsto> q\<lparr>sq_status := Q_DONE error\<rparr>)\<rparr>)))"

text \<open>Taking an entry off a list it is not on is \<open>None\<close>.\<close>

definition unlink_queue :: "task \<Rightarrow> sem_queue \<Rightarrow> sem_array \<Rightarrow> sem_array option" where
  "unlink_queue t q sma =
     (if t \<notin> set (sem_pending sma) then None
      else
        (let sma = sma\<lparr>sem_pending := remove1 t (sem_pending sma)\<rparr>
         in if length (sq_sops q) = 1 then
              (let n = sem_num (hd (sq_sops q))
               in if n \<ge> length (sem_base sma) \<or> t \<notin> set (sem_simple (sem_base sma ! n)) then None
                  else Some (sma\<lparr>sem_base := (sem_base sma)[n := sem_simple_update (remove1 t) (sem_base sma ! n)]\<rparr>))
            else Some (sma\<lparr>complex_count := complex_count sma - 1\<rparr>)))"

text \<open>A \<^verbatim>\<open>BUG_ON\<close> that fires is \<open>None\<close>.\<close>

definition check_restart :: "(task \<rightharpoonup> sem_queue) \<Rightarrow> sem_array \<Rightarrow> sem_queue \<Rightarrow> bool option" where
  "check_restart sl sma q =
     (if \<not> sq_alter q then Some False
      else if complex_count sma \<noteq> 0 then Some True
      else if length (sq_sops q) > 1 then Some True
      else
        (let n = sem_num (hd (sq_sops q));
             curr = sem_base sma ! n
         in case sem_simple curr of
              [] \<Rightarrow> Some False
            | h # _ \<Rightarrow>
                if semval curr \<noteq> 0 then (if sem_op (hd (sq_sops q)) \<ge> 0 then None else Some False)
                else
                  (case sl h of
                     None \<Rightarrow> None
                   | Some hq \<Rightarrow>
                       if length (sq_sops hq) \<noteq> 1 \<or> sem_num (hd (sq_sops hq)) \<noteq> n then None
                       else Some (sem_op (hd (sq_sops hq)) = 0))))"

definition pending_list :: "int \<Rightarrow> sem_array \<Rightarrow> task list" where
  "pending_list semnum sma =
     (if semnum = - 1 then sem_pending sma else sem_simple (sem_base sma ! nat semnum))"

lemma unlink_queue_shorter:
  "unlink_queue t q sma = Some sma' \<Longrightarrow> length (sem_pending sma') < length (sem_pending sma)"
proof -
  assume u: "unlink_queue t q sma = Some sma'"
  then have t: "t \<in> set (sem_pending sma)" and "sem_pending sma' = remove1 t (sem_pending sma)"
    by (auto simp: unlink_queue_def Let_def split: if_splits)
  then show ?thesis using length_pos_if_in_set [OF t] by (simp add: length_remove1)
qed

lemma prepare_sma [simp]: "wake_up_sem_queue_prepare t e U = Some U' \<Longrightarrow> up_sma U' = up_sma U"
  by (auto simp: wake_up_sem_queue_prepare_def split: option.splits)

text \<open>
  The scan from \<^verbatim>\<open>again\<close> on: \<open>walk\<close> is the rest of the list, \<open>completed\<close> is \<^verbatim>\<open>semop_completed\<close>. A
  restart starts over with the whole list, one entry shorter.
\<close>

function update_walk ::
  "'h sem_hdr_scheme \<Rightarrow> int \<Rightarrow> task list \<Rightarrow> bool \<Rightarrow> sem_upd \<Rightarrow> (bool \<times> sem_upd) option" where
  "update_walk K semnum [] completed U = Some (completed, U)"
| "update_walk K semnum (t # walk) completed U =
     (case up_sleepers U t of
        None \<Rightarrow> None
      | Some q \<Rightarrow>
          if semnum \<noteq> - 1 \<and> semval (sem_base (up_sma U) ! nat semnum) = 0 \<and> sq_alter q then Some (completed, U)
          else
            (case sq_pid q of
               Q_RESULT _ \<Rightarrow> None
             | Q_PID pid \<Rightarrow>
                 (case try_atomic_semop K (sem_base (up_sma U)) (sq_sops q) (undo_adj (up_undos U) (sq_undo q)) pid of
                    (result, base, adj) \<Rightarrow>
                      if result = SEMOP_ERR KBUG then None
                      else if result = SEMOP_SLEEP then
                        update_walk K semnum walk completed (U\<lparr>up_sma := (up_sma U)\<lparr>sem_base := base\<rparr>\<rparr>)
                      else
                        (case unlink_queue t q ((up_sma U)\<lparr>sem_base := base\<rparr>) of
                           None \<Rightarrow> None
                         | Some sma \<Rightarrow>
                             (let U = U\<lparr>up_sma := sma, up_undos := set_undo_adj (sq_undo q) adj (up_undos U)\<rparr>
                              in case result of
                                   SEMOP_OK \<Rightarrow>
                                     (case check_restart (up_sleepers U) sma q of
                                        None \<Rightarrow> None
                                      | Some restart \<Rightarrow>
                                          (case wake_up_sem_queue_prepare t None U of
                                             None \<Rightarrow> None
                                           | Some U \<Rightarrow>
                                               update_walk K semnum
                                                 (if restart then pending_list semnum sma else walk) True U))
                                 | SEMOP_ERR err \<Rightarrow>
                                     (case wake_up_sem_queue_prepare t (Some err) U of
                                        None \<Rightarrow> None
                                      | Some U \<Rightarrow> update_walk K semnum walk completed U)
                                 | SEMOP_SLEEP \<Rightarrow> None)))))"
  by pat_completeness auto

termination
  by (relation "(\<lambda>(K, semnum, walk, completed, U). length (sem_pending (up_sma U))) <*mlex*>
      measure (\<lambda>(K, semnum, walk, completed, U). length walk)")
    (auto intro: wf_mlex mlex_less mlex_leq dest!: unlink_queue_shorter)

definition update_queue :: "'h sem_hdr_scheme \<Rightarrow> int \<Rightarrow> sem_upd \<Rightarrow> (bool \<times> sem_upd) option" where
  "update_queue K semnum U =
     (let semnum = (if complex_count (up_sma U) \<noteq> 0 then - 1 else semnum)
      in if semnum \<noteq> - 1 \<and> (semnum < 0 \<or> semnum \<ge> int (length (sem_base (up_sma U)))) then None
         else update_walk K semnum (pending_list semnum (up_sma U)) False U)"

text \<open>The loop over the operations that were performed, with \<^verbatim>\<open>otime\<close>.\<close>

fun smart_loop :: "'h sem_hdr_scheme \<Rightarrow> sembuf list \<Rightarrow> bool \<Rightarrow> sem_upd \<Rightarrow> (bool \<times> sem_upd) option" where
  "smart_loop K [] otime U = Some (otime, U)"
| "smart_loop K (sop # sops) otime U =
     (if sem_op sop > 0 \<or> sem_op sop < 0 \<and> semval (sem_base (up_sma U) ! sem_num sop) = 0 then
        (case update_queue K (int (sem_num sop)) U of
           None \<Rightarrow> None
         | Some (c, U') \<Rightarrow> smart_loop K sops (otime \<or> c) U')
      else smart_loop K sops otime U)"

text \<open>The argument \<^verbatim>\<open>sops\<close> is \<open>None\<close> for \<^verbatim>\<open>NULL\<close>.\<close>

definition do_smart_update ::
  "'h sem_hdr_scheme \<Rightarrow> 'e sem_env_scheme \<Rightarrow> sembuf list option \<Rightarrow> bool \<Rightarrow> sem_upd \<Rightarrow> sem_upd option" where
  "do_smart_update K E sops otime U =
     (case (if complex_count (up_sma U) \<noteq> 0 \<or> sops = None
            then (case update_queue K (- 1) U of None \<Rightarrow> None | Some (c, U') \<Rightarrow> Some (otime \<or> c, U'))
            else smart_loop K (the sops) otime U) of
        None \<Rightarrow> None
      | Some (otime, U) \<Rightarrow>
          Some (if otime then U\<lparr>up_sma := (up_sma U)\<lparr>sem_otime := get_seconds E\<rparr>\<rparr> else U))"

text \<open>The state of the namespace as the scan sees it, and back, with the wake-ups done.\<close>

definition sem_scan :: "sem_array \<Rightarrow> sem_ns \<Rightarrow> sem_upd" where
  "sem_scan sma ns = \<lparr>up_sma = sma, up_undos = undos ns, up_sleepers = sleepers ns, up_tasks = []\<rparr>"

definition sem_scanned :: "addr \<Rightarrow> sem_upd \<Rightarrow> sem_ns \<Rightarrow> sem_ns option" where
  "sem_scanned p U ns =
     wake_up_sem_queue_do (up_tasks U)
       (set_array p (up_sma U) (ns\<lparr>undos := up_undos U, sleepers := up_sleepers U\<rparr>))"

definition count_ops :: "(sembuf \<Rightarrow> bool) \<Rightarrow> (task \<rightharpoonup> sem_queue) \<Rightarrow> sem_array \<Rightarrow> int" where
  "count_ops P sl sma =
     (\<Sum>t\<leftarrow>sem_pending sma. case sl t of None \<Rightarrow> 0 | Some q \<Rightarrow> int (length (filter P (sq_sops q))))"

definition count_semncnt :: "'h sem_hdr_scheme \<Rightarrow> (task \<rightharpoonup> sem_queue) \<Rightarrow> sem_array \<Rightarrow> nat \<Rightarrow> int" where
  "count_semncnt K sl sma semnum =
     count_ops (\<lambda>sop. sem_num sop = semnum \<and> sem_op sop < 0 \<and> sem_flg sop AND IPC_NOWAIT K = 0) sl sma"

definition count_semzcnt :: "'h sem_hdr_scheme \<Rightarrow> (task \<rightharpoonup> sem_queue) \<Rightarrow> sem_array \<Rightarrow> nat \<Rightarrow> int" where
  "count_semzcnt K sl sma semnum =
     count_ops (\<lambda>sop. sem_num sop = semnum \<and> sem_op sop = 0 \<and> sem_flg sop AND IPC_NOWAIT K = 0) sl sma"

subsection \<open>Removing arrays\<close>

text \<open>The undo structures are unlinked and freed at the end of the grace period.\<close>

fun free_undos :: "addr list \<Rightarrow> sem_ns \<Rightarrow> sem_ns option" where
  "free_undos [] ns = Some ns"
| "free_undos (un # uns) ns =
     (case undos ns un of
        None \<Rightarrow> None
      | Some u \<Rightarrow>
          (case undo_lists ns (un_ulp u) of
             None \<Rightarrow> None
           | Some ulp \<Rightarrow>
               if un \<notin> set (list_proc ulp) then None
               else
                 free_undos uns
                   (ns\<lparr>undos := (undos ns)(un \<mapsto> u\<lparr>un_semid := - 1\<rparr>),
                       undo_lists := (undo_lists ns)(un_ulp u \<mapsto> ulp\<lparr>list_proc := remove1 un (list_proc ulp)\<rparr>),
                       undo_rcu := undo_rcu ns @ [un]\<rparr>)))"

definition free_un :: "sem_ns \<Rightarrow> sem_ns option" where
  "free_un ns =
     (case undo_rcu ns of
        [] \<Rightarrow> Some ns
      | un # uns \<Rightarrow>
          if undos ns un = None then None
          else Some (ns\<lparr>undo_rcu := uns, undos := (undos ns)(un := None)\<rparr>))"

fun free_pending :: "task list \<Rightarrow> sem_upd \<Rightarrow> sem_upd option" where
  "free_pending [] U = Some U"
| "free_pending (t # ts) U =
     (case up_sleepers U t of
        None \<Rightarrow> None
      | Some q \<Rightarrow>
          (case unlink_queue t q (up_sma U) of
             None \<Rightarrow> None
           | Some sma \<Rightarrow>
               (case wake_up_sem_queue_prepare t (Some EIDRM) (U\<lparr>up_sma := sma\<rparr>) of
                  None \<Rightarrow> None
                | Some U' \<Rightarrow> free_pending ts U')))"

definition freeary :: "'h sem_hdr_scheme \<Rightarrow> addr \<Rightarrow> sem_ns \<Rightarrow> sem_ns option" where
  "freeary K p ns =
     (case arrays ns p of
        None \<Rightarrow> None
      | Some sma0 \<Rightarrow>
          (case free_undos (list_id sma0) ns of
             None \<Rightarrow> None
           | Some ns1 \<Rightarrow>
               (case free_pending (sem_pending sma0) (sem_scan (sma0\<lparr>list_id := []\<rparr>) ns1) of
                  None \<Rightarrow> None
                | Some U \<Rightarrow>
                    (let ns2 = sem_rmid K p (up_sma U) (ns1\<lparr>sleepers := up_sleepers U\<rparr>)
                     in case wake_up_sem_queue_do (up_tasks U) ns2 of
                          None \<Rightarrow> None
                        | Some ns3 \<Rightarrow> sem_putref K p (ns3\<lparr>used_sems := used_sems ns3 - sem_nsems sma0\<rparr>)))))"

subsection \<open>Control\<close>

definition copy_semid_to_user :: "'h sem_hdr_scheme \<Rightarrow> semid64_ds \<Rightarrow> ipc_version \<Rightarrow> sem_out" where
  "copy_semid_to_user K inp version =
     (case version of
        IPC_64 \<Rightarrow> OutSem64 inp
      | IPC_OLD \<Rightarrow>
          OutSemOld \<lparr>sold_perm = ipc64_perm_to_ipc_perm K (s64_perm inp), sold_otime = s64_otime inp,
                     sold_ctime = s64_ctime inp, sold_nsems = ucast (s64_nsems inp)\<rparr>)"

definition copy_semid_from_user :: "'e sem_env_scheme \<Rightarrow> ipc_version \<Rightarrow> ipc64_perm option" where
  "copy_semid_from_user E version =
     (case version of
        IPC_64 \<Rightarrow> map_option s64_perm (user_semid64 E)
      | IPC_OLD \<Rightarrow>
          (case user_semid E of
             None \<Rightarrow> None
           | Some b \<Rightarrow>
               Some \<lparr>i_key = 0, i_uid = ucast (o_uid (sold_perm b)), i_gid = ucast (o_gid (sold_perm b)),
                     i_cuid = 0, i_cgid = 0, i_mode = o_mode (sold_perm b), i_seq = 0\<rparr>))"

definition sem_info :: "'h sem_hdr_scheme \<Rightarrow> sem_cmd ipc_cmd \<Rightarrow> sem_ns \<Rightarrow> seminfo" where
  "sem_info K cmd ns =
     \<lparr>i_semmap = SEMMAP K, i_semmni = sc_semmni ns, i_semmns = sc_semmns ns, i_semmnu = SEMMNU K,
      i_semmsl = sc_semmsl ns, i_semopm = sc_semopm ns, i_semume = SEMUME K,
      i_semusz = (if cmd = CMD SEM_INFO then in_use (sem_ids ns) else SEMUSZ K), i_semvmx = SEMVMX K,
      i_semaem = (if cmd = CMD SEM_INFO then used_sems ns else SEMAEM K)\<rparr>"

definition semctl_nolock ::
  "'h sem_hdr_scheme \<Rightarrow> 'e sem_env_scheme \<Rightarrow> int \<Rightarrow> sem_cmd ipc_cmd \<Rightarrow> ipc_version \<Rightarrow> sem_ns \<Rightarrow>
   errno + int \<times> sem_out" where
  "semctl_nolock K E semid cmd version ns =
     (if cmd = IPC_INFO \<or> cmd = CMD SEM_INFO then
        (case security_sem_semctl E None cmd of
           Some err \<Rightarrow> Inl err
         | None \<Rightarrow>
             (let max_id = ipc_get_maxid K (sem_ids ns)
              in if sem_copy_ok E then Inr (if max_id < 0 then 0 else max_id, OutSeminfo (sem_info K cmd ns))
                 else Inl EFAULT))
      else if cmd = IPC_STAT \<or> cmd = CMD SEM_STAT then
        (case (if cmd = CMD SEM_STAT then sem_lock K ns semid else sem_lock_check K ns semid) of
           Inl err \<Rightarrow> Inl err
         | Inr p \<Rightarrow>
             (case arrays ns p of
                None \<Rightarrow> Inl KBUG
              | Some sma \<Rightarrow>
                  (let i = (if cmd = CMD SEM_STAT then p_id (sem_perm sma) else 0)
                   in if ipcperms E (sem_perm sma) (ucast (S_IRUGO K)) \<noteq> None then Inl EACCES
                      else (case security_sem_semctl E (Some sma) cmd of
                              Some err \<Rightarrow> Inl err
                            | None \<Rightarrow>
                                if sem_copy_ok E
                                then Inr (i, copy_semid_to_user K
                                               \<lparr>s64_perm = kernel_to_ipc64_perm (sem_perm sma),
                                                s64_otime = sem_otime sma, s64_ctime = sem_ctime sma,
                                                s64_nsems = word_of_int (sem_nsems sma)\<rparr> version)
                                else Inl EFAULT))))
      else Inl EINVAL)"

text \<open>Dropping the reference that a call holds, on its way to an error.\<close>

definition putref_err :: "'h sem_hdr_scheme \<Rightarrow> addr \<Rightarrow> errno \<Rightarrow> sem_ns \<Rightarrow> (errno + 'a) \<times> sem_ns" where
  "putref_err K p err ns =
     (case sem_putref K p ns of None \<Rightarrow> (Inl KBUG, ns) | Some ns' \<Rightarrow> (Inl err, ns'))"

definition sem_vals :: "sem_array \<Rightarrow> int list" where
  "sem_vals sma = map (\<lambda>i. c_ushort (semval (sem_base sma ! i))) [0..<nat (sem_nsems sma)]"

definition semctl_getall ::
  "'h sem_hdr_scheme \<Rightarrow> 'e sem_env_scheme \<Rightarrow> addr \<Rightarrow> sem_array \<Rightarrow> sem_ns \<Rightarrow> (errno + int \<times> sem_out) \<times> sem_ns" where
  "semctl_getall K E p sma ns =
     (let copy = (\<lambda>sma. if vals_copy_ok E then Inr (0, OutVals (sem_vals sma)) else Inl EFAULT)
      in if sem_nsems sma > SEMMSL_FAST then
           (case sem_getref_and_unlock K p ns of
              None \<Rightarrow> (Inl KBUG, ns)
            | Some ns1 \<Rightarrow>
                (let ns2 = others E 0 ns1
                 in if \<not> io_alloc_ok E then putref_err K p ENOMEM ns2
                    else
                      (case sem_lock_and_putref K p ns2 of
                         None \<Rightarrow> (Inl KBUG, ns2)
                       | Some (sma', ns3) \<Rightarrow>
                           if p_deleted (sem_perm sma') then (Inl EIDRM, ns3) else (copy sma', ns3))))
         else (copy sma, ns))"

definition zero_adj :: "addr list \<Rightarrow> (addr \<rightharpoonup> sem_undo) \<Rightarrow> (addr \<rightharpoonup> sem_undo)" where
  "zero_adj uns us =
     (\<lambda>a. if a \<in> set uns then map_option (un_semadj_update (map (\<lambda>_. 0))) (us a) else us a)"

definition semctl_setall ::
  "'h sem_hdr_scheme \<Rightarrow> 'e sem_env_scheme \<Rightarrow> addr \<Rightarrow> sem_array \<Rightarrow> sem_ns \<Rightarrow> (errno + int \<times> sem_out) \<times> sem_ns" where
  "semctl_setall K E p sma ns =
     (case sem_getref_and_unlock K p ns of
        None \<Rightarrow> (Inl KBUG, ns)
      | Some ns1 \<Rightarrow>
          (let ns2 = others E 0 ns1
           in if sem_nsems sma > SEMMSL_FAST \<and> \<not> io_alloc_ok E then putref_err K p ENOMEM ns2
              else
                (case user_vals E (nat (sem_nsems sma)) of
                   None \<Rightarrow> putref_err K p EFAULT ns2
                 | Some sem_io \<Rightarrow>
                     if \<exists>v\<in>set sem_io. v > SEMVMX K then putref_err K p ERANGE ns2
                     else
                       (case sem_lock_and_putref K p ns2 of
                          None \<Rightarrow> (Inl KBUG, ns2)
                        | Some (sma', ns3) \<Rightarrow>
                            if p_deleted (sem_perm sma') then (Inl EIDRM, ns3)
                            else
                              (let sma'' = sma'\<lparr>sem_base := map2 (\<lambda>s v. s\<lparr>semval := v\<rparr>) (sem_base sma') sem_io,
                                               sem_ctime := get_seconds E\<rparr>;
                                   ns4 = ns3\<lparr>undos := zero_adj (list_id sma') (undos ns3)\<rparr>
                               in case do_smart_update K E None False (sem_scan sma'' ns4) of
                                    None \<Rightarrow> (Inl KBUG, ns3)
                                  | Some U \<Rightarrow>
                                      (case sem_scanned p U ns4 of
                                         None \<Rightarrow> (Inl KBUG, ns3)
                                       | Some ns5 \<Rightarrow> (Inr (0, NoSemOut), ns5)))))))"

definition zero_adj_at :: "nat \<Rightarrow> addr list \<Rightarrow> (addr \<rightharpoonup> sem_undo) \<Rightarrow> (addr \<rightharpoonup> sem_undo)" where
  "zero_adj_at n uns us =
     (\<lambda>a. if a \<in> set uns then map_option (un_semadj_update (\<lambda>ad. ad[n := 0])) (us a) else us a)"

definition semctl_setval ::
  "'h sem_hdr_scheme \<Rightarrow> 'e sem_env_scheme \<Rightarrow> addr \<Rightarrow> sem_array \<Rightarrow> nat \<Rightarrow> int \<Rightarrow> sem_ns \<Rightarrow>
   (errno + int \<times> sem_out) \<times> sem_ns" where
  "semctl_setval K E p sma n val ns =
     (if val > SEMVMX K \<or> val < 0 then (Inl ERANGE, ns)
      else
        (let ns1 = ns\<lparr>undos := zero_adj_at n (list_id sma) (undos ns)\<rparr>;
             sma1 = sma\<lparr>sem_base := (sem_base sma)[n := (sem_base sma ! n)\<lparr>semval := val, sempid := current_tgid E\<rparr>],
                        sem_ctime := get_seconds E\<rparr>
         in case do_smart_update K E None False (sem_scan sma1 ns1) of
              None \<Rightarrow> (Inl KBUG, ns)
            | Some U \<Rightarrow>
                (case sem_scanned p U ns1 of
                   None \<Rightarrow> (Inl KBUG, ns)
                 | Some ns2 \<Rightarrow> (Inr (0, NoSemOut), ns2))))"

definition semctl_main ::
  "'h sem_hdr_scheme \<Rightarrow> 'e sem_env_scheme \<Rightarrow> int \<Rightarrow> int \<Rightarrow> sem_cmd \<Rightarrow> int \<Rightarrow> sem_ns \<Rightarrow>
   (errno + int \<times> sem_out) \<times> sem_ns" where
  "semctl_main K E semid semnum cmd val ns =
     (case sem_lock_check K ns semid of
        Inl err \<Rightarrow> (Inl err, ns)
      | Inr p \<Rightarrow>
          (case arrays ns p of
             None \<Rightarrow> (Inl KBUG, ns)
           | Some sma \<Rightarrow>
               (if l30_size_array_bytes (word_of_int (sem_nsems sma)) (sizeof_short K) = None
                then (Inl EOVERFLOW, ns)
                else if ipcperms E (sem_perm sma)
                          (ucast (if cmd = SETVAL \<or> cmd = SETALL then S_IWUGO K else S_IRUGO K)) \<noteq> None
                then (Inl EACCES, ns)
                else
                  (case security_sem_semctl E (Some sma) (CMD cmd) of
                     Some err \<Rightarrow> (Inl err, ns)
                   | None \<Rightarrow>
                       if cmd = GETALL then semctl_getall K E p sma ns
                       else if cmd = SETALL then semctl_setall K E p sma ns
                       else if semnum < 0 \<or> semnum \<ge> sem_nsems sma then (Inl EINVAL, ns)
                       else
                         (let n = nat semnum;
                              curr = sem_base sma ! n
                          in case cmd of
                               GETVAL \<Rightarrow> (Inr (semval curr, NoSemOut), ns)
                             | GETPID \<Rightarrow> (Inr (sempid curr, NoSemOut), ns)
                             | GETNCNT \<Rightarrow> (Inr (count_semncnt K (sleepers ns) sma n, NoSemOut), ns)
                             | GETZCNT \<Rightarrow> (Inr (count_semzcnt K (sleepers ns) sma n, NoSemOut), ns)
                             | SETVAL \<Rightarrow> semctl_setval K E p sma n val ns
                             | _ \<Rightarrow> (Inl EINVAL, ns))))))"

definition semctl_down ::
  "'h sem_hdr_scheme \<Rightarrow> 'e sem_env_scheme \<Rightarrow> int \<Rightarrow> sem_cmd ipc_cmd \<Rightarrow> ipc_version \<Rightarrow> sem_ns \<Rightarrow>
   (errno + int) \<times> sem_ns" where
  "semctl_down K E semid cmd version ns =
     (let ubuf = copy_semid_from_user E version
      in if cmd = IPC_SET \<and> ubuf = None then (Inl EFAULT, ns)
         else
           (case ipcctl_pre_down K E (sem_ids ns) (sem_perms ns) semid of
              Inl err \<Rightarrow> (Inl err, ns)
            | Inr p \<Rightarrow>
                (case arrays ns p of
                   None \<Rightarrow> (Inl KBUG, ns)
                 | Some sma \<Rightarrow>
                     (case security_sem_semctl E (Some sma) cmd of
                        Some err \<Rightarrow> (Inl err, ns)
                      | None \<Rightarrow>
                          (case cmd of
                             IPC_RMID \<Rightarrow>
                               (case freeary K p ns of None \<Rightarrow> (Inl KBUG, ns) | Some ns' \<Rightarrow> (Inr 0, ns'))
                           | IPC_SET \<Rightarrow>
                               (Inr 0, set_array p (sma\<lparr>sem_perm := ipc_update_perm K (the ubuf) (sem_perm sma),
                                                       sem_ctime := get_seconds E\<rparr>) ns)
                           | _ \<Rightarrow> (Inl EINVAL, ns))))))"

definition semctl ::
  "'h sem_hdr_scheme \<Rightarrow> 'e sem_env_scheme \<Rightarrow> int \<Rightarrow> int \<Rightarrow> flags \<Rightarrow> int \<Rightarrow> sem_ns \<Rightarrow>
   (errno + int \<times> sem_out) \<times> sem_ns" where
  "semctl K E semid semnum cmd0 val ns =
     (if semid < 0 then (Inl EINVAL, ns)
      else
        (case ipc_parse_version K cmd0 of
           (version, cmd1) \<Rightarrow>
             (case sem_decode K cmd1 of
                IPC_INFO \<Rightarrow> (semctl_nolock K E semid IPC_INFO version ns, ns)
              | IPC_STAT \<Rightarrow> (semctl_nolock K E semid IPC_STAT version ns, ns)
              | CMD c \<Rightarrow>
                  (if c = SEM_INFO \<or> c = SEM_STAT then (semctl_nolock K E semid (CMD c) version ns, ns)
                   else semctl_main K E semid semnum c val ns)
              | IPC_RMID \<Rightarrow>
                  (case semctl_down K E semid IPC_RMID version ns of
                     (r, ns') \<Rightarrow> (case r of Inl err \<Rightarrow> Inl err | Inr n \<Rightarrow> Inr (n, NoSemOut), ns'))
              | IPC_SET \<Rightarrow>
                  (case semctl_down K E semid IPC_SET version ns of
                     (r, ns') \<Rightarrow> (case r of Inl err \<Rightarrow> Inl err | Inr n \<Rightarrow> Inr (n, NoSemOut), ns'))
              | BAD_CMD \<Rightarrow> (Inl EINVAL, ns))))"

subsection \<open>Undo structures\<close>

definition get_undo_list :: "'e sem_env_scheme \<Rightarrow> task \<Rightarrow> sem_ns \<Rightarrow> (errno + addr) \<times> sem_ns" where
  "get_undo_list E t ns =
     (case sysvsem ns t of
        Some ulp \<Rightarrow> (Inr ulp, ns)
      | None \<Rightarrow>
          (case undo_list_kzalloc E of
             None \<Rightarrow> (Inl ENOMEM, ns)
           | Some ulp \<Rightarrow>
               (Inr ulp,
                ns\<lparr>undo_lists := (undo_lists ns)(ulp \<mapsto> \<lparr>ul_refcnt = 1, list_proc = []\<rparr>),
                   sysvsem := (sysvsem ns)(t \<mapsto> ulp)\<rparr>)))"

definition lookup_undo_raw :: "(addr \<rightharpoonup> sem_undo) \<Rightarrow> sem_undo_list \<Rightarrow> int \<Rightarrow> addr option" where
  "lookup_undo_raw us ulp semid = find (\<lambda>un. map_option un_semid (us un) = Some semid) (list_proc ulp)"

text \<open>\<^verbatim>\<open>lookup_undo\<close> moves what it finds to the front.\<close>

definition lookup_undo :: "(addr \<rightharpoonup> sem_undo) \<Rightarrow> sem_undo_list \<Rightarrow> int \<Rightarrow> addr option \<times> sem_undo_list" where
  "lookup_undo us ulp semid =
     (case lookup_undo_raw us ulp semid of
        None \<Rightarrow> (None, ulp)
      | Some un \<Rightarrow> (Some un, ulp\<lparr>list_proc := un # remove1 un (list_proc ulp)\<rparr>))"

text \<open>Steps 3 to 5 of \<^verbatim>\<open>find_alloc_undo\<close>, with the new structure \<open>new\<close> and a reference to the array.\<close>

definition link_undo ::
  "'h sem_hdr_scheme \<Rightarrow> addr \<Rightarrow> int \<Rightarrow> int \<Rightarrow> addr \<Rightarrow> addr \<Rightarrow> sem_ns \<Rightarrow> (errno + addr) \<times> sem_ns" where
  "link_undo K p semid nsems ulp new ns =
     (case sem_lock_and_putref K p ns of
        None \<Rightarrow> (Inl KBUG, ns)
      | Some (sma, ns1) \<Rightarrow>
          if p_deleted (sem_perm sma) then (Inl EIDRM, ns1)
          else
            (case undo_lists ns1 ulp of
               None \<Rightarrow> (Inl KBUG, ns1)
             | Some ul \<Rightarrow>
                 (case lookup_undo (undos ns1) ul semid of
                    (Some un, ul') \<Rightarrow> (Inr un, ns1\<lparr>undo_lists := (undo_lists ns1)(ulp \<mapsto> ul')\<rparr>)
                  | (None, ul') \<Rightarrow>
                      (Inr new,
                       set_array p (sma\<lparr>list_id := new # list_id sma\<rparr>)
                         (ns1\<lparr>undos := (undos ns1)(new \<mapsto>
                                 \<lparr>un_semid = semid, un_semadj = replicate (nat nsems) 0, un_ulp = ulp\<rparr>),
                              undo_lists := (undo_lists ns1)(ulp \<mapsto>
                                 ul'\<lparr>list_proc := new # list_proc ul'\<rparr>)\<rparr>)))))"

definition find_alloc_undo ::
  "'h sem_hdr_scheme \<Rightarrow> 'e sem_env_scheme \<Rightarrow> int \<Rightarrow> sem_ns \<Rightarrow> (errno + addr) \<times> sem_ns" where
  "find_alloc_undo K E semid ns =
     (case get_undo_list E (current E) ns of
        (Inl error, ns1) \<Rightarrow> (Inl error, ns1)
      | (Inr ulp, ns1) \<Rightarrow>
          (case undo_lists ns1 ulp of
             None \<Rightarrow> (Inl KBUG, ns1)
           | Some ul \<Rightarrow>
               (case lookup_undo (undos ns1) ul semid of
                  (Some un, ul') \<Rightarrow> (Inr un, ns1\<lparr>undo_lists := (undo_lists ns1)(ulp \<mapsto> ul')\<rparr>)
                | (None, ul') \<Rightarrow>
                    (let ns2 = others E 0 ns1
                     in case sem_lock_check K ns2 semid of
                          Inl err \<Rightarrow> (Inl err, ns2)
                        | Inr p \<Rightarrow>
                            (case arrays ns2 p of
                               None \<Rightarrow> (Inl KBUG, ns2)
                             | Some sma \<Rightarrow>
                                 (case sem_getref_and_unlock K p ns2 of
                                    None \<Rightarrow> (Inl KBUG, ns2)
                                  | Some ns3 \<Rightarrow>
                                      (let ns4 = others E 1 ns3
                                       in case l30_size_flex_bytes (sizeof_sem_undo K) (word_of_int (sem_nsems sma))
                                                 (sizeof_short K) of
                                            None \<Rightarrow> putref_err K p EOVERFLOW ns4
                                          | Some undo_size \<Rightarrow>
                                              (case undo_kzalloc E undo_size of
                                                 None \<Rightarrow> putref_err K p ENOMEM ns4
                                               | Some new \<Rightarrow>
                                                   link_undo K p semid (sem_nsems sma) ulp new ns4))))))))"

subsection \<open>Operations\<close>

text \<open>\<^verbatim>\<open>IN_WAKEUP\<close> makes the reader spin: \<open>None\<close>.\<close>

definition get_queue_result :: "sem_queue \<Rightarrow> q_status option" where
  "get_queue_result q = (if sq_status q = Q_IN_WAKEUP then None else Some (sq_status q))"

definition max_num :: "sembuf list \<Rightarrow> nat" where
  "max_num sops = fold (\<lambda>sop m. if sem_num sop \<ge> m then sem_num sop else m) sops 0"

text \<open>Putting the current task on the pending lists: operations that wait for zero go to the front.\<close>

definition sem_enqueue :: "task \<Rightarrow> sem_queue \<Rightarrow> sem_array \<Rightarrow> sem_array" where
  "sem_enqueue t q sma =
     (let add = (\<lambda>ts. if sq_alter q then ts @ [t] else t # ts);
          sma = sma\<lparr>sem_pending := add (sem_pending sma)\<rparr>
      in if length (sq_sops q) = 1 then
           (let n = sem_num (hd (sq_sops q))
            in sma\<lparr>sem_base := (sem_base sma)[n := sem_simple_update add (sem_base sma ! n)]\<rparr>)
         else sma\<lparr>complex_count := complex_count sma + 1\<rparr>)"

text \<open>From taking the lock of the array on; \<open>un\<close> is the undo structure.\<close>

definition semop_locked ::
  "'h sem_hdr_scheme \<Rightarrow> 'e sem_env_scheme \<Rightarrow> int \<Rightarrow> sembuf list \<Rightarrow> addr option \<Rightarrow> bool \<Rightarrow> sem_ns \<Rightarrow>
   int outcome \<times> sem_ns" where
  "semop_locked K E semid sops un timeout ns =
     (case sem_lock_check K ns semid of
        Inl err \<Rightarrow> (Done (Inl err), ns)
      | Inr p \<Rightarrow>
          (case arrays ns p of
             None \<Rightarrow> (Done (Inl KBUG), ns)
           | Some sma \<Rightarrow>
               (let alter = (\<exists>sop\<in>set sops. sem_op sop \<noteq> 0)
                in if un \<noteq> None \<and> undos ns (the un) = None then (Done (Inl KBUG), ns)
                   else if un \<noteq> None \<and> un_semid (the (undos ns (the un))) = - 1 then (Done (Inl EIDRM), ns)
                   else if int (max_num sops) \<ge> sem_nsems sma then (Done (Inl EFBIG), ns)
                   else if ipcperms E (sem_perm sma) (ucast (if alter then S_IWUGO K else S_IRUGO K)) \<noteq> None
                        then (Done (Inl EACCES), ns)
                   else
                     (case security_sem_semop E sma sops alter of
                        Some err \<Rightarrow> (Done (Inl err), ns)
                      | None \<Rightarrow>
                          (case try_atomic_semop K (sem_base sma) sops (undo_adj (undos ns) un) (current_tgid E) of
                             (result, base, adj) \<Rightarrow>
                               (let sma1 = sma\<lparr>sem_base := base\<rparr>;
                                    ns1 = ns\<lparr>undos := set_undo_adj un adj (undos ns)\<rparr>
                                in case result of
                                     SEMOP_ERR err \<Rightarrow> (Done (Inl err), set_array p sma1 ns1)
                                   | SEMOP_OK \<Rightarrow>
                                       if alter then
                                         (case do_smart_update K E (Some sops) True (sem_scan sma1 ns1) of
                                            None \<Rightarrow> (Done (Inl KBUG), ns)
                                          | Some U \<Rightarrow>
                                              (case sem_scanned p U ns1 of
                                                 None \<Rightarrow> (Done (Inl KBUG), ns)
                                               | Some ns2 \<Rightarrow> (Done (Inr 0), ns2)))
                                       else (Done (Inr 0), set_array p sma1 ns1)
                                   | SEMOP_SLEEP \<Rightarrow>
                                       (let t = current E;
                                            q = \<lparr>sq_undo = un, sq_pid = Q_PID (current_tgid E), sq_status = Q_EINTR,
                                                 sq_sops = sops, sq_alter = alter, sq_semid = semid,
                                                 sq_timeout = timeout\<rparr>
                                        in (Sleep,
                                            set_array p (sem_enqueue t q sma1)
                                              (ns1\<lparr>sleepers := (sleepers ns1)(t \<mapsto> q),
                                                   sem_asleep := insert t (sem_asleep ns1)\<rparr>)))))))))"

definition timeout_err :: "'e sem_env_scheme \<Rightarrow> errno option" where
  "timeout_err E =
     (case user_timespec E of
        None \<Rightarrow> Some EFAULT
      | Some ts \<Rightarrow>
          if tv_sec ts < 0 \<or> tv_nsec ts < 0 \<or> tv_nsec ts \<ge> 1000000000 then Some EINVAL else None)"

definition semtimedop ::
  "'h sem_hdr_scheme \<Rightarrow> 'e sem_env_scheme \<Rightarrow> int \<Rightarrow> nat \<Rightarrow> bool \<Rightarrow> sem_ns \<Rightarrow> int outcome \<times> sem_ns" where
  "semtimedop K E semid nsops timeout ns =
     (if nsops < 1 \<or> semid < 0 then (Done (Inl EINVAL), ns)
      else if int nsops > sc_semopm ns mod 2 ^ 32 then (Done (Inl E2BIG), ns)
      else if l30_size_array_bytes (of_nat nsops) (sizeof_sembuf K) = None then (Done (Inl EOVERFLOW), ns)
      else if nsops > SEMOPM_FAST \<and> \<not> sops_kmalloc_ok E then (Done (Inl ENOMEM), ns)
      else
        (case user_sops E nsops of
           None \<Rightarrow> (Done (Inl EFAULT), ns)
         | Some sops \<Rightarrow>
             if timeout \<and> timeout_err E \<noteq> None then (Done (Inl (the (timeout_err E))), ns)
             else if \<exists>sop\<in>set sops. sem_flg sop AND SEM_UNDO K \<noteq> 0 then
               (case find_alloc_undo K E semid ns of
                  (Inl err, ns1) \<Rightarrow> (Done (Inl err), ns1)
                | (Inr un, ns1) \<Rightarrow> semop_locked K E semid sops (Some un) timeout (others E 2 ns1))
             else semop_locked K E semid sops None timeout ns))"

definition semop :: "'h sem_hdr_scheme \<Rightarrow> 'e sem_env_scheme \<Rightarrow> int \<Rightarrow> nat \<Rightarrow> sem_ns \<Rightarrow> int outcome \<times> sem_ns" where
  "semop K E semid nsops ns = semtimedop K E semid nsops False ns"

definition q_return :: "errno option \<Rightarrow> int outcome" where
  "q_return e = (case e of None \<Rightarrow> Done (Inr 0) | Some err \<Rightarrow> Done (Inl err))"

text \<open>
  A task that goes on behind \<^verbatim>\<open>schedule\<close>. The second look at the status happens with the lock held,
  after others may have run; leaving the call takes the queue entry off the stack.
\<close>

definition resume_sem :: "'h sem_hdr_scheme \<Rightarrow> 'e sem_env_scheme \<Rightarrow> sem_ns \<Rightarrow> int outcome \<times> sem_ns" where
  "resume_sem K E ns =
     (let t = current E;
          leave = (\<lambda>ns. ns\<lparr>sleepers := (sleepers ns)(t := None), sem_asleep := sem_asleep ns - {t}\<rparr>)
      in case sleepers ns t of
           None \<Rightarrow> (Done (Inl KBUG), ns)
         | Some q \<Rightarrow>
             (case get_queue_result q of
                None \<Rightarrow> (Hang, ns)
              | Some (Q_DONE e) \<Rightarrow> (q_return e, leave ns)
              | Some _ \<Rightarrow>
                  (let ns1 = others E 0 ns
                   in case sem_lock K ns1 (sq_semid q) of
                        Inl _ \<Rightarrow> (Done (Inl EIDRM), leave ns1)
                      | Inr p \<Rightarrow>
                          (case (sleepers ns1 t, arrays ns1 p) of
                             (Some q1, Some sma) \<Rightarrow>
                               (case get_queue_result q1 of
                                  None \<Rightarrow> (Hang, ns1)
                                | Some (Q_DONE e) \<Rightarrow> (q_return e, leave ns1)
                                | Some _ \<Rightarrow>
                                    (case unlink_queue t q1 sma of
                                       None \<Rightarrow> (Done (Inl KBUG), ns1)
                                     | Some sma' \<Rightarrow>
                                         (Done (Inl (if sq_timeout q1 \<and> schedule_timeout E = 0 then EAGAIN
                                                     else EINTR)),
                                          leave (set_array p sma' ns1))))
                           | _ \<Rightarrow> (Done (Inl KBUG), ns1)))))"

subsection \<open>Fork and exit\<close>

definition copy_semundo :: "'e sem_env_scheme \<Rightarrow> bool \<Rightarrow> task \<Rightarrow> sem_ns \<Rightarrow> (errno + unit) \<times> sem_ns" where
  "copy_semundo E clone_sysvsem tsk ns =
     (if clone_sysvsem then
        (case get_undo_list E (current E) ns of
           (Inl error, ns1) \<Rightarrow> (Inl error, ns1)
         | (Inr ulp, ns1) \<Rightarrow>
             (case undo_lists ns1 ulp of
                None \<Rightarrow> (Inl KBUG, ns1)
              | Some ul \<Rightarrow>
                  (Inr (),
                   ns1\<lparr>undo_lists := (undo_lists ns1)(ulp \<mapsto> ul\<lparr>ul_refcnt := ul_refcnt ul + 1\<rparr>),
                       sysvsem := (sysvsem ns1)(tsk \<mapsto> ulp)\<rparr>)))
      else (Inr (), ns\<lparr>sysvsem := (sysvsem ns)(tsk := None)\<rparr>))"

definition cap_semval :: "'h sem_hdr_scheme \<Rightarrow> int \<Rightarrow> int" where
  "cap_semval K v = (if v < 0 then 0 else if v > SEMVMX K then SEMVMX K else v)"

definition apply_adj :: "'h sem_hdr_scheme \<Rightarrow> int \<Rightarrow> int list \<Rightarrow> sem list \<Rightarrow> sem list" where
  "apply_adj K pid adj base =
     map2 (\<lambda>s a. if a \<noteq> 0 then s\<lparr>semval := cap_semval K (semval s + a), sempid := pid\<rparr> else s) base adj"

text \<open>The part of a turn of the loop of \<^verbatim>\<open>exit_sem\<close> that runs with the array at \<open>p\<close> locked.\<close>

definition exit_undo ::
  "'h sem_hdr_scheme \<Rightarrow> 'e sem_env_scheme \<Rightarrow> addr \<Rightarrow> addr \<Rightarrow> sem_undo_list \<Rightarrow> addr \<Rightarrow> sem_undo \<Rightarrow> sem_ns \<Rightarrow> sem_ns option" where
  "exit_undo K E p ulp ul un u ns =
     (case arrays ns p of
        None \<Rightarrow> None
      | Some sma \<Rightarrow>
          if un \<notin> set (list_id sma) then None
          else
            (let sma1 = sma\<lparr>list_id := remove1 un (list_id sma),
                            sem_base := apply_adj K (current_tgid E) (un_semadj u) (sem_base sma)\<rparr>;
                 ns1 = ns\<lparr>undo_lists := (undo_lists ns)(ulp \<mapsto> ul\<lparr>list_proc := remove1 un (list_proc ul)\<rparr>)\<rparr>
             in case do_smart_update K E None True (sem_scan sma1 ns1) of
                  None \<Rightarrow> None
                | Some U \<Rightarrow>
                    (case sem_scanned p U ns1 of
                       None \<Rightarrow> None
                     | Some ns2 \<Rightarrow> Some (ns2\<lparr>undo_rcu := undo_rcu ns2 @ [un]\<rparr>))))"

text \<open>
  The loop of \<^verbatim>\<open>exit_sem\<close>, with fuel: \<open>None\<close> is fuel used up, \<open>Inl KBUG\<close> a fault. Between reading
  \<^verbatim>\<open>un->semid\<close> and locking the array others may run, and \<^verbatim>\<open>un->semid\<close> is read again.
\<close>

fun exit_loop ::
  "nat \<Rightarrow> nat \<Rightarrow> 'h sem_hdr_scheme \<Rightarrow> 'e sem_env_scheme \<Rightarrow> addr \<Rightarrow> sem_ns \<Rightarrow> (errno + sem_ns) option" where
  "exit_loop 0 i K E ulp ns = None"
| "exit_loop (Suc fuel) i K E ulp ns =
     (case undo_lists ns ulp of
        None \<Rightarrow> Some (Inl KBUG)
      | Some ul \<Rightarrow>
          (case list_proc ul of
             [] \<Rightarrow> Some (Inr (ns\<lparr>undo_lists := (undo_lists ns)(ulp := None)\<rparr>))
           | un # _ \<Rightarrow>
               (case undos ns un of
                  None \<Rightarrow> Some (Inl KBUG)
                | Some u \<Rightarrow>
                    if un_semid u = - 1 then Some (Inr (ns\<lparr>undo_lists := (undo_lists ns)(ulp := None)\<rparr>))
                    else
                      (let ns1 = others E i ns
                       in case undos ns1 un of
                            None \<Rightarrow> Some (Inl KBUG)
                          | Some u1 \<Rightarrow>
                              (case sem_lock_check K ns1 (un_semid u1) of
                                 Inl _ \<Rightarrow> exit_loop fuel (i + 1) K E ulp ns1
                               | Inr p \<Rightarrow>
                                   (case undo_lists ns1 ulp of
                                      None \<Rightarrow> Some (Inl KBUG)
                                    | Some ul1 \<Rightarrow>
                                        (case lookup_undo_raw (undos ns1) ul1 (un_semid u) of
                                           None \<Rightarrow> exit_loop fuel (i + 1) K E ulp ns1
                                         | Some un2 \<Rightarrow>
                                             (case exit_undo K E p ulp ul1 un2 (the (undos ns1 un2)) ns1 of
                                                None \<Rightarrow> Some (Inl KBUG)
                                              | Some ns2 \<Rightarrow> exit_loop fuel (i + 1) K E ulp ns2))))))))"

definition exit_sem :: "nat \<Rightarrow> 'h sem_hdr_scheme \<Rightarrow> 'e sem_env_scheme \<Rightarrow> task \<Rightarrow> sem_ns \<Rightarrow> (errno + sem_ns) option" where
  "exit_sem fuel K E tsk ns =
     (case sysvsem ns tsk of
        None \<Rightarrow> Some (Inr ns)
      | Some ulp \<Rightarrow>
          (case undo_lists ns ulp of
             None \<Rightarrow> Some (Inl KBUG)
           | Some ul \<Rightarrow>
               (let ns1 = ns\<lparr>sysvsem := (sysvsem ns)(tsk := None),
                             undo_lists := (undo_lists ns)(ulp \<mapsto> ul\<lparr>ul_refcnt := ul_refcnt ul - 1\<rparr>)\<rparr>
                in if ul_refcnt ul - 1 \<noteq> 0 then Some (Inr ns1)
                   else exit_loop fuel 0 K E ulp ns1)))"

text \<open>A line of \<^verbatim>\<open>/proc/sysvipc/sem\<close>: the numbers printed, in their order.\<close>

definition sysvipc_sem_proc_show :: "sem_array \<Rightarrow> int list" where
  "sysvipc_sem_proc_show sma =
     [p_key (sem_perm sma), p_id (sem_perm sma), uint (p_mode (sem_perm sma)), sem_nsems sma,
      uint (p_uid (sem_perm sma)), uint (p_gid (sem_perm sma)), uint (p_cuid (sem_perm sma)),
      uint (p_cgid (sem_perm sma)), sem_otime sma, sem_ctime sma]"

end
