(* ===== verification/Sem_Ops.thy ===== *)
theory Sem_Ops
  imports Ipc_Sem
begin

text \<open>
  \<^verbatim>\<open>try_atomic_semop\<close> against a reference without intermediate states: the result is the verdict on the
  first operation that cannot be done, where the value of a semaphore is its value before the call
  plus what earlier operations of the call add; the array changes only when every verdict is good.
\<close>

subsection \<open>The reference\<close>

definition op_sum :: "nat \<Rightarrow> sembuf list \<Rightarrow> int" where
  "op_sum n sops = (\<Sum>sop\<leftarrow>sops. if sem_num sop = n then sem_op sop else 0)"

definition undo_op :: "'h sem_hdr_scheme \<Rightarrow> sembuf \<Rightarrow> bool" where
  "undo_op K sop \<longleftrightarrow> sem_flg sop AND SEM_UNDO K \<noteq> 0"

definition undo_sum :: "'h sem_hdr_scheme \<Rightarrow> nat \<Rightarrow> sembuf list \<Rightarrow> int" where
  "undo_sum K n sops = op_sum n (filter (undo_op K) sops)"

text \<open>The verdict on one operation on a semaphore with the value \<open>v\<close>.\<close>

definition op_check :: "'h sem_hdr_scheme \<Rightarrow> int list option \<Rightarrow> int \<Rightarrow> sembuf \<Rightarrow> semop_result" where
  "op_check K adj v sop =
     (if sem_op sop = 0 \<and> v \<noteq> 0 \<or> v + sem_op sop < 0 then would_block K sop
      else if v + sem_op sop > SEMVMX K then SEMOP_ERR ERANGE
      else if undo_op K sop \<and>
              \<not> (- SEMAEM K - 1 \<le> the adj ! sem_num sop - sem_op sop \<and> the adj ! sem_num sop - sem_op sop \<le> SEMAEM K)
           then SEMOP_ERR ERANGE
      else SEMOP_OK)"

fun semop_spec :: "'h sem_hdr_scheme \<Rightarrow> int list option \<Rightarrow> (nat \<Rightarrow> int) \<Rightarrow> sembuf list \<Rightarrow> semop_result" where
  "semop_spec K adj v [] = SEMOP_OK"
| "semop_spec K adj v (sop # sops) =
     (case op_check K adj (v (sem_num sop)) sop of
        SEMOP_OK \<Rightarrow> semop_spec K adj (v(sem_num sop := v (sem_num sop) + sem_op sop)) sops
      | r \<Rightarrow> r)"

definition vals :: "sem list \<Rightarrow> nat \<Rightarrow> int" where
  "vals base n = semval (base ! n)"

text \<open>What all operations together do to the semaphores and to the adjustments.\<close>

definition add_vals :: "(nat \<Rightarrow> int) \<Rightarrow> sem list \<Rightarrow> sem list" where
  "add_vals f base = map (\<lambda>i. (base ! i)\<lparr>semval := semval (base ! i) + f i\<rparr>) [0..<length base]"

definition stamp :: "int \<Rightarrow> sembuf list \<Rightarrow> sem list \<Rightarrow> sem list" where
  "stamp pid sops base =
     map (\<lambda>i. if i \<in> sem_num ` set sops then (base ! i)\<lparr>sempid := pid\<rparr> else base ! i) [0..<length base]"

definition sub_adj :: "'h sem_hdr_scheme \<Rightarrow> sembuf list \<Rightarrow> int list \<Rightarrow> int list" where
  "sub_adj K sops a =
     map (\<lambda>i. if i \<in> sem_num ` set (filter (undo_op K) sops) then c_short (a ! i - undo_sum K i sops) else a ! i)
       [0..<length a]"

text \<open>Operations that stay inside the array, with an undo structure where they ask for one.\<close>

definition sops_ok :: "'h sem_hdr_scheme \<Rightarrow> nat \<Rightarrow> int list option \<Rightarrow> sembuf list \<Rightarrow> bool" where
  "sops_ok K n adj sops \<longleftrightarrow>
     (\<forall>sop\<in>set sops. sem_num sop < n \<and> (undo_op K sop \<longrightarrow> (\<exists>a. adj = Some a \<and> length a = n)))"

subsection \<open>Lemmas on the reference\<close>

lemma op_sum_simps [simp]:
  "op_sum n [] = 0" "op_sum n (sop # sops) = (if sem_num sop = n then sem_op sop else 0) + op_sum n sops"
  "op_sum n (xs @ ys) = op_sum n xs + op_sum n ys" "op_sum n (rev xs) = op_sum n xs"
  by (simp_all add: op_sum_def rev_map [symmetric] sum_list_rev)

lemma undo_sum_simps [simp]:
  "undo_sum K n [] = 0"
  "undo_sum K n (sop # sops) = (if undo_op K sop \<and> sem_num sop = n then sem_op sop else 0) + undo_sum K n sops"
  by (simp_all add: undo_sum_def)

lemma undo_sum_zero: "n \<notin> sem_num ` set (filter (undo_op K) sops) \<Longrightarrow> undo_sum K n sops = 0"
  by (induction sops) (auto split: if_splits)

lemma length_add_vals [simp]: "length (add_vals f base) = length base"
  by (simp add: add_vals_def)

lemma nth_add_vals [simp]:
  "i < length base \<Longrightarrow> add_vals f base ! i = (base ! i)\<lparr>semval := semval (base ! i) + f i\<rparr>"
  by (simp add: add_vals_def)

lemma length_stamp [simp]: "length (stamp pid sops base) = length base"
  by (simp add: stamp_def)

lemma nth_stamp [simp]:
  "i < length base \<Longrightarrow>
     stamp pid sops base ! i = (if i \<in> sem_num ` set sops then (base ! i)\<lparr>sempid := pid\<rparr> else base ! i)"
  by (simp add: stamp_def)

lemma length_sub_adj [simp]: "length (sub_adj K sops a) = length a"
  by (simp add: sub_adj_def)

lemma add_vals_0: "add_vals (\<lambda>_. 0) base = base"
  by (rule nth_equalityI) simp_all

lemma add_vals_upd:
  assumes "n < length base"
  shows "(add_vals f base)[n := (add_vals f base ! n)\<lparr>semval := semval (add_vals f base ! n) + d\<rparr>] =
    add_vals (f(n := f n + d)) base"
  by (rule nth_equalityI) (use assms in \<open>simp_all add: nth_list_update\<close>)

lemma c_short_c_short: "c_short (c_short x - y) = c_short (x - y)"
proof -
  have a: "c_short (c_short x - c_short y) = c_short (x - y)" for x y
    unfolding c_short_def by (rule signed_take_bit_diff)
  have b: "c_short (c_short x) = c_short x" by (simp add: c_short_def)
  have "c_short (c_short x - y) = c_short (c_short (c_short x) - c_short y)" by (rule a [symmetric])
  also have "\<dots> = c_short (x - y)" unfolding b by (rule a)
  finally show ?thesis .
qed

text \<open>The verdicts in closed form, over the sums of what comes before.\<close>

definition verdict :: "'h sem_hdr_scheme \<Rightarrow> int list option \<Rightarrow> (nat \<Rightarrow> int) \<Rightarrow> sembuf list \<Rightarrow> nat \<Rightarrow> semop_result" where
  "verdict K adj v sops i =
     op_check K adj (v (sem_num (sops ! i)) + op_sum (sem_num (sops ! i)) (take i sops)) (sops ! i)"

lemma verdict_Cons:
  "verdict K adj v (sop # sops) (Suc i) = verdict K adj (v(sem_num sop := v (sem_num sop) + sem_op sop)) sops i"
  by (simp add: verdict_def algebra_simps)

lemma semop_spec_verdicts:
  "semop_spec K adj v sops = SEMOP_OK \<and> (\<forall>i<length sops. verdict K adj v sops i = SEMOP_OK) \<or>
   (\<exists>i<length sops. (\<forall>j<i. verdict K adj v sops j = SEMOP_OK) \<and> verdict K adj v sops i \<noteq> SEMOP_OK \<and>
      semop_spec K adj v sops = verdict K adj v sops i)"
proof (induction sops arbitrary: v)
  case (Cons sop sops)
  let ?v = "v(sem_num sop := v (sem_num sop) + sem_op sop)"
  have v0: "verdict K adj v (sop # sops) 0 = op_check K adj (v (sem_num sop)) sop" by (simp add: verdict_def)
  show ?case
  proof (cases "op_check K adj (v (sem_num sop)) sop = SEMOP_OK")
    case False
    then show ?thesis using v0 by (intro disjI2 exI [of _ 0]) (auto split: semop_result.split)
  next
    case True
    then have s: "semop_spec K adj v (sop # sops) = semop_spec K adj ?v sops" by simp
    have all: "(\<forall>j<Suc i. verdict K adj v (sop # sops) j = SEMOP_OK) \<longleftrightarrow> (\<forall>j<i. verdict K adj ?v sops j = SEMOP_OK)" for i
      using v0 True by (simp add: less_Suc_eq_0_disj all_conj_distrib imp_conjR verdict_Cons) (metis verdict_Cons)
    from Cons.IH [of ?v] show ?thesis
    proof
      assume "semop_spec K adj ?v sops = SEMOP_OK \<and> (\<forall>i<length sops. verdict K adj ?v sops i = SEMOP_OK)"
      then show ?thesis using s all [of "length sops"] by simp
    next
      assume "\<exists>i<length sops. (\<forall>j<i. verdict K adj ?v sops j = SEMOP_OK) \<and> verdict K adj ?v sops i \<noteq> SEMOP_OK \<and>
        semop_spec K adj ?v sops = verdict K adj ?v sops i"
      then obtain i where "i < length sops" "\<forall>j<i. verdict K adj ?v sops j = SEMOP_OK"
        "verdict K adj ?v sops i \<noteq> SEMOP_OK" "semop_spec K adj ?v sops = verdict K adj ?v sops i" by blast
      then show ?thesis
        using s all [of i] by (intro disjI2 exI [of _ "Suc i"]) (simp add: verdict_Cons)
    qed
  qed
qed simp

subsection \<open>The code computes the reference\<close>

lemma forward_spec:
  assumes "sops_ok K (length base) adj sops"
  shows "\<exists>dn'. semop_forward K adj dn sops (add_vals (\<lambda>n. op_sum n dn) base) =
      (semop_spec K adj (\<lambda>n. vals base n + op_sum n dn) sops, dn', add_vals (\<lambda>n. op_sum n dn') base) \<and>
    (\<exists>k. dn' = rev (take k sops) @ dn) \<and>
    (semop_spec K adj (\<lambda>n. vals base n + op_sum n dn) sops = SEMOP_OK \<longrightarrow> dn' = rev sops @ dn)"
  using assms
proof (induction sops arbitrary: dn)
  case (Cons sop sops)
  let ?n = "sem_num sop" and ?f = "\<lambda>n. op_sum n dn"
  let ?v = "\<lambda>n. vals base n + op_sum n dn"
  have n: "?n < length base" and u: "undo_op K sop \<longrightarrow> (\<exists>a. adj = Some a \<and> length a = length base)"
    using Cons.prems by (auto simp: sops_ok_def)
  have ok: "sops_ok K (length base) adj sops" using Cons.prems by (simp add: sops_ok_def)
  have cv: "semval (add_vals ?f base ! ?n) = ?v ?n" using n by (simp add: vals_def)
  have step: "semop_forward K adj dn (sop # sops) (add_vals ?f base) =
      (case op_check K adj (?v ?n) sop of
         SEMOP_OK \<Rightarrow> semop_forward K adj (sop # dn) sops (add_vals (\<lambda>n. op_sum n (sop # dn)) base)
       | r \<Rightarrow> (r, dn, add_vals ?f base))"
  proof -
    have b: "(add_vals ?f base)[?n := (add_vals ?f base ! ?n)\<lparr>semval := ?v ?n + sem_op sop\<rparr>] =
        add_vals (\<lambda>n. op_sum n (sop # dn)) base"
      by (rule nth_equalityI) (use n in \<open>auto simp: nth_list_update vals_def\<close>)
    show ?thesis
      using n u b
      by (auto simp: cv op_check_def undo_op_def would_block_def Let_def not_le not_less simp del: nth_add_vals
          split: option.splits if_splits)
  qed
  show ?case
  proof (cases "op_check K adj (?v ?n) sop = SEMOP_OK")
    case False
    then have "semop_forward K adj dn (sop # sops) (add_vals ?f base) = (semop_spec K adj ?v (sop # sops), dn, add_vals ?f base)"
      "semop_spec K adj ?v (sop # sops) \<noteq> SEMOP_OK"
      unfolding step by (simp_all split: semop_result.split)
    then show ?thesis by (intro exI [of _ dn]) (auto intro: exI [of _ 0])
  next
    case True
    have v: "(\<lambda>n. vals base n + op_sum n (sop # dn)) = ?v(?n := ?v ?n + sem_op sop)" by auto
    have s: "semop_spec K adj ?v (sop # sops) = semop_spec K adj (?v(?n := ?v ?n + sem_op sop)) sops"
      using True by simp
    obtain dn' k where d: "semop_forward K adj (sop # dn) sops (add_vals (\<lambda>n. op_sum n (sop # dn)) base) =
        (semop_spec K adj (?v(?n := ?v ?n + sem_op sop)) sops, dn', add_vals (\<lambda>n. op_sum n dn') base)"
      "dn' = rev (take k sops) @ sop # dn"
      "semop_spec K adj (?v(?n := ?v ?n + sem_op sop)) sops = SEMOP_OK \<longrightarrow> dn' = rev sops @ sop # dn"
      using Cons.IH [OF ok, of "sop # dn"] unfolding v by blast
    have "\<exists>k. dn' = rev (take k (sop # sops)) @ dn"
      by (rule exI [of _ "Suc k"]) (simp add: d(2))
    then show ?thesis
      unfolding step True semop_result.case s using d(1,3) by (intro exI [of _ dn'] conjI) simp_all
  qed
qed (auto simp: vals_def intro: exI [of _ 0])

lemma undo_add_vals:
  "(\<forall>sop\<in>set dn. sem_num sop < length base) \<Longrightarrow> semop_undo dn (add_vals (\<lambda>n. op_sum n dn) base) = base"
proof (induction dn)
  case (Cons sop dn)
  let ?n = "sem_num sop"
  have "(add_vals (\<lambda>n. op_sum n (sop # dn)) base)
      [?n := (add_vals (\<lambda>n. op_sum n (sop # dn)) base ! ?n)\<lparr>semval := semval (add_vals (\<lambda>n. op_sum n (sop # dn)) base ! ?n) - sem_op sop\<rparr>] =
    add_vals (\<lambda>n. op_sum n dn) base"
    by (rule nth_equalityI) (use Cons.prems in \<open>auto simp: nth_list_update\<close>)
  then show ?case using Cons by (simp add: Let_def)
qed (simp add: add_vals_0)

lemma commit_spec:
  assumes "\<forall>sop\<in>set dn. sem_num sop < length base \<and> (undo_op K sop \<longrightarrow> (\<exists>a. adj = Some a \<and> length a = length base))"
  shows "semop_commit K pid dn (base, adj) = (stamp pid dn base, map_option (sub_adj K dn) adj)"
  using assms
proof (induction dn arbitrary: base adj)
  case Nil
  have "stamp pid [] base = base" by (rule nth_equalityI) simp_all
  moreover have "sub_adj K [] a = a" for a by (rule nth_equalityI) (simp_all add: sub_adj_def)
  ultimately show ?case by (cases adj) simp_all
next
  case (Cons sop dn)
  let ?n = "sem_num sop"
  let ?b = "base[?n := (base ! ?n)\<lparr>sempid := pid\<rparr>]"
  let ?a = "if undo_op K sop then map_option (\<lambda>a. a[?n := c_short (a ! ?n - sem_op sop)]) adj else adj"
  have n: "?n < length base" using Cons.prems by simp
  have ok: "\<forall>sop\<in>set dn. sem_num sop < length ?b \<and> (undo_op K sop \<longrightarrow> (\<exists>a. ?a = Some a \<and> length a = length ?b))"
    using Cons.prems by fastforce
  have "semop_commit K pid (sop # dn) (base, adj) = semop_commit K pid dn (?b, ?a)"
    by (simp add: undo_op_def Let_def)
  also have "\<dots> = (stamp pid dn ?b, map_option (sub_adj K dn) ?a)" by (rule Cons.IH [OF ok])
  also have "stamp pid dn ?b = stamp pid (sop # dn) base"
    by (rule nth_equalityI) (use n in \<open>auto simp: nth_list_update\<close>)
  also have "map_option (sub_adj K dn) ?a = map_option (sub_adj K (sop # dn)) adj"
  proof (cases adj)
    case (Some a)
    have la: "undo_op K sop \<Longrightarrow> ?n < length a" using Cons.prems Some by auto
    have "sub_adj K dn (if undo_op K sop then a[?n := c_short (a ! ?n - sem_op sop)] else a) = sub_adj K (sop # dn) a"
      by (rule nth_equalityI) (use la in \<open>auto simp: sub_adj_def nth_list_update c_short_c_short diff_diff_eq undo_sum_zero\<close>)
    then show ?thesis using Some by (auto split: if_splits)
  qed simp
  finally show ?case .
qed

theorem try_atomic_spec:
  assumes ok: "sops_ok K (length base) adj sops"
  shows "try_atomic_semop K base sops adj pid =
    (case semop_spec K adj (vals base) sops of
       SEMOP_OK \<Rightarrow> (SEMOP_OK, stamp pid sops (add_vals (\<lambda>n. op_sum n sops) base), map_option (sub_adj K sops) adj)
     | r \<Rightarrow> (r, base, adj))"
proof -
  obtain dn' k where f: "semop_forward K adj [] sops base =
      (semop_spec K adj (vals base) sops, dn', add_vals (\<lambda>n. op_sum n dn') base)"
    "dn' = rev (take k sops)" "semop_spec K adj (vals base) sops = SEMOP_OK \<longrightarrow> dn' = rev sops"
    using forward_spec [OF ok, of "[]"] unfolding op_sum_simps(1) add_vals_0 add_0_right append_Nil2 by blast
  have dn: "\<forall>sop\<in>set dn'. sem_num sop < length base \<and> (undo_op K sop \<longrightarrow> (\<exists>a. adj = Some a \<and> length a = length base))"
    using ok f(2) by (auto simp: sops_ok_def dest: in_set_takeD)
  show ?thesis
  proof (cases "semop_spec K adj (vals base) sops")
    case SEMOP_OK
    then have d: "dn' = rev sops" using f(3) by simp
    have r: "stamp pid (rev xs) b = stamp pid xs b" "sub_adj K (rev xs) = sub_adj K xs" for xs b
      by (simp_all add: fun_eq_iff stamp_def sub_adj_def undo_sum_def rev_filter [symmetric])
    have "semop_commit K pid dn' (add_vals (\<lambda>n. op_sum n dn') base, adj) =
        (stamp pid dn' (add_vals (\<lambda>n. op_sum n dn') base), map_option (sub_adj K dn') adj)"
      by (rule commit_spec) (use dn in simp)
    then show ?thesis using f SEMOP_OK d by (simp add: try_atomic_semop_def r)
  next
    case SEMOP_SLEEP
    then show ?thesis using f(1) undo_add_vals [of dn' base] dn by (simp add: try_atomic_semop_def)
  next
    case (SEMOP_ERR e)
    then show ?thesis using f(1) undo_add_vals [of dn' base] dn by (simp add: try_atomic_semop_def)
  qed
qed

lemma spec_not_KBUG: "semop_spec K adj v sops \<noteq> SEMOP_ERR KBUG"
  by (induction sops arbitrary: v) (auto simp: op_check_def would_block_def split: semop_result.split)

lemma spec_range:
  "semop_spec K adj v sops = SEMOP_OK \<Longrightarrow> 0 \<le> v n \<and> v n \<le> SEMVMX K \<Longrightarrow>
   0 \<le> v n + op_sum n sops \<and> v n + op_sum n sops \<le> SEMVMX K"
proof (induction sops arbitrary: v)
  case (Cons sop sops)
  let ?v = "v(sem_num sop := v (sem_num sop) + sem_op sop)"
  have c: "op_check K adj (v (sem_num sop)) sop = SEMOP_OK" and s: "semop_spec K adj ?v sops = SEMOP_OK"
    using Cons.prems(1) by (auto split: semop_result.splits)
  have "0 \<le> v (sem_num sop) + sem_op sop \<and> v (sem_num sop) + sem_op sop \<le> SEMVMX K"
    using c by (auto simp: op_check_def would_block_def split: if_splits)
  then have "0 \<le> ?v n + op_sum n sops \<and> ?v n + op_sum n sops \<le> SEMVMX K"
    using Cons.IH [OF s] Cons.prems(2) by simp
  then show ?case by (auto split: if_splits)
qed simp

text \<open>A single operation sleeps exactly when it would block and may wait.\<close>

lemma spec_single:
  "semop_spec K adj v [sop] = SEMOP_SLEEP \<longleftrightarrow>
     (sem_op sop = 0 \<and> v (sem_num sop) \<noteq> 0 \<or> v (sem_num sop) + sem_op sop < 0) \<and> sem_flg sop AND IPC_NOWAIT K = 0"
  by (auto simp: op_check_def would_block_def split: semop_result.splits)

text \<open>The verdict depends on the values and adjustments of the semaphores named only.\<close>

lemma spec_cong:
  assumes "\<forall>sop\<in>set sops. v (sem_num sop) = v' (sem_num sop) \<and>
      (undo_op K sop \<longrightarrow> the adj ! sem_num sop = the adj' ! sem_num sop)"
  shows "semop_spec K adj v sops = semop_spec K adj' v' sops"
  using assms
proof (induction sops arbitrary: v v')
  case (Cons sop sops)
  have "op_check K adj (v (sem_num sop)) sop = op_check K adj' (v' (sem_num sop)) sop"
    using Cons.prems by (auto simp: op_check_def)
  moreover have "semop_spec K adj (v(sem_num sop := v (sem_num sop) + sem_op sop)) sops =
      semop_spec K adj' (v'(sem_num sop := v' (sem_num sop) + sem_op sop)) sops"
    by (rule Cons.IH) (use Cons.prems in auto)
  ultimately show ?case by (simp split: semop_result.split)
qed simp

end
