(* ===== verification/Sem_Queue.thy ===== *)
theory Sem_Queue
  imports Sem_Ops
begin

text \<open>
  The pending operations of one array: \<^verbatim>\<open>update_queue\<close>, \<^verbatim>\<open>check_restart\<close> and \<^verbatim>\<open>do_smart_update\<close>. A scan
  completes operations one after the other, each as \<^verbatim>\<open>try_atomic_semop\<close> does it alone, and when it is
  over no operation that is still pending could be completed: the shortcuts (the list of a single
  semaphore, no restart, not looking at semaphores that only got smaller) lose nothing.
\<close>

subsection \<open>What a scan works on\<close>

definition on_sem :: "(task \<rightharpoonup> sem_queue) \<Rightarrow> nat \<Rightarrow> task \<Rightarrow> bool" where
  "on_sem sl n t \<longleftrightarrow> (\<exists>sop q. sl t = Some q \<and> sq_sops q = [sop] \<and> sem_num sop = n)"

definition is_complex :: "(task \<rightharpoonup> sem_queue) \<Rightarrow> task \<Rightarrow> bool" where
  "is_complex sl t \<longleftrightarrow> (\<exists>q. sl t = Some q \<and> length (sq_sops q) \<noteq> 1)"

definition alters :: "(task \<rightharpoonup> sem_queue) \<Rightarrow> task \<Rightarrow> bool" where
  "alters sl t \<longleftrightarrow> (\<exists>q. sl t = Some q \<and> sq_alter q)"

text \<open>
  An entry that waits. A single operation that waits is not an increment, and may wait: it has been
  found to block.
\<close>

definition q_ok :: "'h sem_hdr_scheme \<Rightarrow> nat \<Rightarrow> (addr \<rightharpoonup> sem_undo) \<Rightarrow> sem_queue \<Rightarrow> bool" where
  "q_ok K n us q \<longleftrightarrow>
     sq_sops q \<noteq> [] \<and> sq_status q = Q_EINTR \<and> (\<exists>pid. sq_pid q = Q_PID pid) \<and>
     sq_alter q = (\<exists>sop\<in>set (sq_sops q). sem_op sop \<noteq> 0) \<and>
     sops_ok K n (undo_adj us (sq_undo q)) (sq_sops q) \<and>
     (\<forall>sop. sq_sops q = [sop] \<longrightarrow> sem_op sop \<le> 0 \<and> sem_flg sop AND IPC_NOWAIT K = 0)"

definition woken :: "sem_queue \<Rightarrow> bool" where
  "woken q \<longleftrightarrow> sq_status q = Q_IN_WAKEUP \<and> (\<exists>e. sq_pid q = Q_RESULT e)"

definition adj_ok :: "(addr \<rightharpoonup> sem_undo) \<Rightarrow> bool" where
  "adj_ok us \<longleftrightarrow> (\<forall>un u. us un = Some u \<longrightarrow> (\<forall>x\<in>set (un_semadj u). - 32768 \<le> x \<and> x \<le> 32767))"

definition lists_ok :: "(task \<rightharpoonup> sem_queue) \<Rightarrow> sem_array \<Rightarrow> bool" where
  "lists_ok sl sma \<longleftrightarrow>
     distinct (sem_pending sma) \<and>
     (\<forall>n<length (sem_base sma). sem_simple (sem_base sma ! n) = filter (on_sem sl n) (sem_pending sma)) \<and>
     complex_count sma = int (length (filter (is_complex sl) (sem_pending sma))) \<and>
     sorted_wrt (\<lambda>s t. alters sl s \<longrightarrow> alters sl t) (sem_pending sma)"

definition range_ok :: "'h sem_hdr_scheme \<Rightarrow> sem list \<Rightarrow> bool" where
  "range_ok K base \<longleftrightarrow> (\<forall>n<length base. 0 \<le> semval (base ! n) \<and> semval (base ! n) \<le> SEMVMX K)"

definition scan_ok :: "'h sem_hdr_scheme \<Rightarrow> sem_upd \<Rightarrow> bool" where
  "scan_ok K U \<longleftrightarrow>
     range_ok K (sem_base (up_sma U)) \<and> lists_ok (up_sleepers U) (up_sma U) \<and> adj_ok (up_undos U) \<and>
     (\<forall>t\<in>set (sem_pending (up_sma U)).
        \<exists>q. up_sleepers U t = Some q \<and> q_ok K (length (sem_base (up_sma U))) (up_undos U) q) \<and>
     distinct (up_tasks U) \<and> set (up_tasks U) \<inter> set (sem_pending (up_sma U)) = {} \<and>
     (\<forall>t\<in>set (up_tasks U). \<exists>q. up_sleepers U t = Some q \<and> woken q)"

definition q_result :: "'h sem_hdr_scheme \<Rightarrow> sem_upd \<Rightarrow> sem_queue \<Rightarrow> semop_result" where
  "q_result K U q = semop_spec K (undo_adj (up_undos U) (sq_undo q)) (vals (sem_base (up_sma U))) (sq_sops q)"

definition blocked :: "'h sem_hdr_scheme \<Rightarrow> sem_upd \<Rightarrow> task \<Rightarrow> bool" where
  "blocked K U t \<longleftrightarrow> (\<exists>q. up_sleepers U t = Some q \<and> q_result K U q = SEMOP_SLEEP)"

text \<open>Completing, or failing, the operation of one task.\<close>

definition serve :: "'h sem_hdr_scheme \<Rightarrow> task \<Rightarrow> sem_upd \<Rightarrow> sem_upd option" where
  "serve K t U =
     (case up_sleepers U t of
        None \<Rightarrow> None
      | Some q \<Rightarrow>
          (case sq_pid q of
             Q_RESULT _ \<Rightarrow> None
           | Q_PID pid \<Rightarrow>
               (case try_atomic_semop K (sem_base (up_sma U)) (sq_sops q) (undo_adj (up_undos U) (sq_undo q)) pid of
                  (result, base, adj) \<Rightarrow>
                    (case unlink_queue t q ((up_sma U)\<lparr>sem_base := base\<rparr>) of
                       None \<Rightarrow> None
                     | Some sma \<Rightarrow>
                         wake_up_sem_queue_prepare t (case result of SEMOP_ERR e \<Rightarrow> Some e | _ \<Rightarrow> None)
                           (U\<lparr>up_sma := sma, up_undos := set_undo_adj (sq_undo q) adj (up_undos U)\<rparr>)))))"

inductive serves :: "'h sem_hdr_scheme \<Rightarrow> task list \<Rightarrow> sem_upd \<Rightarrow> sem_upd \<Rightarrow> bool" for K where
  serves_Nil: "serves K [] U U"
| serves_Cons: "t \<in> set (sem_pending (up_sma U)) \<Longrightarrow> \<not> blocked K U t \<Longrightarrow> serve K t U = Some V \<Longrightarrow>
    serves K ts V W \<Longrightarrow> serves K (t # ts) U W"

subsection \<open>Adjustments\<close>

lemma undo_adj_set:
  assumes "undo_adj us un = Some a" and "length a' = length a"
  shows "map_option length (undo_adj (set_undo_adj un (Some a') us) un') = map_option length (undo_adj us un')"
  using assms by (auto simp: undo_adj_def set_undo_adj_def map_option_case split: option.splits)

lemma c_short_bounds: "- 32768 \<le> c_short x" "c_short x \<le> 32767"
  using c_short_range [of x] by simp_all

lemma sub_adj_range:
  "\<forall>x\<in>set a. - 32768 \<le> x \<and> x \<le> 32767 \<Longrightarrow> \<forall>x\<in>set (sub_adj K sops a). - 32768 \<le> x \<and> x \<le> 32767"
  by (auto simp: sub_adj_def c_short_bounds)

lemma sops_ok_cong:
  "sops_ok K n adj sops \<Longrightarrow> map_option length adj' = map_option length adj \<Longrightarrow> sops_ok K n adj' sops"
  by (fastforce simp: sops_ok_def map_option_case split: option.splits)

lemma q_ok_cong:
  "q_ok K n us q \<Longrightarrow> map_option length (undo_adj us' (sq_undo q)) = map_option length (undo_adj us (sq_undo q)) \<Longrightarrow>
   q_ok K n us' q"
  by (auto simp: q_ok_def intro: sops_ok_cong)

text \<open>What an operation leaves in place of the adjustments.\<close>

lemma new_undos:
  assumes ok: "sops_ok K n (undo_adj us un) sops" and adj: "adj_ok us"
    and new: "new = undo_adj us un \<or> new = map_option (sub_adj K sops) (undo_adj us un)"
  shows "adj_ok (set_undo_adj un new us)"
    and "map_option length (undo_adj (set_undo_adj un new us) un') = map_option length (undo_adj us un')"
    and "dom (set_undo_adj un new us) = dom us"
proof -
  show "adj_ok (set_undo_adj un new us)"
  proof (cases "undo_adj us un")
    case None
    then have "set_undo_adj un new us = us" using new by (auto simp: set_undo_adj_def split: option.splits)
    then show ?thesis using adj by simp
  next
    case (Some a)
    then obtain p u where p: "un = Some p" "us p = Some u" "a = un_semadj u"
      by (auto simp: undo_adj_def split: option.splits)
    have a: "\<forall>x\<in>set a. - 32768 \<le> x \<and> x \<le> 32767" using adj p by (auto simp: adj_ok_def)
    obtain a' where a': "new = Some a'" "a' = a \<or> a' = sub_adj K sops a" using new Some by auto
    have "\<forall>x\<in>set a'. - 32768 \<le> x \<and> x \<le> 32767" using a'(2) a sub_adj_range [OF a] by blast
    then show ?thesis using adj p a'(1) by (auto simp: adj_ok_def set_undo_adj_def)
  qed
  show "map_option length (undo_adj (set_undo_adj un new us) un') = map_option length (undo_adj us un')"
    using new by (auto simp: undo_adj_def set_undo_adj_def map_option_case split: option.splits)
  show "dom (set_undo_adj un new us) = dom us"
    by (auto simp: set_undo_adj_def dom_def map_option_case split: option.splits)
qed

lemma set_same_adj: "set_undo_adj un (undo_adj us un) us = us"
  by (auto simp: set_undo_adj_def undo_adj_def fun_eq_iff split: option.splits)

lemma sub_adj_0:
  assumes "\<forall>x\<in>set a. - 32768 \<le> x \<and> x \<le> 32767" and "\<forall>n. undo_sum K n sops = 0"
  shows "sub_adj K sops a = a"
  by (rule nth_equalityI) (use assms in \<open>auto simp: sub_adj_def c_short_id\<close>)

subsection \<open>Taking an entry off the lists\<close>

definition unlinked :: "task \<Rightarrow> sem_queue \<Rightarrow> sem_array \<Rightarrow> sem_array" where
  "unlinked t q sma =
     (let sma = sma\<lparr>sem_pending := remove1 t (sem_pending sma)\<rparr>
      in if length (sq_sops q) = 1 then
           (let n = sem_num (hd (sq_sops q))
            in sma\<lparr>sem_base := (sem_base sma)[n := sem_simple_update (remove1 t) (sem_base sma ! n)]\<rparr>)
         else sma\<lparr>complex_count := complex_count sma - 1\<rparr>)"

lemma unlinked_sel [simp]:
  "sem_pending (unlinked t q sma) = remove1 t (sem_pending sma)"
  "sem_perm (unlinked t q sma) = sem_perm sma" "list_id (unlinked t q sma) = list_id sma"
  "sem_nsems (unlinked t q sma) = sem_nsems sma" "length (sem_base (unlinked t q sma)) = length (sem_base sma)"
  by (simp_all add: unlinked_def Let_def)

lemma unlinked_semval [simp]: "semval (sem_base (unlinked t q sma) ! n) = semval (sem_base sma ! n)"
  by (cases "sem_num (hd (sq_sops q)) < length (sem_base sma)")
    (auto simp: unlinked_def Let_def nth_list_update list_update_beyond not_less)

lemma sorted_wrt_remove1: "sorted_wrt R xs \<Longrightarrow> sorted_wrt R (remove1 x xs)"
  by (induction xs) (auto dest: notin_set_remove1)

lemma single_conv: "length (sq_sops q) = 1 \<Longrightarrow> sq_sops q = [hd (sq_sops q)]"
  by (cases "sq_sops q") auto

lemma on_sem_iff:
  "sl t = Some q \<Longrightarrow> on_sem sl n t \<longleftrightarrow> length (sq_sops q) = 1 \<and> sem_num (hd (sq_sops q)) = n"
  by (cases "sq_sops q") (auto simp: on_sem_def)

lemma is_complex_iff: "sl t = Some q \<Longrightarrow> is_complex sl t \<longleftrightarrow> length (sq_sops q) \<noteq> 1"
  by (auto simp: is_complex_def)

lemma alters_iff: "sl t = Some q \<Longrightarrow> alters sl t = sq_alter q"
  by (auto simp: alters_def)

lemma length_filter_remove1:
  "distinct xs \<Longrightarrow> x \<in> set xs \<Longrightarrow> int (length (filter P (remove1 x xs))) = int (length (filter P xs)) - of_bool (P x)"
  by (cases "P x")
    (simp_all add: filter_remove1_True filter_remove1_False length_remove1_int)

lemma unlink_queue_eq:
  assumes l: "lists_ok sl sma" and t: "t \<in> set (sem_pending sma)" "sl t = Some q"
    and n: "length (sq_sops q) = 1 \<longrightarrow> sem_num (hd (sq_sops q)) < length (sem_base sma)"
  shows "unlink_queue t q sma = Some (unlinked t q sma)"
proof -
  have "t \<in> set (sem_simple (sem_base sma ! sem_num (hd (sq_sops q))))" if "length (sq_sops q) = 1"
    using l t n that by (simp add: lists_ok_def on_sem_iff)
  then show ?thesis using t(1) n by (auto simp: unlink_queue_def unlinked_def Let_def)
qed

lemma unlinked_lists:
  assumes l: "lists_ok sl sma" and t: "t \<in> set (sem_pending sma)" "sl t = Some q"
    and n: "length (sq_sops q) = 1 \<longrightarrow> sem_num (hd (sq_sops q)) < length (sem_base sma)"
  shows "lists_ok sl (unlinked t q sma)"
proof -
  have d: "distinct (sem_pending sma)"
    and s: "\<And>n. n < length (sem_base sma) \<Longrightarrow> sem_simple (sem_base sma ! n) = filter (on_sem sl n) (sem_pending sma)"
    and c: "complex_count sma = int (length (filter (is_complex sl) (sem_pending sma)))"
    and so: "sorted_wrt (\<lambda>s t. alters sl s \<longrightarrow> alters sl t) (sem_pending sma)"
    using l by (auto simp: lists_ok_def)
  have "sem_simple (sem_base (unlinked t q sma) ! m) = filter (on_sem sl m) (remove1 t (sem_pending sma))"
    if m: "m < length (sem_base sma)" for m
  proof (cases "on_sem sl m t")
    case True
    then have "length (sq_sops q) = 1" "sem_num (hd (sq_sops q)) = m" using on_sem_iff [of sl t q m] t(2) by auto
    then show ?thesis using s [OF m] m d True by (simp add: unlinked_def Let_def filter_remove1_True)
  next
    case False
    then have "length (sq_sops q) = 1 \<longrightarrow> sem_num (hd (sq_sops q)) \<noteq> m" using on_sem_iff [of sl t q m] t(2) by auto
    then show ?thesis using s [OF m] m False by (simp add: unlinked_def Let_def filter_remove1_False)
  qed
  moreover have "complex_count (unlinked t q sma) = int (length (filter (is_complex sl) (remove1 t (sem_pending sma))))"
    using c by (simp add: length_filter_remove1 [OF d t(1)] unlinked_def Let_def is_complex_iff [of sl t q] t(2))
  ultimately show ?thesis
    using d sorted_wrt_remove1 [OF so] by (simp add: lists_ok_def)
qed

lemma lists_ok_cong:
  assumes "lists_ok sl sma" and "\<forall>t\<in>set (sem_pending sma). sl' t = sl t"
  shows "lists_ok sl' sma"
proof -
  have e: "on_sem sl' n t = on_sem sl n t" "is_complex sl' t = is_complex sl t" "alters sl' t = alters sl t"
    if "t \<in> set (sem_pending sma)" for t n
    using assms(2) that by (simp_all add: on_sem_def is_complex_def alters_def)
  have "filter (on_sem sl' n) (sem_pending sma) = filter (on_sem sl n) (sem_pending sma)"
    "filter (is_complex sl') (sem_pending sma) = filter (is_complex sl) (sem_pending sma)" for n
    by (rule filter_cong [OF HOL.refl]; simp add: e)+
  moreover have "sorted_wrt (\<lambda>s t. alters sl' s \<longrightarrow> alters sl' t) (sem_pending sma)"
    by (rule sorted_wrt_mono_rel [of _ "\<lambda>s t. alters sl s \<longrightarrow> alters sl t"])
      (use assms(1) e in \<open>auto simp: lists_ok_def\<close>)
  ultimately show ?thesis using assms(1) by (simp add: lists_ok_def)
qed

text \<open>New values leave the lists as they are.\<close>

lemma lists_ok_base:
  assumes "lists_ok sl sma" and "length base = length (sem_base sma)"
    and "\<And>n. n < length base \<Longrightarrow> sem_simple (base ! n) = sem_simple (sem_base sma ! n)"
  shows "lists_ok sl (sma\<lparr>sem_base := base\<rparr>)"
  using assms by (simp add: lists_ok_def)

subsection \<open>Serving one task\<close>

definition res_err :: "semop_result \<Rightarrow> errno option" where
  "res_err r = (case r of SEMOP_ERR e \<Rightarrow> Some e | _ \<Rightarrow> None)"

definition new_base :: "semop_result \<Rightarrow> int \<Rightarrow> sembuf list \<Rightarrow> sem list \<Rightarrow> sem list" where
  "new_base r pid sops base =
     (if r = SEMOP_OK then stamp pid sops (add_vals (\<lambda>n. op_sum n sops) base) else base)"

definition new_adj :: "'h sem_hdr_scheme \<Rightarrow> semop_result \<Rightarrow> sembuf list \<Rightarrow> int list option \<Rightarrow> int list option" where
  "new_adj K r sops adj = (if r = SEMOP_OK then map_option (sub_adj K sops) adj else adj)"

definition served :: "'h sem_hdr_scheme \<Rightarrow> task \<Rightarrow> sem_queue \<Rightarrow> int \<Rightarrow> sem_upd \<Rightarrow> sem_upd" where
  "served K t q pid U =
     (let r = q_result K U q
      in U\<lparr>up_sma := unlinked t q ((up_sma U)\<lparr>sem_base := new_base r pid (sq_sops q) (sem_base (up_sma U))\<rparr>),
           up_undos := set_undo_adj (sq_undo q) (new_adj K r (sq_sops q) (undo_adj (up_undos U) (sq_undo q))) (up_undos U),
           up_sleepers := (up_sleepers U)(t \<mapsto> q\<lparr>sq_status := Q_IN_WAKEUP, sq_pid := Q_RESULT (res_err r)\<rparr>),
           up_tasks := up_tasks U @ [t]\<rparr>)"

lemma try_result:
  assumes "sops_ok K (length base) adj sops"
  shows "try_atomic_semop K base sops adj pid =
    (semop_spec K adj (vals base) sops, new_base (semop_spec K adj (vals base) sops) pid sops base,
     new_adj K (semop_spec K adj (vals base) sops) sops adj)"
  unfolding try_atomic_spec [OF assms] by (simp add: new_base_def new_adj_def split: semop_result.split)

lemma new_base_sel [simp]:
  "length (new_base r pid sops base) = length base"
  "n < length base \<Longrightarrow> sem_simple (new_base r pid sops base ! n) = sem_simple (base ! n)"
  "n < length base \<Longrightarrow>
     semval (new_base r pid sops base ! n) = semval (base ! n) + (if r = SEMOP_OK then op_sum n sops else 0)"
  by (auto simp: new_base_def)

lemma scan_okD:
  assumes "scan_ok K U"
  shows "range_ok K (sem_base (up_sma U))" "lists_ok (up_sleepers U) (up_sma U)" "adj_ok (up_undos U)"
    "distinct (up_tasks U)" "set (up_tasks U) \<inter> set (sem_pending (up_sma U)) = {}"
    "\<And>t. t \<in> set (up_tasks U) \<Longrightarrow> \<exists>q. up_sleepers U t = Some q \<and> woken q"
    "distinct (sem_pending (up_sma U))"
  using assms by (auto simp: scan_ok_def lists_ok_def)

lemma pendingE:
  assumes "scan_ok K U" and "t \<in> set (sem_pending (up_sma U))"
  obtains q pid where "up_sleepers U t = Some q" "q_ok K (length (sem_base (up_sma U))) (up_undos U) q" "sq_pid q = Q_PID pid"
    "sops_ok K (length (sem_base (up_sma U))) (undo_adj (up_undos U) (sq_undo q)) (sq_sops q)"
  using assms by (fastforce simp: scan_ok_def q_ok_def)

lemma pending_q:
  "scan_ok K U \<Longrightarrow> t \<in> set (sem_pending (up_sma U)) \<Longrightarrow> up_sleepers U t = Some q \<Longrightarrow>
   q_ok K (length (sem_base (up_sma U))) (up_undos U) q"
  by (auto simp: scan_ok_def)

lemma pending_some: "scan_ok K U \<Longrightarrow> t \<in> set (sem_pending (up_sma U)) \<Longrightarrow> \<exists>q. up_sleepers U t = Some q"
  by (auto simp: scan_ok_def)

lemma q_ok_num:
  "q_ok K n us q \<Longrightarrow> length (sq_sops q) = 1 \<longrightarrow> sem_num (hd (sq_sops q)) < n"
  by (cases "sq_sops q") (auto simp: q_ok_def sops_ok_def)

lemma unlink_after:
  assumes "scan_ok K U" and "t \<in> set (sem_pending (up_sma U))" and "up_sleepers U t = Some q"
    and "q_ok K (length (sem_base (up_sma U))) (up_undos U) q"
  shows "unlink_queue t q ((up_sma U)\<lparr>sem_base := new_base r pid (sq_sops q) (sem_base (up_sma U))\<rparr>) =
      Some (unlinked t q ((up_sma U)\<lparr>sem_base := new_base r pid (sq_sops q) (sem_base (up_sma U))\<rparr>))"
    and "lists_ok (up_sleepers U) (unlinked t q ((up_sma U)\<lparr>sem_base := new_base r pid (sq_sops q) (sem_base (up_sma U))\<rparr>))"
proof -
  have l: "lists_ok (up_sleepers U) ((up_sma U)\<lparr>sem_base := new_base r pid (sq_sops q) (sem_base (up_sma U))\<rparr>)"
    by (rule lists_ok_base [OF scan_okD(2) [OF assms(1)]]) simp_all
  show "unlink_queue t q ((up_sma U)\<lparr>sem_base := new_base r pid (sq_sops q) (sem_base (up_sma U))\<rparr>) =
      Some (unlinked t q ((up_sma U)\<lparr>sem_base := new_base r pid (sq_sops q) (sem_base (up_sma U))\<rparr>))"
    by (rule unlink_queue_eq [OF l]) (use assms q_ok_num in auto)
  show "lists_ok (up_sleepers U) (unlinked t q ((up_sma U)\<lparr>sem_base := new_base r pid (sq_sops q) (sem_base (up_sma U))\<rparr>))"
    by (rule unlinked_lists [OF l]) (use assms q_ok_num in auto)
qed

lemma serve_served:
  assumes "scan_ok K U" and "t \<in> set (sem_pending (up_sma U))" and "up_sleepers U t = Some q" and "sq_pid q = Q_PID pid"
  shows "serve K t U = Some (served K t q pid U)"
proof -
  have q: "q_ok K (length (sem_base (up_sma U))) (up_undos U) q" using pendingE [OF assms(1,2)] assms(3) by auto
  then have ok: "sops_ok K (length (sem_base (up_sma U))) (undo_adj (up_undos U) (sq_undo q)) (sq_sops q)"
    by (simp add: q_ok_def)
  show ?thesis
    unfolding serve_def assms(3,4) option.case q_pid.case try_result [OF ok] prod.case unlink_after(1) [OF assms(1-3) q]
    using assms(3) by (simp add: wake_up_sem_queue_prepare_def served_def Let_def q_result_def res_err_def)
qed

lemma served_ok:
  assumes U: "scan_ok K U" and t: "t \<in> set (sem_pending (up_sma U))" "up_sleepers U t = Some q"
  shows "scan_ok K (served K t q pid U)"
proof -
  define r where "r = q_result K U q"
  define base where "base = sem_base (up_sma U)"
  have q: "q_ok K (length base) (up_undos U) q" using pendingE [OF U t(1)] t(2) by (auto simp: base_def)
  then have so: "sops_ok K (length base) (undo_adj (up_undos U) (sq_undo q)) (sq_sops q)" by (simp add: q_ok_def)
  let ?V = "served K t q pid U"
  have sel: "sem_pending (up_sma ?V) = remove1 t (sem_pending (up_sma U))" "length (sem_base (up_sma ?V)) = length base"
    "up_tasks ?V = up_tasks U @ [t]" "\<And>s. s \<noteq> t \<Longrightarrow> up_sleepers ?V s = up_sleepers U s"
    by (simp_all add: served_def Let_def base_def)
  have d: "distinct (sem_pending (up_sma U))" using scan_okD(7) [OF U] .
  have tV: "\<exists>q. up_sleepers ?V t = Some q \<and> woken q" by (simp add: served_def Let_def woken_def)
  have u: "adj_ok (up_undos ?V)"
    "\<And>un. map_option length (undo_adj (up_undos ?V) un) = map_option length (undo_adj (up_undos U) un)"
    using new_undos [OF so scan_okD(3) [OF U]] by (simp_all add: served_def Let_def new_adj_def)
  have "range_ok K (sem_base (up_sma ?V))"
    using scan_okD(1) [OF U] spec_range [of K "undo_adj (up_undos U) (sq_undo q)" "vals base" "sq_sops q"]
    by (auto simp: range_ok_def served_def Let_def q_result_def vals_def base_def)
  moreover have "lists_ok (up_sleepers ?V) (up_sma ?V)"
  proof (rule lists_ok_cong)
    show "lists_ok (up_sleepers U) (up_sma ?V)"
      using unlink_after(2) [OF U t] q by (simp add: served_def Let_def base_def)
  qed (use sel d in auto)
  moreover have "\<exists>q. up_sleepers ?V s = Some q \<and> q_ok K (length (sem_base (up_sma ?V))) (up_undos ?V) q"
    if "s \<in> set (sem_pending (up_sma ?V))" for s
  proof -
    have s: "s \<in> set (sem_pending (up_sma U))" "s \<noteq> t" using that sel d by auto
    then obtain q' where q': "up_sleepers U s = Some q'" "q_ok K (length base) (up_undos U) q'"
      using pendingE [OF U] by (auto simp: base_def)
    have "q_ok K (length base) (up_undos ?V) q'" by (rule q_ok_cong [OF q'(2) u(2)])
    then show ?thesis using q'(1) s(2) sel by simp
  qed
  moreover have "\<exists>q. up_sleepers ?V s = Some q \<and> woken q" if "s \<in> set (up_tasks ?V)" for s
    using that tV scan_okD(6) [OF U] sel(3,4) by (cases "s = t") auto
  moreover have "distinct (up_tasks ?V)" "set (up_tasks ?V) \<inter> set (sem_pending (up_sma ?V)) = {}"
    using scan_okD(4,5) [OF U] t(1) d sel by auto
  ultimately show ?thesis using u(1) unfolding scan_ok_def by blast
qed

subsection \<open>What serving one task means for the others\<close>

lemma q_result_same:
  assumes "q_ok K (length (sem_base (up_sma U))) (up_undos U) q"
    and "\<And>n. n < length (sem_base (up_sma U)) \<Longrightarrow> semval (sem_base (up_sma V) ! n) = semval (sem_base (up_sma U) ! n)"
    and "up_undos V = up_undos U"
  shows "q_result K V q = q_result K U q"
  unfolding q_result_def assms(3)
  by (rule spec_cong) (use assms in \<open>auto simp: q_ok_def sops_ok_def vals_def\<close>)

lemma op_sum_zero: "\<forall>sop\<in>set sops. sem_op sop = 0 \<Longrightarrow> op_sum n sops = 0"
  by (induction sops) auto

lemma served_idle:
  assumes U: "scan_ok K U" and t: "t \<in> set (sem_pending (up_sma U))" "up_sleepers U t = Some q"
    and idle: "q_result K U q \<noteq> SEMOP_OK \<or> \<not> sq_alter q"
  shows "n < length (sem_base (up_sma U)) \<Longrightarrow>
      semval (sem_base (up_sma (served K t q pid U)) ! n) = semval (sem_base (up_sma U) ! n)"
    and "up_undos (served K t q pid U) = up_undos U"
proof -
  have q: "q_ok K (length (sem_base (up_sma U))) (up_undos U) q" by (rule pending_q [OF U t(1,2)])
  have z: "op_sum n (sq_sops q) = 0" "undo_sum K n (sq_sops q) = 0" if "\<not> sq_alter q" for n
    using q that by (simp_all add: q_ok_def op_sum_zero undo_sum_def)
  show "n < length (sem_base (up_sma U)) \<Longrightarrow>
      semval (sem_base (up_sma (served K t q pid U)) ! n) = semval (sem_base (up_sma U) ! n)"
    using idle z(1) by (auto simp: served_def Let_def)
  have "new_adj K (q_result K U q) (sq_sops q) (undo_adj (up_undos U) (sq_undo q)) = undo_adj (up_undos U) (sq_undo q)"
  proof (cases "undo_adj (up_undos U) (sq_undo q)")
    case (Some a)
    have "\<forall>x\<in>set a. - 32768 \<le> x \<and> x \<le> 32767"
      using scan_okD(3) [OF U] Some by (auto simp: adj_ok_def undo_adj_def split: option.splits)
    then have "\<not> sq_alter q \<Longrightarrow> sub_adj K (sq_sops q) a = a" using z(2) by (intro sub_adj_0) auto
    then show ?thesis using Some idle by (auto simp: new_adj_def)
  qed (simp add: new_adj_def)
  then show "up_undos (served K t q pid U) = up_undos U" by (simp add: served_def Let_def set_same_adj)
qed

lemma blocked_single:
  assumes "up_sleepers U t = Some q" and "sq_sops q = [sop]"
  shows "blocked K U t \<longleftrightarrow>
    (sem_op sop = 0 \<and> semval (sem_base (up_sma U) ! sem_num sop) \<noteq> 0 \<or>
     semval (sem_base (up_sma U) ! sem_num sop) + sem_op sop < 0) \<and> sem_flg sop AND IPC_NOWAIT K = 0"
  using assms by (simp add: blocked_def q_result_def spec_single vals_def del: semop_spec.simps)

lemma still_blocked:
  assumes U: "scan_ok K U" and t: "t \<in> set (sem_pending (up_sma U))" "up_sleepers U t = Some q"
    and idle: "q_result K U q \<noteq> SEMOP_OK \<or> \<not> sq_alter q"
    and s: "s \<in> set (sem_pending (up_sma U))" "s \<noteq> t" "blocked K U s"
  shows "blocked K (served K t q pid U) s"
proof -
  obtain q' where q': "up_sleepers U s = Some q'" "q_ok K (length (sem_base (up_sma U))) (up_undos U) q'"
    using pendingE [OF U s(1)] by auto
  have "q_result K (served K t q pid U) q' = q_result K U q'"
    by (rule q_result_same [OF q'(2) served_idle [OF U t idle]]) 
  then show ?thesis using s q'(1) by (simp add: blocked_def served_def Let_def)
qed

text \<open>With single operations only, those on other semaphores are not affected.\<close>

lemma not_complex:
  "lists_ok sl sma \<Longrightarrow> complex_count sma = 0 \<Longrightarrow> t \<in> set (sem_pending sma) \<Longrightarrow> sl t = Some q \<Longrightarrow> length (sq_sops q) = 1"
  by (auto simp: lists_ok_def filter_empty_conv is_complex_iff)

lemma other_blocked:
  assumes U: "scan_ok K U" and t: "t \<in> set (sem_pending (up_sma U))" "up_sleepers U t = Some q" "sq_sops q = [sop]"
    and s: "s \<in> set (sem_pending (up_sma U))" "up_sleepers U s = Some q'" "sq_sops q' = [sop']" "s \<noteq> t"
    and ne: "sem_num sop' \<noteq> sem_num sop"
  shows "blocked K (served K t q pid U) s = blocked K U s"
proof -
  have ok: "q_ok K (length (sem_base (up_sma U))) (up_undos U) q'" by (rule pending_q [OF U s(1,2)])
  then have n: "sem_num sop' < length (sem_base (up_sma U))" using s(3) by (simp add: q_ok_def sops_ok_def)
  have v: "semval (sem_base (up_sma (served K t q pid U)) ! sem_num sop') = semval (sem_base (up_sma U) ! sem_num sop')"
    using n t(3) ne by (simp add: served_def Let_def)
  have "up_sleepers (served K t q pid U) s = Some q'" using s(2,4) by (simp add: served_def Let_def)
  then show ?thesis using s(2,3) v by (simp add: blocked_single [where sop = sop' and q = q'])
qed

subsection \<open>When the scan has to start over\<close>

lemma q_single:
  assumes "q_ok K n us q" and "sq_sops q = [sop]"
  shows "sem_op sop \<le> 0" "sem_flg sop AND IPC_NOWAIT K = 0" "sq_alter q \<longleftrightarrow> sem_op sop < 0" "sem_num sop < n"
  using assms by (auto simp: q_ok_def sops_ok_def)

text \<open>Entries behind one that alters alter too, and wait for more than nothing.\<close>

lemma tail_blocked:
  assumes U: "scan_ok K U" and l: "filter (on_sem (up_sleepers U) n) (sem_pending (up_sma U)) = pre @ h # post"
    and h: "alters (up_sleepers U) h" and v: "semval (sem_base (up_sma U) ! n) = 0"
    and s: "s \<in> set (h # post)"
  shows "blocked K U s"
proof -
  have "sorted_wrt (\<lambda>s t. alters (up_sleepers U) s \<longrightarrow> alters (up_sleepers U) t) (pre @ h # post)"
    unfolding l [symmetric] by (rule sorted_wrt_filter) (use scan_okD(2) [OF U] in \<open>simp add: lists_ok_def\<close>)
  then have a: "alters (up_sleepers U) s" using h s by (auto simp: sorted_wrt_append)
  have "s \<in> set (filter (on_sem (up_sleepers U) n) (sem_pending (up_sma U)))" using l s by auto
  then obtain sop q where q: "up_sleepers U s = Some q" "sq_sops q = [sop]" "sem_num sop = n" "s \<in> set (sem_pending (up_sma U))"
    by (auto simp: on_sem_def)
  then show ?thesis
    using q_single [OF pending_q [OF U q(4,1)] q(2)] a v by (simp add: blocked_single alters_iff)
qed

lemma check_restart_single:
  assumes U: "scan_ok K U" and t: "t \<in> set (sem_pending (up_sma U))" "up_sleepers U t = Some q" "sq_sops q = [sop]"
    and alt: "sq_alter q" and r: "q_result K U q = SEMOP_OK" and cc: "complex_count (up_sma (served K t q pid U)) = 0"
  shows "\<exists>b. check_restart (up_sleepers U) (up_sma (served K t q pid U)) q = Some b \<and>
    (b \<or> (\<forall>s\<in>set (sem_pending (up_sma (served K t q pid U))). blocked K U s \<longrightarrow> blocked K (served K t q pid U) s))"
proof -
  let ?V = "served K t q pid U" and ?n = "sem_num sop" and ?sl = "up_sleepers U"
  let ?l = "filter (on_sem ?sl ?n) (sem_pending (up_sma ?V))"
  have q: "q_ok K (length (sem_base (up_sma U))) (up_undos U) q" by (rule pending_q [OF U t(1,2)])
  note q1 = q_single [OF q t(3)]
  have op: "sem_op sop < 0" using q1(3) alt by simp
  have V: "scan_ok K ?V" by (rule served_ok [OF U t(1,2)])
  have lv: "lists_ok ?sl (up_sma ?V)"
    using unlink_after(2) [OF U t(1,2) q] by (simp add: served_def Let_def)
  have pV: "sem_pending (up_sma ?V) = remove1 t (sem_pending (up_sma U))" by (simp add: served_def Let_def)
  have inV: "s \<in> set (sem_pending (up_sma U)) \<and> s \<noteq> t" if "s \<in> set (sem_pending (up_sma ?V))" for s
    using that scan_okD(7) [OF U] pV by auto
  have same: "up_sleepers ?V s = ?sl s" if "s \<in> set (sem_pending (up_sma ?V))" for s
    using inV [OF that] by (simp add: served_def Let_def)
  have v: "semval (sem_base (up_sma ?V) ! ?n) = semval (sem_base (up_sma U) ! ?n) + sem_op sop"
    using q1(4) t(3) r by (simp add: served_def Let_def)
  have sim: "sem_simple (sem_base (up_sma ?V) ! ?n) = ?l"
    using lv q1(4) by (simp add: lists_ok_def served_def Let_def)
  have others: "blocked K ?V s" if s: "s \<in> set (sem_pending (up_sma ?V))" "blocked K U s" "s \<notin> set ?l" for s
  proof -
    obtain q' where q': "?sl s = Some q'" using pending_some [OF U] inV [OF s(1)] by blast
    then obtain sop' where s': "sq_sops q' = [sop']"
      using single_conv [OF not_complex [OF lv cc s(1) q']] by metis
    have "sem_num sop' \<noteq> ?n" using s(1,3) q' s' by (auto simp: on_sem_def)
    then show ?thesis using other_blocked [OF U t _ q' s'] inV [OF s(1)] s(2) by simp
  qed
  have cr: "check_restart ?sl (up_sma ?V) q =
      (case ?l of [] \<Rightarrow> Some False
       | h # _ \<Rightarrow> if semval (sem_base (up_sma ?V) ! ?n) \<noteq> 0 then (if sem_op sop \<ge> 0 then None else Some False)
                  else (case ?sl h of None \<Rightarrow> None
                        | Some hq \<Rightarrow> if length (sq_sops hq) \<noteq> 1 \<or> sem_num (hd (sq_sops hq)) \<noteq> ?n then None
                                     else Some (sem_op (hd (sq_sops hq)) = 0)))"
    using alt cc t(3) sim by (simp add: check_restart_def Let_def)
  show ?thesis
  proof (cases ?l)
    case Nil
    then show ?thesis using cr others by auto
  next
    case (Cons h l)
    have h: "h \<in> set ?l" using Cons by simp
    then obtain hop hq where hq: "?sl h = Some hq" "sq_sops hq = [hop]" "sem_num hop = ?n" by (auto simp: on_sem_def)
    have hV: "h \<in> set (sem_pending (up_sma ?V))" using h by simp
    show ?thesis
    proof (cases "semval (sem_base (up_sma ?V) ! ?n) = 0")
      case False
      have "blocked K ?V s" if s: "s \<in> set (sem_pending (up_sma ?V))" "blocked K U s" "s \<in> set ?l" for s
      proof -
        obtain sop' q' where q': "?sl s = Some q'" "sq_sops q' = [sop']" "sem_num sop' = ?n"
          using s(3) by (auto simp: on_sem_def)
        have qV: "up_sleepers ?V s = Some q'" using same [OF s(1)] q'(1) by simp
        show ?thesis
          using s(2) False op unfolding blocked_single [OF qV q'(2)] blocked_single [OF q'(1,2)] q'(3) v
          by linarith
      qed
      then show ?thesis using cr Cons False op others by (auto simp: not_le)
    next
      case True
      have "blocked K ?V s" if s: "s \<in> set ?l" "sem_op hop \<noteq> 0" for s
      proof (rule tail_blocked [OF V, of ?n "[]" h l])
        have "filter (on_sem (up_sleepers ?V) ?n) (sem_pending (up_sma ?V)) = ?l"
          by (rule filter_cong [OF HOL.refl]) (simp add: on_sem_def same)
        then show "filter (on_sem (up_sleepers ?V) ?n) (sem_pending (up_sma ?V)) = [] @ h # l" using Cons by simp
        have "q_ok K (length (sem_base (up_sma U))) (up_undos U) hq" using pending_q [OF U _ hq(1)] inV [OF hV] by blast
        then have "sq_alter hq" using s(2) hq(2) by (simp add: q_ok_def)
        then show "alters (up_sleepers ?V) h" using same [OF hV] hq(1) by (simp add: alters_def)
      qed (use True s Cons in auto)
      then show ?thesis using cr Cons True hq others by auto
    qed
  qed
qed

lemma check_restart_ok:
  assumes U: "scan_ok K U" and t: "t \<in> set (sem_pending (up_sma U))" "up_sleepers U t = Some q"
    and r: "q_result K U q = SEMOP_OK"
  shows "\<exists>b. check_restart (up_sleepers U) (up_sma (served K t q pid U)) q = Some b \<and>
    (b \<or> (\<forall>s\<in>set (sem_pending (up_sma (served K t q pid U))). blocked K U s \<longrightarrow> blocked K (served K t q pid U) s))"
proof (cases "sq_alter q")
  case False
  have "s \<in> set (sem_pending (up_sma U)) \<and> s \<noteq> t" if "s \<in> set (sem_pending (up_sma (served K t q pid U)))" for s
    using that scan_okD(7) [OF U] by (simp add: served_def Let_def)
  then show ?thesis using False still_blocked [OF U t] by (auto simp: check_restart_def)
next
  case alt: True
  have "sq_sops q \<noteq> []" using pending_q [OF U t] by (simp add: q_ok_def)
  then consider "complex_count (up_sma (served K t q pid U)) \<noteq> 0 \<or> length (sq_sops q) > 1"
    | sop where "complex_count (up_sma (served K t q pid U)) = 0" "sq_sops q = [sop]"
    by (cases "sq_sops q") auto
  then show ?thesis
  proof cases
    case 1
    then show ?thesis using alt by (auto simp: check_restart_def)
  next
    case 2
    then show ?thesis using check_restart_single [OF U t _ alt r] by blast
  qed
qed

subsection \<open>The scan\<close>

lemma same_base: "U\<lparr>up_sma := (up_sma U)\<lparr>sem_base := sem_base (up_sma U)\<rparr>\<rparr> = U"
  by (cases U; cases "up_sma U") simp

lemma walk_step:
  assumes U: "scan_ok K U" and t: "t \<in> set (sem_pending (up_sma U))" "up_sleepers U t = Some q" and pid: "sq_pid q = Q_PID pid"
    and go: "semnum = - 1 \<or> semval (sem_base (up_sma U) ! nat semnum) \<noteq> 0 \<or> \<not> sq_alter q"
  shows "update_walk K semnum (t # walk) c U =
    (case q_result K U q of
       SEMOP_SLEEP \<Rightarrow> update_walk K semnum walk c U
     | SEMOP_ERR e \<Rightarrow> update_walk K semnum walk c (served K t q pid U)
     | SEMOP_OK \<Rightarrow>
         (case check_restart (up_sleepers U) (up_sma (served K t q pid U)) q of
            None \<Rightarrow> None
          | Some b \<Rightarrow>
              update_walk K semnum (if b then pending_list semnum (up_sma (served K t q pid U)) else walk) True
                (served K t q pid U)))"
proof -
  have q: "q_ok K (length (sem_base (up_sma U))) (up_undos U) q" by (rule pending_q [OF U t])
  then have ok: "sops_ok K (length (sem_base (up_sma U))) (undo_adj (up_undos U) (sq_undo q)) (sq_sops q)"
    by (simp add: q_ok_def)
  define r where "r = q_result K U q"
  have tr: "try_atomic_semop K (sem_base (up_sma U)) (sq_sops q) (undo_adj (up_undos U) (sq_undo q)) pid =
      (r, new_base r pid (sq_sops q) (sem_base (up_sma U)), new_adj K r (sq_sops q) (undo_adj (up_undos U) (sq_undo q)))"
    using try_result [OF ok] by (simp add: r_def q_result_def)
  have nb: "r \<noteq> SEMOP_ERR KBUG" by (simp add: r_def q_result_def spec_not_KBUG)
  have go': "\<not> (semnum \<noteq> - 1 \<and> semval (sem_base (up_sma U) ! nat semnum) = 0 \<and> sq_alter q)" using go by blast
  have un: "unlink_queue t q ((up_sma U)\<lparr>sem_base := new_base r pid (sq_sops q) (sem_base (up_sma U))\<rparr>) =
      Some (up_sma (served K t q pid U))"
    using unlink_after(1) [OF U t q] by (simp add: served_def Let_def r_def)
  show ?thesis
  proof (cases r)
    case SEMOP_SLEEP
    have "new_base r pid (sq_sops q) (sem_base (up_sma U)) = sem_base (up_sma U)" using SEMOP_SLEEP by (simp add: new_base_def)
    then show ?thesis
      unfolding update_walk.simps t(2) option.case if_not_P [OF go'] pid q_pid.case tr prod.case
      using SEMOP_SLEEP r_def same_base [of U] by simp
  next
    case SEMOP_OK
    show ?thesis
      unfolding update_walk.simps t(2) option.case if_not_P [OF go'] pid q_pid.case tr prod.case un
      using SEMOP_OK r_def t(2)
      by (simp add: wake_up_sem_queue_prepare_def served_def Let_def res_err_def cong: option.case_cong)
  next
    case (SEMOP_ERR e)
    show ?thesis
      unfolding update_walk.simps t(2) option.case if_not_P [OF go'] pid q_pid.case tr prod.case un
      using SEMOP_ERR r_def t(2) nb
      by (simp add: wake_up_sem_queue_prepare_def served_def Let_def res_err_def)
  qed
qed

lemma serves_one:
  assumes "scan_ok K U" and "t \<in> set (sem_pending (up_sma U))" "up_sleepers U t = Some q" "sq_pid q = Q_PID pid"
    and "q_result K U q \<noteq> SEMOP_SLEEP" and "serves K ts (served K t q pid U) W"
  shows "serves K (t # ts) U W"
  using assms by (intro serves_Cons [OF _ _ serve_served]) (auto simp: blocked_def)

lemma serves_ok: "serves K ts U V \<Longrightarrow> scan_ok K U \<Longrightarrow> scan_ok K V"
proof (induction rule: serves.induct)
  case (serves_Cons t U V ts W)
  obtain q pid where q: "up_sleepers U t = Some q" "sq_pid q = Q_PID pid" using pendingE [OF serves_Cons.prems serves_Cons.hyps(1)] .
  then show ?case
    using serves_Cons serve_served [OF serves_Cons.prems serves_Cons.hyps(1) q]
      served_ok [OF serves_Cons.prems serves_Cons.hyps(1) q(1), of pid] by simp
qed simp

text \<open>The list a scan walks along, and what keeps the scan of a single semaphore sound.\<close>

definition scope_ok :: "int \<Rightarrow> sem_array \<Rightarrow> bool" where
  "scope_ok semnum sma \<longleftrightarrow>
     semnum = - 1 \<or> 0 \<le> semnum \<and> semnum < int (length (sem_base sma)) \<and> complex_count sma = 0"

definition in_scope :: "(task \<rightharpoonup> sem_queue) \<Rightarrow> int \<Rightarrow> task \<Rightarrow> bool" where
  "in_scope sl semnum t \<longleftrightarrow> semnum = - 1 \<or> on_sem sl (nat semnum) t"

lemma in_scope_eq: "in_scope sl (- 1) = (\<lambda>_. True)" "semnum \<noteq> - 1 \<Longrightarrow> in_scope sl semnum = on_sem sl (nat semnum)"
  by (simp_all add: in_scope_def fun_eq_iff)

lemma pending_list_eq:
  "lists_ok sl sma \<Longrightarrow> scope_ok semnum sma \<Longrightarrow> pending_list semnum sma = filter (in_scope sl semnum) (sem_pending sma)"
  by (cases "semnum = - 1") (auto simp: pending_list_def lists_ok_def scope_ok_def in_scope_eq)

lemma served_scope:
  assumes U: "scan_ok K U" and t: "t \<in> set (sem_pending (up_sma U))" "up_sleepers U t = Some q"
    and sc: "scope_ok semnum (up_sma U)" "in_scope (up_sleepers U) semnum t"
  shows "scope_ok semnum (up_sma (served K t q pid U))"
    and "pending_list semnum (up_sma (served K t q pid U)) = remove1 t (pending_list semnum (up_sma U))"
proof -
  let ?V = "served K t q pid U"
  have cc: "semnum \<noteq> - 1 \<Longrightarrow> complex_count (up_sma ?V) = complex_count (up_sma U)"
    using sc(2) on_sem_iff [of "up_sleepers U" t q "nat semnum"] t(2)
    by (simp add: served_def unlinked_def Let_def in_scope_def)
  then show s: "scope_ok semnum (up_sma ?V)" using sc(1) by (auto simp: scope_ok_def served_def Let_def)
  have V: "scan_ok K ?V" by (rule served_ok [OF U t])
  have pV: "sem_pending (up_sma ?V) = remove1 t (sem_pending (up_sma U))" by (simp add: served_def Let_def)
  have "pending_list semnum (up_sma ?V) = filter (in_scope (up_sleepers ?V) semnum) (remove1 t (sem_pending (up_sma U)))"
    unfolding pending_list_eq [OF scan_okD(2) [OF V] s] pV ..
  also have "\<dots> = filter (in_scope (up_sleepers U) semnum) (remove1 t (sem_pending (up_sma U)))"
    by (rule filter_cong [OF HOL.refl])
      (use scan_okD(7) [OF U] in \<open>auto simp: in_scope_def on_sem_def served_def Let_def\<close>)
  also have "\<dots> = remove1 t (pending_list semnum (up_sma U))"
    unfolding pending_list_eq [OF scan_okD(2) [OF U] sc(1)] using scan_okD(7) [OF U] sc(2) by (simp add: filter_remove1_True)
  finally show "pending_list semnum (up_sma ?V) = remove1 t (pending_list semnum (up_sma U))" .
qed

text \<open>
  What a scan that has come to the entry behind \<open>pre\<close> does: it completes operations one at a time and
  leaves the list with operations that have to wait.
\<close>

definition scan_result :: "'h sem_hdr_scheme \<Rightarrow> int \<Rightarrow> sem_upd \<Rightarrow> (bool \<times> sem_upd) option \<Rightarrow> bool" where
  "scan_result K semnum U res \<longleftrightarrow>
     (\<exists>c V ts. res = Some (c, V) \<and> serves K ts U V \<and> (\<forall>t\<in>set ts. in_scope (up_sleepers U) semnum t) \<and>
        scope_ok semnum (up_sma V) \<and> (\<forall>t\<in>set (pending_list semnum (up_sma V)). blocked K V t))"

lemma scan_result_serve:
  assumes U: "scan_ok K U" and t: "t \<in> set (sem_pending (up_sma U))" "up_sleepers U t = Some q" "sq_pid q = Q_PID pid"
    and r: "q_result K U q \<noteq> SEMOP_SLEEP" and sc: "in_scope (up_sleepers U) semnum t"
    and V: "scan_result K semnum (served K t q pid U) res"
  shows "scan_result K semnum U res"
proof -
  obtain c W ts where W: "res = Some (c, W)" "serves K ts (served K t q pid U) W"
    "\<forall>s\<in>set ts. in_scope (up_sleepers (served K t q pid U)) semnum s" "scope_ok semnum (up_sma W)"
    "\<forall>s\<in>set (pending_list semnum (up_sma W)). blocked K W s"
    using V by (auto simp: scan_result_def)
  have "in_scope (up_sleepers U) semnum s" if "s \<in> set ts" for s
    using W(3) that sc t(2) by (cases "s = t") (auto simp: in_scope_def on_sem_def served_def Let_def)
  then show ?thesis
    using W serves_one [OF U t r W(2)] sc unfolding scan_result_def by (intro exI [of _ c] exI [of _ W] exI [of _ "t # ts"]) auto
qed

lemma walk_spec:
  assumes "scan_ok K U" and "scope_ok semnum (up_sma U)" and "pending_list semnum (up_sma U) = pre @ walk"
    and "\<forall>t\<in>set pre. blocked K U t"
  shows "scan_result K semnum U (update_walk K semnum walk c U)"
  using assms
proof (induction "length (sem_pending (up_sma U))" arbitrary: U pre walk c rule: less_induct)
  case less
  show ?case
    using less.prems
  proof (induction walk arbitrary: pre c)
    case Nil
    then show ?case by (auto simp: scan_result_def intro: serves_Nil)
  next
    case (Cons t walk)
    note U = Cons.prems(1) and sc = Cons.prems(2)
    have pl: "pending_list semnum (up_sma U) = filter (in_scope (up_sleepers U) semnum) (sem_pending (up_sma U))"
      by (rule pending_list_eq [OF scan_okD(2) [OF U] sc])
    have "t \<in> set (pending_list semnum (up_sma U))" using Cons.prems(3) by simp
    then have t: "t \<in> set (sem_pending (up_sma U))" and ts: "in_scope (up_sleepers U) semnum t" unfolding pl by simp_all
    obtain q pid where q: "up_sleepers U t = Some q" "sq_pid q = Q_PID pid" using pendingE [OF U t] .
    show ?case
    proof (cases "semnum = - 1 \<or> semval (sem_base (up_sma U) ! nat semnum) \<noteq> 0 \<or> \<not> sq_alter q")
      case False
      then have "update_walk K semnum (t # walk) c U = Some (c, U)" using q by simp
      moreover have "blocked K U s" if "s \<in> set (pending_list semnum (up_sma U))" for s
      proof (cases "s \<in> set pre")
        case True
        then show ?thesis using Cons.prems(4) by blast
      next
        case outside: False
        have l: "filter (on_sem (up_sleepers U) (nat semnum)) (sem_pending (up_sma U)) = pre @ t # walk"
          using Cons.prems(3) False unfolding pl by (simp add: in_scope_eq)
        show ?thesis
          by (rule tail_blocked [OF U l]) (use that False q Cons.prems(3) outside in \<open>auto simp: alters_def\<close>)
      qed
      ultimately show ?thesis using sc by (auto simp: scan_result_def intro: serves_Nil)
    next
      case go: True
      let ?V = "served K t q pid U"
      note step = walk_step [OF U t q go, of walk c]
      have V: "scan_ok K ?V" by (rule served_ok [OF U t q(1)])
      note scV = served_scope [OF U t q(1) sc ts, of pid]
      have d: "distinct (pre @ t # walk)" using Cons.prems(3) scan_okD(7) [OF U] unfolding pl by (metis distinct_filter)
      then have plV: "pending_list semnum (up_sma ?V) = pre @ walk"
        using scV(2) Cons.prems(3) by (simp add: remove1_append)
      have less': "length (sem_pending (up_sma ?V)) < length (sem_pending (up_sma U))"
        using t by (simp add: served_def Let_def length_remove1) (metis One_nat_def diff_less length_pos_if_in_set zero_less_one)
      have preU: "s \<in> set (sem_pending (up_sma U)) \<and> s \<noteq> t" if "s \<in> set pre" for s
        using that d Cons.prems(3) unfolding pl by (metis Un_iff distinct_append disjoint_iff filter_is_subset list.set_intros(1) set_append subsetD)
      show ?thesis
      proof (cases "q_result K U q")
        case SEMOP_SLEEP
        have "\<forall>s\<in>set (pre @ [t]). blocked K U s" using Cons.prems(4) SEMOP_SLEEP q(1) by (auto simp: blocked_def)
        then show ?thesis
          unfolding step SEMOP_SLEEP semop_result.case using Cons.prems(3) by (intro Cons.IH [OF U sc, of "pre @ [t]"]) auto
      next
        case (SEMOP_ERR e)
        have "\<forall>s\<in>set pre. blocked K ?V s" using still_blocked [OF U t q(1)] SEMOP_ERR preU Cons.prems(4) by auto
        then have "scan_result K semnum ?V (update_walk K semnum walk c ?V)"
          by (rule less.hyps [OF less' V scV(1) plV])
        then show ?thesis
          unfolding step SEMOP_ERR semop_result.case
          by (intro scan_result_serve [OF U t q _ ts]) (simp_all add: SEMOP_ERR)
      next
        case SEMOP_OK
        obtain b where b: "check_restart (up_sleepers U) (up_sma ?V) q = Some b"
          "b \<or> (\<forall>s\<in>set (sem_pending (up_sma ?V)). blocked K U s \<longrightarrow> blocked K ?V s)"
          using check_restart_ok [OF U t q(1) SEMOP_OK] by blast
        have "scan_result K semnum ?V (update_walk K semnum (if b then pending_list semnum (up_sma ?V) else walk) True ?V)"
        proof (cases b)
          case True
          then show ?thesis using less.hyps [OF less' V scV(1), of "[]"] by simp
        next
          case False
          have "set pre \<subseteq> set (sem_pending (up_sma ?V))" using preU scan_okD(7) [OF U] by (auto simp: served_def Let_def)
          then have "\<forall>s\<in>set pre. blocked K ?V s" using b(2) False Cons.prems(4) by blast
          then show ?thesis using less.hyps [OF less' V scV(1) plV] False by simp
        qed
        then show ?thesis
          unfolding step SEMOP_OK semop_result.case b(1) option.case
          by (intro scan_result_serve [OF U t q _ ts]) (simp_all add: SEMOP_OK)
      qed
    qed
  qed
qed

subsection \<open>The optimised update\<close>

definition settled :: "'h sem_hdr_scheme \<Rightarrow> sem_upd \<Rightarrow> bool" where
  "settled K U \<longleftrightarrow> (\<forall>t\<in>set (sem_pending (up_sma U)). blocked K U t)"

lemma update_queue_spec:
  assumes "scan_ok K U" and "semnum = - 1 \<or> 0 \<le> semnum \<and> semnum < int (length (sem_base (up_sma U)))"
  shows "scan_result K (if complex_count (up_sma U) \<noteq> 0 then - 1 else semnum) U (update_queue K semnum U)"
proof -
  define s where "s = (if complex_count (up_sma U) \<noteq> 0 then - 1 else semnum)"
  have s: "s = - 1 \<or> 0 \<le> s \<and> s < int (length (sem_base (up_sma U)))" using assms(2) by (simp add: s_def)
  have sc: "scope_ok s (up_sma U)" using s by (auto simp: scope_ok_def s_def split: if_splits)
  have "update_queue K semnum U = update_walk K s (pending_list s (up_sma U)) False U"
    unfolding update_queue_def Let_def s_def [symmetric] by (rule if_not_P) (use s in linarith)
  moreover have "scan_result K s U (update_walk K s (pending_list s (up_sma U)) False U)"
    by (rule walk_spec [OF assms(1) sc, of "[]"]) simp_all
  ultimately show ?thesis unfolding s_def by simp
qed

lemma update_all:
  assumes "scan_ok K U" and "semnum = - 1 \<or> 0 \<le> semnum \<and> semnum < int (length (sem_base (up_sma U)))"
    and "semnum = - 1 \<or> complex_count (up_sma U) \<noteq> 0"
  shows "\<exists>c V ts. update_queue K semnum U = Some (c, V) \<and> serves K ts U V \<and> settled K V"
  using update_queue_spec [OF assms(1,2)] assms(3)
  by (auto simp: scan_result_def settled_def pending_list_def split: if_splits)

lemma serves_append: "serves K ts U V \<Longrightarrow> serves K ts' V W \<Longrightarrow> serves K (ts @ ts') U W"
  by (induction rule: serves.induct) (auto intro: serves_Cons)

lemma on_sem_served: "up_sleepers U t = Some q \<Longrightarrow> on_sem (up_sleepers (served K t q pid U)) n s = on_sem (up_sleepers U) n s"
  by (auto simp: on_sem_def served_def Let_def)

text \<open>Serving single operations on one semaphore leaves the other semaphores and those who wait there alone.\<close>

lemma serves_on:
  assumes "serves K ts U V" and "scan_ok K U" and "complex_count (up_sma U) = 0"
    and "\<forall>t\<in>set ts. on_sem (up_sleepers U) n t"
  shows "complex_count (up_sma V) = 0 \<and>
    (\<forall>m<length (sem_base (up_sma U)). m \<noteq> n \<longrightarrow> semval (sem_base (up_sma V) ! m) = semval (sem_base (up_sma U) ! m)) \<and>
    (\<forall>s\<in>set (sem_pending (up_sma V)). s \<in> set (sem_pending (up_sma U)) \<and> up_sleepers V s = up_sleepers U s \<and>
       (\<not> on_sem (up_sleepers U) n s \<longrightarrow> blocked K V s = blocked K U s)) \<and>
    length (sem_base (up_sma V)) = length (sem_base (up_sma U))"
  using assms
proof (induction rule: serves.induct)
  case (serves_Cons t U V ts W)
  note U = serves_Cons.prems(1) and t = serves_Cons.hyps(1)
  obtain q pid where q: "up_sleepers U t = Some q" "sq_pid q = Q_PID pid" using pendingE [OF U t] .
  have V: "V = served K t q pid U" using serve_served [OF U t q] serves_Cons.hyps(3) by simp
  obtain sop where sop: "sq_sops q = [sop]" "sem_num sop = n" using serves_Cons.prems(3) q(1) by (auto simp: on_sem_def)
  have okV: "scan_ok K V" unfolding V by (rule served_ok [OF U t q(1)])
  have cc: "complex_count (up_sma V) = 0" using serves_Cons.prems(2) sop(1) by (simp add: V served_def Let_def unlinked_def)
  have on: "on_sem (up_sleepers V) m s = on_sem (up_sleepers U) m s" for m s unfolding V by (rule on_sem_served [of _ _ _ _ _ _ s, OF q(1)])
  have pV: "s \<in> set (sem_pending (up_sma U)) \<and> s \<noteq> t" if "s \<in> set (sem_pending (up_sma V))" for s
    using that scan_okD(7) [OF U] by (simp add: V served_def Let_def)
  have len: "length (sem_base (up_sma V)) = length (sem_base (up_sma U))" by (simp add: V served_def Let_def)
  have val: "semval (sem_base (up_sma V) ! m) = semval (sem_base (up_sma U) ! m)" if "m < length (sem_base (up_sma U))" "m \<noteq> n" for m
    using that sop by (simp add: V served_def Let_def)
  have bl: "blocked K V s = blocked K U s" if s: "s \<in> set (sem_pending (up_sma V))" "\<not> on_sem (up_sleepers U) n s" for s
  proof -
    obtain q' where q': "up_sleepers U s = Some q'" using pending_some [OF U] pV [OF s(1)] by blast
    obtain sop' where s': "sq_sops q' = [sop']"
      using single_conv [OF not_complex [OF scan_okD(2) [OF U] serves_Cons.prems(2) _ q']] pV [OF s(1)] by metis
    have "sem_num sop' \<noteq> sem_num sop" using s(2) q' s' sop by (auto simp: on_sem_def)
    then show ?thesis unfolding V using other_blocked [OF U t q(1) sop(1) _ q' s'] pV [OF s(1)] by simp
  qed
  have same: "up_sleepers V s = up_sleepers U s" if "s \<noteq> t" for s using that by (simp add: V served_def Let_def)
  note IH = serves_Cons.IH [OF okV cc] 
  have "\<forall>t\<in>set ts. on_sem (up_sleepers V) n t" using serves_Cons.prems(3) on by simp
  from IH [OF this] show ?case
    using pV same bl val len unfolding on by (metis (no_types, lifting))
qed simp

definition dirty_ok :: "'h sem_hdr_scheme \<Rightarrow> sembuf list \<Rightarrow> sem_upd \<Rightarrow> bool" where
  "dirty_ok K sops U \<longleftrightarrow>
     complex_count (up_sma U) = 0 \<and> (\<forall>sop\<in>set sops. sem_num sop < length (sem_base (up_sma U))) \<and>
     (\<forall>t\<in>set (sem_pending (up_sma U)).
        blocked K U t \<or>
        (\<exists>sop\<in>set sops. on_sem (up_sleepers U) (sem_num sop) t \<and>
           (sem_op sop > 0 \<or> sem_op sop < 0 \<and> semval (sem_base (up_sma U) ! sem_num sop) = 0)))"

lemma smart_loop_spec:
  assumes "scan_ok K U" and "dirty_ok K sops U"
  shows "\<exists>o' V ts. smart_loop K sops otime U = Some (o', V) \<and> serves K ts U V \<and> settled K V"
  using assms
proof (induction sops arbitrary: U otime)
  case Nil
  then show ?case by (auto simp: dirty_ok_def settled_def intro: serves_Nil)
next
  case (Cons sop sops)
  let ?n = "sem_num sop"
  note U = Cons.prems(1)
  have cc: "complex_count (up_sma U) = 0" and n: "?n < length (sem_base (up_sma U))"
    using Cons.prems(2) by (auto simp: dirty_ok_def)
  show ?case
  proof (cases "sem_op sop > 0 \<or> sem_op sop < 0 \<and> semval (sem_base (up_sma U) ! ?n) = 0")
    case False
    then have "dirty_ok K sops U" using Cons.prems(2) by (auto simp: dirty_ok_def)
    then show ?thesis using Cons.IH [OF U, of otime] False by auto
  next
    case True
    obtain c V ts where V: "update_queue K (int ?n) U = Some (c, V)" "serves K ts U V"
      "\<forall>t\<in>set ts. in_scope (up_sleepers U) (int ?n) t" "scope_ok (int ?n) (up_sma V)"
      "\<forall>t\<in>set (pending_list (int ?n) (up_sma V)). blocked K V t"
      using update_queue_spec [OF U, of "int ?n"] n cc by (auto simp: scan_result_def)
    have okV: "scan_ok K V" by (rule serves_ok [OF V(2) U])
    have "\<forall>t\<in>set ts. on_sem (up_sleepers U) ?n t" using V(3) by (simp add: in_scope_def)
    note on = serves_on [OF V(2) U cc this]
    have "dirty_ok K sops V"
      unfolding dirty_ok_def
    proof (intro conjI ballI)
      show "complex_count (up_sma V) = 0" using on by blast
      fix t assume t: "t \<in> set (sem_pending (up_sma V))"
      then have tU: "t \<in> set (sem_pending (up_sma U))" and eq: "up_sleepers V t = up_sleepers U t" using on by auto
      have oeq: "on_sem (up_sleepers V) m t = on_sem (up_sleepers U) m t" for m using eq by (simp add: on_sem_def)
      show "blocked K V t \<or> (\<exists>sop\<in>set sops. on_sem (up_sleepers V) (sem_num sop) t \<and>
          (sem_op sop > 0 \<or> sem_op sop < 0 \<and> semval (sem_base (up_sma V) ! sem_num sop) = 0))"
      proof (cases "on_sem (up_sleepers U) ?n t")
        case True
        then have "t \<in> set (pending_list (int ?n) (up_sma V))"
          unfolding pending_list_eq [OF scan_okD(2) [OF okV] V(4)] using t oeq by (simp add: in_scope_def)
        then show ?thesis using V(5) by blast
      next
        case off: False
        then have b: "blocked K V t = blocked K U t" using on t by blast
        have "blocked K U t \<or> (\<exists>sop'\<in>set sops. on_sem (up_sleepers U) (sem_num sop') t \<and>
            (sem_op sop' > 0 \<or> sem_op sop' < 0 \<and> semval (sem_base (up_sma U) ! sem_num sop') = 0))"
          using Cons.prems(2) tU off by (auto simp: dirty_ok_def)
        moreover have "semval (sem_base (up_sma V) ! sem_num sop') = semval (sem_base (up_sma U) ! sem_num sop')"
          if "sop' \<in> set sops" "on_sem (up_sleepers U) (sem_num sop') t" for sop'
          using on that off Cons.prems(2) by (auto simp: dirty_ok_def)
        ultimately show ?thesis using b oeq by metis
      qed
    qed (use Cons.prems(2) on in \<open>auto simp: dirty_ok_def\<close>)
    from Cons.IH [OF okV this, of "otime \<or> c"] obtain o' W ts' where
      W: "smart_loop K sops (otime \<or> c) V = Some (o', W)" "serves K ts' V W" "settled K W" by blast
    have "smart_loop K (sop # sops) otime U = Some (o', W)" using True V(1) W(1) by simp
    then show ?thesis using serves_append [OF V(2) W(2)] W(3) by blast
  qed
qed

lemma op_sum_pos: "0 < op_sum n sops \<Longrightarrow> \<exists>sop\<in>set sops. sem_num sop = n \<and> 0 < sem_op sop"
proof (rule ccontr)
  assume s: "0 < op_sum n sops" and "\<not> (\<exists>sop\<in>set sops. sem_num sop = n \<and> 0 < sem_op sop)"
  then have "\<forall>sop\<in>set sops. sem_num sop = n \<longrightarrow> sem_op sop \<le> 0" by auto
  then have "op_sum n sops \<le> 0" by (induction sops) auto
  then show False using s by simp
qed

lemma op_sum_neg: "op_sum n sops < 0 \<Longrightarrow> \<exists>sop\<in>set sops. sem_num sop = n \<and> sem_op sop < 0"
proof (rule ccontr)
  assume s: "op_sum n sops < 0" and "\<not> (\<exists>sop\<in>set sops. sem_num sop = n \<and> sem_op sop < 0)"
  then have "\<forall>sop\<in>set sops. sem_num sop = n \<longrightarrow> 0 \<le> sem_op sop" by auto
  then have "0 \<le> op_sum n sops" by (induction sops) auto
  then show False using s by simp
qed

text \<open>The state after the own operations of a call have been done, before those that wait are looked at.\<close>

definition performed :: "'h sem_hdr_scheme \<Rightarrow> int \<Rightarrow> sembuf list \<Rightarrow> addr option \<Rightarrow> sem_upd \<Rightarrow> sem_upd" where
  "performed K pid sops un U =
     U\<lparr>up_sma := (up_sma U)\<lparr>sem_base := new_base SEMOP_OK pid sops (sem_base (up_sma U))\<rparr>,
       up_undos := set_undo_adj un (new_adj K SEMOP_OK sops (undo_adj (up_undos U) un)) (up_undos U)\<rparr>"

lemma performed_ok:
  assumes U: "scan_ok K U" and so: "sops_ok K (length (sem_base (up_sma U))) (undo_adj (up_undos U) un) sops"
    and r: "semop_spec K (undo_adj (up_undos U) un) (vals (sem_base (up_sma U))) sops = SEMOP_OK"
  shows "scan_ok K (performed K pid sops un U)"
proof -
  let ?V = "performed K pid sops un U"
  have u: "adj_ok (up_undos ?V)"
    "\<And>un'. map_option length (undo_adj (up_undos ?V) un') = map_option length (undo_adj (up_undos U) un')"
    using new_undos [OF so scan_okD(3) [OF U]] by (simp_all add: performed_def new_adj_def)
  have "range_ok K (sem_base (up_sma ?V))"
    using scan_okD(1) [OF U] spec_range [OF r] by (auto simp: range_ok_def performed_def vals_def)
  moreover have "lists_ok (up_sleepers ?V) (up_sma ?V)"
    using lists_ok_base [OF scan_okD(2) [OF U], of "new_base SEMOP_OK pid sops (sem_base (up_sma U))"] by (simp add: performed_def)
  moreover have "\<exists>q. up_sleepers ?V s = Some q \<and> q_ok K (length (sem_base (up_sma ?V))) (up_undos ?V) q"
    if "s \<in> set (sem_pending (up_sma ?V))" for s
  proof -
    have s: "s \<in> set (sem_pending (up_sma U))" using that by (simp add: performed_def)
    obtain q where q: "up_sleepers U s = Some q" using pending_some [OF U s] by blast
    show ?thesis using q q_ok_cong [OF pending_q [OF U s q] u(2)] by (simp add: performed_def)
  qed
  ultimately show ?thesis
    using u(1) scan_okD(4-6) [OF U] by (simp add: scan_ok_def) (simp add: performed_def)
qed

lemma performed_dirty:
  assumes U: "scan_ok K U" "settled K U" and so: "sops_ok K (length (sem_base (up_sma U))) (undo_adj (up_undos U) un) sops"
    and cc: "complex_count (up_sma U) = 0"
  shows "dirty_ok K sops (performed K pid sops un U)"
  unfolding dirty_ok_def
proof (intro conjI ballI)
  let ?V = "performed K pid sops un U"
  show "complex_count (up_sma ?V) = 0" using cc by (simp add: performed_def)
  show "sem_num sop < length (sem_base (up_sma ?V))" if "sop \<in> set sops" for sop
    using so that by (simp add: sops_ok_def performed_def)
  fix t assume "t \<in> set (sem_pending (up_sma ?V))"
  then have t: "t \<in> set (sem_pending (up_sma U))" by (simp add: performed_def)
  obtain q where q: "up_sleepers U t = Some q" using pending_some [OF U(1) t] by blast
  then obtain sop where sop: "sq_sops q = [sop]"
    using single_conv [OF not_complex [OF scan_okD(2) [OF U(1)] cc t q]] by metis
  note q1 = q_single [OF pending_q [OF U(1) t q] sop]
  have qV: "up_sleepers ?V t = Some q" using q by (simp add: performed_def)
  let ?n = "sem_num sop"
  have v: "semval (sem_base (up_sma ?V) ! ?n) = semval (sem_base (up_sma U) ! ?n) + op_sum ?n sops"
    using q1(4) by (simp add: performed_def)
  have on: "on_sem (up_sleepers ?V) ?n t" using qV sop by (simp add: on_sem_def)
  have b: "blocked K U t" using U(2) t by (simp add: settled_def)
  have nn: "0 \<le> semval (sem_base (up_sma U) ! ?n)" using scan_okD(1) [OF U(1)] q1(4) by (simp add: range_ok_def)
  show "blocked K ?V t \<or> (\<exists>sop\<in>set sops. on_sem (up_sleepers ?V) (sem_num sop) t \<and>
      (sem_op sop > 0 \<or> sem_op sop < 0 \<and> semval (sem_base (up_sma ?V) ! sem_num sop) = 0))"
  proof (cases "blocked K ?V t")
    case False
    then have nb: "\<not> (sem_op sop = 0 \<and> semval (sem_base (up_sma ?V) ! ?n) \<noteq> 0 \<or> semval (sem_base (up_sma ?V) ! ?n) + sem_op sop < 0)"
      unfolding blocked_single [OF qV sop] using q1(2) by simp
    have bb: "sem_op sop = 0 \<and> semval (sem_base (up_sma U) ! ?n) \<noteq> 0 \<or> semval (sem_base (up_sma U) ! ?n) + sem_op sop < 0"
      using b unfolding blocked_single [OF q sop] by simp
    show ?thesis
    proof (cases "sem_op sop = 0")
      case True
      then have z: "semval (sem_base (up_sma ?V) ! ?n) = 0" and "op_sum ?n sops < 0" using nb bb nn v by auto
      then show ?thesis using op_sum_neg on by metis
    next
      case False
      then have "0 < op_sum ?n sops" using nb bb v by auto
      then show ?thesis using op_sum_pos on by metis
    qed
  qed simp
qed

lemma settled_otime: "settled K (U\<lparr>up_sma := (up_sma U)\<lparr>sem_otime := x\<rparr>\<rparr>) = settled K U"
  by (simp add: settled_def blocked_def q_result_def)

lemma scan_ok_otime: "scan_ok K (U\<lparr>up_sma := (up_sma U)\<lparr>sem_otime := x\<rparr>\<rparr>) = scan_ok K U"
  by (simp add: scan_ok_def lists_ok_def)

lemma serves_tasks: "serves K ts U W \<Longrightarrow> scan_ok K U \<Longrightarrow> up_tasks W = up_tasks U @ ts"
proof (induction rule: serves.induct)
  case (serves_Cons t U V ts W)
  obtain q pid where q: "up_sleepers U t = Some q" "sq_pid q = Q_PID pid" using pendingE [OF serves_Cons.prems serves_Cons.hyps(1)] .
  have V: "V = served K t q pid U" using serve_served [OF serves_Cons.prems serves_Cons.hyps(1) q] serves_Cons.hyps(3) by simp
  have "scan_ok K V" unfolding V by (rule served_ok [OF serves_Cons.prems serves_Cons.hyps(1) q(1)])
  then show ?case using serves_Cons.IH by (simp add: V served_def Let_def)
qed simp

lemma smart_update_spec:
  assumes U: "scan_ok K U"
    and sops: "\<And>s. sops = Some s \<Longrightarrow> complex_count (up_sma U) = 0 \<Longrightarrow> dirty_ok K s U"
  shows "\<exists>V W ts x. do_smart_update K E sops otime U = Some V \<and> serves K ts U W \<and> settled K W \<and>
    V = W\<lparr>up_sma := (up_sma W)\<lparr>sem_otime := x\<rparr>\<rparr>"
proof -
  have same: "W = W\<lparr>up_sma := (up_sma W)\<lparr>sem_otime := sem_otime (up_sma W)\<rparr>\<rparr>" for W :: sem_upd
    by (cases W; cases "up_sma W") simp
  have "\<exists>o' W ts. (if complex_count (up_sma U) \<noteq> 0 \<or> sops = None
            then (case update_queue K (- 1) U of None \<Rightarrow> None | Some (c, U') \<Rightarrow> Some (otime \<or> c, U'))
            else smart_loop K (the sops) otime U) = Some (o', W) \<and> serves K ts U W \<and> settled K W"
  proof (cases "complex_count (up_sma U) \<noteq> 0 \<or> sops = None")
    case True
    then show ?thesis using update_all [OF U, of "- 1"] by auto
  next
    case False
    then show ?thesis using smart_loop_spec [OF U] sops by auto
  qed
  then obtain o' W ts where W: "(if complex_count (up_sma U) \<noteq> 0 \<or> sops = None
            then (case update_queue K (- 1) U of None \<Rightarrow> None | Some (c, U') \<Rightarrow> Some (otime \<or> c, U'))
            else smart_loop K (the sops) otime U) = Some (o', W)" "serves K ts U W" "settled K W" by blast
  have "do_smart_update K E sops otime U =
      Some (W\<lparr>up_sma := (up_sma W)\<lparr>sem_otime := (if o' then get_seconds E else sem_otime (up_sma W))\<rparr>\<rparr>)"
    unfolding do_smart_update_def W(1) using same [of W] by simp
  then show ?thesis using W(2,3) by blast
qed

end
