(* ===== verification/Sem_Theorems.thy ===== *)
theory Sem_Theorems
  imports Sem_Queue
begin

text \<open>
  The properties of semaphore operations on one array: \<^verbatim>\<open>try_atomic_semop\<close> against its reference, what
  it records for \<^verbatim>\<open>SEM_UNDO\<close>, and that a wake-up is never lost.
\<close>

subsection \<open>An array and a task that waits\<close>

definition example_sem_hdr :: sem_hdr where
  "example_sem_hdr =
     \<lparr>PAGE_SIZE = 4096, sizeof_rcu_hdr = 8, sizeof_rcu_grace = 16, sizeof_rcu_sched = 32,
      IPCMNI = 32768, IPC_CREAT = 512, IPC_EXCL = 1024, IPC_NOWAIT = 2048, IPC_64_bit = 256,
      S_IRWXUGO = 511, S_IRUGO = 292, S_IWUGO = 146, high2lowuid = ucast, high2lowgid = ucast,
      sizeof_sem_array = 136, sizeof_sem = 24, sizeof_sem_undo = 80, sizeof_short = 2, sizeof_sembuf = 6,
      SEMMSL = 250, SEMMNS = 32000, SEMOPM = 32, SEMMNI = 128, SEMVMX = 32767, SEMAEM = 32767,
      SEMMNU = 32000, SEMMAP = 32000, SEMUME = 32, SEMUSZ = 20, SEM_UNDO = 4096,
      sem_decode = (\<lambda>c. if c = 0 then IPC_RMID else if c = 1 then IPC_SET else if c = 2 then IPC_STAT
                        else if c = 16 then CMD SETVAL else BAD_CMD)\<rparr>"

definition example_sem_env :: sem_env where
  "example_sem_env =
     \<lparr>kmalloc = (\<lambda>n. Some 65536), vmalloc = (\<lambda>n. Some 1048576),
      current = 7, current_tgid = 7, current_euid = 1000, current_egid = 100,
      in_group_p = (\<lambda>g. g = 100), ns_capable = (\<lambda>c. False), get_seconds = 1300000000,
      idr_pre_get = True, idr_get_new = first_free 3 0, security_ipc_permission = (\<lambda>q f. None),
      others = (\<lambda>n ns. ns), security_sem_alloc = None, security_sem_associate = (\<lambda>s f. None),
      security_sem_semctl = (\<lambda>s c. None), security_sem_semop = (\<lambda>s l a. None),
      sops_kmalloc_ok = True, io_alloc_ok = True, undo_list_kzalloc = Some 500, undo_kzalloc = (\<lambda>n. Some 600),
      user_sops = (\<lambda>n. None), user_timespec = None, timespec_to_jiffies = (\<lambda>t. 0), schedule_timeout = 0,
      user_vals = (\<lambda>n. None), vals_copy_ok = True, sem_copy_ok = True, user_semid64 = None, user_semid = None\<rparr>"

definition sop :: "nat \<Rightarrow> int \<Rightarrow> flags \<Rightarrow> sembuf" where
  "sop n d f = \<lparr>sem_num = n, sem_op = d, sem_flg = f\<rparr>"

text \<open>Task 9 waits for the second semaphore to become 2, with an undo structure.\<close>

definition example_waiter :: sem_queue where
  "example_waiter =
     \<lparr>sq_undo = Some 600, sq_pid = Q_PID 9, sq_status = Q_EINTR, sq_sops = [sop 1 (- 2) 4096], sq_alter = True,
      sq_semid = 0, sq_timeout = False\<rparr>"

definition example_array :: sem_array where
  "example_array =
     \<lparr>sem_perm = example_perm, sem_otime = 0, sem_ctime = 0,
      sem_base = [\<lparr>semval = 3, sempid = 0, sem_simple = []\<rparr>, \<lparr>semval = 1, sempid = 0, sem_simple = [9]\<rparr>],
      sem_pending = [9], list_id = [600], sem_nsems = 2, complex_count = 0\<rparr>"

definition example_upd :: sem_upd where
  "example_upd =
     \<lparr>up_sma = example_array, up_undos = [600 \<mapsto> \<lparr>un_semid = 0, un_semadj = [0, 0], un_ulp = 500\<rparr>],
      up_sleepers = [9 \<mapsto> example_waiter], up_tasks = []\<rparr>"

lemmas example_sem_defs =
  example_sem_hdr_def example_waiter_def example_array_def example_upd_def sop_def

lemma example_scan_ok: "scan_ok example_sem_hdr example_upd"
  by (simp add: scan_ok_def range_ok_def lists_ok_def adj_ok_def q_ok_def sops_ok_def undo_op_def undo_adj_def
      on_sem_def is_complex_def example_sem_defs less_Suc_eq)

lemma example_settled: "settled example_sem_hdr example_upd"
  by (simp add: settled_def blocked_def q_result_def vals_def op_check_def would_block_def example_sem_defs)

subsection \<open>Atomicity\<close>

text \<open>
  C11. \<^verbatim>\<open>try_atomic_semop\<close> does all of its operations or none. The verdict on each operation looks at
  the value its semaphore had before the call plus what earlier operations of the call add. If all
  verdicts are good, every semaphore gets the sum of its operations and the process id, and every
  adjustment loses the sum of the operations with \<^verbatim>\<open>SEM_UNDO\<close>, cut to a short. Otherwise the result is the verdict on
  the first operation that is refused, and semaphores and adjustments are as before.
\<close>

theorem semop_atomic:
  assumes "sops_ok K (length base) adj sops"
  shows "if \<forall>i<length sops. verdict K adj (vals base) sops i = SEMOP_OK
    then try_atomic_semop K base sops adj pid =
      (SEMOP_OK, stamp pid sops (add_vals (\<lambda>n. op_sum n sops) base), map_option (sub_adj K sops) adj)
    else \<exists>i<length sops. (\<forall>j<i. verdict K adj (vals base) sops j = SEMOP_OK) \<and>
      verdict K adj (vals base) sops i \<noteq> SEMOP_OK \<and>
      try_atomic_semop K base sops adj pid = (verdict K adj (vals base) sops i, base, adj)"
proof (cases "\<forall>i<length sops. verdict K adj (vals base) sops i = SEMOP_OK")
  case True
  then have "semop_spec K adj (vals base) sops = SEMOP_OK"
    using semop_spec_verdicts [of K adj "vals base" sops] by blast
  then show ?thesis using True by (simp add: try_atomic_spec [OF assms])
next
  case False
  then obtain i where i: "i < length sops" "\<forall>j<i. verdict K adj (vals base) sops j = SEMOP_OK"
    "verdict K adj (vals base) sops i \<noteq> SEMOP_OK" "semop_spec K adj (vals base) sops = verdict K adj (vals base) sops i"
    using semop_spec_verdicts [of K adj "vals base" sops] by blast
  then have "try_atomic_semop K base sops adj pid = (verdict K adj (vals base) sops i, base, adj)"
    by (simp add: try_atomic_spec [OF assms] split: semop_result.split)
  then show ?thesis unfolding if_not_P [OF False] using i(1-3) by blast
qed

theorem semop_atomic_witness:
  "sops_ok example_sem_hdr (length (sem_base example_array)) (Some [0, 0]) [sop 0 (- 3) 4096, sop 0 0 0, sop 1 1 0] \<and>
   try_atomic_semop example_sem_hdr (sem_base example_array) [sop 0 (- 3) 4096, sop 0 0 0, sop 1 1 0] (Some [0, 0]) 42 =
     (SEMOP_OK, [\<lparr>semval = 0, sempid = 42, sem_simple = []\<rparr>, \<lparr>semval = 2, sempid = 42, sem_simple = [9]\<rparr>], Some [3, 0])"
proof -
  let ?s = "[sop 0 (- 3) 4096, sop 0 0 0, sop 1 1 0]"
  have o: "sops_ok example_sem_hdr (length (sem_base example_array)) (Some [0, 0]) ?s"
    by (simp add: sops_ok_def example_sem_defs)
  have v: "\<forall>i<length ?s. verdict example_sem_hdr (Some [0, 0]) (vals (sem_base example_array)) ?s i = SEMOP_OK"
    by (simp add: verdict_def op_check_def vals_def undo_op_def example_sem_defs less_Suc_eq numeral_3_eq_3)
  have "stamp 42 ?s (add_vals (\<lambda>n. op_sum n ?s) (sem_base example_array)) =
      [\<lparr>semval = 0, sempid = 42, sem_simple = []\<rparr>, \<lparr>semval = 2, sempid = 42, sem_simple = [9]\<rparr>]"
    "sub_adj example_sem_hdr ?s [0, 0] = [3, 0]"
    by (simp_all add: stamp_def add_vals_def sub_adj_def undo_op_def c_short_id example_sem_defs upt_rec)
  then show ?thesis using semop_atomic [OF o, of 42] v o by simp
qed

subsection \<open>Undo adjustments\<close>

text \<open>
  C13. When no semaphore is named by two operations with \<^verbatim>\<open>SEM_UNDO\<close> and \<^verbatim>\<open>SEMAEM\<close> fits in a short, what a
  successful call records is exact: the adjustment of every semaphore is what it was minus the
  operation done with \<^verbatim>\<open>SEM_UNDO\<close>, and it stays between \<open>- SEMAEM - 1\<close> and \<open>SEMAEM\<close>.
\<close>

theorem semadj_exact:
  assumes "sops_ok K (length base) (Some a) sops" and "length a = length base" and "0 \<le> SEMAEM K" "SEMAEM K \<le> 32767"
    and "\<forall>n<length a. - SEMAEM K - 1 \<le> a ! n \<and> a ! n \<le> SEMAEM K"
    and "distinct (map sem_num (filter (undo_op K) sops))"
    and "try_atomic_semop K base sops (Some a) pid = (SEMOP_OK, base', Some a')"
  shows "length a' = length a \<and>
    (\<forall>n<length a. a' ! n = a ! n - undo_sum K n sops \<and> - SEMAEM K - 1 \<le> a' ! n \<and> a' ! n \<le> SEMAEM K)"
proof -
  have s: "semop_spec K (Some a) (vals base) sops = SEMOP_OK" "a' = sub_adj K sops a"
    using assms(7) by (auto simp: try_atomic_spec [OF assms(1)] split: semop_result.splits)
  have v: "\<forall>i<length sops. verdict K (Some a) (vals base) sops i = SEMOP_OK"
    using semop_spec_verdicts [of K "Some a" "vals base" sops] s(1) by auto
  have one: "undo_sum K n sops = sem_op sop" if "sop \<in> set sops" "undo_op K sop" "sem_num sop = n" for n sop
    using assms(6) that
  proof (induction sops)
    case (Cons x xs)
    show ?case
    proof (cases "sop = x")
      case True
      then have "n \<notin> sem_num ` set (filter (undo_op K) xs)" using Cons.prems by auto
      then show ?thesis using True Cons.prems undo_sum_zero by fastforce
    next
      case False
      then have "sem_num x \<noteq> n" if "undo_op K x" using that Cons.prems by force
      then show ?thesis using Cons False by (auto split: if_splits)
    qed
  qed simp
  have "a' ! n = a ! n - undo_sum K n sops \<and> - SEMAEM K - 1 \<le> a' ! n \<and> a' ! n \<le> SEMAEM K" if n: "n < length a" for n
  proof (cases "n \<in> sem_num ` set (filter (undo_op K) sops)")
    case False
    then show ?thesis using assms(5) n undo_sum_zero [OF False] unfolding s(2) by (simp add: sub_adj_def)
  next
    case True
    then obtain i where i: "i < length sops" "undo_op K (sops ! i)" "sem_num (sops ! i) = n"
      by (auto simp: in_set_conv_nth)
    then have "- SEMAEM K - 1 \<le> a ! n - sem_op (sops ! i)" "a ! n - sem_op (sops ! i) \<le> SEMAEM K"
      using v by (auto simp: verdict_def op_check_def would_block_def split: if_splits)
    moreover have "undo_sum K n sops = sem_op (sops ! i)" using one [OF nth_mem [OF i(1)] i(2,3)] .
    ultimately show ?thesis using True n assms(3,4) unfolding s(2) by (simp add: sub_adj_def c_short_id)
  qed
  moreover have "length a' = length a" using s(2) by simp
  ultimately show ?thesis by blast
qed

theorem semadj_exact_witness:
  "\<exists>base'. try_atomic_semop example_sem_hdr (sem_base example_array) [sop 0 (- 3) 4096, sop 1 7 4096] (Some [0, 5]) 42 =
     (SEMOP_OK, base', Some [3, - 2])"
proof -
  let ?K = example_sem_hdr and ?b = "sem_base example_array" and ?s = "[sop 0 (- 3) 4096, sop 1 7 4096]"
  have o: "sops_ok ?K (length ?b) (Some [0, 5]) ?s"
    by (simp add: sops_ok_def example_sem_defs)
  have "semop_spec ?K (Some [0, 5]) (vals ?b) ?s = SEMOP_OK"
    by (simp add: op_check_def vals_def undo_op_def example_sem_defs)
  then obtain base' a' where r: "try_atomic_semop ?K ?b ?s (Some [0, 5]) 42 = (SEMOP_OK, base', Some a')"
    using try_atomic_spec [OF o, of 42] by (simp del: semop_spec.simps)
  have "length a' = length [0::int, 5] \<and>
      (\<forall>n<length [0::int, 5]. a' ! n = [0, 5] ! n - undo_sum ?K n ?s \<and> - SEMAEM ?K - 1 \<le> a' ! n \<and> a' ! n \<le> SEMAEM ?K)"
    by (rule semadj_exact [OF o _ _ _ _ _ r]) (simp_all add: undo_op_def example_sem_defs less_Suc_eq)
  moreover have "undo_sum ?K 0 ?s = - 3" "undo_sum ?K 1 ?s = 7" by (simp_all add: undo_op_def example_sem_defs)
  ultimately have "length a' = length [3::int, - 2]" "\<forall>n<length [0::int, 5]. a' ! n = [3, - 2] ! n"
    by (simp_all add: less_Suc_eq)
  then have "a' = [3, - 2]" by (intro nth_equalityI) simp_all
  then show ?thesis using r by blast
qed

text \<open>The operations without their request to be undone.\<close>

definition no_undo :: "'h sem_hdr_scheme \<Rightarrow> sembuf \<Rightarrow> sembuf" where
  "no_undo K x = x\<lparr>sem_flg := sem_flg x AND NOT (SEM_UNDO K)\<rparr>"

lemma no_undo_simps [simp]:
  "sem_num (no_undo K x) = sem_num x" "sem_op (no_undo K x) = sem_op x" "\<not> undo_op K (no_undo K x)"
proof -
  have "(f AND NOT m) AND m = 0" for f m :: flags by (rule bit_eqI) (auto simp: bit_and_iff bit_not_iff)
  then show "sem_num (no_undo K x) = sem_num x" "sem_op (no_undo K x) = sem_op x" "\<not> undo_op K (no_undo K x)"
    by (simp_all add: no_undo_def undo_op_def)
qed

lemma semop_spec_undo:
  assumes "semop_spec K None v (map (no_undo K) sops) = SEMOP_OK"
    and "\<forall>sop\<in>set sops. undo_op K sop \<longrightarrow> - SEMAEM K - 1 \<le> a ! sem_num sop - sem_op sop \<and> a ! sem_num sop - sem_op sop \<le> SEMAEM K"
  shows "semop_spec K (Some a) v sops = SEMOP_OK"
  using assms
proof (induction sops arbitrary: v)
  case (Cons sop sops)
  have n: "op_check K None (v (sem_num sop)) (no_undo K sop) = SEMOP_OK"
    using Cons.prems(1) by (auto split: semop_result.splits)
  then have "op_check K (Some a) (v (sem_num sop)) sop = SEMOP_OK"
    using Cons.prems(2) by (auto simp: op_check_def would_block_def split: if_splits)
  then show ?case using Cons n by simp
qed simp

lemma c_short_mod: "c_short x mod 65536 = x mod 65536"
  using take_bit_signed_take_bit [of 16 15 x] by (simp add: c_short_def take_bit_eq_mod)

text \<open>
  C14. The range check of \<^verbatim>\<open>SEM_UNDO\<close> looks at each operation of a call alone. Take any call that would
  succeed without \<^verbatim>\<open>SEM_UNDO\<close>, and let each of its operations with \<^verbatim>\<open>SEM_UNDO\<close> by itself keep the adjustment
  the process has in range. Then the call succeeds, and the new adjustment of a semaphore is the exact one
  (the old one minus all the operations on it) only modulo 65536: where the exact one does not fit in a
  short, the process is recorded with a wrong one. This takes two such operations on one semaphore, as
  adding 30000 twice and taking it off in between.
\<close>

theorem semadj_wraps:
  assumes "sops_ok K (length base) (Some a) sops" and "length a = length base"
    and "\<forall>n<length a. - 32768 \<le> a ! n \<and> a ! n \<le> 32767"
    and "fst (try_atomic_semop K base (map (no_undo K) sops) None pid) = SEMOP_OK"
    and "\<forall>sop\<in>set sops. undo_op K sop \<longrightarrow> - SEMAEM K - 1 \<le> a ! sem_num sop - sem_op sop \<and> a ! sem_num sop - sem_op sop \<le> SEMAEM K"
  shows "\<exists>base' a'. try_atomic_semop K base sops (Some a) pid = (SEMOP_OK, base', Some a') \<and> length a' = length a \<and>
    (\<forall>n<length a. let exact = a ! n - undo_sum K n sops
       in a' ! n mod 65536 = exact mod 65536 \<and> - 32768 \<le> a' ! n \<and> a' ! n \<le> 32767 \<and>
          (exact < - 32768 \<or> 32767 < exact \<longrightarrow> a' ! n \<noteq> exact))"
proof -
  have "sops_ok K (length base) None (map (no_undo K) sops)" using assms(1) by (auto simp: sops_ok_def)
  then have "semop_spec K None (vals base) (map (no_undo K) sops) = SEMOP_OK"
    using assms(4) by (auto simp: try_atomic_spec split: semop_result.splits)
  then have s: "semop_spec K (Some a) (vals base) sops = SEMOP_OK" by (rule semop_spec_undo [OF _ assms(5)])
  have n: "sub_adj K sops a ! n = c_short (a ! n - undo_sum K n sops)" if "n < length a" for n
    using that assms(3) undo_sum_zero [of n K sops] by (auto simp: sub_adj_def c_short_id)
  have "let exact = a ! n - undo_sum K n sops
       in sub_adj K sops a ! n mod 65536 = exact mod 65536 \<and> - 32768 \<le> sub_adj K sops a ! n \<and> sub_adj K sops a ! n \<le> 32767 \<and>
          (exact < - 32768 \<or> 32767 < exact \<longrightarrow> sub_adj K sops a ! n \<noteq> exact)" if "n < length a" for n
    unfolding n [OF that] Let_def using c_short_mod c_short_range [of "a ! n - undo_sum K n sops"] by auto
  then show ?thesis using assms(1) by (simp add: try_atomic_spec s)
qed

theorem semadj_wraps_witness:
  "\<exists>base' x. try_atomic_semop example_sem_hdr [\<lparr>semval = 0, sempid = 0, sem_simple = []\<rparr>]
       [sop 0 30000 4096, sop 0 (- 30000) 0, sop 0 30000 4096] (Some [0]) 42 = (SEMOP_OK, base', Some [x]) \<and> x \<noteq> - 60000"
proof -
  let ?K = example_sem_hdr and ?b = "[\<lparr>semval = 0, sempid = 0, sem_simple = []\<rparr> :: sem]"
    and ?s = "[sop 0 30000 4096, sop 0 (- 30000) 0, sop 0 30000 4096]"
  have o: "sops_ok ?K (length ?b) (Some [0]) ?s" by (simp add: sops_ok_def example_sem_defs)
  have t: "fst (try_atomic_semop ?K ?b (map (no_undo ?K) ?s) None 42) = SEMOP_OK"
    by (simp add: try_atomic_semop_def no_undo_def example_sem_defs Let_def)
  have "\<exists>base' a'. try_atomic_semop ?K ?b ?s (Some [0]) 42 = (SEMOP_OK, base', Some a') \<and> length a' = length [0 :: int] \<and>
    (\<forall>n<length [0 :: int]. let exact = [0] ! n - undo_sum ?K n ?s
       in a' ! n mod 65536 = exact mod 65536 \<and> - 32768 \<le> a' ! n \<and> a' ! n \<le> 32767 \<and>
          (exact < - 32768 \<or> 32767 < exact \<longrightarrow> a' ! n \<noteq> exact))"
    by (rule semadj_wraps [OF o _ _ t]) (simp_all add: undo_op_def example_sem_defs)
  moreover have "undo_sum ?K 0 ?s = 60000" by (simp add: undo_op_def example_sem_defs)
  ultimately obtain base' a' where a': "try_atomic_semop ?K ?b ?s (Some [0]) 42 = (SEMOP_OK, base', Some a')" "length a' = 1" "a' ! 0 \<noteq> - 60000"
    by (auto simp: Let_def)
  moreover have "a' = [a' ! 0]" using a'(2) by (cases a') simp_all
  ultimately show ?thesis by metis
qed

subsection \<open>No lost wake-up\<close>

text \<open>
  C12. After a successful operation of any task, \<^verbatim>\<open>do_smart_update\<close> returns; it completes, one after the
  other and each as \<^verbatim>\<open>try_atomic_semop\<close> does it alone, operations of waiting tasks that do not block at
  that moment; and when it is over every operation that still waits would block. The lists and counters of the array
  stay consistent.
\<close>

theorem semop_no_lost_wakeup:
  assumes "scan_ok K U" and "settled K U"
    and "sops_ok K (length (sem_base (up_sma U))) (undo_adj (up_undos U) un) sops"
    and "try_atomic_semop K (sem_base (up_sma U)) sops (undo_adj (up_undos U) un) pid = (SEMOP_OK, base, adj)"
    and "U' = U\<lparr>up_sma := (up_sma U)\<lparr>sem_base := base\<rparr>, up_undos := set_undo_adj un adj (up_undos U)\<rparr>"
  shows "\<exists>V W ts x. do_smart_update K E (Some sops) True U' = Some V \<and> V = W\<lparr>up_sma := (up_sma W)\<lparr>sem_otime := x\<rparr>\<rparr> \<and>
    serves K ts U' W \<and> up_tasks V = up_tasks U @ ts \<and> scan_ok K V \<and> settled K V"
proof -
  have s: "semop_spec K (undo_adj (up_undos U) un) (vals (sem_base (up_sma U))) sops = SEMOP_OK"
    using assms(4) by (auto simp: try_atomic_spec [OF assms(3)] split: semop_result.splits)
  have U': "U' = performed K pid sops un U"
    using assms(4,5) s by (simp add: try_result [OF assms(3)] performed_def)
  have ok: "scan_ok K U'" unfolding U' by (rule performed_ok [OF assms(1,3) s])
  have d: "dirty_ok K sops U'" if "complex_count (up_sma U') = 0"
    using performed_dirty [OF assms(1,2,3)] that unfolding U' by (simp add: performed_def)
  obtain V W ts x where W: "do_smart_update K E (Some sops) True U' = Some V" "serves K ts U' W" "settled K W"
    "V = W\<lparr>up_sma := (up_sma W)\<lparr>sem_otime := x\<rparr>\<rparr>"
    using smart_update_spec [OF ok, of "Some sops" E True] d by auto
  have "scan_ok K W" by (rule serves_ok [OF W(2) ok])
  moreover have "up_tasks W = up_tasks U' @ ts" by (rule serves_tasks [OF W(2) ok])
  ultimately show ?thesis using W assms(5) by (auto simp: settled_otime scan_ok_otime)
qed

theorem semop_no_lost_wakeup_witness:
  "\<exists>base adj V ts. try_atomic_semop example_sem_hdr (sem_base example_array) [sop 1 1 0] None 42 = (SEMOP_OK, base, adj) \<and>
     do_smart_update example_sem_hdr example_sem_env (Some [sop 1 1 0]) True
       (example_upd\<lparr>up_sma := example_array\<lparr>sem_base := base\<rparr>, up_undos := set_undo_adj None adj (up_undos example_upd)\<rparr>) = Some V \<and>
     up_tasks V = ts \<and> settled example_sem_hdr V"
proof -
  let ?K = example_sem_hdr and ?b = "sem_base example_array" and ?U = example_upd
  have e: "up_sma ?U = example_array" "up_tasks ?U = []" by (simp_all add: example_upd_def)
  have o: "sops_ok ?K (length (sem_base (up_sma ?U))) (undo_adj (up_undos ?U) None) [sop 1 1 0]"
    by (simp add: sops_ok_def undo_op_def example_sem_defs)
  have "semop_spec ?K (undo_adj (up_undos ?U) None) (vals (sem_base (up_sma ?U))) [sop 1 1 0] = SEMOP_OK"
    by (simp add: op_check_def vals_def undo_op_def example_sem_defs)
  then obtain base adj where r:
    "try_atomic_semop ?K (sem_base (up_sma ?U)) [sop 1 1 0] (undo_adj (up_undos ?U) None) 42 = (SEMOP_OK, base, adj)"
    using try_atomic_spec [OF o, of 42] by (simp del: semop_spec.simps)
  show ?thesis
    using semop_no_lost_wakeup [OF example_scan_ok example_settled o r HOL.refl, of example_sem_env] r e
    by (auto simp: undo_adj_def)
qed

end
