(* ===== verification/Ipc_Counts.thy ===== *)
theory Ipc_Counts
  imports Ipc_Util
begin

text \<open>
  Reference counts of a family of objects, as the clients of \<^verbatim>\<open>ipc/alloc.c\<close> see them: \<open>counted K m c\<close>
  says that every object \<open>c\<close> knows is in memory with the count that \<open>c\<close> gives it.
\<close>

definition counted :: "'h alloc_hdr_scheme \<Rightarrow> ipc_mem \<Rightarrow> (addr \<rightharpoonup> int) \<Rightarrow> bool" where
  "counted K m c \<longleftrightarrow> rcu_inv K m \<and> (\<forall>p n. c p = Some n \<longrightarrow> rcu_count K m p = Some n)"

lemma countedD: "counted K m c \<Longrightarrow> rcu_inv K m" "counted K m c \<Longrightarrow> c p = Some n \<Longrightarrow> rcu_count K m p = Some n"
  by (auto simp: counted_def)

lemma counted_get:
  assumes "counted K m c" and "c p = Some n"
  shows "\<exists>m'. ipc_rcu_getref K p m = Some m' \<and> counted K m' (c(p \<mapsto> n + 1))"
proof -
  obtain m' where m': "ipc_rcu_getref K p m = Some m'" "rcu_count K m' = (rcu_count K m)(p \<mapsto> n + 1)"
    using rcu.get_live [OF countedD(2) [OF assms]] by blast
  then have "counted K m' (c(p \<mapsto> n + 1))"
    using assms getref_inv [OF countedD(1) [OF assms(1)] m'(1)] by (auto simp: counted_def)
  then show ?thesis using m'(1) by blast
qed

lemma counted_put:
  assumes K: "alloc_hdr_ok K" and c: "counted K m c" "c p = Some n" and n: "1 \<le> n"
  shows "\<exists>m'. ipc_rcu_putref K p m = Some m' \<and>
    (if n = 1 then hdrs m' (container_hdr K p) = None \<and> counted K m' (c(p := None))
     else hdrs m' (container_hdr K p) \<noteq> None \<and> counted K m' (c(p \<mapsto> n - 1)))"
proof (cases "n = 1")
  case True
  obtain m' where m': "ipc_rcu_putref K p m = Some m'" "rcu_count K m' = (rcu_count K m)(p := None)"
    using rcu.put_last [OF countedD(2) [OF c]] True by auto
  have "hdrs m' (container_hdr K p) = None" using fun_cong [OF m'(2), of p] by (simp add: rcu_count_def)
  moreover have "counted K m' (c(p := None))"
    using putref_inv [OF K countedD(1) [OF c(1)] m'(1)] c m'(2) by (auto simp: counted_def)
  ultimately show ?thesis using m'(1) True by simp
next
  case False
  then obtain m' where m': "ipc_rcu_putref K p m = Some m'" "rcu_count K m' = (rcu_count K m)(p \<mapsto> n - 1)"
    using rcu.put_live [OF countedD(2) [OF c]] n by auto
  have "hdrs m' (container_hdr K p) \<noteq> None" using fun_cong [OF m'(2), of p] by (auto simp: rcu_count_def)
  moreover have "counted K m' (c(p \<mapsto> n - 1))"
    using putref_inv [OF K countedD(1) [OF c(1)] m'(1)] c m'(2) by (auto simp: counted_def)
  ultimately show ?thesis using m'(1) False by simp
qed

lemma counted_new:
  assumes K: "alloc_hdr_ok K" and c: "counted K m c" and E: "alloc_env_ok E m"
    and a: "ipc_rcu_alloc K E sz m = (Some p, m')"
  shows "c p = None" and "counted K m' (c(p \<mapsto> 1))"
proof -
  note C = rcu_alloc_count [OF K countedD(1) [OF c] E a]
  show "c p = None" using C(1) c by (cases "c p") (auto simp: counted_def)
  have "rcu_inv K m'" using alloc_inv [OF K countedD(1) [OF c] E, of sz] a by simp
  then show "counted K m' (c(p \<mapsto> 1))" using c C(2) by (auto simp: counted_def)
qed

text \<open>An object that is dropped right after it has been allocated.\<close>

lemma counted_new_put:
  assumes K: "alloc_hdr_ok K" and c: "counted K m c" and E: "alloc_env_ok E m"
    and a: "ipc_rcu_alloc K E sz m = (Some p, m')"
  shows "\<exists>m''. ipc_rcu_putref K p m' = Some m'' \<and> counted K m'' c"
proof -
  have n: "c p = None" "counted K m' (c(p \<mapsto> 1))" using counted_new [OF assms] by simp_all
  obtain m'' where m'': "ipc_rcu_putref K p m' = Some m''" "counted K m'' ((c(p \<mapsto> 1))(p := None))"
    using counted_put [OF K n(2), of p 1] by auto
  have "(c(p \<mapsto> 1))(p := None) = c" using n(1) by (simp add: fun_eq_iff)
  then show ?thesis using m'' by metis
qed

lemma counted_sub: "counted K m c \<Longrightarrow> c' \<subseteq>\<^sub>m c \<Longrightarrow> counted K m c'"
  by (auto simp: counted_def map_le_def dom_def)

end
