(* ===== verification/Ipc_Mqueue.thy ===== *)
theory Ipc_Mqueue
  imports Msg_Util
begin

text \<open>
  \<^verbatim>\<open>ipc/mqueue.c\<close>: POSIX message queues.

  A namespace is a \<open>mq_ns\<close>: the limits and the number of queues of \<^verbatim>\<open>struct ipc_namespace\<close>, the
  inodes with their \<^verbatim>\<open>struct mqueue_inode_info\<close>, the directory of the file system (names), open files
  and descriptors, the bytes charged to users, the blocks that hold messages and the tasks that
  sleep. The \<^verbatim>\<open>struct ext_wait_queue\<close> of a sleeping task is in its frame, and the wait queues hold
  tasks. What the virtual file system decides (lookup and permission errors, descriptors) and the
  signal and netlink code are parameters; the notifications sent are recorded in \<open>events\<close>. Of the life of
  inodes and files the model has what \<^verbatim>\<open>mqueue.c\<close> relies on: an inode is counted by the names and the open
  files that refer to it and evicted with the last one, a file is counted by its descriptors and the calls
  that use it (\<open>open_inode\<close>, \<open>iput\<close>, \<open>fget\<close>, \<open>fput\<close>, \<open>close_fd\<close>).
\<close>

subsection \<open>State\<close>

record mq_attr =
  mq_flags :: flags
  mq_maxmsg :: int
  mq_msgsize :: int
  mq_curmsgs :: int

datatype sigev = SIGEV_NONE | SIGEV_SIGNAL | SIGEV_THREAD | SIGEV_OTHER

record sigevent =
  sigev_notify :: sigev
  sigev_signo :: int
  sigev_value :: int

text \<open>
  The pointer \<^verbatim>\<open>info->messages\<close>: what the slab object held before, \<^verbatim>\<open>NULL\<close>, or a table of
  \<^verbatim>\<open>mq_maxmsg\<close> slots, which are empty until they are written.
\<close>

datatype msg_table = Garbage | Null | Table "msg_msg option list"

record mqueue_inode_info =
  messages :: msg_table
  attr :: mq_attr
  notify :: sigevent
  notify_owner :: "int option"
  mq_user :: "nat option"
  notify_sock :: "nat option"
  notify_cookie :: "nat option"
  wait_send :: "task list"
  wait_recv :: "task list"
  qsize :: ulong
  i_count :: int

record mq_file =
  f_inode :: addr
  f_read :: bool
  f_write :: bool
  f_nonblock :: bool
  f_count :: int

text \<open>A descriptor is for a queue or for some other file.\<close>

datatype fdent = MqFile addr | OtherFile

datatype direction = SEND | RECV

datatype wait_state = STATE_NONE | STATE_PENDING | STATE_READY

record ext_wait =
  w_file :: addr
  w_dir :: direction
  w_msg :: "msg_msg option"
  w_state :: wait_state
  w_dest :: addr
  w_prio :: bool

text \<open>A signal to a process, or a cookie sent to a socket with \<^verbatim>\<open>NOTIFY_WOKENUP\<close> (\<open>True\<close>) or \<^verbatim>\<open>NOTIFY_REMOVED\<close>.\<close>

datatype event = Signal int int int | Cookie nat nat bool

text \<open>One pass of the loop at \<^verbatim>\<open>retry\<close> of \<^verbatim>\<open>mq_notify\<close>: is the descriptor open, what does
  \<^verbatim>\<open>netlink_getsockbyfilp\<close> answer, and \<^verbatim>\<open>netlink_attachskb\<close>: 0, 1 (try again) or an error.\<close>

datatype attach_result = Attached | AttachAgain | AttachErr errno

record attach_try =
  try_fget :: bool
  try_sock :: "errno + nat"
  try_attach :: attach_result

record mq_ns =
  mq_queues_count :: int
  mq_queues_max :: int
  mq_msg_max :: int
  mq_msgsize_max :: int
  sb_alive :: bool
  inodes :: "addr \<rightharpoonup> mqueue_inode_info"
  names :: "string \<rightharpoonup> addr"
  files :: "addr \<rightharpoonup> mq_file"
  fds :: "nat \<rightharpoonup> fdent"
  user_bytes :: "nat \<Rightarrow> ulong"
  mq_blocks :: mblocks
  waits :: "task \<rightharpoonup> ext_wait"
  mq_asleep :: "task set"
  events :: "event list"
  sock_refs :: "nat \<Rightarrow> int"

record mq_hdr = msg_hdr +
  sizeof_ptr :: ulong
  HARD_MSGMAX :: int
  MQ_PRIO_MAX :: nat
  DFLT_QUEUESMAX :: int
  DFLT_MSGMAX :: int
  DFLT_MSGSIZEMAX :: int
  O_CREAT :: flags
  O_EXCL :: flags
  O_NONBLOCK :: flags
  O_ACCMODE :: flags
  O_RDWR :: flags
  O_WRONLY :: flags

record mq_env = msg_env +
  mq_capable :: "capability \<Rightarrow> bool"
  mq_signal_pending :: bool
  mq_current_user :: nat
  mq_uid :: int
  rlimit_msgqueue :: ulong
  static_prio :: "task \<Rightarrow> int"
  new_inode :: "addr option"
  table_kmalloc_ok :: bool
  getname :: "errno + string"
  unused_fd :: "errno + nat"
  lookup_err :: "errno option"
  want_write_err :: "errno option"
  vfs_create_err :: "errno option"
  vfs_unlink_err :: "errno option"
  inode_permission_ok :: bool
  dentry_open :: "errno + addr"
  user_attr :: "mq_attr option"
  attr_copy_ok :: bool
  user_ts :: "(int \<times> int) option"
  hrtimeout :: int
  put_prio_ok :: bool
  user_sigevent :: "sigevent option"
  valid_signal :: "int \<Rightarrow> bool"
  alloc_skb :: "nat option"
  cookie_copy_ok :: bool
  attach_tries :: "attach_try list"

subsection \<open>Sizes\<close>

definition mq_calculate_sizes :: "'h mq_hdr_scheme \<Rightarrow> mq_attr \<Rightarrow> (ulong \<times> ulong) option" where
  "mq_calculate_sizes K a =
     (case l30_size_array_bytes (word_of_int (mq_maxmsg a)) (sizeof_ptr K) of
        None \<Rightarrow> None
      | Some table_bytes \<Rightarrow>
          (case l30_size_records_bytes (word_of_int (mq_maxmsg a)) (word_of_int (mq_msgsize a)) (sizeof_ptr K) of
             None \<Rightarrow> None
           | Some queue_bytes \<Rightarrow> Some (table_bytes, queue_bytes)))"

definition mq_attr_ok :: "'h mq_hdr_scheme \<Rightarrow> 'e mq_env_scheme \<Rightarrow> mq_ns \<Rightarrow> mq_attr \<Rightarrow> bool" where
  "mq_attr_ok K E ns a =
     (if mq_maxmsg a \<le> 0 \<or> mq_msgsize a \<le> 0 then False
      else if mq_capable E CAP_SYS_RESOURCE \<and> mq_maxmsg a > HARD_MSGMAX K then False
      else if \<not> mq_capable E CAP_SYS_RESOURCE \<and> (mq_maxmsg a > mq_msg_max ns \<or> mq_msgsize a > mq_msgsize_max ns) then False
      else mq_calculate_sizes K a \<noteq> None)"

subsection \<open>Inodes\<close>

definition set_inode :: "addr \<Rightarrow> mqueue_inode_info \<Rightarrow> mq_ns \<Rightarrow> mq_ns" where
  "set_inode i info ns = ns\<lparr>inodes := (inodes ns)(i \<mapsto> info)\<rparr>"

fun free_table :: "nat \<Rightarrow> msg_msg option list \<Rightarrow> mblocks \<Rightarrow> mblocks option" where
  "free_table 0 tbl mb = Some mb"
| "free_table (Suc n) tbl mb =
     (case tbl of
        [] \<Rightarrow> None
      | slot # tbl' \<Rightarrow>
          (case slot of
             None \<Rightarrow> None
           | Some m \<Rightarrow> (case free_msg m mb of None \<Rightarrow> None | Some mb' \<Rightarrow> free_table n tbl' mb')))"

text \<open>
  \<^verbatim>\<open>mqueue_evict_inode\<close>, when the last reference is gone: the messages and the table are freed, the
  bytes go back to the user. Freeing a table pointer that was never set is \<open>None\<close>.
\<close>

definition mqueue_evict_inode :: "'h mq_hdr_scheme \<Rightarrow> addr \<Rightarrow> mq_ns \<Rightarrow> mq_ns option" where
  "mqueue_evict_inode K i ns =
     (case inodes ns i of
        None \<Rightarrow> None
      | Some info \<Rightarrow>
          (case (case messages info of
                   Table tbl \<Rightarrow> free_table (nat (mq_curmsgs (attr info))) tbl (mq_blocks ns)
                 | Null \<Rightarrow> if mq_curmsgs (attr info) > 0 then None else Some (mq_blocks ns)
                 | Garbage \<Rightarrow> None) of
             None \<Rightarrow> None
           | Some mb \<Rightarrow>
               (let bytes = (case mq_calculate_sizes K (attr info) of None \<Rightarrow> 0 | Some (_, q) \<Rightarrow> q);
                    ns = ns\<lparr>mq_blocks := mb, inodes := (inodes ns)(i := None)\<rparr>
                in case mq_user info of
                     None \<Rightarrow> Some ns
                   | Some u \<Rightarrow>
                       Some (ns\<lparr>user_bytes := (user_bytes ns)(u := user_bytes ns u - bytes),
                                mq_queues_count :=
                                  (if sb_alive ns then mq_queues_count ns - 1 else mq_queues_count ns)\<rparr>))))"

definition iput :: "'h mq_hdr_scheme \<Rightarrow> addr \<Rightarrow> mq_ns \<Rightarrow> mq_ns option" where
  "iput K i ns =
     (case inodes ns i of
        None \<Rightarrow> None
      | Some info \<Rightarrow>
          if i_count info - 1 = 0 then mqueue_evict_inode K i ns
          else Some (set_inode i (info\<lparr>i_count := i_count info - 1\<rparr>) ns))"

text \<open>
  The part of \<^verbatim>\<open>mqueue_get_inode\<close> for a regular file: the inode is entered with one reference;
  failing drops it again.
\<close>

definition mqueue_get_inode ::
  "'h mq_hdr_scheme \<Rightarrow> 'e mq_env_scheme \<Rightarrow> mq_attr option \<Rightarrow> mq_ns \<Rightarrow> (addr option \<times> mq_ns) option" where
  "mqueue_get_inode K E at ns =
     (case new_inode E of
        None \<Rightarrow> Some (None, ns)
      | Some i \<Rightarrow>
          (let a = (case at of
                      None \<Rightarrow> \<lparr>mq_flags = 0, mq_maxmsg = mq_msg_max ns, mq_msgsize = mq_msgsize_max ns, mq_curmsgs = 0\<rparr>
                    | Some x \<Rightarrow> \<lparr>mq_flags = 0, mq_maxmsg = mq_maxmsg x, mq_msgsize = mq_msgsize x, mq_curmsgs = 0\<rparr>);
               info = \<lparr>messages = Garbage, attr = a,
                       notify = \<lparr>sigev_notify = SIGEV_OTHER, sigev_signo = 0, sigev_value = 0\<rparr>, notify_owner = None,
                       mq_user = None, notify_sock = None, notify_cookie = None, wait_send = [], wait_recv = [],
                       qsize = 0, i_count = 1\<rparr>;
               out_inode = (\<lambda>info. case iput K i (set_inode i info ns) of None \<Rightarrow> None | Some ns' \<Rightarrow> Some (None, ns'))
           in case mq_calculate_sizes K a of
                None \<Rightarrow> out_inode info
              | Some (tblsz, mq_bytes) \<Rightarrow>
                  if \<not> table_kmalloc_ok E then out_inode (info\<lparr>messages := Null\<rparr>)
                  else
                    (let info = info\<lparr>messages := Table (replicate (nat (mq_maxmsg a)) None)\<rparr>;
                         u = mq_current_user E
                     in case l30_size_add_overflow (user_bytes ns u) mq_bytes of
                          None \<Rightarrow> out_inode info
                        | Some user_mq_bytes \<Rightarrow>
                            if user_mq_bytes > rlimit_msgqueue E then out_inode info
                            else Some (Some i, set_inode i (info\<lparr>mq_user := Some u\<rparr>)
                                                 (ns\<lparr>user_bytes := (user_bytes ns)(u := user_mq_bytes)\<rparr>)))))"

text \<open>\<^verbatim>\<open>mqueue_create\<close>: the new inode gets the name; a fault is \<open>None\<close>.\<close>

definition mqueue_create ::
  "'h mq_hdr_scheme \<Rightarrow> 'e mq_env_scheme \<Rightarrow> string \<Rightarrow> mq_attr option \<Rightarrow> mq_ns \<Rightarrow> (errno option \<times> mq_ns) option" where
  "mqueue_create K E name at ns =
     (if \<not> sb_alive ns then Some (Some EACCES, ns)
      else if mq_queues_count ns \<ge> mq_queues_max ns \<and> \<not> mq_capable E CAP_SYS_RESOURCE then Some (Some ENOSPC, ns)
      else
        (case mqueue_get_inode K E at (ns\<lparr>mq_queues_count := mq_queues_count ns + 1\<rparr>) of
           None \<Rightarrow> None
         | Some (None, ns1) \<Rightarrow> Some (Some ENOMEM, ns1\<lparr>mq_queues_count := mq_queues_count ns1 - 1\<rparr>)
         | Some (Some i, ns1) \<Rightarrow> Some (None, ns1\<lparr>names := (names ns1)(name \<mapsto> i)\<rparr>)))"

definition mqueue_unlink :: "'h mq_hdr_scheme \<Rightarrow> string \<Rightarrow> mq_ns \<Rightarrow> mq_ns option" where
  "mqueue_unlink K name ns =
     (case names ns name of
        None \<Rightarrow> None
      | Some i \<Rightarrow> iput K i (ns\<lparr>names := (names ns)(name := None)\<rparr>))"

subsection \<open>Wait queues and messages\<close>

text \<open>\<^verbatim>\<open>wq_add\<close>: the task goes in front of the first one that is not more important.\<close>

fun wq_add :: "(task \<Rightarrow> int) \<Rightarrow> task \<Rightarrow> task list \<Rightarrow> task list" where
  "wq_add prio t [] = [t]"
| "wq_add prio t (w # ws) = (if prio w \<le> prio t then t # w # ws else w # wq_add prio t ws)"

definition wq_get_first_waiter :: "task list \<Rightarrow> task option" where
  "wq_get_first_waiter ws = (if ws = [] then None else Some (last ws))"

text \<open>
  The loop of \<^verbatim>\<open>msg_insert\<close>: messages that are not less important than \<open>ptr\<close> move up one slot, from
  the end; the result is the slot that becomes free. Reading an empty slot or writing behind the
  table is \<open>None\<close>.
\<close>

fun msg_shift :: "nat \<Rightarrow> msg_msg \<Rightarrow> msg_msg option list \<Rightarrow> (nat \<times> msg_msg option list) option" where
  "msg_shift 0 ptr tbl = Some (0, tbl)"
| "msg_shift (Suc k) ptr tbl =
     (if k \<ge> length tbl then None
      else
        (case tbl ! k of
           None \<Rightarrow> None
         | Some m \<Rightarrow>
             if m_type m \<ge> m_type ptr then
               (if Suc k \<ge> length tbl then None else msg_shift k ptr (tbl[Suc k := Some m]))
             else Some (Suc k, tbl)))"

definition msg_insert :: "msg_msg \<Rightarrow> mqueue_inode_info \<Rightarrow> mqueue_inode_info option" where
  "msg_insert ptr info =
     (case messages info of
        Table tbl \<Rightarrow>
          (case msg_shift (nat (mq_curmsgs (attr info))) ptr tbl of
             None \<Rightarrow> None
           | Some (k, tbl') \<Rightarrow>
               if k \<ge> length tbl' then None
               else Some (info\<lparr>messages := Table (tbl'[k := Some ptr]),
                               attr := (attr info)\<lparr>mq_curmsgs := mq_curmsgs (attr info) + 1\<rparr>,
                               qsize := qsize info + of_nat (m_ts ptr)\<rparr>))
      | _ \<Rightarrow> None)"

definition msg_get :: "mqueue_inode_info \<Rightarrow> (msg_msg \<times> mqueue_inode_info) option" where
  "msg_get info =
     (let k = mq_curmsgs (attr info) - 1
      in case messages info of
           Table tbl \<Rightarrow>
             if k < 0 \<or> k \<ge> int (length tbl) then None
             else
               (case tbl ! nat k of
                  None \<Rightarrow> None
                | Some m \<Rightarrow>
                    Some (m, info\<lparr>attr := (attr info)\<lparr>mq_curmsgs := k\<rparr>, qsize := qsize info - of_nat (m_ts m)\<rparr>))
         | _ \<Rightarrow> None)"

subsection \<open>Notification\<close>

text \<open>
  \<^verbatim>\<open>netlink_sendskb\<close> hands the cookie over and drops the reference to the socket. Handing something to a
  socket without references, or to none at all, is a fault, \<open>None\<close>; dropping a reference only counts, so
  that one dropped twice shows as a count that is too low.
\<close>

definition sock_hold :: "nat \<Rightarrow> (nat \<Rightarrow> int) \<Rightarrow> nat \<Rightarrow> int" where
  "sock_hold s refs = refs(s := refs s + 1)"

definition sock_put :: "nat \<Rightarrow> (nat \<Rightarrow> int) \<Rightarrow> nat \<Rightarrow> int" where
  "sock_put s refs = refs(s := refs s - 1)"

definition send_cookie :: "mqueue_inode_info \<Rightarrow> bool \<Rightarrow> mq_ns \<Rightarrow> mq_ns option" where
  "send_cookie info code ns =
     (case (notify_sock info, notify_cookie info) of
        (Some s, Some c) \<Rightarrow>
          if sock_refs ns s \<le> 0 then None
          else Some (ns\<lparr>events := events ns @ [Cookie s c code], sock_refs := sock_put s (sock_refs ns)\<rparr>)
      | _ \<Rightarrow> None)"

definition do_notify :: "'e mq_env_scheme \<Rightarrow> mqueue_inode_info \<Rightarrow> mq_ns \<Rightarrow> (mqueue_inode_info \<times> mq_ns) option" where
  "do_notify E info ns =
     (case notify_owner info of
        Some owner \<Rightarrow>
          if mq_curmsgs (attr info) = 1 then
            (case (case sigev_notify (notify info) of
                     SIGEV_SIGNAL \<Rightarrow>
                       Some (ns\<lparr>events := events ns @ [Signal owner (sigev_signo (notify info)) (sigev_value (notify info))]\<rparr>)
                   | SIGEV_THREAD \<Rightarrow> send_cookie info True ns
                   | _ \<Rightarrow> Some ns) of
               None \<Rightarrow> None
             | Some ns' \<Rightarrow> Some (info\<lparr>notify_owner := None\<rparr>, ns'))
          else Some (info, ns)
      | None \<Rightarrow> Some (info, ns))"

definition remove_notification :: "mqueue_inode_info \<Rightarrow> mq_ns \<Rightarrow> (mqueue_inode_info \<times> mq_ns) option" where
  "remove_notification info ns =
     (case (if notify_owner info \<noteq> None \<and> sigev_notify (notify info) = SIGEV_THREAD
            then send_cookie info False ns else Some ns) of
        None \<Rightarrow> None
      | Some ns' \<Rightarrow> Some (info\<lparr>notify_owner := None\<rparr>, ns'))"

subsection \<open>Files\<close>

definition fget :: "nat \<Rightarrow> mq_ns \<Rightarrow> (errno + addr) \<times> mq_ns" where
  "fget fd ns =
     (case fds ns fd of
        None \<Rightarrow> (Inl EBADF, ns)
      | Some OtherFile \<Rightarrow> (Inl EBADF, ns)
      | Some (MqFile f) \<Rightarrow>
          (case files ns f of
             None \<Rightarrow> (Inl KBUG, ns)
           | Some fl \<Rightarrow> (Inr f, ns\<lparr>files := (files ns)(f \<mapsto> fl\<lparr>f_count := f_count fl + 1\<rparr>)\<rparr>)))"

definition fput :: "'h mq_hdr_scheme \<Rightarrow> addr \<Rightarrow> mq_ns \<Rightarrow> mq_ns option" where
  "fput K f ns =
     (case files ns f of
        None \<Rightarrow> None
      | Some fl \<Rightarrow>
          if f_count fl - 1 = 0 then iput K (f_inode fl) (ns\<lparr>files := (files ns)(f := None)\<rparr>)
          else Some (ns\<lparr>files := (files ns)(f \<mapsto> fl\<lparr>f_count := f_count fl - 1\<rparr>)\<rparr>))"

definition mqueue_flush_file :: "'e mq_env_scheme \<Rightarrow> addr \<Rightarrow> mq_ns \<Rightarrow> mq_ns option" where
  "mqueue_flush_file E i ns =
     (case inodes ns i of
        None \<Rightarrow> None
      | Some info \<Rightarrow>
          if notify_owner info = Some (current_tgid E)
          then (case remove_notification info ns of
                  None \<Rightarrow> None
                | Some (info', ns') \<Rightarrow> Some (set_inode i info' ns'))
          else Some ns)"

text \<open>Closing a descriptor calls \<^verbatim>\<open>flush\<close> and drops the file.\<close>

definition close_fd :: "'h mq_hdr_scheme \<Rightarrow> 'e mq_env_scheme \<Rightarrow> nat \<Rightarrow> mq_ns \<Rightarrow> (errno option \<times> mq_ns) option" where
  "close_fd K E fd ns =
     (case fds ns fd of
        None \<Rightarrow> Some (Some EBADF, ns)
      | Some OtherFile \<Rightarrow> Some (None, ns\<lparr>fds := (fds ns)(fd := None)\<rparr>)
      | Some (MqFile f) \<Rightarrow>
          (case files ns f of
             None \<Rightarrow> None
           | Some fl \<Rightarrow>
               (case mqueue_flush_file E (f_inode fl) (ns\<lparr>fds := (fds ns)(fd := None)\<rparr>) of
                  None \<Rightarrow> None
                | Some ns1 \<Rightarrow> (case fput K f ns1 of None \<Rightarrow> None | Some ns2 \<Rightarrow> Some (None, ns2)))))"

definition mqueue_poll_file :: "mqueue_inode_info \<Rightarrow> bool \<times> bool" where
  "mqueue_poll_file info = (mq_curmsgs (attr info) \<noteq> 0, mq_curmsgs (attr info) < mq_maxmsg (attr info))"

text \<open>The numbers \<^verbatim>\<open>mqueue_read_file\<close> prints.\<close>

definition mqueue_read_file :: "mqueue_inode_info \<Rightarrow> int \<times> sigev option \<times> int \<times> int" where
  "mqueue_read_file info =
     (uint (qsize info),
      if notify_owner info \<noteq> None then Some (sigev_notify (notify info)) else None,
      if notify_owner info \<noteq> None \<and> sigev_notify (notify info) = SIGEV_SIGNAL then sigev_signo (notify info) else 0,
      case notify_owner info of None \<Rightarrow> 0 | Some p \<Rightarrow> p)"

subsection \<open>Opening and unlinking\<close>

text \<open>A file for the inode \<open>i\<close>, which gets a reference.\<close>

definition open_inode ::
  "'h mq_hdr_scheme \<Rightarrow> 'e mq_env_scheme \<Rightarrow> addr \<Rightarrow> flags \<Rightarrow> mq_ns \<Rightarrow> (errno + addr) \<times> mq_ns" where
  "open_inode K E i oflag ns =
     (case dentry_open E of
        Inl err \<Rightarrow> (Inl err, ns)
      | Inr f \<Rightarrow>
          (case inodes ns i of
             None \<Rightarrow> (Inl KBUG, ns)
           | Some info \<Rightarrow>
               (Inr f,
                set_inode i (info\<lparr>i_count := i_count info + 1\<rparr>)
                  (ns\<lparr>files := (files ns)(f \<mapsto>
                         \<lparr>f_inode = i, f_read = (oflag AND O_ACCMODE K \<noteq> O_WRONLY K),
                          f_write = (oflag AND (O_WRONLY K OR O_RDWR K) \<noteq> 0),
                          f_nonblock = (oflag AND O_NONBLOCK K \<noteq> 0), f_count = 1\<rparr>)\<rparr>))))"

definition do_create ::
  "'h mq_hdr_scheme \<Rightarrow> 'e mq_env_scheme \<Rightarrow> string \<Rightarrow> flags \<Rightarrow> mq_attr option \<Rightarrow> mq_ns \<Rightarrow> (errno + addr) \<times> mq_ns" where
  "do_create K E name oflag at ns =
     (if at \<noteq> None \<and> \<not> mq_attr_ok K E ns (the at) then (Inl EINVAL, ns)
      else
        (case want_write_err E of
           Some err \<Rightarrow> (Inl err, ns)
         | None \<Rightarrow>
             (case vfs_create_err E of
                Some err \<Rightarrow> (Inl err, ns)
              | None \<Rightarrow>
                  (case mqueue_create K E name at ns of
                     None \<Rightarrow> (Inl KBUG, ns)
                   | Some (Some err, ns1) \<Rightarrow> (Inl err, ns1)
                   | Some (None, ns1) \<Rightarrow>
                       (case names ns1 name of
                          None \<Rightarrow> (Inl KBUG, ns1)
                        | Some i \<Rightarrow> open_inode K E i oflag ns1)))))"

definition do_open ::
  "'h mq_hdr_scheme \<Rightarrow> 'e mq_env_scheme \<Rightarrow> addr \<Rightarrow> flags \<Rightarrow> mq_ns \<Rightarrow> (errno + addr) \<times> mq_ns" where
  "do_open K E i oflag ns =
     (if oflag AND O_ACCMODE K = O_RDWR K OR O_WRONLY K then (Inl EINVAL, ns)
      else if \<not> inode_permission_ok E then (Inl EACCES, ns)
      else open_inode K E i oflag ns)"

definition mq_open ::
  "'h mq_hdr_scheme \<Rightarrow> 'e mq_env_scheme \<Rightarrow> flags \<Rightarrow> bool \<Rightarrow> mq_ns \<Rightarrow> (errno + nat) \<times> mq_ns" where
  "mq_open K E oflag has_attr ns =
     (if has_attr \<and> user_attr E = None then (Inl EFAULT, ns)
      else
        (case getname E of
           Inl err \<Rightarrow> (Inl err, ns)
         | Inr name \<Rightarrow>
             (case unused_fd E of
                Inl err \<Rightarrow> (Inl err, ns)
              | Inr fd \<Rightarrow>
                  (case lookup_err E of
                     Some err \<Rightarrow> (Inl err, ns)
                   | None \<Rightarrow>
                       (case (if oflag AND O_CREAT K \<noteq> 0 then
                                (case names ns name of
                                   Some i \<Rightarrow>
                                     if oflag AND O_EXCL K \<noteq> 0 then (Inl EEXIST, ns) else do_open K E i oflag ns
                                 | None \<Rightarrow> do_create K E name oflag (if has_attr then user_attr E else None) ns)
                              else
                                (case names ns name of
                                   None \<Rightarrow> (Inl ENOENT, ns)
                                 | Some i \<Rightarrow> do_open K E i oflag ns)) of
                          (Inl err, ns1) \<Rightarrow> (Inl err, ns1)
                        | (Inr f, ns1) \<Rightarrow> (Inr fd, ns1\<lparr>fds := (fds ns1)(fd \<mapsto> MqFile f)\<rparr>))))))"

definition mq_unlink :: "'h mq_hdr_scheme \<Rightarrow> 'e mq_env_scheme \<Rightarrow> mq_ns \<Rightarrow> (errno + int) \<times> mq_ns" where
  "mq_unlink K E ns =
     (case getname E of
        Inl err \<Rightarrow> (Inl err, ns)
      | Inr name \<Rightarrow>
          (case lookup_err E of
             Some err \<Rightarrow> (Inl err, ns)
           | None \<Rightarrow>
               (case names ns name of
                  None \<Rightarrow> (Inl ENOENT, ns)
                | Some i \<Rightarrow>
                    (case want_write_err E of
                       Some err \<Rightarrow> (Inl err, ns)
                     | None \<Rightarrow>
                         (case vfs_unlink_err E of
                            Some err \<Rightarrow> (Inl err, ns)
                          | None \<Rightarrow>
                              (case mqueue_unlink K name ns of
                                 None \<Rightarrow> (Inl KBUG, ns)
                               | Some ns' \<Rightarrow> (Inr 0, ns')))))))"

subsection \<open>Sending and receiving\<close>

definition prepare_timeout :: "'e mq_env_scheme \<Rightarrow> errno option" where
  "prepare_timeout E =
     (case user_ts E of
        None \<Rightarrow> Some EFAULT
      | Some (sec, nsec) \<Rightarrow> if sec < 0 \<or> nsec < 0 \<or> nsec \<ge> 1000000000 then Some EINVAL else None)"

text \<open>The message goes straight to the receiver \<open>t\<close>, and the one of a waiting sender into the queue.\<close>

definition mq_pipelined_send :: "addr \<Rightarrow> mqueue_inode_info \<Rightarrow> msg_msg \<Rightarrow> task \<Rightarrow> mq_ns \<Rightarrow> mq_ns option" where
  "mq_pipelined_send i info m t ns =
     (case waits ns t of
        None \<Rightarrow> None
      | Some w \<Rightarrow>
          Some (set_inode i (info\<lparr>wait_recv := remove1 t (wait_recv info)\<rparr>)
                  (ns\<lparr>waits := (waits ns)(t \<mapsto> w\<lparr>w_msg := Some m, w_state := STATE_READY\<rparr>),
                      mq_asleep := mq_asleep ns - {t}\<rparr>)))"

definition pipelined_receive :: "addr \<Rightarrow> mqueue_inode_info \<Rightarrow> mq_ns \<Rightarrow> mq_ns option" where
  "pipelined_receive i info ns =
     (case wq_get_first_waiter (wait_send info) of
        None \<Rightarrow> Some (set_inode i info ns)
      | Some t \<Rightarrow>
          (case waits ns t of
             None \<Rightarrow> None
           | Some w \<Rightarrow>
               (case w_msg w of
                  None \<Rightarrow> None
                | Some m \<Rightarrow>
                    (case msg_insert m info of
                       None \<Rightarrow> None
                     | Some info' \<Rightarrow>
                         Some (set_inode i (info'\<lparr>wait_send := remove1 t (wait_send info')\<rparr>)
                                 (ns\<lparr>waits := (waits ns)(t \<mapsto> w\<lparr>w_msg := None, w_state := STATE_READY\<rparr>),
                                     mq_asleep := mq_asleep ns - {t}\<rparr>))))))"

text \<open>\<^verbatim>\<open>wq_sleep\<close> up to the first call of \<^verbatim>\<open>schedule\<close>.\<close>

definition wq_sleep ::
  "'e mq_env_scheme \<Rightarrow> addr \<Rightarrow> mqueue_inode_info \<Rightarrow> ext_wait \<Rightarrow> mq_ns \<Rightarrow> mq_ns" where
  "wq_sleep E i info w ns =
     (let t = current E
      in set_inode i
           (case w_dir w of
              SEND \<Rightarrow> info\<lparr>wait_send := wq_add (static_prio E) t (wait_send info)\<rparr>
            | RECV \<Rightarrow> info\<lparr>wait_recv := wq_add (static_prio E) t (wait_recv info)\<rparr>)
           (ns\<lparr>waits := (waits ns)(t \<mapsto> w), mq_asleep := insert t (mq_asleep ns)\<rparr>))"

text \<open>Leaving a call: the reference that \<^verbatim>\<open>fget\<close> took is dropped.\<close>

definition out_fput :: "'h mq_hdr_scheme \<Rightarrow> addr \<Rightarrow> errno + 'a \<Rightarrow> mq_ns \<Rightarrow> 'a outcome \<times> mq_ns" where
  "out_fput K f r ns = (case fput K f ns of None \<Rightarrow> (Done (Inl KBUG), ns) | Some ns' \<Rightarrow> (Done r, ns'))"

definition mq_free_fail :: "'h mq_hdr_scheme \<Rightarrow> addr \<Rightarrow> errno \<Rightarrow> msg_msg \<Rightarrow> mq_ns \<Rightarrow> 'a outcome \<times> mq_ns" where
  "mq_free_fail K f err m ns =
     (case free_msg m (mq_blocks ns) of
        None \<Rightarrow> (Done (Inl KBUG), ns)
      | Some mb \<Rightarrow> out_fput K f (Inl err) (ns\<lparr>mq_blocks := mb\<rparr>))"

definition mq_send_locked ::
  "'h mq_hdr_scheme \<Rightarrow> 'e mq_env_scheme \<Rightarrow> addr \<Rightarrow> mq_file \<Rightarrow> msg_msg \<Rightarrow> mq_ns \<Rightarrow> int outcome \<times> mq_ns" where
  "mq_send_locked K E f fl m ns =
     (case inodes ns (f_inode fl) of
        None \<Rightarrow> (Done (Inl KBUG), ns)
      | Some info \<Rightarrow>
          if mq_curmsgs (attr info) = mq_maxmsg (attr info) then
            (if f_nonblock fl then mq_free_fail K f EAGAIN m ns
             else (Sleep, wq_sleep E (f_inode fl) info
                            \<lparr>w_file = f, w_dir = SEND, w_msg = Some m, w_state = STATE_NONE, w_dest = 0,
                             w_prio = False\<rparr> ns))
          else
            (case wq_get_first_waiter (wait_recv info) of
               Some t \<Rightarrow>
                 (case mq_pipelined_send (f_inode fl) info m t ns of
                    None \<Rightarrow> (Done (Inl KBUG), ns)
                  | Some ns' \<Rightarrow> out_fput K f (Inr 0) ns')
             | None \<Rightarrow>
                 (case msg_insert m info of
                    None \<Rightarrow> (Done (Inl KBUG), ns)
                  | Some info1 \<Rightarrow>
                      (case do_notify E info1 ns of
                         None \<Rightarrow> (Done (Inl KBUG), ns)
                       | Some (info2, ns') \<Rightarrow> out_fput K f (Inr 0) (set_inode (f_inode fl) info2 ns')))))"

definition mq_timedsend ::
  "'h mq_hdr_scheme \<Rightarrow> 'e mq_env_scheme \<Rightarrow> umem \<Rightarrow> nat \<Rightarrow> addr \<Rightarrow> ulong \<Rightarrow> nat \<Rightarrow> bool \<Rightarrow> mq_ns \<Rightarrow>
   int outcome \<times> mq_ns" where
  "mq_timedsend K E um mqdes u_msg msg_len msg_prio timeout ns =
     (if timeout \<and> prepare_timeout E \<noteq> None then (Done (Inl (the (prepare_timeout E))), ns)
      else if msg_prio \<ge> MQ_PRIO_MAX K then (Done (Inl EINVAL), ns)
      else
        (case fget mqdes ns of
           (Inl err, ns1) \<Rightarrow> (Done (Inl err), ns1)
         | (Inr f, ns1) \<Rightarrow>
             (case files ns1 f of
                None \<Rightarrow> (Done (Inl KBUG), ns1)
              | Some fl \<Rightarrow>
                  (case inodes ns1 (f_inode fl) of
                     None \<Rightarrow> (Done (Inl KBUG), ns1)
                   | Some info \<Rightarrow>
                       if \<not> f_write fl then out_fput K f (Inl EBADF) ns1
                       else if msg_len > word_of_int (mq_msgsize (attr info)) then out_fput K f (Inl EMSGSIZE) ns1
                       else
                         (case load_msg K E um u_msg (c_int (uint msg_len)) (mq_blocks ns1) of
                            None \<Rightarrow> (Hang, ns1)
                          | Some (Inl err, mb) \<Rightarrow> out_fput K f (Inl err) (ns1\<lparr>mq_blocks := mb\<rparr>)
                          | Some (Inr m, mb) \<Rightarrow>
                              mq_send_locked K E f fl (m\<lparr>m_ts := nat (c_int (uint msg_len)), m_type := int msg_prio\<rparr>)
                                (ns1\<lparr>mq_blocks := mb\<rparr>))))))"

text \<open>The end of \<^verbatim>\<open>mq_timedreceive\<close>: priority and text are stored for the user, the message is freed.\<close>

definition mq_rcv_finish ::
  "'h mq_hdr_scheme \<Rightarrow> 'e mq_env_scheme \<Rightarrow> umem \<Rightarrow> addr \<Rightarrow> addr \<Rightarrow> bool \<Rightarrow> msg_msg \<Rightarrow> mq_ns \<Rightarrow>
   (nat \<times> int \<times> umem) outcome \<times> mq_ns" where
  "mq_rcv_finish K E um f u_msg want_prio m ns =
     (let stored = (if want_prio \<and> \<not> put_prio_ok E then Inr (False, um) else store_msg K E um u_msg m (m_ts m))
      in case stored of
           Inl err \<Rightarrow> (Done (Inl err), ns)
         | Inr (ok, um') \<Rightarrow>
             (case free_msg m (mq_blocks ns) of
                None \<Rightarrow> (Done (Inl KBUG), ns)
              | Some mb \<Rightarrow>
                  out_fput K f (if ok then Inr (m_ts m, m_type m, um') else Inl EFAULT) (ns\<lparr>mq_blocks := mb\<rparr>)))"

definition mq_timedreceive ::
  "'h mq_hdr_scheme \<Rightarrow> 'e mq_env_scheme \<Rightarrow> umem \<Rightarrow> nat \<Rightarrow> addr \<Rightarrow> ulong \<Rightarrow> bool \<Rightarrow> bool \<Rightarrow> mq_ns \<Rightarrow>
   (nat \<times> int \<times> umem) outcome \<times> mq_ns" where
  "mq_timedreceive K E um mqdes u_msg msg_len want_prio timeout ns =
     (if timeout \<and> prepare_timeout E \<noteq> None then (Done (Inl (the (prepare_timeout E))), ns)
      else
        (case fget mqdes ns of
           (Inl err, ns1) \<Rightarrow> (Done (Inl err), ns1)
         | (Inr f, ns1) \<Rightarrow>
             (case files ns1 f of
                None \<Rightarrow> (Done (Inl KBUG), ns1)
              | Some fl \<Rightarrow>
                  (case inodes ns1 (f_inode fl) of
                     None \<Rightarrow> (Done (Inl KBUG), ns1)
                   | Some info \<Rightarrow>
                       if \<not> f_read fl then out_fput K f (Inl EBADF) ns1
                       else if msg_len < word_of_int (mq_msgsize (attr info)) then out_fput K f (Inl EMSGSIZE) ns1
                       else if mq_curmsgs (attr info) = 0 then
                         (if f_nonblock fl then out_fput K f (Inl EAGAIN) ns1
                          else (Sleep, wq_sleep E (f_inode fl) info
                                         \<lparr>w_file = f, w_dir = RECV, w_msg = None, w_state = STATE_NONE,
                                          w_dest = u_msg, w_prio = want_prio\<rparr> ns1))
                       else
                         (case msg_get info of
                            None \<Rightarrow> (Done (Inl KBUG), ns1)
                          | Some (m, info1) \<Rightarrow>
                              (case pipelined_receive (f_inode fl) info1 ns1 of
                                 None \<Rightarrow> (Done (Inl KBUG), ns1)
                               | Some ns2 \<Rightarrow> mq_rcv_finish K E um f u_msg want_prio m ns2))))))"

text \<open>
  A task that goes on behind \<^verbatim>\<open>schedule\<close> in \<^verbatim>\<open>wq_sleep\<close>: the result, or to sleep again. A frame in
  \<^verbatim>\<open>STATE_PENDING\<close> makes it spin.
\<close>

datatype wq_result = WQ_OK | WQ_ERR errno | WQ_AGAIN | WQ_SPIN

definition wq_wake :: "'e mq_env_scheme \<Rightarrow> ext_wait \<Rightarrow> wq_result" where
  "wq_wake E w =
     (case w_state w of
        STATE_PENDING \<Rightarrow> WQ_SPIN
      | STATE_READY \<Rightarrow> WQ_OK
      | STATE_NONE \<Rightarrow>
          if mq_signal_pending E then WQ_ERR ERESTARTSYS
          else if hrtimeout E = 0 then WQ_ERR ETIMEDOUT
          else WQ_AGAIN)"

definition wq_leave :: "task \<Rightarrow> ext_wait \<Rightarrow> mq_ns \<Rightarrow> mq_ns option" where
  "wq_leave t w ns =
     (case files ns (w_file w) of
        None \<Rightarrow> None
      | Some fl \<Rightarrow>
          (case inodes ns (f_inode fl) of
             None \<Rightarrow> None
           | Some info \<Rightarrow>
               Some (set_inode (f_inode fl)
                       (case w_dir w of
                          SEND \<Rightarrow> info\<lparr>wait_send := remove1 t (wait_send info)\<rparr>
                        | RECV \<Rightarrow> info\<lparr>wait_recv := remove1 t (wait_recv info)\<rparr>) ns)))"

definition resume_mq_send :: "'h mq_hdr_scheme \<Rightarrow> 'e mq_env_scheme \<Rightarrow> mq_ns \<Rightarrow> int outcome \<times> mq_ns" where
  "resume_mq_send K E ns =
     (let t = current E
      in case waits ns t of
           None \<Rightarrow> (Done (Inl KBUG), ns)
         | Some w \<Rightarrow>
             (let ns1 = ns\<lparr>waits := (waits ns)(t := None), mq_asleep := mq_asleep ns - {t}\<rparr>
              in case wq_wake E w of
                   WQ_SPIN \<Rightarrow> (Hang, ns)
                 | WQ_AGAIN \<Rightarrow> (Sleep, ns\<lparr>mq_asleep := insert t (mq_asleep ns)\<rparr>)
                 | WQ_OK \<Rightarrow> out_fput K (w_file w) (Inr 0) ns1
                 | WQ_ERR err \<Rightarrow>
                     (case (wq_leave t w ns1, w_msg w) of
                        (Some ns2, Some m) \<Rightarrow> mq_free_fail K (w_file w) err m ns2
                      | _ \<Rightarrow> (Done (Inl KBUG), ns1))))"

definition resume_mq_receive ::
  "'h mq_hdr_scheme \<Rightarrow> 'e mq_env_scheme \<Rightarrow> umem \<Rightarrow> mq_ns \<Rightarrow> (nat \<times> int \<times> umem) outcome \<times> mq_ns" where
  "resume_mq_receive K E um ns =
     (let t = current E
      in case waits ns t of
           None \<Rightarrow> (Done (Inl KBUG), ns)
         | Some w \<Rightarrow>
             (let ns1 = ns\<lparr>waits := (waits ns)(t := None), mq_asleep := mq_asleep ns - {t}\<rparr>
              in case wq_wake E w of
                   WQ_SPIN \<Rightarrow> (Hang, ns)
                 | WQ_AGAIN \<Rightarrow> (Sleep, ns\<lparr>mq_asleep := insert t (mq_asleep ns)\<rparr>)
                 | WQ_OK \<Rightarrow>
                     (case w_msg w of
                        None \<Rightarrow> (Done (Inl KBUG), ns1)
                      | Some m \<Rightarrow> mq_rcv_finish K E um (w_file w) (w_dest w) (w_prio w) m ns1)
                 | WQ_ERR err \<Rightarrow>
                     (case wq_leave t w ns1 of
                        None \<Rightarrow> (Done (Inl KBUG), ns1)
                      | Some ns2 \<Rightarrow> out_fput K (w_file w) (Inl err) ns2)))"

subsection \<open>Registering for notification and attributes\<close>

text \<open>
  The loop at \<^verbatim>\<open>retry\<close>: the result, the variable \<^verbatim>\<open>sock\<close>, whether \<^verbatim>\<open>nc\<close> is still set, and the
  references to sockets. \<^verbatim>\<open>netlink_getsockbyfilp\<close> takes a reference; \<^verbatim>\<open>netlink_attachskb\<close> drops it
  when it does not return 0, and frees the cookie when it fails. Passes that never end are \<open>None\<close>.
\<close>

fun attach_cookie ::
  "attach_try list \<Rightarrow> nat option \<Rightarrow> (nat \<Rightarrow> int) \<Rightarrow> (errno option \<times> nat option \<times> bool \<times> (nat \<Rightarrow> int)) option" where
  "attach_cookie [] sock refs = None"
| "attach_cookie (t # ts) sock refs =
     (if \<not> try_fget t then Some (Some EBADF, sock, True, refs)
      else
        (case try_sock t of
           Inl err \<Rightarrow> Some (Some err, None, True, refs)
         | Inr s \<Rightarrow>
             (case try_attach t of
                Attached \<Rightarrow> Some (None, Some s, True, sock_hold s refs)
              | AttachAgain \<Rightarrow> attach_cookie ts (Some s) (sock_put s (sock_hold s refs))
              | AttachErr err \<Rightarrow> Some (Some err, None, False, sock_put s (sock_hold s refs)))))"

text \<open>At \<^verbatim>\<open>out\<close>: \<^verbatim>\<open>netlink_detachskb\<close> drops the reference of a socket that is still in \<^verbatim>\<open>sock\<close>.\<close>

definition notify_out :: "nat option \<Rightarrow> mq_ns \<Rightarrow> mq_ns" where
  "notify_out sock ns =
     (case sock of None \<Rightarrow> ns | Some s \<Rightarrow> ns\<lparr>sock_refs := sock_put s (sock_refs ns)\<rparr>)"

text \<open>What is prepared before the queue is looked at: socket and cookie for \<^verbatim>\<open>SIGEV_THREAD\<close>.\<close>

definition notify_prepare ::
  "'e mq_env_scheme \<Rightarrow> sigevent \<Rightarrow> mq_ns \<Rightarrow> ((errno option \<times> nat option \<times> nat option) \<times> mq_ns) option" where
  "notify_prepare E n ns =
     (case sigev_notify n of
        SIGEV_OTHER \<Rightarrow> Some ((Some EINVAL, None, None), ns)
      | SIGEV_NONE \<Rightarrow> Some ((None, None, None), ns)
      | SIGEV_SIGNAL \<Rightarrow>
          Some ((if valid_signal E (sigev_signo n) then None else Some EINVAL, None, None), ns)
      | SIGEV_THREAD \<Rightarrow>
          (case alloc_skb E of
             None \<Rightarrow> Some ((Some ENOMEM, None, None), ns)
           | Some nc \<Rightarrow>
               if \<not> cookie_copy_ok E then Some ((Some EFAULT, None, Some nc), ns)
               else (case attach_cookie (attach_tries E) None (sock_refs ns) of
                       None \<Rightarrow> None
                     | Some (err, sock, has_nc, refs) \<Rightarrow>
                         Some ((err, sock, if has_nc then Some nc else None), ns\<lparr>sock_refs := refs\<rparr>))))"

definition notify_register :: "'e mq_env_scheme \<Rightarrow> sigevent \<Rightarrow> nat option \<Rightarrow> nat option \<Rightarrow> mqueue_inode_info \<Rightarrow> mqueue_inode_info" where
  "notify_register E n sock nc info =
     (let info = info\<lparr>notify_owner := Some (current_tgid E)\<rparr>
      in case sigev_notify n of
           SIGEV_NONE \<Rightarrow> info\<lparr>notify := (notify info)\<lparr>sigev_notify := SIGEV_NONE\<rparr>\<rparr>
         | SIGEV_THREAD \<Rightarrow>
             info\<lparr>notify_sock := sock, notify_cookie := nc,
                  notify := (notify info)\<lparr>sigev_notify := SIGEV_THREAD\<rparr>\<rparr>
         | SIGEV_SIGNAL \<Rightarrow> info\<lparr>notify := n\<rparr>
         | SIGEV_OTHER \<Rightarrow> info)"

text \<open>The part under the lock of the queue: the result, what is left in \<^verbatim>\<open>sock\<close>, and the state.\<close>

definition notify_locked ::
  "'e mq_env_scheme \<Rightarrow> bool \<Rightarrow> nat option \<Rightarrow> nat option \<Rightarrow> addr \<Rightarrow> mqueue_inode_info \<Rightarrow> mq_ns \<Rightarrow>
   (errno + int) \<times> nat option \<times> mq_ns" where
  "notify_locked E has_notification sock nc i info ns =
     (if \<not> has_notification then
        (if notify_owner info = Some (current_tgid E) then
           (case remove_notification info ns of
              None \<Rightarrow> (Inl KBUG, sock, ns)
            | Some (info', ns') \<Rightarrow> (Inr 0, sock, set_inode i info' ns'))
         else (Inr 0, sock, ns))
      else if notify_owner info \<noteq> None then (Inl EBUSY, sock, ns)
      else
        (Inr 0, if sigev_notify (the (user_sigevent E)) = SIGEV_THREAD then None else sock,
         set_inode i (notify_register E (the (user_sigevent E)) sock nc info) ns))"

definition mq_notify ::
  "'h mq_hdr_scheme \<Rightarrow> 'e mq_env_scheme \<Rightarrow> nat \<Rightarrow> bool \<Rightarrow> mq_ns \<Rightarrow> int outcome \<times> mq_ns" where
  "mq_notify K E mqdes has_notification ns =
     (if has_notification \<and> user_sigevent E = None then (Done (Inl EFAULT), ns)
      else
        (case (if has_notification then notify_prepare E (the (user_sigevent E)) ns
               else Some ((None, None, None), ns)) of
           None \<Rightarrow> (Hang, ns)
         | Some ((Some err, sock, nc), ns1) \<Rightarrow> (Done (Inl err), notify_out sock ns1)
         | Some ((None, sock, nc), ns1) \<Rightarrow>
             (case fget mqdes ns1 of
                (Inl err, ns2) \<Rightarrow> (Done (Inl err), notify_out sock ns2)
              | (Inr f, ns2) \<Rightarrow>
                  (case files ns2 f of
                     None \<Rightarrow> (Done (Inl KBUG), ns2)
                   | Some fl \<Rightarrow>
                       (case inodes ns2 (f_inode fl) of
                          None \<Rightarrow> (Done (Inl KBUG), ns2)
                        | Some info \<Rightarrow>
                            (case notify_locked E has_notification sock nc (f_inode fl) info ns2 of
                               (r, sock', ns3) \<Rightarrow>
                                 (case out_fput K f r ns3 of (out, ns4) \<Rightarrow> (out, notify_out sock' ns4)))))))) "

definition mq_getsetattr ::
  "'h mq_hdr_scheme \<Rightarrow> 'e mq_env_scheme \<Rightarrow> nat \<Rightarrow> bool \<Rightarrow> bool \<Rightarrow> mq_ns \<Rightarrow> mq_attr outcome \<times> mq_ns" where
  "mq_getsetattr K E mqdes has_new has_old ns =
     (if has_new \<and> user_attr E = None then (Done (Inl EFAULT), ns)
      else if has_new \<and> mq_flags (the (user_attr E)) AND NOT (O_NONBLOCK K) \<noteq> 0 then (Done (Inl EINVAL), ns)
      else
        (case fget mqdes ns of
           (Inl err, ns1) \<Rightarrow> (Done (Inl err), ns1)
         | (Inr f, ns1) \<Rightarrow>
             (case files ns1 f of
                None \<Rightarrow> (Done (Inl KBUG), ns1)
              | Some fl \<Rightarrow>
                  (case inodes ns1 (f_inode fl) of
                     None \<Rightarrow> (Done (Inl KBUG), ns1)
                   | Some info \<Rightarrow>
                       (let omqstat = (attr info)\<lparr>mq_flags := (if f_nonblock fl then O_NONBLOCK K else 0)\<rparr>;
                            ns2 = (if has_new
                                   then ns1\<lparr>files := (files ns1)(f \<mapsto>
                                          fl\<lparr>f_nonblock := (mq_flags (the (user_attr E)) AND O_NONBLOCK K \<noteq> 0)\<rparr>)\<rparr>
                                   else ns1)
                        in out_fput K f (if has_old \<and> \<not> attr_copy_ok E then Inl EFAULT else Inr omqstat) ns2)))))"

subsection \<open>Namespaces\<close>

text \<open>\<open>mnt\<close> is the answer of \<^verbatim>\<open>kern_mount_data\<close>.\<close>

definition mq_init_ns :: "'h mq_hdr_scheme \<Rightarrow> errno option \<Rightarrow> mq_ns \<Rightarrow> errno option \<times> mq_ns" where
  "mq_init_ns K mnt ns =
     (let ns = ns\<lparr>mq_queues_count := 0, mq_queues_max := DFLT_QUEUESMAX K, mq_msg_max := DFLT_MSGMAX K,
                  mq_msgsize_max := DFLT_MSGSIZEMAX K\<rparr>
      in case mnt of Some err \<Rightarrow> (Some err, ns) | None \<Rightarrow> (None, ns\<lparr>sb_alive := True\<rparr>))"

definition mq_clear_sbinfo :: "mq_ns \<Rightarrow> mq_ns" where
  "mq_clear_sbinfo ns = ns\<lparr>sb_alive := False\<rparr>"

end
