(* ===== verification/Mq_Queue.thy ===== *)
theory Mq_Queue
  imports Ipc_Mqueue
begin

text \<open>
  The table of messages of a POSIX queue as a list, the next message to be received first:
  \<^verbatim>\<open>msg_insert\<close> puts a message behind all that are not less important, \<^verbatim>\<open>msg_get\<close> takes the first one,
  so messages are received by priority and, within a priority, in the order they were sent.
\<close>

definition mq_list :: "mqueue_inode_info \<Rightarrow> msg_msg list" where
  "mq_list info =
     (case messages info of
        Table tbl \<Rightarrow> rev (map the (take (nat (mq_curmsgs (attr info))) tbl))
      | _ \<Rightarrow> [])"

definition prio_insert :: "msg_msg \<Rightarrow> msg_msg list \<Rightarrow> msg_msg list" where
  "prio_insert m q =
     takeWhile (\<lambda>x. m_type m \<le> m_type x) q @ m # dropWhile (\<lambda>x. m_type m \<le> m_type x) q"

definition table_ok :: "mqueue_inode_info \<Rightarrow> bool" where
  "table_ok info \<longleftrightarrow>
     (\<exists>tbl. messages info = Table tbl \<and> int (length tbl) = mq_maxmsg (attr info) \<and>
        0 \<le> mq_curmsgs (attr info) \<and> mq_curmsgs (attr info) \<le> mq_maxmsg (attr info) \<and>
        (\<forall>k<nat (mq_curmsgs (attr info)). tbl ! k \<noteq> None)) \<and>
     qsize info = of_nat (\<Sum>m\<leftarrow>mq_list info. m_ts m)"

lemma table_okE:
  assumes "table_ok info"
  obtains ms rest where "messages info = Table (map Some ms @ rest)" "mq_curmsgs (attr info) = int (length ms)"
    "mq_maxmsg (attr info) = int (length ms + length rest)" "mq_list info = rev ms"
proof -
  obtain tbl where t: "messages info = Table tbl" "int (length tbl) = mq_maxmsg (attr info)"
    "0 \<le> mq_curmsgs (attr info)" "mq_curmsgs (attr info) \<le> mq_maxmsg (attr info)"
    "\<forall>k<nat (mq_curmsgs (attr info)). tbl ! k \<noteq> None"
    using assms by (auto simp: table_ok_def)
  define k where "k = nat (mq_curmsgs (attr info))"
  have k: "k \<le> length tbl" "int k = mq_curmsgs (attr info)" using t by (auto simp: k_def)
  have "take k tbl = map Some (map the (take k tbl))"
    by (rule nth_equalityI) (use t(5) k in \<open>auto simp: k_def [symmetric]\<close>)
  then have "tbl = map Some (map the (take k tbl)) @ drop k tbl" by (metis append_take_drop_id)
  then show thesis
    using that [of "map the (take k tbl)" "drop k tbl"] t k by (simp add: mq_list_def k_def [symmetric])
qed

lemma table_okI:
  assumes "messages info = Table (map Some ms @ rest)" "mq_curmsgs (attr info) = int (length ms)"
    "mq_maxmsg (attr info) = int (length ms + length rest)" "qsize info = of_nat (\<Sum>m\<leftarrow>ms. m_ts m)"
  shows "table_ok info" and "mq_list info = rev ms"
proof -
  show l: "mq_list info = rev ms" using assms by (simp add: mq_list_def comp_def)
  show "table_ok info" using assms l by (auto simp: table_ok_def nth_append rev_map [symmetric] sum_list_rev)
qed

lemma table_length: "table_ok info \<Longrightarrow> mq_curmsgs (attr info) = int (length (mq_list info))"
  by (erule table_okE) simp

lemma msg_shift_spec:
  fixes ptr :: msg_msg
  defines "P \<equiv> \<lambda>m. m_type ptr \<le> m_type m"
  shows "\<exists>x. msg_shift (length ms) ptr (map Some ms @ r # rest) =
    Some (length (dropWhile P (rev ms)),
      map Some (rev (dropWhile P (rev ms))) @ x # map Some (rev (takeWhile P (rev ms))) @ rest)"
proof (induction ms arbitrary: r rest rule: rev_induct)
  case (snoc m ms)
  show ?case
  proof (cases "P m")
    case True
    have u: "(map Some (ms @ [m]) @ r # rest)[Suc (length ms) := Some m] = map Some ms @ Some m # Some m # rest"
      by (simp add: list_update_append)
    have "msg_shift (length (ms @ [m])) ptr (map Some (ms @ [m]) @ r # rest) =
        msg_shift (length ms) ptr (map Some ms @ Some m # Some m # rest)"
      using True unfolding u [symmetric] by (simp add: P_def nth_append)
    then show ?thesis using snoc.IH [of "Some m" "Some m # rest"] True by simp
  next
    case False
    then show ?thesis by (auto simp: P_def nth_append)
  qed
qed simp

text \<open>\<open>info\<close> is not full.\<close>

lemma msg_insert_spec:
  assumes "table_ok info" and "mq_curmsgs (attr info) \<noteq> mq_maxmsg (attr info)"
  shows "\<exists>info'. msg_insert m info = Some info' \<and> table_ok info' \<and> mq_list info' = prio_insert m (mq_list info) \<and>
    info' = info\<lparr>messages := messages info', attr := (attr info)\<lparr>mq_curmsgs := mq_curmsgs (attr info) + 1\<rparr>,
                 qsize := qsize info'\<rparr>"
proof -
  let ?P = "\<lambda>x. m_type m \<le> m_type x"
  obtain ms rest where t: "messages info = Table (map Some ms @ rest)" "mq_curmsgs (attr info) = int (length ms)"
    "mq_maxmsg (attr info) = int (length ms + length rest)" "mq_list info = rev ms"
    using table_okE [OF assms(1)] .
  obtain r rest' where r: "rest = r # rest'" using assms(2) t by (cases rest) auto
  let ?a = "rev (dropWhile ?P (rev ms))" and ?b = "rev (takeWhile ?P (rev ms))"
  obtain x where x: "msg_shift (length ms) m (map Some ms @ r # rest') =
      Some (length (dropWhile ?P (rev ms)), map Some ?a @ x # map Some ?b @ rest')"
    using msg_shift_spec [of ms m r rest'] by blast
  define info' where "info' = info\<lparr>messages := Table (map Some (?a @ m # ?b) @ rest'),
    attr := (attr info)\<lparr>mq_curmsgs := mq_curmsgs (attr info) + 1\<rparr>, qsize := qsize info + of_nat (m_ts m)\<rparr>"
  have i: "msg_insert m info = Some info'"
    using x r t by (simp add: msg_insert_def info'_def list_update_append)
  have ab: "?a @ ?b = ms" by (metis rev_append rev_rev_ident takeWhile_dropWhile_id)
  then have len: "length ms = length ?a + length ?b" by (metis length_append)
  have "sum_list (map m_ts ms) = sum_list (map m_ts ?a) + sum_list (map m_ts ?b)"
    by (subst ab [symmetric]) simp
  moreover have "qsize info = of_nat (sum_list (map m_ts ms))"
    using assms(1) t(4) by (simp add: table_ok_def rev_map [symmetric] sum_list_rev)
  ultimately have "qsize info' = of_nat (\<Sum>m\<leftarrow>?a @ m # ?b. m_ts m)" by (simp add: info'_def)
  then have "table_ok info'" "mq_list info' = rev (?a @ m # ?b)"
    using table_okI [of info' "?a @ m # ?b" rest'] t r len by (simp_all add: info'_def)
  then show ?thesis using i t(4) by (simp add: prio_insert_def info'_def)
qed

lemma msg_get_spec:
  assumes "table_ok info" and "mq_curmsgs (attr info) \<noteq> 0"
  shows "\<exists>info'. msg_get info = Some (hd (mq_list info), info') \<and> table_ok info' \<and> mq_list info' = tl (mq_list info) \<and>
    info' = info\<lparr>attr := (attr info)\<lparr>mq_curmsgs := mq_curmsgs (attr info) - 1\<rparr>, qsize := qsize info'\<rparr>"
proof -
  obtain ms rest where t: "messages info = Table (map Some ms @ rest)" "mq_curmsgs (attr info) = int (length ms)"
    "mq_maxmsg (attr info) = int (length ms + length rest)" "mq_list info = rev ms"
    using table_okE [OF assms(1)] .
  then obtain a m where m: "ms = a @ [m]" using assms(2) by (cases ms rule: rev_cases) auto
  define info' where "info' = info\<lparr>attr := (attr info)\<lparr>mq_curmsgs := mq_curmsgs (attr info) - 1\<rparr>,
    qsize := qsize info - of_nat (m_ts m)\<rparr>"
  have "msg_get info = Some (hd (mq_list info), info')"
    using t m by (simp add: msg_get_def info'_def nth_append Let_def)
  moreover have "qsize info = of_nat (sum_list (map m_ts ms))"
    using assms(1) t(4) by (simp add: table_ok_def rev_map [symmetric] sum_list_rev)
  then have "table_ok info'" "mq_list info' = rev a"
    using table_okI [of info' a "Some m # rest"] t m by (simp_all add: info'_def)
  ultimately show ?thesis using t m by (simp add: info'_def)
qed

text \<open>Priorities stay in order.\<close>

definition by_prio :: "msg_msg list \<Rightarrow> bool" where
  "by_prio q = sorted_wrt (\<lambda>x y. m_type y \<le> m_type x) q"

lemma by_prio_rest:
  "by_prio q \<Longrightarrow> x \<in> set (dropWhile (\<lambda>x. m_type m \<le> m_type x) q) \<Longrightarrow> m_type x < m_type m"
  by (induction q) (auto simp: by_prio_def split: if_splits)

lemma by_prio_insert:
  assumes "by_prio q"
  shows "by_prio (prio_insert m q)"
proof -
  let ?P = "\<lambda>x. m_type m \<le> m_type x"
  have "sorted_wrt (\<lambda>x y. m_type y \<le> m_type x) (takeWhile ?P q @ dropWhile ?P q)" using assms by (simp add: by_prio_def)
  moreover have "\<forall>x\<in>set (dropWhile ?P q). m_type x \<le> m_type m" using by_prio_rest [OF assms] by fastforce
  ultimately show ?thesis unfolding by_prio_def prio_insert_def sorted_wrt_append by (auto dest: set_takeWhileD)
qed

lemma set_prio_insert [simp]: "set (prio_insert m q) = insert m (set q)"
proof -
  have "set q = set (takeWhile (\<lambda>x. m_type m \<le> m_type x) q) \<union> set (dropWhile (\<lambda>x. m_type m \<le> m_type x) q)"
    by (metis set_append takeWhile_dropWhile_id)
  then show ?thesis by (auto simp: prio_insert_def)
qed

lemma mset_prio_insert [simp]: "mset (prio_insert m q) = add_mset m (mset q)"
proof -
  have "mset q = mset (takeWhile (\<lambda>x. m_type m \<le> m_type x) q) + mset (dropWhile (\<lambda>x. m_type m \<le> m_type x) q)"
    by (metis mset_append takeWhile_dropWhile_id)
  then show ?thesis by (simp add: prio_insert_def)
qed

text \<open>Within a priority the new message is last.\<close>

lemma prio_insert_fifo:
  assumes "by_prio q"
  shows "filter (\<lambda>x. m_type x = k) (prio_insert m q) =
    filter (\<lambda>x. m_type x = k) q @ (if m_type m = k then [m] else [])"
proof -
  let ?P = "\<lambda>x. m_type m \<le> m_type x" and ?F = "filter (\<lambda>x. m_type x = k)"
  have q: "?F q = ?F (takeWhile ?P q) @ ?F (dropWhile ?P q)" by (metis filter_append takeWhile_dropWhile_id)
  have "?F (dropWhile ?P q) = []" if "m_type m = k"
    using by_prio_rest [OF assms, of _ m] that by (force simp: filter_empty_conv)
  then show ?thesis using q by (auto simp: prio_insert_def)
qed

end
