(* ===== verification/Mq_Correct.thy ===== *)
theory Mq_Correct
  imports Mq_Queue Ipc_Counts
begin

text \<open>
  The invariant of the POSIX message queues of a namespace. \<open>H f\<close> and \<open>J i\<close> count the references to
  files and inodes that the running call holds, \<open>X\<close> are the blocks of the message it has in its
  hands, and \<open>R s\<close> counts the references to a socket that are not those of a registered notification.
\<close>

subsection \<open>References\<close>

definition names_to :: "(string \<rightharpoonup> addr) \<Rightarrow> addr \<Rightarrow> int" where
  "names_to nm i = map_sum (\<lambda>j. of_bool (j = i)) nm"

definition files_to :: "(addr \<rightharpoonup> mq_file) \<Rightarrow> addr \<Rightarrow> int" where
  "files_to fs i = map_sum (\<lambda>fl. of_bool (f_inode fl = i)) fs"

definition fds_to :: "(nat \<rightharpoonup> fdent) \<Rightarrow> addr \<Rightarrow> int" where
  "fds_to fd f = map_sum (\<lambda>e. of_bool (e = MqFile f)) fd"

definition waits_to :: "(task \<rightharpoonup> ext_wait) \<Rightarrow> addr \<Rightarrow> int" where
  "waits_to ws f = map_sum (\<lambda>w. of_bool (w_file w = f)) ws"

text \<open>A file is kept by descriptors, sleeping tasks and running calls.\<close>

definition files_ok ::
  "(addr \<rightharpoonup> mq_file) \<Rightarrow> (nat \<rightharpoonup> fdent) \<Rightarrow> (task \<rightharpoonup> ext_wait) \<Rightarrow> (addr \<Rightarrow> int) \<Rightarrow> bool" where
  "files_ok fs fd ws H \<longleftrightarrow>
     finite (dom fs) \<and> finite (dom fd) \<and> finite (dom ws) \<and>
     (\<forall>f fl. fs f = Some fl \<longrightarrow> f_count fl = fds_to fd f + waits_to ws f + H f \<and> 1 \<le> fds_to fd f + waits_to ws f + H f) \<and>
     (\<forall>n f. fd n = Some (MqFile f) \<longrightarrow> fs f \<noteq> None) \<and> (\<forall>t w. ws t = Some w \<longrightarrow> fs (w_file w) \<noteq> None) \<and>
     (\<forall>f. 0 \<le> H f \<and> (0 < H f \<longrightarrow> fs f \<noteq> None))"

text \<open>An inode is kept by names, files and running calls.\<close>

definition inodes_ok ::
  "(addr \<rightharpoonup> mqueue_inode_info) \<Rightarrow> (string \<rightharpoonup> addr) \<Rightarrow> (addr \<rightharpoonup> mq_file) \<Rightarrow> (addr \<Rightarrow> int) \<Rightarrow> bool" where
  "inodes_ok is nm fs J \<longleftrightarrow>
     finite (dom is) \<and> finite (dom nm) \<and> finite (dom fs) \<and>
     (\<forall>i info. is i = Some info \<longrightarrow>
        i_count info = names_to nm i + files_to fs i + J i \<and> 1 \<le> names_to nm i + files_to fs i + J i) \<and>
     (\<forall>n i. nm n = Some i \<longrightarrow> is i \<noteq> None) \<and> (\<forall>f fl. fs f = Some fl \<longrightarrow> is (f_inode fl) \<noteq> None) \<and>
     (\<forall>i. 0 \<le> J i \<and> (0 < J i \<longrightarrow> is i \<noteq> None))"

subsection \<open>Waiting\<close>

text \<open>Task \<open>t\<close> waits on the inode \<open>i\<close>.\<close>

definition waits_on :: "(task \<rightharpoonup> ext_wait) \<Rightarrow> (addr \<rightharpoonup> mq_file) \<Rightarrow> direction \<Rightarrow> task \<Rightarrow> addr \<Rightarrow> bool" where
  "waits_on ws fs d t i \<longleftrightarrow>
     (\<exists>w. ws t = Some w \<and> w_dir w = d \<and> w_state w = STATE_NONE \<and> map_option f_inode (fs (w_file w)) = Some i)"

definition wait_lists_ok ::
  "(addr \<rightharpoonup> mqueue_inode_info) \<Rightarrow> (task \<rightharpoonup> ext_wait) \<Rightarrow> (addr \<rightharpoonup> mq_file) \<Rightarrow> bool" where
  "wait_lists_ok is ws fs \<longleftrightarrow>
     (\<forall>i info. is i = Some info \<longrightarrow>
        distinct (wait_send info) \<and> (\<forall>t. t \<in> set (wait_send info) \<longleftrightarrow> waits_on ws fs SEND t i) \<and>
        distinct (wait_recv info) \<and> (\<forall>t. t \<in> set (wait_recv info) \<longleftrightarrow> waits_on ws fs RECV t i))"

text \<open>A sender waits with its message, a receiver goes on with one.\<close>

definition frame_ok :: "'h mq_hdr_scheme \<Rightarrow> ext_wait \<Rightarrow> bool" where
  "frame_ok K w \<longleftrightarrow>
     w_state w \<noteq> STATE_PENDING \<and> (w_msg w \<noteq> None \<longleftrightarrow> (w_dir w = SEND \<longleftrightarrow> w_state w = STATE_NONE)) \<and>
     (\<forall>m. w_msg w = Some m \<longrightarrow> msg_wf K (m_ts m) m)"

definition frames_ok :: "'h mq_hdr_scheme \<Rightarrow> (task \<rightharpoonup> ext_wait) \<Rightarrow> task set \<Rightarrow> bool" where
  "frames_ok K ws sl \<longleftrightarrow>
     (\<forall>t w. ws t = Some w \<longrightarrow> frame_ok K w) \<and> (\<forall>t\<in>sl. \<exists>w. ws t = Some w \<and> w_state w = STATE_NONE)"

subsection \<open>Queues\<close>

text \<open>Senders wait only while the queue is full, receivers only while it is empty.\<close>

definition queue_ok :: "'h mq_hdr_scheme \<Rightarrow> mqueue_inode_info \<Rightarrow> bool" where
  "queue_ok K info \<longleftrightarrow>
     table_ok info \<and> by_prio (mq_list info) \<and> (\<forall>m\<in>set (mq_list info). msg_wf K (m_ts m) m) \<and>
     (wait_send info \<noteq> [] \<longrightarrow> mq_curmsgs (attr info) = mq_maxmsg (attr info)) \<and>
     (wait_recv info \<noteq> [] \<longrightarrow> mq_curmsgs (attr info) = 0) \<and>
     (notify_owner info \<noteq> None \<and> sigev_notify (notify info) = SIGEV_THREAD \<longrightarrow>
        notify_sock info \<noteq> None \<and> notify_cookie info \<noteq> None)"

definition i_own :: "mqueue_inode_info \<Rightarrow> addr multiset" where
  "i_own info = mset (concat (map msg_addrs (mq_list info)))"

definition w_own :: "ext_wait \<Rightarrow> addr multiset" where
  "w_own w = (case w_msg w of None \<Rightarrow> {#} | Some m \<Rightarrow> mset (msg_addrs m))"

definition mq_own_ok ::
  "(addr \<rightharpoonup> mqueue_inode_info) \<Rightarrow> (task \<rightharpoonup> ext_wait) \<Rightarrow> mblocks \<Rightarrow> addr multiset \<Rightarrow> bool" where
  "mq_own_ok is ws mb X \<longleftrightarrow>
     finite (dom is) \<and> finite (dom ws) \<and> finite (dom mb) \<and>
     map_sum i_own is + map_sum w_own ws + X = mset_set (dom mb)"

subsection \<open>Accounting\<close>

definition mq_bytes :: "'h mq_hdr_scheme \<Rightarrow> mqueue_inode_info \<Rightarrow> ulong" where
  "mq_bytes K info = (case mq_calculate_sizes K (attr info) of None \<Rightarrow> 0 | Some (_, q) \<Rightarrow> q)"

definition charged :: "'h mq_hdr_scheme \<Rightarrow> nat \<Rightarrow> mqueue_inode_info \<Rightarrow> int" where
  "charged K u info = (if mq_user info = Some u then uint (mq_bytes K info) else 0)"

definition mq_acct_ok ::
  "'h mq_hdr_scheme \<Rightarrow> (addr \<rightharpoonup> mqueue_inode_info) \<Rightarrow> (nat \<Rightarrow> ulong) \<Rightarrow> int \<Rightarrow> bool \<Rightarrow> bool" where
  "mq_acct_ok K is ub n alive \<longleftrightarrow>
     finite (dom is) \<and> (\<forall>i info. is i = Some info \<longrightarrow> mq_user info \<noteq> None) \<and>
     (\<forall>u. uint (ub u) = map_sum (charged K u) is) \<and> (alive \<longrightarrow> n = map_sum (\<lambda>_. 1) is)"

text \<open>A socket that is registered is referenced, on top of the references \<open>R\<close> of others.\<close>

definition registered :: "nat \<Rightarrow> mqueue_inode_info \<Rightarrow> bool" where
  "registered s info \<longleftrightarrow>
     notify_owner info \<noteq> None \<and> sigev_notify (notify info) = SIGEV_THREAD \<and> notify_sock info = Some s"

definition socks_ok :: "(addr \<rightharpoonup> mqueue_inode_info) \<Rightarrow> (nat \<Rightarrow> int) \<Rightarrow> (nat \<Rightarrow> int) \<Rightarrow> bool" where
  "socks_ok is refs R \<longleftrightarrow>
     finite (dom is) \<and> (\<forall>s. 0 \<le> R s) \<and> (\<forall>s. R s + map_sum (\<lambda>info. of_bool (registered s info)) is \<le> refs s)"

definition limits_ok :: "'h mq_hdr_scheme \<Rightarrow> mq_ns \<Rightarrow> bool" where
  "limits_ok K ns \<longleftrightarrow>
     0 < mq_msg_max ns \<and>
     mq_calculate_sizes K \<lparr>mq_flags = 0, mq_maxmsg = mq_msg_max ns, mq_msgsize = mq_msgsize_max ns, mq_curmsgs = 0\<rparr> \<noteq> None"

definition mq_held ::
  "'h mq_hdr_scheme \<Rightarrow> (addr \<Rightarrow> int) \<Rightarrow> (addr \<Rightarrow> int) \<Rightarrow> addr multiset \<Rightarrow> (nat \<Rightarrow> int) \<Rightarrow> mq_ns \<Rightarrow> bool" where
  "mq_held K H J X R ns \<longleftrightarrow>
     msg_hdr_ok K \<and> limits_ok K ns \<and>
     files_ok (files ns) (fds ns) (waits ns) H \<and> inodes_ok (inodes ns) (names ns) (files ns) J \<and>
     wait_lists_ok (inodes ns) (waits ns) (files ns) \<and> frames_ok K (waits ns) (mq_asleep ns) \<and>
     (\<forall>i info. inodes ns i = Some info \<longrightarrow> queue_ok K info) \<and>
     mq_own_ok (inodes ns) (waits ns) (mq_blocks ns) X \<and>
     mq_acct_ok K (inodes ns) (user_bytes ns) (mq_queues_count ns) (sb_alive ns) \<and>
     socks_ok (inodes ns) (sock_refs ns) R"

definition mq_inv :: "'h mq_hdr_scheme \<Rightarrow> (nat \<Rightarrow> int) \<Rightarrow> mq_ns \<Rightarrow> bool" where
  "mq_inv K R ns = mq_held K (\<lambda>_. 0) (\<lambda>_. 0) {#} R ns"

lemma mq_heldD:
  assumes "mq_held K H J X R ns"
  shows "msg_hdr_ok K" "limits_ok K ns" "files_ok (files ns) (fds ns) (waits ns) H"
    "inodes_ok (inodes ns) (names ns) (files ns) J" "wait_lists_ok (inodes ns) (waits ns) (files ns)"
    "frames_ok K (waits ns) (mq_asleep ns)" "\<And>i info. inodes ns i = Some info \<Longrightarrow> queue_ok K info"
    "mq_own_ok (inodes ns) (waits ns) (mq_blocks ns) X"
    "mq_acct_ok K (inodes ns) (user_bytes ns) (mq_queues_count ns) (sb_alive ns)"
    "socks_ok (inodes ns) (sock_refs ns) R"
  using assms by (auto simp: mq_held_def)

lemma limits_cong:
  "limits_ok K ns \<Longrightarrow> mq_msg_max ns' = mq_msg_max ns \<Longrightarrow> mq_msgsize_max ns' = mq_msgsize_max ns \<Longrightarrow> limits_ok K ns'"
  by (simp add: limits_ok_def)

subsection \<open>Changing one thing\<close>

lemmas to_defs = names_to_def files_to_def fds_to_def waits_to_def

lemma to_nonneg: "0 \<le> names_to nm i" "0 \<le> files_to fs i" "0 \<le> fds_to fd f" "0 \<le> waits_to ws f"
  by (simp_all add: to_defs map_sum_nonneg)

lemma to_ge:
  "finite (dom nm) \<Longrightarrow> nm n = Some i \<Longrightarrow> 1 \<le> names_to nm i"
  "finite (dom fs) \<Longrightarrow> fs f = Some fl \<Longrightarrow> 1 \<le> files_to fs (f_inode fl)"
  using map_sum_ge [of nm n i "\<lambda>j. of_bool (j = i) :: int"] map_sum_ge [of fs f fl "\<lambda>x. of_bool (f_inode x = f_inode fl) :: int"]
  by (simp_all add: to_defs)

lemma inodes_ok_upd:
  "inodes_ok is nm fs J \<Longrightarrow> is i = Some info \<Longrightarrow> i_count info' = i_count info \<Longrightarrow> inodes_ok (is(i \<mapsto> info')) nm fs J"
  by (auto simp: inodes_ok_def)

lemma mq_acct_upd:
  assumes "mq_acct_ok K is ub n alive" and "is i = Some info" and "mq_user info' = mq_user info"
    and "mq_bytes K info' = mq_bytes K info"
  shows "mq_acct_ok K (is(i \<mapsto> info')) ub n alive"
proof -
  have "finite (dom is)" using assms(1) by (simp add: mq_acct_ok_def)
  then have "map_sum (charged K u) (is(i \<mapsto> info')) = map_sum (charged K u) is"
    "map_sum (\<lambda>_. 1 :: int) (is(i \<mapsto> info')) = map_sum (\<lambda>_. 1) is" for u
    using assms(2-4) by (simp_all add: map_sum_upd_same charged_def)
  then show ?thesis using assms by (auto simp: mq_acct_ok_def)
qed

lemma socks_ok_upd:
  assumes "socks_ok is refs R" and "is i = Some info" and "\<And>s. registered s info' \<Longrightarrow> registered s info"
  shows "socks_ok (is(i \<mapsto> info')) refs R"
proof -
  have "map_sum (\<lambda>x. of_bool (registered s x)) (is(i \<mapsto> info')) \<le> (map_sum (\<lambda>x. of_bool (registered s x)) is :: int)" for s
    using map_sum_upd [of "is" i info "\<lambda>x. of_bool (registered s x) :: int" info'] assms by (auto simp: socks_ok_def)
  then show ?thesis using assms(1) by (auto simp: socks_ok_def intro: order_trans [rotated])
qed

text \<open>The registration is given up together with the reference.\<close>

lemma socks_ok_drop:
  assumes "socks_ok is refs R" and "is i = Some info" and "registered s info" and "\<And>s. \<not> registered s info'"
  shows "socks_ok (is(i \<mapsto> info')) (sock_put s refs) R"
  unfolding socks_ok_def
proof (intro conjI allI)
  show "finite (dom (is(i \<mapsto> info')))" "0 \<le> R y" for y using assms(1) by (simp_all add: socks_ok_def)
  fix x
  have "map_sum (\<lambda>y. of_bool (registered x y)) (is(i \<mapsto> info')) =
      map_sum (\<lambda>y. of_bool (registered x y)) is - (of_bool (x = s) :: int)"
    using map_sum_upd [of "is" i info "\<lambda>y. of_bool (registered x y) :: int" info'] assms
    by (auto simp: socks_ok_def registered_def)
  moreover have "R x + map_sum (\<lambda>y. of_bool (registered x y)) is \<le> refs x" using assms(1) by (simp add: socks_ok_def)
  ultimately show "R x + map_sum (\<lambda>y. of_bool (registered x y)) (is(i \<mapsto> info')) \<le> sock_put s refs x"
    by (auto simp: sock_put_def)
qed

lemma swap_own: "a' + X' = a + (X :: 'a multiset) \<Longrightarrow> b + a + c + X = Y \<Longrightarrow> b + a' + c + X' = Y"
  by (metis (no_types, lifting) add.assoc add.commute)

lemma mq_own_inode:
  assumes "mq_own_ok is ws mb X" and "is i = Some info" and "i_own info' + X' = i_own info + X"
  shows "mq_own_ok (is(i \<mapsto> info')) ws mb X'"
proof -
  have f: "finite (dom is)" using assms(1) by (simp add: mq_own_ok_def)
  have "map_sum i_own (is(i := None)) + i_own info + map_sum w_own ws + X = mset_set (dom mb)"
    using assms(1) map_sum_split [OF f assms(2), of i_own] by (simp add: mq_own_ok_def)
  then have "map_sum i_own (is(i := None)) + i_own info' + map_sum w_own ws + X' = mset_set (dom mb)"
    by (rule swap_own [OF assms(3)])
  then show ?thesis using assms(1) map_sum_replace [OF f, of i_own i info'] by (simp add: mq_own_ok_def)
qed

lemma mq_own_wait_add: "mq_own_ok is ws mb (X + w_own w) \<Longrightarrow> ws t = None \<Longrightarrow> mq_own_ok is (ws(t \<mapsto> w)) mb X"
  using map_sum_new [of ws t w_own w] by (simp add: mq_own_ok_def ac_simps)

lemma mq_own_wait_del: "mq_own_ok is ws mb X \<Longrightarrow> ws t = Some w \<Longrightarrow> mq_own_ok is (ws(t := None)) mb (X + w_own w)"
  using map_sum_split [of ws t w w_own] by (simp add: mq_own_ok_def ac_simps)

lemma mq_own_wait_upd:
  assumes "mq_own_ok is ws mb X" and "ws t = Some w" and "w_own w' + X' = w_own w + X"
  shows "mq_own_ok is (ws(t \<mapsto> w')) mb X'"
proof -
  have "mq_own_ok is (ws(t := None)) mb (X + w_own w)" by (rule mq_own_wait_del [OF assms(1,2)])
  then have "mq_own_ok is (ws(t := None)) mb (X' + w_own w')" using assms(3) by (simp add: add.commute)
  then show ?thesis using mq_own_wait_add [of "is" "ws(t := None)" mb X' w' t] by simp
qed

lemma mq_own_free:
  assumes "mq_own_ok is ws mb (X + mset (msg_addrs m))"
  shows "\<exists>mb'. free_msg m mb = Some mb' \<and> mq_own_ok is ws mb' X"
  using assms dom_mset_delete [of mb "map_sum i_own is + map_sum w_own ws + X" "msg_addrs m"]
  by (auto simp: mq_own_ok_def free_msg_def add.assoc)

lemma mq_own_grown:
  "mq_own_ok is ws mb X \<Longrightarrow> grown mb mb' (msg_addrs m) \<Longrightarrow> mq_own_ok is ws mb' (X + mset (msg_addrs m))"
  using dom_mset_grown [of mb mb' "msg_addrs m"] by (auto simp: mq_own_ok_def add.assoc [symmetric])

definition rest_same :: "mq_ns \<Rightarrow> mq_ns \<Rightarrow> bool" where
  "rest_same ns ns' \<longleftrightarrow>
     mq_msg_max ns' = mq_msg_max ns \<and> mq_msgsize_max ns' = mq_msgsize_max ns \<and> names ns' = names ns \<and> files ns' = files ns \<and>
     fds ns' = fds ns \<and> user_bytes ns' = user_bytes ns \<and> mq_queues_count ns' = mq_queues_count ns \<and> sb_alive ns' = sb_alive ns"

lemma held_inode:
  assumes "mq_held K H J X R ns" and "inodes ns i = Some info"
    and "i_count info' = i_count info" "mq_user info' = mq_user info" "mq_bytes K info' = mq_bytes K info" "queue_ok K info'"
    and "rest_same ns ns'" and "inodes ns' = (inodes ns)(i \<mapsto> info')"
    and "files_ok (files ns) (fds ns) (waits ns') H'" and "wait_lists_ok ((inodes ns)(i \<mapsto> info')) (waits ns') (files ns)"
    and "frames_ok K (waits ns') (mq_asleep ns')" and "mq_own_ok ((inodes ns)(i \<mapsto> info')) (waits ns') (mq_blocks ns') X'"
    and "socks_ok ((inodes ns)(i \<mapsto> info')) (sock_refs ns') R'"
  shows "mq_held K H' J X' R' ns'"
  using assms(6-13) mq_heldD(1,2,7) [OF assms(1)] inodes_ok_upd [OF mq_heldD(4) [OF assms(1)] assms(2,3)]
    mq_acct_upd [OF mq_heldD(9) [OF assms(1)] assms(2,4,5)]
  by (auto simp: mq_held_def limits_ok_def rest_same_def)

lemma mq_list_same [simp]:
  "mq_list (info\<lparr>i_count := x0\<rparr>) = mq_list info"
  "mq_list (info\<lparr>wait_send := x1\<rparr>) = mq_list info"
  "mq_list (info\<lparr>wait_recv := x2\<rparr>) = mq_list info"
  "mq_list (info\<lparr>notify := x3\<rparr>) = mq_list info"
  "mq_list (info\<lparr>notify_owner := x4\<rparr>) = mq_list info"
  "mq_list (info\<lparr>notify_sock := x5\<rparr>) = mq_list info"
  "mq_list (info\<lparr>notify_cookie := x6\<rparr>) = mq_list info"
  "mq_list (info\<lparr>mq_user := x7\<rparr>) = mq_list info"
  by (simp_all add: mq_list_def split: msg_table.split)

lemma table_ok_same [simp]:
  "table_ok (info\<lparr>i_count := x0\<rparr>) = table_ok info"
  "table_ok (info\<lparr>wait_send := x1\<rparr>) = table_ok info"
  "table_ok (info\<lparr>wait_recv := x2\<rparr>) = table_ok info"
  "table_ok (info\<lparr>notify := x3\<rparr>) = table_ok info"
  "table_ok (info\<lparr>notify_owner := x4\<rparr>) = table_ok info"
  "table_ok (info\<lparr>notify_sock := x5\<rparr>) = table_ok info"
  "table_ok (info\<lparr>notify_cookie := x6\<rparr>) = table_ok info"
  "table_ok (info\<lparr>mq_user := x7\<rparr>) = table_ok info"
  by (simp_all add: table_ok_def)

lemma mq_bytes_same:
  "attr info' = (attr info)\<lparr>mq_curmsgs := n\<rparr> \<Longrightarrow> mq_bytes K info' = mq_bytes K info"
  "attr info' = attr info \<Longrightarrow> mq_bytes K info' = mq_bytes K info"
  by (simp_all add: mq_bytes_def mq_calculate_sizes_def split: option.split)

subsection \<open>Dropping references\<close>

lemma free_table_spec:
  "free_table (length ms) (map Some ms @ rest) mb = kfree_all (concat (map msg_addrs ms)) mb"
proof (induction ms arbitrary: mb)
  case (Cons m ms)
  have k: "kfree_all (as @ bs) mb = (case kfree_all as mb of None \<Rightarrow> None | Some mb' \<Rightarrow> kfree_all bs mb')" for as bs mb
    by (induction as arbitrary: mb) simp_all
  show ?case using Cons.IH by (simp add: free_msg_def k split: option.split)
qed simp

lemma evict_spec:
  assumes h: "mq_held K H J X R ns" and i: "inodes ns i = Some info" and J: "i_count info = 1" "J i = 1"
  shows "\<exists>ns'. mqueue_evict_inode K i ns = Some ns' \<and> mq_held K H (J(i := 0)) X R ns' \<and>
    names ns' = names ns \<and> files ns' = files ns \<and> inodes ns' = (inodes ns)(i := None)"
proof -
  note D = mq_heldD [OF h]
  have cnt: "names_to (names ns) i = 0" "files_to (files ns) i = 0"
    using D(4) i J to_nonneg(1) [of "names ns" i] to_nonneg(2) [of "files ns" i] by (auto simp: inodes_ok_def)
  have fin: "finite (dom (inodes ns))" "finite (dom (names ns))" "finite (dom (files ns))" using D(4) by (auto simp: inodes_ok_def)
  have no: "names ns n \<noteq> Some i" "files ns f = Some fl \<Longrightarrow> f_inode fl \<noteq> i" for n f fl
    using to_ge(1) [OF fin(2), of n i] to_ge(2) [OF fin(3), of f fl] cnt by auto
  obtain ms rest where t: "messages info = Table (map Some ms @ rest)" "mq_curmsgs (attr info) = int (length ms)"
    "mq_list info = rev ms"
    using table_okE [of info] D(7) [OF i] by (metis queue_ok_def)
  have "map_sum i_own ((inodes ns)(i := None)) + i_own info + map_sum w_own (waits ns) + X = mset_set (dom (mq_blocks ns))"
    using D(8) map_sum_split [OF fin(1) i, of i_own] by (simp add: mq_own_ok_def)
  moreover have "i_own info = mset (concat (map msg_addrs ms))"
    by (simp add: i_own_def t(3) mset_concat rev_map [symmetric] sum_list_rev)
  ultimately have "map_sum i_own ((inodes ns)(i := None)) + map_sum w_own (waits ns) + X + mset (concat (map msg_addrs ms)) =
      mset_set (dom (mq_blocks ns))"
    by (metis (no_types, lifting) add.assoc add.commute)
  then obtain mb where mb: "kfree_all (concat (map msg_addrs ms)) (mq_blocks ns) = Some mb"
    "mq_own_ok ((inodes ns)(i := None)) (waits ns) mb X"
    using dom_mset_delete [of "mq_blocks ns" "map_sum i_own ((inodes ns)(i := None)) + map_sum w_own (waits ns) + X"
        "concat (map msg_addrs ms)"] D(8)
    by (auto simp: mq_own_ok_def)
  obtain u where u: "mq_user info = Some u" using D(9) i unfolding mq_acct_ok_def by blast
  define ns' where "ns' = ns\<lparr>mq_blocks := mb, inodes := (inodes ns)(i := None),
      user_bytes := (user_bytes ns)(u := user_bytes ns u - mq_bytes K info),
      mq_queues_count := (if sb_alive ns then mq_queues_count ns - 1 else mq_queues_count ns)\<rparr>"
  have e: "mqueue_evict_inode K i ns = Some ns'"
    using i t(1,2) mb(1) u
    by (simp add: mqueue_evict_inode_def free_table_spec mq_bytes_def ns'_def Let_def)
  have ch: "map_sum (charged K v) ((inodes ns)(i := None)) = uint (user_bytes ns v) - charged K v info" for v
    using map_sum_delete [OF fin(1) i, of "charged K v"] D(9) by (simp add: mq_acct_ok_def)
  have "uint (mq_bytes K info) \<le> uint (user_bytes ns u)"
    using ch [of u] u map_sum_nonneg [of "charged K u" "(inodes ns)(i := None)"] by (simp add: charged_def)
  then have ub: "uint (user_bytes ns u - mq_bytes K info) = uint (user_bytes ns u) - uint (mq_bytes K info)"
    by (simp add: uint_sub_lem [THEN iffD1])
  have "mq_acct_ok K ((inodes ns)(i := None)) ((user_bytes ns)(u := user_bytes ns u - mq_bytes K info))
      (if sb_alive ns then mq_queues_count ns - 1 else mq_queues_count ns) (sb_alive ns)"
    using D(9) fin(1) ch ub u map_sum_delete [OF fin(1) i, of "\<lambda>_. 1 :: int"] by (auto simp: mq_acct_ok_def charged_def)
  moreover have "socks_ok ((inodes ns)(i := None)) (sock_refs ns) R"
  proof -
    have "map_sum (\<lambda>x. of_bool (registered s x)) ((inodes ns)(i := None)) \<le> (map_sum (\<lambda>x. of_bool (registered s x)) (inodes ns) :: int)" for s
      using map_sum_delete [OF fin(1) i, of "\<lambda>x. of_bool (registered s x) :: int"] by simp
    then show ?thesis using D(10) by (auto simp: socks_ok_def intro: order_trans [rotated])
  qed
  moreover have "inodes_ok ((inodes ns)(i := None)) (names ns) (files ns) (J(i := 0))"
    using D(4) no by (auto simp: inodes_ok_def)
  moreover have "wait_lists_ok ((inodes ns)(i := None)) (waits ns) (files ns)" using D(5) by (auto simp: wait_lists_ok_def)
  ultimately have "mq_held K H (J(i := 0)) X R ns'"
    using D(1-3,6,7) mb(2) by (auto simp: mq_held_def ns'_def limits_ok_def)
  then show ?thesis using e by (auto simp: ns'_def)
qed

lemma iput_spec:
  assumes h: "mq_held K H J X R ns" and J: "0 < J i"
  shows "\<exists>ns'. iput K i ns = Some ns' \<and> mq_held K H (J(i := J i - 1)) X R ns'"
proof -
  note D = mq_heldD [OF h]
  obtain info where i: "inodes ns i = Some info" using D(4) J by (auto simp: inodes_ok_def)
  have c: "i_count info = names_to (names ns) i + files_to (files ns) i + J i" "1 \<le> i_count info"
    using D(4) i by (auto simp: inodes_ok_def)
  show ?thesis
  proof (cases "i_count info - 1 = 0")
    case True
    then have "J i = 1" using c J to_nonneg(1) [of "names ns" i] to_nonneg(2) [of "files ns" i] by linarith
    then show ?thesis using evict_spec [OF h i] True i by (auto simp: iput_def)
  next
    case False
    let ?info = "info\<lparr>i_count := i_count info - 1\<rparr>"
    have same: "queue_ok K ?info" "i_own ?info = i_own info" "\<And>s. registered s ?info = registered s info"
      "mq_bytes K ?info = mq_bytes K info"
      using D(7) [OF i] by (simp_all add: queue_ok_def i_own_def registered_def mq_bytes_def)
    have "2 \<le> names_to (names ns) i + files_to (files ns) i + J i" using c False by linarith
    then have "inodes_ok ((inodes ns)(i \<mapsto> ?info)) (names ns) (files ns) (J(i := J i - 1))"
      using D(4) c(1) i J by (auto simp: inodes_ok_def)
    moreover have "wait_lists_ok ((inodes ns)(i \<mapsto> ?info)) (waits ns) (files ns)"
      using D(5) i by (auto simp: wait_lists_ok_def)
    ultimately have "mq_held K H (J(i := J i - 1)) X R (set_inode i ?info ns)"
      using D mq_acct_upd [OF D(9) i, of ?info] mq_own_inode [OF D(8) i, of ?info X] socks_ok_upd [OF D(10) i, of ?info] same
      by (auto simp: mq_held_def set_inode_def limits_ok_def)
    then show ?thesis using False i by (simp add: iput_def)
  qed
qed

lemma waits_on_cong:
  assumes "\<And>t w. ws t = Some w \<Longrightarrow> map_option f_inode (fs' (w_file w)) = map_option f_inode (fs (w_file w))"
  shows "waits_on ws fs' = waits_on ws fs"
proof -
  have "waits_on ws fs' d t i = waits_on ws fs d t i" for d t i
  proof (cases "ws t")
    case (Some w)
    then show ?thesis unfolding waits_on_def using assms [OF Some] by (simp del: map_option_eq_Some)
  qed (simp add: waits_on_def)
  then show ?thesis by (simp add: fun_eq_iff)
qed

lemma wait_lists_files:
  assumes "wait_lists_ok is ws fs"
    and "\<And>t w. ws t = Some w \<Longrightarrow> map_option f_inode (fs' (w_file w)) = map_option f_inode (fs (w_file w))"
  shows "wait_lists_ok is ws fs'"
proof -
  have "waits_on ws fs' = waits_on ws fs" by (rule waits_on_cong) (rule assms(2))
  then show ?thesis using assms(1) by (simp add: wait_lists_ok_def)
qed

text \<open>Replacing a file by one for the same inode.\<close>

lemma held_file:
  assumes h: "mq_held K H J X R ns" and f: "files ns f = Some fl"
    and fl': "f_inode fl' = f_inode fl" "f_count fl' = f_count fl + d" "0 \<le> H f + d" "1 \<le> f_count fl + d"
  shows "mq_held K (H(f := H f + d)) J X R (ns\<lparr>files := (files ns)(f \<mapsto> fl')\<rparr>)"
proof -
  note D = mq_heldD [OF h]
  have fin: "finite (dom (files ns))" using D(3) by (simp add: files_ok_def)
  have "files_to ((files ns)(f \<mapsto> fl')) i = files_to (files ns) i" for i
    unfolding files_to_def by (rule map_sum_upd_same [OF fin f]) (simp add: fl'(1))
  then have "inodes_ok (inodes ns) (names ns) ((files ns)(f \<mapsto> fl')) J"
    using D(4) f fl'(1) by (auto simp: inodes_ok_def)
  moreover have "files_ok ((files ns)(f \<mapsto> fl')) (fds ns) (waits ns) (H(f := H f + d))"
    using D(3) f fl'(2-4) by (auto simp: files_ok_def)
  moreover have "wait_lists_ok (inodes ns) (waits ns) ((files ns)(f \<mapsto> fl'))"
    by (rule wait_lists_files [OF D(5)]) (simp add: f fl'(1))
  ultimately show ?thesis using D by (simp add: mq_held_def limits_ok_def)
qed

lemma fput_spec:
  assumes h: "mq_held K H J X R ns" and H: "0 < H f"
  shows "\<exists>ns'. fput K f ns = Some ns' \<and> mq_held K (H(f := H f - 1)) J X R ns'"
proof -
  note D = mq_heldD [OF h]
  obtain fl where f: "files ns f = Some fl" using D(3) H by (auto simp: files_ok_def)
  have c: "f_count fl = fds_to (fds ns) f + waits_to (waits ns) f + H f" "1 \<le> f_count fl"
    and fin: "finite (dom (files ns))" "finite (dom (fds ns))" "finite (dom (waits ns))"
    using D(3) f by (auto simp: files_ok_def)
  let ?i = "f_inode fl"
  show ?thesis
  proof (cases "f_count fl - 1 = 0")
    case True
    then have z: "fds_to (fds ns) f = 0" "waits_to (waits ns) f = 0" "H f = 1"
      using c H to_nonneg(3) [of "fds ns" f] to_nonneg(4) [of "waits ns" f] by linarith+
    have no: "fds ns n \<noteq> Some (MqFile f)" "waits ns t = Some w \<Longrightarrow> w_file w \<noteq> f" for n t w
      using map_sum_ge [OF fin(2), of n "MqFile f" "\<lambda>e. of_bool (e = MqFile f) :: int"]
        map_sum_ge [OF fin(3), of t w "\<lambda>w. of_bool (w_file w = f) :: int"] z by (auto simp: to_defs)
    let ?fs = "(files ns)(f := None)"
    have ft: "files_to ?fs i = files_to (files ns) i - of_bool (?i = i)" for i
      unfolding files_to_def by (rule map_sum_delete [OF fin(1) f])
    have "files_ok ?fs (fds ns) (waits ns) (H(f := H f - 1))" using D(3) no z(3) by (auto simp: files_ok_def)
    moreover have "1 \<le> names_to (names ns) ?i + files_to (files ns) ?i + J ?i" using D(4) f by (fastforce simp: inodes_ok_def)
    then have "inodes_ok (inodes ns) (names ns) ?fs (J(?i := J ?i + 1))"
      using D(4) f by (auto simp: inodes_ok_def ft add_nonneg_pos)
    moreover have "wait_lists_ok (inodes ns) (waits ns) ?fs"
      by (rule wait_lists_files [OF D(5)]) (use no in auto)
    ultimately have h': "mq_held K (H(f := H f - 1)) (J(?i := J ?i + 1)) X R (ns\<lparr>files := ?fs\<rparr>)"
      using D by (simp add: mq_held_def limits_ok_def)
    have "0 \<le> J ?i" using D(4) by (auto simp: inodes_ok_def)
    then obtain ns' where "iput K ?i (ns\<lparr>files := ?fs\<rparr>) = Some ns'"
      "mq_held K (H(f := H f - 1)) ((J(?i := J ?i + 1))(?i := (J(?i := J ?i + 1)) ?i - 1)) X R ns'"
      using iput_spec [OF h', of ?i] by auto
    then show ?thesis using True f by (simp add: fput_def)
  next
    case False
    then have "mq_held K (H(f := H f + - 1)) J X R (ns\<lparr>files := (files ns)(f \<mapsto> fl\<lparr>f_count := f_count fl - 1\<rparr>)\<rparr>)"
      by (intro held_file [OF h f]) (use H c(2) in auto)
    then show ?thesis using False f by (simp add: fput_def)
  qed
qed

lemma fget_spec:
  assumes "mq_held K H J X R ns"
  obtains "fget n ns = (Inl EBADF, ns)"
  | f fl info ns' where "fget n ns = (Inr f, ns')" "mq_held K (H(f := H f + 1)) J X R ns'" "files ns' f = Some fl"
    "inodes ns' (f_inode fl) = Some info" "inodes ns' = inodes ns" "waits ns' = waits ns" "mq_blocks ns' = mq_blocks ns"
    "fds ns n = Some (MqFile f)"
proof (cases "fds ns n")
  case None
  then show thesis using that(1) by (simp add: fget_def)
next
  case (Some e)
  show thesis
  proof (cases e)
    case OtherFile
    then show thesis using that(1) Some by (simp add: fget_def)
  next
    case (MqFile f)
    note D = mq_heldD [OF assms]
    have "files ns f \<noteq> None" using D(3) Some MqFile by (auto simp: files_ok_def)
    then obtain fl where f: "files ns f = Some fl" by blast
    have c: "1 \<le> f_count fl" "0 \<le> H f" using D(3) f by (auto simp: files_ok_def)
    have "inodes ns (f_inode fl) \<noteq> None" using D(4) f by (auto simp: inodes_ok_def)
    then obtain info where i: "inodes ns (f_inode fl) = Some info" by blast
    let ?ns = "ns\<lparr>files := (files ns)(f \<mapsto> fl\<lparr>f_count := f_count fl + 1\<rparr>)\<rparr>"
    have "mq_held K (H(f := H f + 1)) J X R ?ns" by (rule held_file [OF assms f]) (use c in auto)
    then show thesis
      using that(2) [of f ?ns "fl\<lparr>f_count := f_count fl + 1\<rparr>" info] Some MqFile f i by (simp add: fget_def)
  qed
qed

lemma out_fput_spec:
  assumes "mq_held K H J X R ns" and "0 < H f"
  shows "\<exists>ns'. out_fput K f r ns = (Done r, ns') \<and> mq_held K (H(f := H f - 1)) J X R ns'"
  using fput_spec [OF assms] by (auto simp: out_fput_def)

lemma mq_free_fail_spec:
  assumes h: "mq_held K H J (X + mset (msg_addrs m)) R ns" and H: "0 < H f"
  shows "\<exists>ns'. mq_free_fail K f err m ns = (Done (Inl err), ns') \<and> mq_held K (H(f := H f - 1)) J X R ns'"
proof -
  obtain mb where mb: "free_msg m (mq_blocks ns) = Some mb" "mq_own_ok (inodes ns) (waits ns) mb X"
    using mq_own_free [OF mq_heldD(8) [OF h]] by blast
  then have "mq_held K H J X R (ns\<lparr>mq_blocks := mb\<rparr>)" using mq_heldD [OF h] by (simp add: mq_held_def limits_ok_def)
  then show ?thesis using out_fput_spec [of K H J X R "ns\<lparr>mq_blocks := mb\<rparr>" f "Inl err"] H mb(1) by (simp add: mq_free_fail_def)
qed

subsection \<open>Sleeping and waking\<close>

lemma wq_add_set [simp]: "set (wq_add prio t ws) = insert t (set ws)" "distinct (wq_add prio t ws) \<longleftrightarrow> t \<notin> set ws \<and> distinct ws"
  by (induction ws) auto

lemma waits_on_upd:
  "waits_on (ws(t \<mapsto> w)) fs d s i \<longleftrightarrow>
     (if s = t then w_dir w = d \<and> w_state w = STATE_NONE \<and> map_option f_inode (fs (w_file w)) = Some i
      else waits_on ws fs d s i)"
  "waits_on (ws(t := None)) fs d s i \<longleftrightarrow> s \<noteq> t \<and> waits_on ws fs d s i"
  by (auto simp: waits_on_def)

lemma waits_on_once:
  "waits_on ws fs d t i \<Longrightarrow> waits_on ws fs d' t j \<Longrightarrow> d' = d \<and> j = i"
  by (auto simp: waits_on_def)

text \<open>Changing the frame of one task and the lists of the inode it waits on.\<close>

lemma wait_lists_upd:
  assumes "wait_lists_ok is ws fs" and "is i = Some info"
    and "\<And>d s j. s \<noteq> t \<or> j \<noteq> i \<Longrightarrow> waits_on ws' fs d s j = waits_on ws fs d s j"
    and "distinct (wait_send info')" "distinct (wait_recv info')"
    and "\<And>s. s \<in> set (wait_send info') \<longleftrightarrow> waits_on ws' fs SEND s i" "\<And>s. s \<in> set (wait_recv info') \<longleftrightarrow> waits_on ws' fs RECV s i"
  shows "wait_lists_ok (is(i \<mapsto> info')) ws' fs"
  using assms by (auto simp: wait_lists_ok_def)

lemma list_waits:
  assumes "mq_held K H J X R ns" and "inodes ns i = Some info"
  shows "t \<in> set (wait_send info) \<longleftrightarrow> waits_on (waits ns) (files ns) SEND t i"
    "t \<in> set (wait_recv info) \<longleftrightarrow> waits_on (waits ns) (files ns) RECV t i"
    "distinct (wait_send info)" "distinct (wait_recv info)"
  using mq_heldD(5) [OF assms(1)] assms(2) by (auto simp: wait_lists_ok_def)

lemma files_ok_wait_upd:
  assumes "files_ok fs fd ws H" and "ws t = Some w" and "w_file w' = w_file w"
  shows "files_ok fs fd (ws(t \<mapsto> w')) H"
proof -
  have "waits_to (ws(t \<mapsto> w')) f = waits_to ws f" for f
    unfolding waits_to_def by (rule map_sum_upd_same) (use assms in \<open>auto simp: files_ok_def\<close>)
  then show ?thesis using assms by (auto simp: files_ok_def)
qed

lemma files_ok_sleep:
  assumes "files_ok fs fd ws H" and "ws t = None" and "0 < H (w_file w)"
  shows "files_ok fs fd (ws(t \<mapsto> w)) (H(w_file w := H (w_file w) - 1))"
proof -
  have "waits_to (ws(t \<mapsto> w)) f = waits_to ws f + of_bool (w_file w = f)" for f
    unfolding waits_to_def by (rule map_sum_new) (use assms in \<open>auto simp: files_ok_def\<close>)
  moreover have "1 \<le> fds_to fd (w_file w) + waits_to ws (w_file w) + H (w_file w)"
    using assms(3) to_nonneg(3) [of fd "w_file w"] to_nonneg(4) [of ws "w_file w"] by linarith
  ultimately show ?thesis using assms by (auto simp: files_ok_def)
qed

lemma files_ok_wake:
  assumes "files_ok fs fd ws H" and "ws t = Some w"
  shows "files_ok fs fd (ws(t := None)) (H(w_file w := H (w_file w) + 1))"
proof -
  have "waits_to (ws(t := None)) f = waits_to ws f - of_bool (w_file w = f)" for f
    unfolding waits_to_def by (rule map_sum_delete) (use assms in \<open>auto simp: files_ok_def\<close>)
  moreover have "1 \<le> fds_to fd (w_file w) + waits_to ws (w_file w) + H (w_file w)"
    using assms by (fastforce simp: files_ok_def)
  ultimately show ?thesis using assms by (auto simp: files_ok_def add_nonneg_pos)
qed

lemma held_same_sel:
  "i_own (info\<lparr>wait_send := x\<rparr>) = i_own info" "i_own (info\<lparr>wait_recv := x\<rparr>) = i_own info"
  "registered s (info\<lparr>wait_send := x\<rparr>) = registered s info" "registered s (info\<lparr>wait_recv := x\<rparr>) = registered s info"
  "mq_bytes K (info\<lparr>wait_send := x\<rparr>) = mq_bytes K info" "mq_bytes K (info\<lparr>wait_recv := x\<rparr>) = mq_bytes K info"
  by (simp_all add: i_own_def registered_def mq_bytes_def)

lemma wq_sleep_spec:
  assumes h: "mq_held K H J (X + w_own w) R ns" and i: "inodes ns i = Some info" and fl: "files ns (w_file w) = Some fl" "f_inode fl = i"
    and H: "0 < H (w_file w)" and t: "waits ns (current E) = None" and w: "frame_ok K w" "w_state w = STATE_NONE"
    and q: "if w_dir w = SEND then mq_curmsgs (attr info) = mq_maxmsg (attr info) else mq_curmsgs (attr info) = 0"
  shows "mq_held K (H(w_file w := H (w_file w) - 1)) J X R (wq_sleep E i info w ns)"
proof -
  note D = mq_heldD [OF h]
  let ?t = "current E" and ?ws = "(waits ns)(current E \<mapsto> w)"
  define info' where "info' = (case w_dir w of
      SEND \<Rightarrow> info\<lparr>wait_send := wq_add (static_prio E) ?t (wait_send info)\<rparr>
    | RECV \<Rightarrow> info\<lparr>wait_recv := wq_add (static_prio E) ?t (wait_recv info)\<rparr>)"
  have no: "\<not> waits_on (waits ns) (files ns) d ?t j" for d j using t by (simp add: waits_on_def)
  have lists: "wait_lists_ok ((inodes ns)(i \<mapsto> info')) ?ws (files ns)"
    by (rule wait_lists_upd [OF D(5) i, of ?t])
      (use fl w(2) list_waits [OF h i] no in \<open>auto simp: waits_on_upd info'_def split: direction.splits\<close>)
  have "i_own info' = i_own info" "\<And>s. registered s info' = registered s info" "mq_bytes K info' = mq_bytes K info"
    "i_count info' = i_count info" "mq_user info' = mq_user info"
    by (simp_all add: info'_def held_same_sel split: direction.split)
  moreover have "queue_ok K info'" using D(7) [OF i] q by (auto simp: queue_ok_def info'_def split: direction.split)
  moreover have "frames_ok K ?ws (insert ?t (mq_asleep ns))" using D(6) w by (auto simp: frames_ok_def)
  moreover have "mq_own_ok ((inodes ns)(i \<mapsto> info')) ?ws (mq_blocks ns) X"
    by (rule mq_own_inode [OF mq_own_wait_add [OF D(8) t] i]) (simp add: calculation)
  moreover have "socks_ok ((inodes ns)(i \<mapsto> info')) (sock_refs ns) R"
    by (rule socks_ok_upd [OF D(10) i]) (simp add: calculation)
  ultimately show ?thesis
    by (intro held_inode [OF h i, of info'])
      (auto simp: wq_sleep_def set_inode_def rest_same_def Let_def info'_def [symmetric] intro: files_ok_sleep D(3) t H lists)
qed

text \<open>A task that waits on the queue is woken: its frame becomes \<open>w'\<close>.\<close>

lemma wake_spec:
  assumes h: "mq_held K H J X R ns" and i: "inodes ns i = Some info" and on: "waits_on (waits ns) (files ns) d t i"
    and w: "waits ns t = Some w" "w_file w' = w_file w" "w_dir w' = w_dir w" "w_state w' = STATE_READY" "frame_ok K w'"
    and info': "i_count info' = i_count info" "mq_user info' = mq_user info" "mq_bytes K info' = mq_bytes K info" "queue_ok K info'"
      "wait_send info' = (if d = SEND then remove1 t (wait_send info) else wait_send info)"
      "wait_recv info' = (if d = RECV then remove1 t (wait_recv info) else wait_recv info)"
      "\<And>s. registered s info' = registered s info"
    and own: "i_own info' + (w_own w' + X') = i_own info + (w_own w + X)"
  shows "mq_held K H J X' R (set_inode i info' (ns\<lparr>waits := (waits ns)(t \<mapsto> w'), mq_asleep := mq_asleep ns - {t}\<rparr>))"
proof -
  note D = mq_heldD [OF h]
  let ?ws = "(waits ns)(t \<mapsto> w')"
  have other: "waits_on (waits ns) (files ns) d' t j \<Longrightarrow> d' = d \<and> j = i" for d' j by (rule waits_on_once [OF on])
  have e: "waits_on ?ws (files ns) d' s j \<longleftrightarrow> s \<noteq> t \<and> waits_on (waits ns) (files ns) d' s j" for d' s j
    by (simp add: waits_on_upd w(4))
  note L = list_waits [OF h i]
  have m: "set (wait_send info') = set (wait_send info) - {t}" "set (wait_recv info') = set (wait_recv info) - {t}"
    using L(3,4) L(1) [of t] L(2) [of t] other [of SEND i] other [of RECV i] by (auto simp: info'(5,6))
  have "distinct (wait_send info')" "distinct (wait_recv info')" using L(3,4) by (simp_all add: info'(5,6))
  then have lists: "wait_lists_ok ((inodes ns)(i \<mapsto> info')) ?ws (files ns)"
    using m L(1,2) other by (intro wait_lists_upd [OF D(5) i, of t]) (auto simp: e)
  have "mq_own_ok ((inodes ns)(i \<mapsto> info')) ((waits ns)(t := None)) (mq_blocks ns) (X' + w_own w')"
    by (rule mq_own_inode [OF mq_own_wait_del [OF D(8) w(1)] i]) (use own in \<open>simp add: add.commute\<close>)
  then have "mq_own_ok ((inodes ns)(i \<mapsto> info')) ?ws (mq_blocks ns) X'"
    using mq_own_wait_add [of _ "(waits ns)(t := None)" _ X' w' t] by simp
  moreover have "frames_ok K ?ws (mq_asleep ns - {t})" using D(6) w(5) by (auto simp: frames_ok_def)
  moreover have "socks_ok ((inodes ns)(i \<mapsto> info')) (sock_refs ns) R"
    by (rule socks_ok_upd [OF D(10) i]) (simp add: info'(7))
  ultimately show ?thesis
    by (intro held_inode [OF h i info'(1-4)])
      (auto simp: set_inode_def rest_same_def intro: files_ok_wait_upd [OF D(3) w(1,2)] lists)
qed

end
