(* ===== verification/Mq_Calls.thy ===== *)
theory Mq_Calls
  imports Mq_Correct
begin

text \<open>Every call on POSIX message queues keeps the invariant, and none faults or spins.\<close>

subsection \<open>Notification\<close>

text \<open>The notification of \<open>info\<close> goes out and its owner is forgotten.\<close>

lemma send_cookie_spec:
  assumes S: "socks_ok is (sock_refs ns) R" and i: "is i = Some info" and q: "queue_ok K info0"
    and same: "notify_owner info0 = notify_owner info" "notify info0 = notify info" "notify_sock info0 = notify_sock info"
      "notify_cookie info0 = notify_cookie info"
    and ow: "notify_owner info \<noteq> None" "notify_owner info' = None" and th: "sigev_notify (notify info) = SIGEV_THREAD"
  shows "\<exists>evs refs. send_cookie info0 c ns = Some (ns\<lparr>events := evs, sock_refs := refs\<rparr>) \<and> socks_ok (is(i \<mapsto> info')) refs R"
proof -
  obtain s k where s: "notify_sock info = Some s" "notify_cookie info = Some k"
    using q ow(1) same th by (auto simp: queue_ok_def)
  have reg: "registered s info" using ow(1) th s by (simp add: registered_def)
  have "finite (dom is)" using S by (simp add: socks_ok_def)
  then have "1 \<le> (map_sum (\<lambda>x. of_bool (registered s x)) is :: int)"
    using map_sum_ge [of "is" i info "\<lambda>x. of_bool (registered s x) :: int"] i reg by simp
  moreover have "0 \<le> R s" "R s + map_sum (\<lambda>x. of_bool (registered s x)) is \<le> sock_refs ns s"
    using S by (simp_all add: socks_ok_def)
  ultimately have "0 < sock_refs ns s" by linarith
  then have "send_cookie info0 c ns = Some (ns\<lparr>events := events ns @ [Cookie s k c], sock_refs := sock_put s (sock_refs ns)\<rparr>)"
    using s same by (simp add: send_cookie_def)
  moreover have "socks_ok (is(i \<mapsto> info')) (sock_put s (sock_refs ns)) R"
    by (rule socks_ok_drop [OF S i reg]) (use ow in \<open>simp add: registered_def\<close>)
  ultimately show ?thesis by blast
qed

lemma do_notify_spec:
  assumes S: "socks_ok is (sock_refs ns) R" and i: "is i = Some info" and q: "queue_ok K info1"
    and same: "notify_owner info1 = notify_owner info" "notify info1 = notify info" "notify_sock info1 = notify_sock info"
      "notify_cookie info1 = notify_cookie info"
  shows "\<exists>info2 evs refs. do_notify E info1 ns = Some (info2, ns\<lparr>events := evs, sock_refs := refs\<rparr>) \<and>
    (info2 = info1 \<or> info2 = info1\<lparr>notify_owner := None\<rparr>) \<and> socks_ok (is(i \<mapsto> info2)) refs R"
proof (cases "notify_owner info1 = None \<or> mq_curmsgs (attr info1) \<noteq> 1")
  case True
  then have "do_notify E info1 ns = Some (info1, ns\<lparr>events := events ns, sock_refs := sock_refs ns\<rparr>)"
    by (auto simp: do_notify_def split: option.split)
  moreover have "socks_ok (is(i \<mapsto> info1)) (sock_refs ns) R"
    by (rule socks_ok_upd [OF S i]) (simp add: registered_def same)
  ultimately show ?thesis by blast
next
  case False
  let ?info = "info1\<lparr>notify_owner := None\<rparr>"
  show ?thesis
  proof (cases "sigev_notify (notify info) = SIGEV_THREAD")
    case True
    then obtain evs refs where "send_cookie info1 True ns = Some (ns\<lparr>events := evs, sock_refs := refs\<rparr>)" "socks_ok (is(i \<mapsto> ?info)) refs R"
      using send_cookie_spec [OF S i q same, of ?info True] False same by auto
    moreover from this(1) have "do_notify E info1 ns = Some (?info, ns\<lparr>events := evs, sock_refs := refs\<rparr>)"
      using False True same by (auto simp: do_notify_def)
    ultimately show ?thesis by blast
  next
    case other: False
    have "\<exists>evs. do_notify E info1 ns = Some (?info, ns\<lparr>events := evs\<rparr>)"
      using other False same(2) exI [of "\<lambda>evs. ns = ns\<lparr>events := evs\<rparr>" "events ns"]
      by (auto simp: do_notify_def split: sigev.split)
    then obtain evs where "do_notify E info1 ns = Some (?info, ns\<lparr>events := evs\<rparr>)" by blast
    then have "do_notify E info1 ns = Some (?info, ns\<lparr>events := evs, sock_refs := sock_refs ns\<rparr>)" by simp
    moreover have "socks_ok (is(i \<mapsto> ?info)) (sock_refs ns) R"
      by (rule socks_ok_upd [OF S i]) (simp add: registered_def)
    ultimately show ?thesis by blast
  qed
qed

lemma remove_notification_spec:
  assumes h: "mq_held K H J X R ns" and i: "inodes ns i = Some info" and o: "notify_owner info \<noteq> None"
  shows "\<exists>info' ns'. remove_notification info ns = Some (info', ns') \<and> mq_held K H J X R (set_inode i info' ns')"
proof -
  note D = mq_heldD [OF h]
  let ?info = "info\<lparr>notify_owner := None\<rparr>"
  obtain evs refs where e: "remove_notification info ns = Some (?info, ns\<lparr>events := evs, sock_refs := refs\<rparr>)"
    "socks_ok ((inodes ns)(i \<mapsto> ?info)) refs R"
  proof (cases "sigev_notify (notify info) = SIGEV_THREAD")
    case True
    then show thesis
      using that send_cookie_spec [OF D(10) i D(7) [OF i], of ?info False] o by (auto simp: remove_notification_def)
  next
    case False
    have "socks_ok ((inodes ns)(i \<mapsto> ?info)) (sock_refs ns) R" by (rule socks_ok_upd [OF D(10) i]) (simp add: registered_def)
    then show thesis using that [of "sock_refs ns" "events ns"] False by (simp add: remove_notification_def)
  qed
  have "queue_ok K ?info" "i_own ?info = i_own info" using D(7) [OF i] by (auto simp: queue_ok_def i_own_def)
  moreover have "wait_lists_ok ((inodes ns)(i \<mapsto> ?info)) (waits ns) (files ns)" using D(5) i by (auto simp: wait_lists_ok_def)
  moreover have "mq_own_ok ((inodes ns)(i \<mapsto> ?info)) (waits ns) (mq_blocks ns) X"
    by (rule mq_own_inode [OF D(8) i]) (simp add: calculation)
  ultimately have "mq_held K H J X R (set_inode i ?info (ns\<lparr>events := evs, sock_refs := refs\<rparr>))"
    using D(3,6) e(2) by (intro held_inode [OF h i, of ?info]) (auto simp: set_inode_def rest_same_def mq_bytes_def)
  then show ?thesis using e(1) by blast
qed

subsection \<open>Sending\<close>

lemma i_own_insert: "mq_list info' = prio_insert m (mq_list info) \<Longrightarrow> i_own info' = i_own info + mset (msg_addrs m)"
proof -
  assume "mq_list info' = prio_insert m (mq_list info)"
  then have "mset (mq_list info') = add_mset m (mset (mq_list info))" by simp
  moreover have "mset (concat (map msg_addrs ms)) = \<Sum>\<^sub># (image_mset (\<lambda>m. mset (msg_addrs m)) (mset ms))" for ms
    by (induction ms) simp_all
  then have "i_own x = \<Sum>\<^sub># (image_mset (\<lambda>m. mset (msg_addrs m)) (mset (mq_list x)))" for x
    by (simp add: i_own_def)
  ultimately show ?thesis by (simp add: add.commute)
qed

lemma waiter:
  assumes h: "mq_held K H J X R ns" and on: "waits_on (waits ns) (files ns) d t i"
  obtains w where "waits ns t = Some w" "w_dir w = d" "w_state w = STATE_NONE" "frame_ok K w"
  using assms mq_heldD(6) [OF h] by (auto simp: waits_on_def frames_ok_def)

lemma insert_queue_ok:
  assumes q: "queue_ok K info" and n: "mq_curmsgs (attr info) \<noteq> mq_maxmsg (attr info)" and m: "msg_wf K (m_ts m) m"
    and r: "wait_recv info = []"
  shows "\<exists>info'. msg_insert m info = Some info' \<and> queue_ok K info' \<and> i_own info' = i_own info + mset (msg_addrs m) \<and>
    mq_bytes K info' = mq_bytes K info \<and>
    info' = info\<lparr>messages := messages info', attr := (attr info)\<lparr>mq_curmsgs := mq_curmsgs (attr info) + 1\<rparr>,
                 qsize := qsize info'\<rparr>"
proof -
  obtain info' where I: "msg_insert m info = Some info'" "table_ok info'" "mq_list info' = prio_insert m (mq_list info)"
    "info' = info\<lparr>messages := messages info', attr := (attr info)\<lparr>mq_curmsgs := mq_curmsgs (attr info) + 1\<rparr>,
                 qsize := qsize info'\<rparr>"
    using msg_insert_spec [of info m] q n by (auto simp: queue_ok_def)
  define tb sz where "tb = messages info'" and "sz = qsize info'"
  have e: "info' = info\<lparr>messages := tb, attr := (attr info)\<lparr>mq_curmsgs := mq_curmsgs (attr info) + 1\<rparr>, qsize := sz\<rparr>"
    using I(4) by (simp add: tb_def sz_def)
  have sel: "wait_send info' = wait_send info" "wait_recv info' = []" "notify_owner info' = notify_owner info"
    "notify info' = notify info" "notify_sock info' = notify_sock info" "notify_cookie info' = notify_cookie info"
    "attr info' = (attr info)\<lparr>mq_curmsgs := mq_curmsgs (attr info) + 1\<rparr>"
    by (simp_all add: e r)
  have "wait_send info = []" using q n by (auto simp: queue_ok_def)
  then have "queue_ok K info'"
    using q m I(2,3) by_prio_insert by (auto simp: queue_ok_def sel)
  then show ?thesis using I(1,4) i_own_insert [OF I(3)] mq_bytes_same(1) [OF sel(7)] by blast
qed

lemma last_waiter: "wq_get_first_waiter ws = Some t \<Longrightarrow> t \<in> set ws" "wq_get_first_waiter ws = None \<longleftrightarrow> ws = []"
  by (auto simp: wq_get_first_waiter_def split: if_splits)

lemma mq_send_locked_spec:
  assumes h: "mq_held K H J (X + mset (msg_addrs m)) R ns" and f: "files ns f = Some fl" and H: "0 < H f"
    and m: "msg_wf K (m_ts m) m" and t: "waits ns (current E) = None"
  shows "\<exists>r ns'. mq_send_locked K E f fl m ns = (r, ns') \<and> returns_ok r \<and> mq_held K (H(f := H f - 1)) J X R ns'"
proof -
  note D = mq_heldD [OF h]
  let ?i = "f_inode fl"
  have "inodes ns ?i \<noteq> None" using D(4) f by (auto simp: inodes_ok_def)
  then obtain info where i: "inodes ns ?i = Some info" by blast
  show ?thesis
  proof (cases "mq_curmsgs (attr info) = mq_maxmsg (attr info)")
    case full: True
    show ?thesis
    proof (cases "f_nonblock fl")
      case True
      then show ?thesis
        using mq_free_fail_spec [OF h H, of EAGAIN] full i by (auto simp: mq_send_locked_def returns_ok_def)
    next
      case False
      let ?w = "\<lparr>w_file = f, w_dir = SEND, w_msg = Some m, w_state = STATE_NONE, w_dest = 0, w_prio = False\<rparr>"
      have "mq_held K (H(w_file ?w := H (w_file ?w) - 1)) J X R (wq_sleep E ?i info ?w ns)"
        by (rule wq_sleep_spec [OF _ i]) (use h f H t m full in \<open>auto simp: w_own_def frame_ok_def\<close>)
      then show ?thesis using False full i by (simp add: mq_send_locked_def returns_ok_def)
    qed
  next
    case space: False
    show ?thesis
    proof (cases "wq_get_first_waiter (wait_recv info)")
      case (Some s)
      then have on: "waits_on (waits ns) (files ns) RECV s ?i" using list_waits(2) [OF h i] last_waiter(1) by blast
      obtain w where w: "waits ns s = Some w" "w_dir w = RECV" "w_state w = STATE_NONE" "frame_ok K w" using waiter [OF h on] .
      let ?w = "w\<lparr>w_msg := Some m, w_state := STATE_READY\<rparr>" and ?info = "info\<lparr>wait_recv := remove1 s (wait_recv info)\<rparr>"
      have "queue_ok K ?info" using D(7) [OF i] by (auto simp: queue_ok_def)
      then have "mq_held K H J X R (set_inode ?i ?info (ns\<lparr>waits := (waits ns)(s \<mapsto> ?w), mq_asleep := mq_asleep ns - {s}\<rparr>))"
        by (intro wake_spec [OF h i on w(1)])
          (use w m in \<open>auto simp: frame_ok_def held_same_sel w_own_def ac_simps\<close>)
      from out_fput_spec [OF this H, of "Inr 0 :: errno + int"] show ?thesis
        using space i Some w(1) by (auto simp: mq_send_locked_def mq_pipelined_send_def returns_ok_def)
    next
      case None
      then have r: "wait_recv info = []" by (simp add: last_waiter(2))
      obtain info1 where I: "msg_insert m info = Some info1" "queue_ok K info1" "i_own info1 = i_own info + mset (msg_addrs m)"
        "mq_bytes K info1 = mq_bytes K info"
        and e: "info1 = info\<lparr>messages := messages info1, attr := (attr info)\<lparr>mq_curmsgs := mq_curmsgs (attr info) + 1\<rparr>,
                 qsize := qsize info1\<rparr>"
        using insert_queue_ok [OF D(7) [OF i] space m r] by blast
      define tb sz where "tb = messages info1" and "sz = qsize info1"
      have e: "info1 = info\<lparr>messages := tb, attr := (attr info)\<lparr>mq_curmsgs := mq_curmsgs (attr info) + 1\<rparr>, qsize := sz\<rparr>"
        using e by (simp add: tb_def sz_def)
      have sel: "wait_send info1 = wait_send info" "wait_recv info1 = wait_recv info" "notify_owner info1 = notify_owner info"
        "notify info1 = notify info" "notify_sock info1 = notify_sock info" "notify_cookie info1 = notify_cookie info"
        "i_count info1 = i_count info" "mq_user info1 = mq_user info"
        by (simp_all add: e)
      obtain info2 evs refs where N: "do_notify E info1 ns = Some (info2, ns\<lparr>events := evs, sock_refs := refs\<rparr>)"
        "info2 = info1 \<or> info2 = info1\<lparr>notify_owner := None\<rparr>" "socks_ok ((inodes ns)(?i \<mapsto> info2)) refs R"
        using do_notify_spec [OF D(10) i I(2) sel(3-6), of E] by blast
      have sel2: "queue_ok K info2" "i_own info2 = i_own info1" "wait_send info2 = wait_send info" "wait_recv info2 = wait_recv info"
        "i_count info2 = i_count info" "mq_user info2 = mq_user info" "mq_bytes K info2 = mq_bytes K info"
        using N(2) I(2,4) sel by (auto simp: queue_ok_def i_own_def mq_bytes_def)
      have own: "mq_own_ok ((inodes ns)(?i \<mapsto> info2)) (waits ns) (mq_blocks ns) X"
        by (rule mq_own_inode [OF D(8) i]) (simp add: sel2(2) I(3) ac_simps)
      have "wait_lists_ok ((inodes ns)(?i \<mapsto> info2)) (waits ns) (files ns)"
        using D(5) i sel2(3,4) by (auto simp: wait_lists_ok_def)
      then have "mq_held K H J X R (set_inode ?i info2 (ns\<lparr>events := evs, sock_refs := refs\<rparr>))"
        using D(3,6) own N(3) sel2 by (intro held_inode [OF h i, of info2]) (auto simp: set_inode_def rest_same_def)
      from out_fput_spec [OF this H, of "Inr 0 :: errno + int"] show ?thesis
        using space i None I(1) N(1) by (auto simp: mq_send_locked_def returns_ok_def)
    qed
  qed
qed

text \<open>What a call needs of memory and of the virtual file system.\<close>

definition vfs_ok :: "'e mq_env_scheme \<Rightarrow> mq_ns \<Rightarrow> bool" where
  "vfs_ok E ns \<longleftrightarrow>
     getname E \<noteq> Inl KBUG \<and> unused_fd E \<noteq> Inl KBUG \<and> dentry_open E \<noteq> Inl KBUG \<and>
     lookup_err E \<noteq> Some KBUG \<and> want_write_err E \<noteq> Some KBUG \<and> vfs_create_err E \<noteq> Some KBUG \<and>
     vfs_unlink_err E \<noteq> Some KBUG \<and>
     (\<forall>i. new_inode E = Some i \<longrightarrow> inodes ns i = None) \<and> (\<forall>f. dentry_open E = Inr f \<longrightarrow> files ns f = None) \<and>
     (\<forall>n. unused_fd E = Inr n \<longrightarrow> fds ns n = None)"

text \<open>
  The passes of \<^verbatim>\<open>mq_notify\<close> come to an end, and the descriptor of the socket stays open after
  \<^verbatim>\<open>netlink_attachskb\<close> has asked to try again.
\<close>

fun attach_ok :: "bool \<Rightarrow> attach_try list \<Rightarrow> bool" where
  "attach_ok again [] = False"
| "attach_ok again (t # ts) =
     ((again \<longrightarrow> try_fget t) \<and> try_sock t \<noteq> Inl KBUG \<and> try_attach t \<noteq> AttachErr KBUG \<and>
      (try_fget t \<and> \<not> isl (try_sock t) \<and> try_attach t = AttachAgain \<longrightarrow> attach_ok True ts))"

definition mq_env_ok :: "'e mq_env_scheme \<Rightarrow> mq_ns \<Rightarrow> bool" where
  "mq_env_ok E ns \<longleftrightarrow>
     uaccess_ok E \<and> kmallocs_ok E (mq_blocks ns) \<and> security_msg_msg_alloc E \<noteq> Some KBUG \<and> vfs_ok E ns \<and>
     attach_ok False (attach_tries E)"

lemma prepare_timeout_ok: "prepare_timeout E \<noteq> Some KBUG"
  by (auto simp: prepare_timeout_def split: option.split)

lemma out_done:
  assumes "mq_held K H J X R ns" and "0 < H f" and "r \<noteq> Inl KBUG"
  shows "\<exists>r' ns'. out_fput K f r ns = (r', ns') \<and> returns_ok r' \<and> mq_held K (H(f := H f - 1)) J X R ns'"
  using out_fput_spec [OF assms(1,2), of r] assms(3) by (auto simp: returns_ok_def)

text \<open>The hands are empty again when a call has dropped the one file it held.\<close>

lemma hand_empty [simp]: "((\<lambda>_. 0)(f := 0 :: int)) = (\<lambda>_. 0)"
  by (simp add: fun_eq_iff)

lemma mq_timedsend_spec:
  assumes inv: "mq_inv K R ns" and E: "mq_env_ok E ns" and t: "waits ns (current E) = None"
  shows "\<exists>r ns'. mq_timedsend K E um n u_msg len prio tmo ns = (r, ns') \<and> returns_ok r \<and> mq_inv K R ns'"
proof -
  have h: "mq_held K (\<lambda>_. 0) (\<lambda>_. 0) {#} R ns" using inv by (simp add: mq_inv_def)
  show ?thesis
  proof (cases "tmo \<and> prepare_timeout E \<noteq> None \<or> prio \<ge> MQ_PRIO_MAX K")
    case True
    then show ?thesis using inv prepare_timeout_ok [of E] by (auto simp: mq_timedsend_def returns_ok_def)
  next
    case go: False
    show ?thesis
    proof (cases rule: fget_spec [OF h, of n])
      case 1
      then show ?thesis using go inv by (auto simp: mq_timedsend_def returns_ok_def)
    next
      case (2 f fl info ns1)
      let ?H = "(\<lambda>_. 0)(f := 1 :: int)"
      have h1: "mq_held K ?H (\<lambda>_. 0) {#} R ns1" using 2(2) by simp
      have unf: "mq_timedsend K E um n u_msg len prio tmo ns =
          (if \<not> f_write fl then out_fput K f (Inl EBADF) ns1
           else if len > word_of_int (mq_msgsize (attr info)) then out_fput K f (Inl EMSGSIZE) ns1
           else
             (case load_msg K E um u_msg (c_int (uint len)) (mq_blocks ns1) of
                None \<Rightarrow> (Hang, ns1)
              | Some (Inl err, mb) \<Rightarrow> out_fput K f (Inl err) (ns1\<lparr>mq_blocks := mb\<rparr>)
              | Some (Inr m, mb) \<Rightarrow>
                  mq_send_locked K E f fl (m\<lparr>m_ts := nat (c_int (uint len)), m_type := int prio\<rparr>) (ns1\<lparr>mq_blocks := mb\<rparr>)))"
        using go 2 by (auto simp: mq_timedsend_def)
      have o: "\<exists>r' ns'. out_fput K f (Inl e :: errno + int) ns1 = (r', ns') \<and> returns_ok r' \<and> mq_inv K R ns'" if "e \<noteq> KBUG" for e
        using out_done [OF h1, of f "Inl e :: errno + int"] that by (auto simp: mq_inv_def)
      have oks: "msg_hdr_ok K" "uaccess_ok E" "kmallocs_ok E (mq_blocks ns1)" "security_msg_msg_alloc E \<noteq> Some KBUG"
        using E mq_heldD(1) [OF h] 2(7) by (auto simp: mq_env_ok_def)
      consider (err) e where "load_msg K E um u_msg (c_int (uint len)) (mq_blocks ns1) = Some (Inl e, mq_blocks ns1)" "e \<noteq> KBUG"
        | (ok) m mb where "load_msg K E um u_msg (c_int (uint len)) (mq_blocks ns1) = Some (Inr m, mb)"
            "grown (mq_blocks ns1) mb (msg_addrs m)" "msg_wf K (nat (c_int (uint len))) m"
        using load_msg_spec [OF oks, of um u_msg "c_int (uint len)"] by blast
      then show ?thesis
      proof cases
        case err
        then show ?thesis using o [of e] o [of EBADF] o [of EMSGSIZE] by (simp add: unf)
      next
        case ok
        let ?m = "m\<lparr>m_ts := nat (c_int (uint len)), m_type := int prio\<rparr>" and ?ns = "ns1\<lparr>mq_blocks := mb\<rparr>"
        have a: "msg_addrs ?m = msg_addrs m" "msg_wf K (m_ts ?m) ?m" using ok(3) by (auto simp: msg_addrs_def msg_wf_def)
        have "mq_held K ?H (\<lambda>_. 0) ({#} + mset (msg_addrs ?m)) R ?ns"
          using mq_heldD [OF h1] mq_own_grown [OF mq_heldD(8) [OF h1] ok(2)] a(1) by (simp add: mq_held_def limits_ok_def)
        from mq_send_locked_spec [OF this _ _ a(2), of f fl E]
        have "\<exists>r ns'. mq_send_locked K E f fl ?m ?ns = (r, ns') \<and> returns_ok r \<and> mq_inv K R ns'"
          using 2(3,6) t by (simp add: mq_inv_def)
        then show ?thesis using o [of EBADF] o [of EMSGSIZE] ok(1) by (simp add: unf)
      qed
    qed
  qed
qed

subsection \<open>Receiving\<close>

lemma mq_rcv_finish_spec:
  assumes h: "mq_held K H J (X + mset (msg_addrs m)) R ns" and H: "0 < H f" and m: "msg_wf K (m_ts m) m" and U: "uaccess_ok E"
  shows "\<exists>r ns'. mq_rcv_finish K E um f u_msg wp m ns = (r, ns') \<and> returns_ok r \<and> mq_held K (H(f := H f - 1)) J X R ns'"
proof -
  obtain ok um' where st: "(if wp \<and> \<not> put_prio_ok E then Inr (False, um) else store_msg K E um u_msg m (m_ts m)) = Inr (ok, um')"
    using store_msg_spec [OF mq_heldD(1) [OF h] U m order_refl, of um u_msg] by (cases "wp \<and> \<not> put_prio_ok E") auto
  obtain mb where mb: "free_msg m (mq_blocks ns) = Some mb" "mq_own_ok (inodes ns) (waits ns) mb X"
    using mq_own_free [OF mq_heldD(8) [OF h]] by blast
  then have "mq_held K H J X R (ns\<lparr>mq_blocks := mb\<rparr>)" using mq_heldD [OF h] by (simp add: mq_held_def limits_ok_def)
  from out_done [OF this H, of "if ok then Inr (m_ts m, m_type m, um') else Inl EFAULT"]
  show ?thesis using mb(1) by (simp add: mq_rcv_finish_def st)
qed

text \<open>Taking a message; a sender that waits puts its own in.\<close>

lemma take_spec:
  assumes h: "mq_held K H J X R ns" and i: "inodes ns i = Some info" and n: "mq_curmsgs (attr info) \<noteq> 0"
  shows "\<exists>m info1 ns'. msg_get info = Some (m, info1) \<and> pipelined_receive i info1 ns = Some ns' \<and> msg_wf K (m_ts m) m \<and>
    mq_held K H J (X + mset (msg_addrs m)) R ns'"
proof -
  note D = mq_heldD [OF h] and L = list_waits [OF h i]
  have q: "queue_ok K info" using D(7) [OF i] .
  let ?m = "hd (mq_list info)"
  obtain info1 where G: "msg_get info = Some (?m, info1)" "table_ok info1" "mq_list info1 = tl (mq_list info)"
    "info1 = info\<lparr>attr := (attr info)\<lparr>mq_curmsgs := mq_curmsgs (attr info) - 1\<rparr>, qsize := qsize info1\<rparr>"
    using msg_get_spec [of info] q n by (auto simp: queue_ok_def)
  define sz where "sz = qsize info1"
  have e: "info1 = info\<lparr>attr := (attr info)\<lparr>mq_curmsgs := mq_curmsgs (attr info) - 1\<rparr>, qsize := sz\<rparr>"
    using G(4) by (simp add: sz_def)
  have ne: "mq_list info = ?m # mq_list info1" using n table_length [of info] q G(3) by (cases "mq_list info") (auto simp: queue_ok_def)
  have m: "msg_wf K (m_ts ?m) ?m" using q ne by (metis list.set_intros(1) queue_ok_def)
  have own1: "i_own info = i_own info1 + mset (msg_addrs ?m)" unfolding i_own_def by (subst ne) (simp add: add.commute)
  have sel: "wait_send info1 = wait_send info" "wait_recv info1 = wait_recv info" "notify_owner info1 = notify_owner info"
    "notify info1 = notify info" "notify_sock info1 = notify_sock info" "notify_cookie info1 = notify_cookie info"
    "i_count info1 = i_count info" "mq_user info1 = mq_user info"
    "attr info1 = (attr info)\<lparr>mq_curmsgs := mq_curmsgs (attr info) - 1\<rparr>"
    by (simp_all add: e)
  have r: "wait_recv info = []" using q n by (auto simp: queue_ok_def)
  have le: "mq_curmsgs (attr info) \<le> mq_maxmsg (attr info)" using q by (auto simp: queue_ok_def table_ok_def)
  have prio1: "by_prio (mq_list info1)" and wf1: "\<forall>x\<in>set (mq_list info1). msg_wf K (m_ts x) x"
    using q ne by (metis by_prio_def queue_ok_def sorted_wrt.simps(2), metis list.set_intros(2) queue_ok_def)
  show ?thesis
  proof (cases "wq_get_first_waiter (wait_send info)")
    case None
    then have s: "wait_send info = []" by (simp add: last_waiter(2))
    have q1: "queue_ok K info1" using q G(2) prio1 wf1 by (simp add: queue_ok_def sel s r)
    have "wait_lists_ok ((inodes ns)(i \<mapsto> info1)) (waits ns) (files ns)" using D(5) i sel(1,2) by (auto simp: wait_lists_ok_def)
    moreover have "mq_own_ok ((inodes ns)(i \<mapsto> info1)) (waits ns) (mq_blocks ns) (X + mset (msg_addrs ?m))"
      by (rule mq_own_inode [OF D(8) i]) (simp add: own1 ac_simps)
    moreover have "socks_ok ((inodes ns)(i \<mapsto> info1)) (sock_refs ns) R"
      by (rule socks_ok_upd [OF D(10) i]) (simp add: registered_def sel)
    ultimately have "mq_held K H J (X + mset (msg_addrs ?m)) R (set_inode i info1 ns)"
      using D(3,6) by (intro held_inode [OF h i sel(7,8) mq_bytes_same(1) [OF sel(9)] q1]) (auto simp: set_inode_def rest_same_def)
    then show ?thesis using G(1) m None sel(1) by (auto simp: pipelined_receive_def)
  next
    case (Some t)
    then have on: "waits_on (waits ns) (files ns) SEND t i" using L(1) last_waiter(1) by blast
    obtain w where w: "waits ns t = Some w" "w_dir w = SEND" "w_state w = STATE_NONE" "frame_ok K w" using waiter [OF h on] .
    then obtain x where x: "w_msg w = Some x" "msg_wf K (m_ts x) x" by (auto simp: frame_ok_def)
    let ?info1 = "info1\<lparr>wait_send := []\<rparr>"
    have q1: "queue_ok K ?info1" using q G(2) prio1 wf1 by (simp add: queue_ok_def sel r)
    have sp: "mq_curmsgs (attr ?info1) \<noteq> mq_maxmsg (attr ?info1)" using le by (simp add: sel)
    obtain info2 where I: "msg_insert x info1 = Some info2" "table_ok info2" "mq_list info2 = prio_insert x (mq_list info1)"
      "info2 = info1\<lparr>messages := messages info2, attr := (attr info1)\<lparr>mq_curmsgs := mq_curmsgs (attr info1) + 1\<rparr>,
                   qsize := qsize info2\<rparr>"
      using msg_insert_spec [OF G(2), of x] sp by auto
    define tb sz2 where "tb = messages info2" and "sz2 = qsize info2"
    have e2: "info2 = info1\<lparr>messages := tb, attr := (attr info1)\<lparr>mq_curmsgs := mq_curmsgs (attr info1) + 1\<rparr>, qsize := sz2\<rparr>"
      using I(4) by (simp add: tb_def sz2_def)
    let ?info3 = "info2\<lparr>wait_send := remove1 t (wait_send info2)\<rparr>" and ?w = "w\<lparr>w_msg := None, w_state := STATE_READY\<rparr>"
    have sel2: "wait_send info2 = wait_send info" "wait_recv info2 = []" "notify_owner info2 = notify_owner info"
      "notify info2 = notify info" "notify_sock info2 = notify_sock info" "notify_cookie info2 = notify_cookie info"
      "i_count info2 = i_count info" "mq_user info2 = mq_user info" "attr info2 = attr info"
      by (simp_all add: e2 sel r)
    have full: "mq_curmsgs (attr info) = mq_maxmsg (attr info)" using q Some last_waiter(1) by (fastforce simp: queue_ok_def)
    have q3: "queue_ok K ?info3"
      using q I(2,3) by_prio_insert [OF prio1, of x] wf1 x(2) full by (simp add: queue_ok_def sel2)
    have "mq_held K H J (X + mset (msg_addrs ?m)) R
        (set_inode i ?info3 (ns\<lparr>waits := (waits ns)(t \<mapsto> ?w), mq_asleep := mq_asleep ns - {t}\<rparr>))"
      by (rule wake_spec [OF h i on w(1)])
        (use w x q3 in \<open>simp_all add: frame_ok_def sel2 r mq_bytes_same(2) registered_def w_own_def held_same_sel
           i_own_insert [OF I(3)] own1 ac_simps mq_bytes_def\<close>)
    then show ?thesis using G(1) m Some sel(1) w(1) x(1) I(1) by (auto simp: pipelined_receive_def)
  qed
qed

lemma mq_timedreceive_spec:
  assumes inv: "mq_inv K R ns" and E: "mq_env_ok E ns" and t: "waits ns (current E) = None"
  shows "\<exists>r ns'. mq_timedreceive K E um n u_msg len wp tmo ns = (r, ns') \<and> returns_ok r \<and> mq_inv K R ns'"
proof -
  have h: "mq_held K (\<lambda>_. 0) (\<lambda>_. 0) {#} R ns" using inv by (simp add: mq_inv_def)
  have U: "uaccess_ok E" using E by (simp add: mq_env_ok_def)
  show ?thesis
  proof (cases "tmo \<and> prepare_timeout E \<noteq> None")
    case True
    then show ?thesis using inv prepare_timeout_ok [of E] by (auto simp: mq_timedreceive_def returns_ok_def)
  next
    case go: False
    show ?thesis
    proof (cases rule: fget_spec [OF h, of n])
      case 1
      then show ?thesis using go inv by (auto simp: mq_timedreceive_def returns_ok_def)
    next
      case (2 f fl info ns1)
      let ?H = "(\<lambda>_. 0)(f := 1 :: int)" and ?i = "f_inode fl"
      let ?w = "\<lparr>w_file = f, w_dir = RECV, w_msg = None, w_state = STATE_NONE, w_dest = u_msg, w_prio = wp\<rparr>"
      have h1: "mq_held K ?H (\<lambda>_. 0) {#} R ns1" using 2(2) by simp
      have unf: "mq_timedreceive K E um n u_msg len wp tmo ns =
          (if \<not> f_read fl then out_fput K f (Inl EBADF) ns1
           else if len < word_of_int (mq_msgsize (attr info)) then out_fput K f (Inl EMSGSIZE) ns1
           else if mq_curmsgs (attr info) = 0 then
             (if f_nonblock fl then out_fput K f (Inl EAGAIN) ns1 else (Sleep, wq_sleep E ?i info ?w ns1))
           else
             (case msg_get info of
                None \<Rightarrow> (Done (Inl KBUG), ns1)
              | Some (m, info1) \<Rightarrow>
                  (case pipelined_receive ?i info1 ns1 of
                     None \<Rightarrow> (Done (Inl KBUG), ns1)
                   | Some ns2 \<Rightarrow> mq_rcv_finish K E um f u_msg wp m ns2)))"
        using go 2 by (auto simp: mq_timedreceive_def)
      have o: "\<exists>r' ns'. out_fput K f (Inl e :: errno + nat \<times> int \<times> umem) ns1 = (r', ns') \<and> returns_ok r' \<and> mq_inv K R ns'"
        if "e \<noteq> KBUG" for e
        using out_done [OF h1, of f "Inl e :: errno + nat \<times> int \<times> umem"] that by (auto simp: mq_inv_def)
      have sleep: "mq_inv K R (wq_sleep E ?i info ?w ns1)" if "mq_curmsgs (attr info) = 0"
        using wq_sleep_spec [of K ?H "\<lambda>_. 0" "{#}" ?w R ns1 ?i info fl E] h1 2(3-6) t that
        by (simp add: w_own_def frame_ok_def mq_inv_def)
      have finish: "\<exists>r ns'. (case msg_get info of
                None \<Rightarrow> (Done (Inl KBUG), ns1)
              | Some (m, info1) \<Rightarrow>
                  (case pipelined_receive ?i info1 ns1 of
                     None \<Rightarrow> (Done (Inl KBUG), ns1)
                   | Some ns2 \<Rightarrow> mq_rcv_finish K E um f u_msg wp m ns2)) = (r, ns') \<and> returns_ok r \<and> mq_inv K R ns'"
        if ne: "mq_curmsgs (attr info) \<noteq> 0"
      proof -
        obtain m info1 ns2 where T: "msg_get info = Some (m, info1)" "pipelined_receive ?i info1 ns1 = Some ns2"
          "msg_wf K (m_ts m) m" "mq_held K ?H (\<lambda>_. 0) ({#} + mset (msg_addrs m)) R ns2"
          using take_spec [OF h1 2(4) ne] by blast
        from mq_rcv_finish_spec [OF T(4) _ T(3) U, of f um u_msg wp] show ?thesis using T(1,2) by (simp add: mq_inv_def)
      qed
      show ?thesis
        using o [of EBADF] o [of EMSGSIZE] o [of EAGAIN] sleep finish unfolding unf by (simp add: returns_ok_def)
    qed
  qed
qed

subsection \<open>Going on after a sleep\<close>

text \<open>The frame of a task is taken off; a task that was not woken leaves the wait queue, too.\<close>

lemma unframe_spec:
  assumes h: "mq_held K H J X R ns" and w: "waits ns t = Some w" "w_state w = STATE_READY"
  shows "mq_held K (H(w_file w := H (w_file w) + 1)) J (X + w_own w) R
    (ns\<lparr>waits := (waits ns)(t := None), mq_asleep := mq_asleep ns - {t}\<rparr>)"
proof -
  note D = mq_heldD [OF h]
  have "waits_on ((waits ns)(t := None)) (files ns) d s i = waits_on (waits ns) (files ns) d s i" for d s i
    using w by (auto simp: waits_on_def)
  then have "wait_lists_ok (inodes ns) ((waits ns)(t := None)) (files ns)" using D(5) by (simp add: wait_lists_ok_def)
  moreover have "frames_ok K ((waits ns)(t := None)) (mq_asleep ns - {t})" using D(6) by (auto simp: frames_ok_def)
  ultimately show ?thesis
    using D files_ok_wake [OF D(3) w(1)] mq_own_wait_del [OF D(8) w(1)] by (simp add: mq_held_def limits_ok_def)
qed

lemma wq_leave_spec:
  assumes h: "mq_held K H J X R ns" and w: "waits ns t = Some w" "w_state w = STATE_NONE"
  shows "\<exists>ns'. wq_leave t w (ns\<lparr>waits := (waits ns)(t := None), mq_asleep := mq_asleep ns - {t}\<rparr>) = Some ns' \<and>
    mq_held K (H(w_file w := H (w_file w) + 1)) J (X + w_own w) R ns'"
proof -
  note D = mq_heldD [OF h]
  have "files ns (w_file w) \<noteq> None" using D(3) w by (auto simp: files_ok_def)
  then obtain fl where fl: "files ns (w_file w) = Some fl" by blast
  let ?i = "f_inode fl" and ?ws = "(waits ns)(t := None)"
  have "inodes ns ?i \<noteq> None" using D(4) fl by (auto simp: inodes_ok_def)
  then obtain info where i: "inodes ns ?i = Some info" by blast
  note L = list_waits [OF h i]
  define info' where "info' = (case w_dir w of
      SEND \<Rightarrow> info\<lparr>wait_send := remove1 t (wait_send info)\<rparr> | RECV \<Rightarrow> info\<lparr>wait_recv := remove1 t (wait_recv info)\<rparr>)"
  have on: "waits_on (waits ns) (files ns) (w_dir w) t ?i" using w fl by (auto simp: waits_on_def)
  have m: "set (wait_send info') = set (wait_send info) - {t} \<and> set (wait_recv info') = set (wait_recv info) - {t}"
  proof (cases "w_dir w")
    case SEND
    then have "t \<notin> set (wait_recv info)" using L(2) [of t] waits_on_once [OF on, of RECV ?i] by auto
    then show ?thesis using SEND L(3) by (simp add: info'_def)
  next
    case RECV
    then have "t \<notin> set (wait_send info)" using L(1) [of t] waits_on_once [OF on, of SEND ?i] by auto
    then show ?thesis using RECV L(4) by (simp add: info'_def)
  qed
  have "distinct (wait_send info')" "distinct (wait_recv info')" using L(3,4) by (auto simp: info'_def split: direction.split)
  then have lists: "wait_lists_ok ((inodes ns)(?i \<mapsto> info')) ?ws (files ns)"
    by (intro wait_lists_upd [OF D(5) i, of t]) (use m L(1,2) waits_on_once [OF on] in \<open>auto simp: waits_on_upd\<close>)
  have same: "i_own info' = i_own info" "\<And>s. registered s info' = registered s info" "mq_bytes K info' = mq_bytes K info"
    "i_count info' = i_count info" "mq_user info' = mq_user info"
    by (simp_all add: info'_def held_same_sel split: direction.split)
  have q: "queue_ok K info'" using D(7) [OF i] by (auto simp: queue_ok_def info'_def split: direction.split)
  have own: "mq_own_ok ((inodes ns)(?i \<mapsto> info')) ?ws (mq_blocks ns) (X + w_own w)"
    by (rule mq_own_inode [OF mq_own_wait_del [OF D(8) w(1)] i]) (simp add: same)
  have "frames_ok K ?ws (mq_asleep ns - {t})" using D(6) by (auto simp: frames_ok_def)
  moreover have "socks_ok ((inodes ns)(?i \<mapsto> info')) (sock_refs ns) R"
    by (rule socks_ok_upd [OF D(10) i]) (simp add: same)
  ultimately have "mq_held K (H(w_file w := H (w_file w) + 1)) J (X + w_own w) R
      (set_inode ?i info' (ns\<lparr>waits := ?ws, mq_asleep := mq_asleep ns - {t}\<rparr>))"
    using same(3-5) q own lists files_ok_wake [OF D(3) w(1)]
    by (intro held_inode [OF h i, of info']) (auto simp: set_inode_def rest_same_def)
  then show ?thesis using fl i by (simp add: wq_leave_def info'_def)
qed

lemma sleep_again:
  "mq_inv K R ns \<Longrightarrow> waits ns t = Some w \<Longrightarrow> w_state w = STATE_NONE \<Longrightarrow>
   mq_inv K R (ns\<lparr>mq_asleep := insert t (mq_asleep ns)\<rparr>)"
  by (simp add: mq_inv_def mq_held_def limits_ok_def frames_ok_def)

lemma resume_mq_send_spec:
  assumes inv: "mq_inv K R ns" and w: "waits ns (current E) = Some w" "w_dir w = SEND"
  shows "\<exists>r ns'. resume_mq_send K E ns = (r, ns') \<and> returns_ok r \<and> mq_inv K R ns'"
proof -
  have h: "mq_held K (\<lambda>_. 0) (\<lambda>_. 0) {#} R ns" using inv by (simp add: mq_inv_def)
  have fr: "frame_ok K w" using mq_heldD(6) [OF h] w by (auto simp: frames_ok_def)
  show ?thesis
  proof (cases "w_state w")
    case STATE_NONE
    then obtain m where m: "w_msg w = Some m" using fr w by (auto simp: frame_ok_def)
    have lv: "\<exists>r ns'. (case (wq_leave (current E) w (ns\<lparr>waits := (waits ns)(current E := None), mq_asleep := mq_asleep ns - {current E}\<rparr>), w_msg w) of
        (Some ns2, Some m) \<Rightarrow> mq_free_fail K (w_file w) e m ns2 | _ \<Rightarrow> (Done (Inl KBUG), nz)) = (r :: int outcome, ns') \<and> returns_ok r \<and> mq_inv K R ns'"
      if ne: "e \<noteq> KBUG" for e nz
    proof -
      obtain ns2 where L: "wq_leave (current E) w (ns\<lparr>waits := (waits ns)(current E := None), mq_asleep := mq_asleep ns - {current E}\<rparr>) = Some ns2"
        "mq_held K ((\<lambda>_. 0)(w_file w := 1)) (\<lambda>_. 0) ({#} + mset (msg_addrs m)) R ns2"
        using wq_leave_spec [OF h w(1) STATE_NONE] m by (auto simp: w_own_def)
      from mq_free_fail_spec [OF L(2), of "w_file w" e] show ?thesis using L(1) m ne by (auto simp: mq_inv_def returns_ok_def)
    qed
    show ?thesis
      using lv [of ERESTARTSYS] lv [of ETIMEDOUT] sleep_again [OF inv w(1) STATE_NONE] STATE_NONE w
      by (auto simp: resume_mq_send_def wq_wake_def Let_def returns_ok_def)
  next
    case STATE_READY
    then have "w_msg w = None" using fr w by (auto simp: frame_ok_def)
    then have "mq_held K ((\<lambda>_. 0)(w_file w := 1)) (\<lambda>_. 0) {#} R (ns\<lparr>waits := (waits ns)(current E := None), mq_asleep := mq_asleep ns - {current E}\<rparr>)"
      using unframe_spec [OF h w(1) STATE_READY] by (simp add: w_own_def)
    from out_done [OF this, of "w_file w" "Inr 0 :: errno + int"] show ?thesis
      using w STATE_READY by (simp add: resume_mq_send_def wq_wake_def Let_def mq_inv_def)
  next
    case STATE_PENDING
    then show ?thesis using fr by (simp add: frame_ok_def)
  qed
qed

lemma resume_mq_receive_spec:
  assumes inv: "mq_inv K R ns" and U: "uaccess_ok E" and w: "waits ns (current E) = Some w" "w_dir w = RECV"
  shows "\<exists>r ns'. resume_mq_receive K E um ns = (r, ns') \<and> returns_ok r \<and> mq_inv K R ns'"
proof -
  have h: "mq_held K (\<lambda>_. 0) (\<lambda>_. 0) {#} R ns" using inv by (simp add: mq_inv_def)
  have fr: "frame_ok K w" using mq_heldD(6) [OF h] w by (auto simp: frames_ok_def)
  let ?ns1 = "ns\<lparr>waits := (waits ns)(current E := None), mq_asleep := mq_asleep ns - {current E}\<rparr>"
  show ?thesis
  proof (cases "w_state w")
    case STATE_NONE
    then have m: "w_msg w = None" using fr w by (auto simp: frame_ok_def)
    have lv: "\<exists>r ns'. (case wq_leave (current E) w ?ns1 of
        None \<Rightarrow> (Done (Inl KBUG), ?ns1) | Some ns2 \<Rightarrow> out_fput K (w_file w) (Inl e :: errno + nat \<times> int \<times> umem) ns2) = (r, ns') \<and>
        returns_ok r \<and> mq_inv K R ns'"
      if ne: "e \<noteq> KBUG" for e
    proof -
      obtain ns2 where L: "wq_leave (current E) w ?ns1 = Some ns2"
        "mq_held K ((\<lambda>_. 0)(w_file w := 1)) (\<lambda>_. 0) {#} R ns2"
        using wq_leave_spec [OF h w(1) STATE_NONE] m by (auto simp: w_own_def)
      from out_done [OF L(2), of "w_file w" "Inl e :: errno + nat \<times> int \<times> umem"] show ?thesis
        using L(1) ne by (simp add: mq_inv_def)
    qed
    show ?thesis
      using lv [of ERESTARTSYS] lv [of ETIMEDOUT] sleep_again [OF inv w(1) STATE_NONE] STATE_NONE w
      by (auto simp: resume_mq_receive_def wq_wake_def Let_def returns_ok_def)
  next
    case STATE_READY
    then obtain m where m: "w_msg w = Some m" "msg_wf K (m_ts m) m" using fr w by (auto simp: frame_ok_def)
    then have "mq_held K ((\<lambda>_. 0)(w_file w := 1)) (\<lambda>_. 0) ({#} + mset (msg_addrs m)) R ?ns1"
      using unframe_spec [OF h w(1) STATE_READY] by (simp add: w_own_def)
    from mq_rcv_finish_spec [OF this _ m(2) U, of "w_file w" um "w_dest w" "w_prio w"] show ?thesis
      using w STATE_READY m(1) by (simp add: resume_mq_receive_def wq_wake_def Let_def mq_inv_def)
  next
    case STATE_PENDING
    then show ?thesis using fr by (simp add: frame_ok_def)
  qed
qed

end
