(* ===== verification/Mq_Open.thy ===== *)
theory Mq_Open
  imports Mq_Calls
begin

text \<open>The calls on POSIX message queues that create, open, close and remove, and the registration for
  notification, keep the invariant.\<close>

subsection \<open>Descriptors and files\<close>

lemma map_sum_zero: "(\<And>k v. m k = Some v \<Longrightarrow> f v = 0) \<Longrightarrow> map_sum f m = 0"
  unfolding map_sum_def by (rule sum.neutral) auto

lemma files_pos: "files_ok fs fd ws H \<Longrightarrow> fs f \<noteq> None \<Longrightarrow> 1 \<le> fds_to fd f + waits_to ws f + H f"
  by (auto simp: files_ok_def)

lemma inodes_pos: "inodes_ok is nm fs J \<Longrightarrow> is i \<noteq> None \<Longrightarrow> 1 \<le> names_to nm i + files_to fs i + J i"
  by (auto simp: inodes_ok_def)

lemma held_fd_del:
  assumes h: "mq_held K H J X R ns" and n: "fds ns n = Some e"
  shows "mq_held K (case e of MqFile f \<Rightarrow> H(f := H f + 1) | OtherFile \<Rightarrow> H) J X R (ns\<lparr>fds := (fds ns)(n := None)\<rparr>)"
proof -
  note D = mq_heldD [OF h]
  have fin: "finite (dom (fds ns))" using D(3) by (simp add: files_ok_def)
  have "fds_to ((fds ns)(n := None)) f = fds_to (fds ns) f - of_bool (e = MqFile f)" for f
    unfolding fds_to_def by (rule map_sum_delete [OF fin n])
  then have "files_ok (files ns) ((fds ns)(n := None)) (waits ns) (case e of MqFile f \<Rightarrow> H(f := H f + 1) | OtherFile \<Rightarrow> H)"
  proof (cases e)
    case (MqFile f)
    then have "1 \<le> fds_to (fds ns) f + waits_to (waits ns) f + H f" using D(3) n by (intro files_pos) (auto simp: files_ok_def)
    then show ?thesis using D(3) n MqFile \<open>\<And>f. fds_to ((fds ns)(n := None)) f = _\<close> by (auto simp: files_ok_def add_nonneg_pos)
  qed (use D(3) n \<open>\<And>f. fds_to ((fds ns)(n := None)) f = _\<close> in \<open>auto simp: files_ok_def\<close>)
  then show ?thesis using D by (simp add: mq_held_def limits_ok_def)
qed

lemma held_fd_add:
  assumes h: "mq_held K H J X R ns" and n: "fds ns n = None" and H: "0 < H f"
  shows "mq_held K (H(f := H f - 1)) J X R (ns\<lparr>fds := (fds ns)(n \<mapsto> MqFile f)\<rparr>)"
proof -
  note D = mq_heldD [OF h]
  have "finite (dom (fds ns))" using D(3) by (simp add: files_ok_def)
  then have "fds_to ((fds ns)(n \<mapsto> MqFile f)) g = fds_to (fds ns) g + of_bool (f = g)" for g
    unfolding fds_to_def using map_sum_new [of "fds ns" n "\<lambda>e. of_bool (e = MqFile g) :: int" "MqFile f"] n by simp
  moreover have "1 \<le> fds_to (fds ns) f + waits_to (waits ns) f + H f"
    using H to_nonneg(3) [of "fds ns" f] to_nonneg(4) [of "waits ns" f] by linarith
  ultimately have "files_ok (files ns) ((fds ns)(n \<mapsto> MqFile f)) (waits ns) (H(f := H f - 1))"
    using D(3) H by (auto simp: files_ok_def)
  then show ?thesis using D by (simp add: mq_held_def limits_ok_def)
qed

lemma held_name_del:
  assumes h: "mq_held K H J X R ns" and n: "names ns nm = Some i"
  shows "mq_held K H (J(i := J i + 1)) X R (ns\<lparr>names := (names ns)(nm := None)\<rparr>)"
proof -
  note D = mq_heldD [OF h]
  have fin: "finite (dom (names ns))" using D(4) by (simp add: inodes_ok_def)
  have "names_to ((names ns)(nm := None)) j = names_to (names ns) j - of_bool (i = j)" for j
    unfolding names_to_def by (rule map_sum_delete [OF fin n])
  moreover have "1 \<le> names_to (names ns) i + files_to (files ns) i + J i" using D(4) n by (intro inodes_pos) (auto simp: inodes_ok_def)
  ultimately have "inodes_ok (inodes ns) ((names ns)(nm := None)) (files ns) (J(i := J i + 1))"
    using D(4) n by (auto simp: inodes_ok_def add_nonneg_pos ac_simps)
  then show ?thesis using D by (simp add: mq_held_def limits_ok_def)
qed

text \<open>A file for an inode that exists.\<close>

lemma held_file_add:
  assumes h: "mq_held K H J X R ns" and i: "inodes ns i = Some info" and f: "files ns f = None"
    and fl: "f_inode fl = i" "f_count fl = 1"
  shows "mq_held K (H(f := 1)) J X R (set_inode i (info\<lparr>i_count := i_count info + 1\<rparr>) (ns\<lparr>files := (files ns)(f \<mapsto> fl)\<rparr>))"
proof -
  note D = mq_heldD [OF h]
  have fin: "finite (dom (files ns))" using D(3) by (simp add: files_ok_def)
  have H: "H f = 0" using D(3) f by (metis files_ok_def order_le_less)
  have z: "fds_to (fds ns) f = 0" "waits_to (waits ns) f = 0"
    unfolding fds_to_def waits_to_def by (rule map_sum_zero; use D(3) f in \<open>fastforce simp: files_ok_def\<close>)+
  have files: "files_ok ((files ns)(f \<mapsto> fl)) (fds ns) (waits ns) (H(f := 1))"
    using D(3) z fl(2) by (auto simp: files_ok_def)
  let ?info = "info\<lparr>i_count := i_count info + 1\<rparr>"
  have "files_to ((files ns)(f \<mapsto> fl)) j = files_to (files ns) j + of_bool (i = j)" for j
    unfolding files_to_def using map_sum_new [OF fin f, of "\<lambda>x. of_bool (f_inode x = j) :: int" fl] fl(1) by simp
  moreover have "0 \<le> names_to (names ns) i + (files_to (files ns) i + J i)"
    using inodes_pos [OF D(4), of i] i by simp
  ultimately have "inodes_ok ((inodes ns)(i \<mapsto> ?info)) (names ns) ((files ns)(f \<mapsto> fl)) J"
    using D(4) i fl(1) by (auto simp: inodes_ok_def)
  moreover have same: "queue_ok K ?info" "i_own ?info = i_own info" "\<And>s. registered s ?info = registered s info"
    "mq_bytes K ?info = mq_bytes K info"
    using D(7) [OF i] by (simp_all add: queue_ok_def i_own_def registered_def mq_bytes_def)
  moreover have "wait_lists_ok (inodes ns) (waits ns) ((files ns)(f \<mapsto> fl))"
    by (rule wait_lists_files [OF D(5)]) (use D(3) f in \<open>fastforce simp: files_ok_def\<close>)
  then have "wait_lists_ok ((inodes ns)(i \<mapsto> ?info)) (waits ns) ((files ns)(f \<mapsto> fl))"
    using i by (auto simp: wait_lists_ok_def)
  ultimately show ?thesis
    using D files mq_acct_upd [OF D(9) i, of ?info] mq_own_inode [OF D(8) i, of ?info X] socks_ok_upd [OF D(10) i, of ?info]
    by (auto simp: mq_held_def set_inode_def limits_ok_def)
qed

subsection \<open>Closing, unlinking and attributes\<close>

lemma close_fd_spec:
  assumes inv: "mq_inv K R ns"
  shows "\<exists>r ns'. close_fd K E n ns = Some (r, ns') \<and> mq_inv K R ns'"
proof (cases "fds ns n")
  case None
  then show ?thesis using inv by (simp add: close_fd_def)
next
  case (Some e)
  have h: "mq_held K (\<lambda>_. 0) (\<lambda>_. 0) {#} R ns" using inv by (simp add: mq_inv_def)
  note d = held_fd_del [OF h Some]
  show ?thesis
  proof (cases e)
    case OtherFile
    then show ?thesis using Some d by (simp add: close_fd_def mq_inv_def)
  next
    case (MqFile f)
    let ?ns = "ns\<lparr>fds := (fds ns)(n := None)\<rparr>"
    have h1: "mq_held K ((\<lambda>_. 0)(f := 1)) (\<lambda>_. 0) {#} R ?ns" using d MqFile by simp
    have "files ns f \<noteq> None" using mq_heldD(3) [OF h] Some MqFile by (auto simp: files_ok_def)
    then obtain fl where fl: "files ns f = Some fl" by blast
    have "inodes ns (f_inode fl) \<noteq> None" using mq_heldD(4) [OF h] fl by (auto simp: inodes_ok_def)
    then obtain info where i: "inodes ns (f_inode fl) = Some info" by blast
    obtain ns1 where n1: "mqueue_flush_file E (f_inode fl) ?ns = Some ns1" "mq_held K ((\<lambda>_. 0)(f := 1)) (\<lambda>_. 0) {#} R ns1"
    proof (cases "notify_owner info = Some (current_tgid E)")
      case True
      obtain info' ns' where "remove_notification info ?ns = Some (info', ns')"
        "mq_held K ((\<lambda>_. 0)(f := 1)) (\<lambda>_. 0) {#} R (set_inode (f_inode fl) info' ns')"
        using remove_notification_spec [OF h1, of "f_inode fl" info] i True by auto
      then show thesis using that True i by (simp add: mqueue_flush_file_def)
    next
      case False
      then show thesis using that h1 i by (simp add: mqueue_flush_file_def)
    qed
    obtain ns2 where "fput K f ns1 = Some ns2" "mq_inv K R ns2"
      using fput_spec [OF n1(2), of f] by (auto simp: mq_inv_def)
    then show ?thesis using Some MqFile fl n1(1) by (simp add: close_fd_def)
  qed
qed

lemma mq_unlink_spec:
  assumes inv: "mq_inv K R ns" and E: "vfs_ok E ns"
  shows "\<exists>r ns'. mq_unlink K E ns = (r, ns') \<and> r \<noteq> Inl KBUG \<and> mq_inv K R ns'"
proof -
  have h: "mq_held K (\<lambda>_. 0) (\<lambda>_. 0) {#} R ns" using inv by (simp add: mq_inv_def)
  have u: "\<exists>ns'. mqueue_unlink K nm ns = Some ns' \<and> mq_inv K R ns'" if n: "names ns nm = Some i" for nm i
    using iput_spec [OF held_name_del [OF h n], of i] n by (auto simp: mqueue_unlink_def mq_inv_def)
  show ?thesis
    using inv E u by (fastforce simp: mq_unlink_def vfs_ok_def split: option.split sum.split)
qed

lemma mq_getsetattr_spec:
  assumes inv: "mq_inv K R ns"
  shows "\<exists>r ns'. mq_getsetattr K E n hn ho ns = (r, ns') \<and> returns_ok r \<and> mq_inv K R ns'"
proof -
  have h: "mq_held K (\<lambda>_. 0) (\<lambda>_. 0) {#} R ns" using inv by (simp add: mq_inv_def)
  show ?thesis
  proof (cases rule: fget_spec [OF h, of n])
    case 1
    then show ?thesis using inv by (auto simp: mq_getsetattr_def returns_ok_def)
  next
    case (2 f fl info ns1)
    let ?fl = "fl\<lparr>f_nonblock := (mq_flags (the (user_attr E)) AND O_NONBLOCK K \<noteq> 0)\<rparr>"
    define ns2 where "ns2 = (if hn then ns1\<lparr>files := (files ns1)(f \<mapsto> ?fl)\<rparr> else ns1)"
    have "1 \<le> f_count fl" using mq_heldD(3) [OF 2(2)] 2(3) unfolding files_ok_def by metis
    then have "mq_held K ((\<lambda>_. 0)(f := 1)) (\<lambda>_. 0) {#} R ns2"
      using held_file [OF 2(2,3), of ?fl 0] 2(2) by (simp add: ns2_def)
    note o = out_done [OF this, of f]
    show ?thesis
      using o [of "Inl EFAULT :: errno + mq_attr"] o [of "Inr x :: errno + mq_attr" for x] inv 2
      by (auto simp: mq_getsetattr_def returns_ok_def Let_def ns2_def [symmetric] mq_inv_def)
  qed
qed

subsection \<open>Opening\<close>

text \<open>A new inode goes with the name that is entered for it.\<close>

lemma held_new_inode:
  assumes h: "mq_held K H J X R ns" and i: "inodes ns i = None" and nm: "names ns nm = None"
    and info: "i_count info = 1" "mq_user info = Some u" "queue_ok K info" "mq_list info = []" "wait_send info = []"
      "wait_recv info = []" "notify_owner info = None"
    and ub: "uint ub = uint (user_bytes ns u) + uint (mq_bytes K info)" and alive: "sb_alive ns"
    and ns': "ns' = set_inode i info (ns\<lparr>mq_queues_count := mq_queues_count ns + 1,
      user_bytes := (user_bytes ns)(u := ub)\<rparr>)\<lparr>names := (names ns)(nm \<mapsto> i)\<rparr>"
  shows "mq_held K H J X R ns'"
proof -
  note D = mq_heldD [OF h]
  have fin: "finite (dom (inodes ns))" "finite (dom (names ns))" using D(4) by (auto simp: inodes_ok_def)
  have J: "J i = 0" using D(4) i by (metis inodes_ok_def order_le_less)
  have z: "names_to (names ns) i = 0" "files_to (files ns) i = 0"
    unfolding names_to_def files_to_def by (rule map_sum_zero; use D(4) i in \<open>fastforce simp: inodes_ok_def\<close>)+
  have nt: "names_to ((names ns)(nm \<mapsto> i)) j = names_to (names ns) j + of_bool (i = j)" for j
    unfolding names_to_def by (rule map_sum_new [OF fin(2) nm])
  have "inodes_ok ((inodes ns)(i \<mapsto> info)) ((names ns)(nm \<mapsto> i)) (files ns) J"
    using D(4) i J z info(1) by (auto simp: inodes_ok_def nt)
  moreover have "wait_lists_ok ((inodes ns)(i \<mapsto> info)) (waits ns) (files ns)"
  proof -
    have "\<not> waits_on (waits ns) (files ns) d t i" for d t
      using D(4) i by (fastforce simp: waits_on_def inodes_ok_def)
    then show ?thesis using D(5) info(5,6) by (auto simp: wait_lists_ok_def)
  qed
  moreover have "mq_own_ok ((inodes ns)(i \<mapsto> info)) (waits ns) (mq_blocks ns) X"
    using D(8) map_sum_new [OF fin(1) i, of i_own info] info(4) by (simp add: mq_own_ok_def i_own_def)
  moreover have "mq_acct_ok K ((inodes ns)(i \<mapsto> info)) ((user_bytes ns)(u := ub)) (mq_queues_count ns + 1) (sb_alive ns)"
    using D(9) map_sum_new [OF fin(1) i, of "\<lambda>_. 1 :: int" info] map_sum_new [OF fin(1) i, of "charged K v" info for v] info(2) ub alive
    by (auto simp: mq_acct_ok_def charged_def)
  moreover have "socks_ok ((inodes ns)(i \<mapsto> info)) (sock_refs ns) R"
    using D(10) map_sum_new [OF fin(1) i, of "\<lambda>x. of_bool (registered s x) :: int" info for s] info(7)
    by (auto simp: socks_ok_def registered_def)
  ultimately show ?thesis
    using D(1-3,6,7) info(3) by (auto simp: mq_held_def ns' set_inode_def limits_ok_def)
qed

lemma get_inode_spec:
  assumes i: "\<And>i. new_inode E = Some i \<Longrightarrow> inodes ns i = None"
    and at: "at = None \<Longrightarrow> limits_ok K ns" "\<And>a. at = Some a \<Longrightarrow> mq_attr_ok K E ns' a"
  shows "mqueue_get_inode K E at ns = Some (None, ns) \<or>
    (\<exists>i info u ub. mqueue_get_inode K E at ns = Some (Some i, set_inode i info (ns\<lparr>user_bytes := (user_bytes ns)(u := ub)\<rparr>)) \<and>
       inodes ns i = None \<and> i_count info = 1 \<and> mq_user info = Some u \<and> queue_ok K info \<and> mq_list info = [] \<and>
       wait_send info = [] \<and> wait_recv info = [] \<and> notify_owner info = None \<and>
       uint ub = uint (user_bytes ns u) + uint (mq_bytes K info))"
proof (cases "new_inode E")
  case None
  then show ?thesis by (simp add: mqueue_get_inode_def)
next
  case (Some i)
  define a where "a = (case at of
      None \<Rightarrow> \<lparr>mq_flags = 0, mq_maxmsg = mq_msg_max ns, mq_msgsize = mq_msgsize_max ns, mq_curmsgs = 0\<rparr>
    | Some x \<Rightarrow> \<lparr>mq_flags = 0, mq_maxmsg = mq_maxmsg x, mq_msgsize = mq_msgsize x, mq_curmsgs = 0\<rparr>)"
  have pos: "0 < mq_maxmsg a" and cur: "mq_curmsgs a = 0" and "mq_calculate_sizes K a \<noteq> None"
    using at by (auto simp: a_def limits_ok_def mq_attr_ok_def mq_calculate_sizes_def split: option.splits if_splits)
  then obtain tb qb where sz: "mq_calculate_sizes K a = Some (tb, qb)" by auto
  define info where "info tab usr = \<lparr>messages = tab, attr = a,
      notify = \<lparr>sigev_notify = SIGEV_OTHER, sigev_signo = 0, sigev_value = 0\<rparr>, notify_owner = None,
      mq_user = usr, notify_sock = None, notify_cookie = None, wait_send = [], wait_recv = [], qsize = 0, i_count = 1\<rparr>"
    for tab usr
  have None': "inodes ns i = None" by (rule i [OF Some])
  have drop: "(case iput K i (set_inode i (info tab None) ns) of None \<Rightarrow> None | Some ns' \<Rightarrow> Some (None :: addr option, ns')) = Some (None, ns)"
    if "tab = Null \<or> (\<exists>n. tab = Table n)" for tab
  proof -
    have gone: "(inodes ns)(i := None) = inodes ns" using None' by (simp add: fun_eq_iff)
    show ?thesis
      using that cur gone by (auto simp: iput_def set_inode_def info_def mqueue_evict_inode_def Let_def)
  qed
  let ?tab = "Table (replicate (nat (mq_maxmsg a)) None)" and ?u = "mq_current_user E"
  have unf: "mqueue_get_inode K E at ns =
      (if \<not> table_kmalloc_ok E then Some (None, ns)
       else (case l30_size_add_overflow (user_bytes ns ?u) qb of
               None \<Rightarrow> Some (None, ns)
             | Some ub \<Rightarrow>
                 if ub > rlimit_msgqueue E then Some (None, ns)
                 else Some (Some i, set_inode i (info ?tab (Some ?u)) (ns\<lparr>user_bytes := (user_bytes ns)(?u := ub)\<rparr>))))"
    using Some sz drop [of Null] drop [of ?tab]
    by (simp add: mqueue_get_inode_def Let_def a_def [symmetric] info_def split: option.split)
  have "table_ok (info ?tab (Some ?u))" "mq_list (info ?tab (Some ?u)) = []"
    using table_okI [of "info ?tab (Some ?u)" "[]" "replicate (nat (mq_maxmsg a)) None"] pos cur by (simp_all add: info_def)
  then have q: "queue_ok K (info ?tab (Some ?u))" "mq_list (info ?tab (Some ?u)) = []"
    by (simp_all add: queue_ok_def by_prio_def) (simp_all add: info_def)
  have b: "uint ub = uint (user_bytes ns ?u) + uint qb" if "l30_size_add_overflow (user_bytes ns ?u) qb = Some ub" for ub
    using unat_size_fits [of "unat (user_bytes ns ?u) + unat qb" ub] that
    by (simp add: add_overflow_fits) (metis of_nat_add uint_nat)
  have by': "mq_bytes K (info ?tab (Some ?u)) = qb" by (simp add: mq_bytes_def info_def sz)
  show ?thesis
  proof (cases "\<exists>ub. table_kmalloc_ok E \<and> l30_size_add_overflow (user_bytes ns ?u) qb = Some ub \<and> \<not> ub > rlimit_msgqueue E")
    case True
    then obtain ub where ub: "table_kmalloc_ok E" "l30_size_add_overflow (user_bytes ns ?u) qb = Some ub" "\<not> ub > rlimit_msgqueue E" by blast
    have "mqueue_get_inode K E at ns = Some (Some i, set_inode i (info ?tab (Some ?u)) (ns\<lparr>user_bytes := (user_bytes ns)(?u := ub)\<rparr>))"
      using ub by (simp add: unf)
    moreover have "i_count (info ?tab (Some ?u)) = 1" "mq_user (info ?tab (Some ?u)) = Some ?u" "wait_send (info ?tab (Some ?u)) = []"
      "wait_recv (info ?tab (Some ?u)) = []" "notify_owner (info ?tab (Some ?u)) = None"
      by (simp_all add: info_def)
    ultimately show ?thesis using None' q b [OF ub(2)] by' by blast
  next
    case False
    then show ?thesis by (auto simp: unf split: option.split)
  qed
qed

text \<open>A call that leaves the caller with one reference to a file, or fails.\<close>

definition opened :: "'h mq_hdr_scheme \<Rightarrow> (nat \<Rightarrow> int) \<Rightarrow> (nat \<rightharpoonup> fdent) \<Rightarrow> (errno + addr) \<times> mq_ns \<Rightarrow> bool" where
  "opened K R fd p \<longleftrightarrow>
     fds (snd p) = fd \<and>
     (case fst p of
        Inl err \<Rightarrow> err \<noteq> KBUG \<and> mq_inv K R (snd p)
      | Inr f \<Rightarrow> mq_held K ((\<lambda>_. 0)(f := 1)) (\<lambda>_. 0) {#} R (snd p))"

lemma open_inode_spec:
  assumes inv: "mq_inv K R ns" and i: "inodes ns i \<noteq> None" and E: "vfs_ok E ns'" "files ns' = files ns"
  shows "opened K R (fds ns) (open_inode K E i oflag ns)"
proof (cases "dentry_open E")
  case (Inl err)
  then show ?thesis using inv E by (auto simp: open_inode_def opened_def vfs_ok_def)
next
  case (Inr f)
  then have f: "files ns f = None" using E by (auto simp: vfs_ok_def)
  obtain info where info: "inodes ns i = Some info" using i by blast
  have h: "mq_held K (\<lambda>_. 0) (\<lambda>_. 0) {#} R ns" using inv by (simp add: mq_inv_def)
  from held_file_add [OF h info f] show ?thesis
    using Inr info by (simp add: open_inode_def opened_def set_inode_def)
qed

lemma do_create_spec:
  assumes inv: "mq_inv K R ns" and E: "vfs_ok E ns" and nm: "names ns name = None"
  shows "opened K R (fds ns) (do_create K E name oflag at ns)"
proof -
  have h: "mq_held K (\<lambda>_. 0) (\<lambda>_. 0) {#} R ns" using inv by (simp add: mq_inv_def)
  have lim: "limits_ok K ns" by (rule mq_heldD(2) [OF h])
  let ?ns1 = "ns\<lparr>mq_queues_count := mq_queues_count ns + 1\<rparr>"
  define go where "go \<longleftrightarrow> (at \<noteq> None \<longrightarrow> mq_attr_ok K E ns (the at)) \<and> want_write_err E = None \<and> vfs_create_err E = None \<and> sb_alive ns \<and>
      \<not> (mq_queues_count ns \<ge> mq_queues_max ns \<and> \<not> mq_capable E CAP_SYS_RESOURCE)"
  have "\<exists>err. do_create K E name oflag at ns = (Inl err, ns) \<and> err \<noteq> KBUG" if "\<not> go"
    using E that by (cases "want_write_err E"; cases "vfs_create_err E") (auto simp: go_def do_create_def vfs_ok_def mqueue_create_def)
  then consider (early) err where "do_create K E name oflag at ns = (Inl err, ns)" "err \<noteq> KBUG" | (go) go by blast
  then show ?thesis
  proof cases
    case early
    then show ?thesis using inv by (simp add: opened_def)
  next
    case go
    then have create: "at \<noteq> None \<longrightarrow> mq_attr_ok K E ns (the at)" "want_write_err E = None" "vfs_create_err E = None" "sb_alive ns"
      "\<not> (mq_queues_count ns \<ge> mq_queues_max ns \<and> \<not> mq_capable E CAP_SYS_RESOURCE)"
      by (auto simp: go_def)
    have unf: "do_create K E name oflag at ns =
        (case (case mqueue_get_inode K E at ?ns1 of
           None \<Rightarrow> None
         | Some (None, ns1) \<Rightarrow> Some (Some ENOMEM, ns1\<lparr>mq_queues_count := mq_queues_count ns1 - 1\<rparr>)
         | Some (Some i, ns1) \<Rightarrow> Some (None, ns1\<lparr>names := (names ns1)(name \<mapsto> i)\<rparr>)) of
           None \<Rightarrow> (Inl KBUG, ns)
         | Some (Some err, ns1) \<Rightarrow> (Inl err, ns1)
         | Some (None, ns1) \<Rightarrow> (case names ns1 name of None \<Rightarrow> (Inl KBUG, ns1) | Some i \<Rightarrow> open_inode K E i oflag ns1))"
    proof -
      have c: "\<not> (at \<noteq> None \<and> \<not> mq_attr_ok K E ns (the at))" using create(1) by blast
      show ?thesis unfolding do_create_def mqueue_create_def if_not_P [OF c] if_not_P [OF create(5)] using create(2-4) by simp
    qed
    have new: "new_inode E = Some i \<Longrightarrow> inodes ?ns1 i = None" for i using E by (simp add: vfs_ok_def)
    have lim1: "at = None \<Longrightarrow> limits_ok K ?ns1" using lim by (simp add: limits_ok_def)
    have ok: "mq_attr_ok K E ns a" if "at = Some a" for a using create(1) that by simp
    consider (no) "mqueue_get_inode K E at ?ns1 = Some (None, ?ns1)"
      | (yes) i info u ub where
          "mqueue_get_inode K E at ?ns1 = Some (Some i, set_inode i info (?ns1\<lparr>user_bytes := (user_bytes ?ns1)(u := ub)\<rparr>))"
          "inodes ?ns1 i = None" "i_count info = 1" "mq_user info = Some u" "queue_ok K info" "mq_list info = []"
          "wait_send info = []" "wait_recv info = []" "notify_owner info = None"
          "uint ub = uint (user_bytes ?ns1 u) + uint (mq_bytes K info)"
      using get_inode_spec [of E ?ns1 at K ns, OF new lim1 ok] by blast
    then show ?thesis
    proof cases
      case no
      have "?ns1\<lparr>mq_queues_count := mq_queues_count ?ns1 - 1\<rparr> = ns" by simp
      then show ?thesis using no inv by (simp add: unf opened_def)
    next
      case yes
      let ?ns2 = "set_inode i info (ns\<lparr>mq_queues_count := mq_queues_count ns + 1,
          user_bytes := (user_bytes ns)(u := ub)\<rparr>)\<lparr>names := (names ns)(name \<mapsto> i)\<rparr>"
      have "mq_held K (\<lambda>_. 0) (\<lambda>_. 0) {#} R ?ns2"
        by (rule held_new_inode [OF h _ nm]) (use yes create(4) in \<open>auto simp del: fun_upd_apply\<close>)
      then have "opened K R (fds ?ns2) (open_inode K E i oflag ?ns2)"
        by (intro open_inode_spec [OF _ _ E]) (simp_all add: mq_inv_def set_inode_def)
      moreover have "do_create K E name oflag at ns = open_inode K E i oflag ?ns2"
        unfolding unf yes(1) by (simp add: set_inode_def)
      ultimately show ?thesis by (simp add: set_inode_def)
    qed
  qed
qed

lemma mq_open_spec:
  assumes inv: "mq_inv K R ns" and E: "vfs_ok E ns"
  shows "\<exists>r ns'. mq_open K E oflag has_attr ns = (r, ns') \<and> r \<noteq> Inl KBUG \<and> mq_inv K R ns'"
proof -
  have h: "mq_held K (\<lambda>_. 0) (\<lambda>_. 0) {#} R ns" using inv by (simp add: mq_inv_def)
  show ?thesis
  proof (cases "(has_attr \<and> user_attr E = None) \<or> isl (getname E) \<or> isl (unused_fd E) \<or> lookup_err E \<noteq> None")
    case True
    then show ?thesis using inv E by (auto simp: mq_open_def vfs_ok_def isl_def split: sum.split)
  next
    case False
    then obtain name fd where go: "getname E = Inr name" "unused_fd E = Inr fd" "lookup_err E = None"
      "\<not> (has_attr \<and> user_attr E = None)"
      by (cases "getname E"; cases "unused_fd E") auto
    define r where "r = (if oflag AND O_CREAT K \<noteq> 0 then
        (case names ns name of
           Some i \<Rightarrow> if oflag AND O_EXCL K \<noteq> 0 then (Inl EEXIST, ns) else do_open K E i oflag ns
         | None \<Rightarrow> do_create K E name oflag (if has_attr then user_attr E else None) ns)
      else (case names ns name of None \<Rightarrow> (Inl ENOENT, ns) | Some i \<Rightarrow> do_open K E i oflag ns))"
    have ex: "inodes ns i \<noteq> None" if "names ns name = Some i" for i
      using mq_heldD(4) [OF h] that by (auto simp: inodes_ok_def)
    have same: "opened K R (fds ns) (Inl e, ns)" if "e \<noteq> KBUG" for e using that inv by (simp add: opened_def)
    have op: "opened K R (fds ns) (do_open K E i oflag ns)" if "names ns name = Some i" for i
      using open_inode_spec [OF inv ex [OF that] E, of oflag] same by (simp add: do_open_def)
    have r: "opened K R (fds ns) r"
      using op same do_create_spec [OF inv E, of name oflag] by (auto simp: r_def split: option.split)
    have unf: "mq_open K E oflag has_attr ns =
        (case r of (Inl err, ns1) \<Rightarrow> (Inl err, ns1) | (Inr f, ns1) \<Rightarrow> (Inr fd, ns1\<lparr>fds := (fds ns1)(fd \<mapsto> MqFile f)\<rparr>))"
      unfolding mq_open_def r_def if_not_P [OF go(4)] using go(1-3) by simp
    obtain x ns1 where x: "r = (x, ns1)" by (cases r)
    show ?thesis
    proof (cases x)
      case (Inl err)
      then show ?thesis using r x by (simp add: unf opened_def)
    next
      case (Inr f)
      then have h1: "mq_held K ((\<lambda>_. 0)(f := 1)) (\<lambda>_. 0) {#} R ns1" "fds ns1 = fds ns" using r x by (simp_all add: opened_def)
      have "mq_inv K R (ns1\<lparr>fds := (fds ns1)(fd \<mapsto> MqFile f)\<rparr>)"
        using held_fd_add [OF h1(1), of fd f] E go(2) h1(2) by (simp add: vfs_ok_def mq_inv_def)
      then show ?thesis using Inr x by (simp add: unf)
    qed
  qed
qed

subsection \<open>Registering\<close>

lemma attach_cookie_spec:
  "attach_ok again ts \<Longrightarrow> (\<not> again \<Longrightarrow> sk = None) \<Longrightarrow>
   (\<exists>s. attach_cookie ts sk refs = Some (None, Some s, True, sock_hold s refs)) \<or>
   (\<exists>e b. attach_cookie ts sk refs = Some (Some e, None, b, refs) \<and> e \<noteq> KBUG)"
proof (induction ts arbitrary: again sk)
  case (Cons t ts)
  have pp: "sock_put s (sock_hold s refs) = refs" for s by (simp add: sock_put_def sock_hold_def fun_eq_iff)
  show ?case
  proof (cases "try_fget t \<and> \<not> isl (try_sock t) \<and> try_attach t = AttachAgain")
    case True
    then show ?thesis using Cons.IH [of True "Some (projr (try_sock t))"] Cons.prems(1) pp
      by (cases "try_sock t") auto
  next
    case False
    then show ?thesis using Cons.prems pp by (cases "try_sock t"; cases "try_attach t") auto
  qed
qed simp

lemma held_refs:
  "mq_held K H J X R ns \<Longrightarrow> mq_held K H J X (R(s := R s + 1)) (ns\<lparr>sock_refs := sock_hold s (sock_refs ns)\<rparr>)"
  by (auto simp: mq_held_def limits_ok_def socks_ok_def sock_hold_def)

lemma notify_out_held:
  "mq_held K H J X (R(s := R s + 1)) ns \<Longrightarrow> 0 \<le> R s \<Longrightarrow> mq_held K H J X R (notify_out (Some s) ns)"
  by (auto simp: mq_held_def limits_ok_def socks_ok_def notify_out_def sock_put_def split: if_splits)

lemma socks_ok_add:
  assumes "socks_ok is refs (R(s := R s + 1))" and "is i = Some info" and "notify_owner info = None"
    and "\<And>x. registered x info' \<Longrightarrow> x = s" and "0 \<le> R s"
  shows "socks_ok (is(i \<mapsto> info')) refs R"
  unfolding socks_ok_def
proof (intro conjI allI)
  show "finite (dom (is(i \<mapsto> info')))" using assms(1) by (simp add: socks_ok_def)
  show "0 \<le> R y" for y using assms(1,5) by (cases "y = s") (auto simp: socks_ok_def split: if_splits)
  fix x
  have "map_sum (\<lambda>y. of_bool (registered x y)) (is(i \<mapsto> info')) \<le>
      map_sum (\<lambda>y. of_bool (registered x y)) is + (of_bool (x = s) :: int)"
    using map_sum_upd [of "is" i info "\<lambda>y. of_bool (registered x y) :: int" info'] assms
    by (auto simp: socks_ok_def registered_def)
  moreover have "(R(s := R s + 1)) x + map_sum (\<lambda>y. of_bool (registered x y)) is \<le> refs x"
    using assms(1) unfolding socks_ok_def by blast
  ultimately show "R x + map_sum (\<lambda>y. of_bool (registered x y)) (is(i \<mapsto> info')) \<le> refs x"
    by (auto split: if_splits)
qed

text \<open>\<open>sk\<close> is the socket, if any, that the call holds a reference to.\<close>

definition with_sock :: "nat option \<Rightarrow> (nat \<Rightarrow> int) \<Rightarrow> nat \<Rightarrow> int" where
  "with_sock sk R = (case sk of None \<Rightarrow> R | Some s \<Rightarrow> R(s := R s + 1))"

lemma notify_out_spec: "mq_held K H J X (with_sock sk R) ns \<Longrightarrow> \<forall>s. 0 \<le> R s \<Longrightarrow> mq_held K H J X R (notify_out sk ns)"
  by (cases sk) (simp_all add: with_sock_def notify_out_held, simp add: notify_out_def)

lemma notify_prepare_spec:
  assumes h: "mq_held K H J X R ns" and E: "attach_ok False (attach_tries E)"
  shows "\<exists>err sk nc ns1. notify_prepare E n ns = Some ((err, sk, nc), ns1) \<and> err \<noteq> Some KBUG \<and> mq_held K H J X (with_sock sk R) ns1 \<and>
    (err \<noteq> None \<longrightarrow> sk = None) \<and>
    (err = None \<longrightarrow> sigev_notify n \<noteq> SIGEV_OTHER \<and> (if sigev_notify n = SIGEV_THREAD then sk \<noteq> None \<and> nc \<noteq> None else sk = None))"
proof (cases "sigev_notify n = SIGEV_THREAD \<and> alloc_skb E \<noteq> None \<and> cookie_copy_ok E")
  case False
  then show ?thesis using h by (auto simp: notify_prepare_def with_sock_def split: sigev.split option.split)
next
  case True
  then obtain nc where nc: "alloc_skb E = Some nc" by blast
  have "attach_cookie (attach_tries E) None (sock_refs ns) = Some (Some e, None, b, sock_refs ns) \<Longrightarrow> e \<noteq> KBUG \<Longrightarrow> ?thesis" for e b
    using True nc h by (simp add: notify_prepare_def with_sock_def)
  moreover have "attach_cookie (attach_tries E) None (sock_refs ns) = Some (None, Some s, True, sock_hold s (sock_refs ns)) \<Longrightarrow> ?thesis" for s
    using True nc held_refs [OF h, of s] by (simp add: notify_prepare_def with_sock_def)
  ultimately show ?thesis using attach_cookie_spec [OF E, of None "sock_refs ns"] by blast
qed

lemma notify_locked_spec:
  assumes h: "mq_held K H J X (with_sock sk R) ns" and i: "inodes ns i = Some info"
    and sk: "\<not> hn \<longrightarrow> sk = None" and R: "\<forall>s. 0 \<le> R s"
    and n: "hn \<longrightarrow> sigev_notify (the (user_sigevent E)) \<noteq> SIGEV_OTHER \<and>
      (if sigev_notify (the (user_sigevent E)) = SIGEV_THREAD then sk \<noteq> None \<and> nc \<noteq> None else sk = None)"
  shows "\<exists>r sk' ns'. notify_locked E hn sk nc i info ns = (r, sk', ns') \<and> r \<noteq> Inl KBUG \<and> mq_held K H J X (with_sock sk' R) ns'"
proof (cases "hn \<and> notify_owner info = None")
  case False
  show ?thesis
  proof (cases "\<not> hn \<and> notify_owner info = Some (current_tgid E)")
    case True
    then show ?thesis using remove_notification_spec [OF h i] by (auto simp: notify_locked_def)
  next
    case no: False
    then show ?thesis using False h by (auto simp: notify_locked_def)
  qed
next
  case True
  note D = mq_heldD [OF h]
  let ?n = "the (user_sigevent E)" and ?sk = "if sigev_notify (the (user_sigevent E)) = SIGEV_THREAD then None else sk"
  define info' where "info' = notify_register E ?n sk nc info"
  have same: "messages info' = messages info" "attr info' = attr info" "mq_list info' = mq_list info" "i_own info' = i_own info"
    "wait_send info' = wait_send info" "wait_recv info' = wait_recv info" "i_count info' = i_count info" "mq_user info' = mq_user info"
    "table_ok info' = table_ok info" "mq_bytes K info' = mq_bytes K info"
    by (auto simp: info'_def notify_register_def Let_def i_own_def mq_bytes_def split: sigev.split)
  have q: "queue_ok K info'"
    using D(7) [OF i] n True unfolding queue_ok_def same
    by (auto simp: info'_def notify_register_def Let_def split: sigev.split)
  have none: "sk = None" if "sigev_notify ?n \<noteq> SIGEV_THREAD" using n True that by simp
  have "socks_ok ((inodes ns)(i \<mapsto> info')) (sock_refs ns) (with_sock ?sk R)"
  proof (cases "sigev_notify ?n = SIGEV_THREAD")
    case thread: True
    then obtain s where s: "sk = Some s" using n True by auto
    have "info' = info\<lparr>notify_owner := Some (current_tgid E), notify_sock := sk, notify_cookie := nc,
        notify := (notify info)\<lparr>sigev_notify := SIGEV_THREAD\<rparr>\<rparr>"
      using thread by (simp add: info'_def notify_register_def Let_def)
    then have reg: "x = s" if "registered x info'" for x using that s by (simp add: registered_def)
    have ow: "notify_owner info = None" using True by simp
    have "socks_ok (inodes ns) (sock_refs ns) (R(s := R s + 1))" using D(10) s by (simp add: with_sock_def)
    from socks_ok_add [OF this i ow reg] R show ?thesis using thread by (simp add: with_sock_def)
  next
    case other: False
    then have "sigev_notify (notify info') \<noteq> SIGEV_THREAD" using n True
      by (cases "sigev_notify ?n") (simp_all add: info'_def notify_register_def Let_def)
    then have "socks_ok ((inodes ns)(i \<mapsto> info')) (sock_refs ns) (with_sock sk R)"
      by (intro socks_ok_upd [OF D(10) i]) (simp add: registered_def)
    then show ?thesis using other none by simp
  qed
  moreover have "wait_lists_ok ((inodes ns)(i \<mapsto> info')) (waits ns) (files ns)" using D(5) i same by (auto simp: wait_lists_ok_def)
  moreover have "mq_own_ok ((inodes ns)(i \<mapsto> info')) (waits ns) (mq_blocks ns) X"
    by (rule mq_own_inode [OF D(8) i]) (simp add: same)
  ultimately have "mq_held K H J X (with_sock ?sk R) (set_inode i info' ns)"
    using D(3,6) q same by (intro held_inode [OF h i, of info']) (auto simp: set_inode_def rest_same_def)
  then show ?thesis using True by (simp add: notify_locked_def info'_def)
qed

lemma mq_notify_spec:
  assumes inv: "mq_inv K R ns" and E: "attach_ok False (attach_tries E)"
  shows "\<exists>r ns'. mq_notify K E n hn ns = (r, ns') \<and> returns_ok r \<and> mq_inv K R ns'"
proof (cases "hn \<and> user_sigevent E = None")
  case True
  then show ?thesis using inv by (simp add: mq_notify_def returns_ok_def)
next
  case go: False
  have h: "mq_held K (\<lambda>_. 0) (\<lambda>_. 0) {#} R ns" using inv by (simp add: mq_inv_def)
  have R: "\<forall>s. 0 \<le> R s" using mq_heldD(10) [OF h] by (simp add: socks_ok_def)
  obtain err sk nc ns1 where P: "(if hn then notify_prepare E (the (user_sigevent E)) ns else Some ((None, None, None), ns)) =
      Some ((err, sk, nc), ns1)" "err \<noteq> Some KBUG" "mq_held K (\<lambda>_. 0) (\<lambda>_. 0) {#} (with_sock sk R) ns1" "err \<noteq> None \<longrightarrow> sk = None"
      "\<not> hn \<longrightarrow> sk = None" "err = None \<longrightarrow> hn \<longrightarrow> sigev_notify (the (user_sigevent E)) \<noteq> SIGEV_OTHER \<and>
        (if sigev_notify (the (user_sigevent E)) = SIGEV_THREAD then sk \<noteq> None \<and> nc \<noteq> None else sk = None)"
    using notify_prepare_spec [OF h E, of "the (user_sigevent E)"] h by (cases hn) (auto simp: with_sock_def)
  show ?thesis
  proof (cases err)
    case (Some e)
    then show ?thesis using P go by (auto simp: mq_notify_def returns_ok_def mq_inv_def with_sock_def notify_out_def)
  next
    case None
    show ?thesis
    proof (cases rule: fget_spec [OF P(3), of n])
      case 1
      then show ?thesis using P(1) None go notify_out_spec [OF P(3) R] by (auto simp: mq_notify_def returns_ok_def mq_inv_def)
    next
      case (2 f fl info ns2)
      obtain r sk' ns3 where L: "notify_locked E hn sk nc (f_inode fl) info ns2 = (r, sk', ns3)" "r \<noteq> Inl KBUG"
        "mq_held K ((\<lambda>_. 0)(f := 1)) (\<lambda>_. 0) {#} (with_sock sk' R) ns3"
        using notify_locked_spec [of K "(\<lambda>_. 0)(f := 1)" "\<lambda>_. 0" "{#}" sk R ns2 "f_inode fl" info hn E nc] 2 P(5,6) None R by auto
      from out_done [OF L(3), of f r] L(2) obtain r' ns4 where o: "out_fput K f r ns3 = (r', ns4)" "returns_ok r'"
        "mq_held K (\<lambda>_. 0) (\<lambda>_. 0) {#} (with_sock sk' R) ns4" by auto
      show ?thesis using P(1) None go 2 L(1) o notify_out_spec [OF o(3) R] by (auto simp: mq_notify_def mq_inv_def)
    qed
  qed
qed

end
