(* ===== verification/Mq_Theorems.thy ===== *)
theory Mq_Theorems
  imports Mq_Open
begin

text \<open>
  The properties of POSIX message queues in every state the calls can reach, and the order in which
  messages are received.
\<close>

subsection \<open>Reachable states\<close>

definition fresh_mq_ns :: "'h mq_hdr_scheme \<Rightarrow> (nat \<Rightarrow> int) \<Rightarrow> mq_ns" where
  "fresh_mq_ns K R =
     snd (mq_init_ns K None
       \<lparr>mq_queues_count = 0, mq_queues_max = 0, mq_msg_max = 0, mq_msgsize_max = 0, sb_alive = False, inodes = Map.empty,
        names = Map.empty, files = Map.empty, fds = Map.empty, user_bytes = (\<lambda>_. 0), mq_blocks = Map.empty,
        waits = Map.empty, mq_asleep = {}, events = [], sock_refs = R\<rparr>)"

definition mq_hdr_ok :: "'h mq_hdr_scheme \<Rightarrow> bool" where
  "mq_hdr_ok K \<longleftrightarrow>
     msg_hdr_ok K \<and> 0 < DFLT_MSGMAX K \<and>
     mq_calculate_sizes K \<lparr>mq_flags = 0, mq_maxmsg = DFLT_MSGMAX K, mq_msgsize = DFLT_MSGSIZEMAX K, mq_curmsgs = 0\<rparr> \<noteq> None"

text \<open>
  Any task may make any call, a task that sleeps may be woken at any time, the administrator may
  change the limits and the file system may go away with its namespace. \<open>R\<close> counts the references to sockets
  that others hold.
\<close>

inductive mq_reach :: "'h mq_hdr_scheme \<Rightarrow> (nat \<Rightarrow> int) \<Rightarrow> mq_ns \<Rightarrow> bool" for K R where
  fresh: "mq_hdr_ok K \<Longrightarrow> \<forall>s. 0 \<le> R s \<Longrightarrow> mq_reach K R (fresh_mq_ns K R)"
| do_open: "mq_reach K R ns \<Longrightarrow> mq_env_ok E ns \<Longrightarrow> mq_open K (E :: mq_env) oflag ha ns = (r, ns') \<Longrightarrow> mq_reach K R ns'"
| do_unlink: "mq_reach K R ns \<Longrightarrow> mq_env_ok E ns \<Longrightarrow> mq_unlink K (E :: mq_env) ns = (r, ns') \<Longrightarrow> mq_reach K R ns'"
| do_close: "mq_reach K R ns \<Longrightarrow> close_fd K (E :: mq_env) n ns = Some (r, ns') \<Longrightarrow> mq_reach K R ns'"
| do_send: "mq_reach K R ns \<Longrightarrow> mq_env_ok E ns \<Longrightarrow> waits ns (current E) = None \<Longrightarrow>
    mq_timedsend K (E :: mq_env) um n u_msg len prio tmo ns = (r, ns') \<Longrightarrow> mq_reach K R ns'"
| do_receive: "mq_reach K R ns \<Longrightarrow> mq_env_ok E ns \<Longrightarrow> waits ns (current E) = None \<Longrightarrow>
    mq_timedreceive K (E :: mq_env) um n u_msg len wp tmo ns = (r', ns') \<Longrightarrow> mq_reach K R ns'"
| wake_send: "mq_reach K R ns \<Longrightarrow> waits ns (current E) = Some w \<Longrightarrow> w_dir w = SEND \<Longrightarrow>
    resume_mq_send K (E :: mq_env) ns = (r, ns') \<Longrightarrow> mq_reach K R ns'"
| wake_receive: "mq_reach K R ns \<Longrightarrow> mq_env_ok E ns \<Longrightarrow> waits ns (current E) = Some w \<Longrightarrow> w_dir w = RECV \<Longrightarrow>
    resume_mq_receive K (E :: mq_env) um ns = (r', ns') \<Longrightarrow> mq_reach K R ns'"
| do_notify: "mq_reach K R ns \<Longrightarrow> mq_env_ok E ns \<Longrightarrow> mq_notify K (E :: mq_env) n hn ns = (r, ns') \<Longrightarrow> mq_reach K R ns'"
| do_attr: "mq_reach K R ns \<Longrightarrow> mq_getsetattr K (E :: mq_env) n hn ho ns = (ra, ns') \<Longrightarrow> mq_reach K R ns'"
| sysctl: "mq_reach K R ns \<Longrightarrow> limits_ok K (ns\<lparr>mq_queues_max := a, mq_msg_max := b, mq_msgsize_max := c\<rparr>) \<Longrightarrow>
    mq_reach K R (ns\<lparr>mq_queues_max := a, mq_msg_max := b, mq_msgsize_max := c\<rparr>)"
| gone: "mq_reach K R ns \<Longrightarrow> mq_reach K R (mq_clear_sbinfo ns)"

lemma fresh_mq_inv: "mq_hdr_ok K \<Longrightarrow> \<forall>s. 0 \<le> R s \<Longrightarrow> mq_inv K R (fresh_mq_ns K R)"
  by (simp add: mq_inv_def mq_held_def fresh_mq_ns_def mq_init_ns_def mq_hdr_ok_def limits_ok_def files_ok_def inodes_ok_def
      wait_lists_ok_def frames_ok_def mq_own_ok_def mq_acct_ok_def socks_ok_def)

lemma mq_env_vfs: "mq_env_ok E ns \<Longrightarrow> vfs_ok E ns" "mq_env_ok E ns \<Longrightarrow> uaccess_ok E" "mq_env_ok E ns \<Longrightarrow> attach_ok False (attach_tries E)"
  by (simp_all add: mq_env_ok_def)

lemma mq_reach_inv: "mq_reach K R ns \<Longrightarrow> mq_inv K R ns"
proof (induction rule: mq_reach.induct)
  case fresh
  then show ?case by (rule fresh_mq_inv)
next
  case (do_open ns E oflag ha r ns')
  then show ?case using mq_open_spec [OF do_open.IH mq_env_vfs(1) [OF do_open.hyps(2)], of oflag ha] by auto
next
  case (do_unlink ns E r ns')
  then show ?case using mq_unlink_spec [OF do_unlink.IH mq_env_vfs(1) [OF do_unlink.hyps(2)]] by auto
next
  case (do_close ns E n r ns')
  then show ?case using close_fd_spec [OF do_close.IH, of E n] by auto
next
  case (do_send ns E um n u_msg len prio tmo r ns')
  then show ?case using mq_timedsend_spec [OF do_send.IH do_send.hyps(2,3), of um n u_msg len prio tmo] by auto
next
  case (do_receive ns E um n u_msg len wp tmo r ns')
  then show ?case using mq_timedreceive_spec [OF do_receive.IH do_receive.hyps(2,3), of um n u_msg len wp tmo] by auto
next
  case (wake_send ns E w r ns')
  then show ?case using resume_mq_send_spec [OF wake_send.IH wake_send.hyps(2,3)] by auto
next
  case (wake_receive ns E w um r ns')
  then show ?case using resume_mq_receive_spec [OF wake_receive.IH mq_env_vfs(2) [OF wake_receive.hyps(2)] wake_receive.hyps(3,4), of um] by auto
next
  case (do_notify ns E n hn r ns')
  then show ?case using mq_notify_spec [OF do_notify.IH mq_env_vfs(3) [OF do_notify.hyps(2)], of n hn] by auto
next
  case (do_attr ns E n hn ho r ns')
  then show ?case using mq_getsetattr_spec [OF do_attr.IH, of E n hn ho] by auto
next
  case (sysctl ns a b c)
  then show ?case by (simp add: mq_inv_def mq_held_def)
next
  case (gone ns)
  then show ?case by (simp add: mq_inv_def mq_held_def mq_clear_sbinfo_def limits_ok_def mq_acct_ok_def)
qed

lemma mq_reachD:
  assumes "mq_reach K R ns"
  shows "mq_held K (\<lambda>_. 0) (\<lambda>_. 0) {#} R ns"
  using mq_reach_inv [OF assms] by (simp add: mq_inv_def)

subsection \<open>A run\<close>

definition example_mq_hdr :: mq_hdr where
  "example_mq_hdr =
     \<lparr>PAGE_SIZE = 4096, sizeof_rcu_hdr = 8, sizeof_rcu_grace = 16, sizeof_rcu_sched = 32,
      IPCMNI = 32768, IPC_CREAT = 512, IPC_EXCL = 1024, IPC_NOWAIT = 2048, IPC_64_bit = 256,
      S_IRWXUGO = 511, S_IRUGO = 292, S_IWUGO = 146, high2lowuid = ucast, high2lowgid = ucast,
      sizeof_msg_msg = 48, sizeof_msg_msgseg = 8,
      sizeof_ptr = 8, HARD_MSGMAX = 32768, MQ_PRIO_MAX = 32768, DFLT_QUEUESMAX = 256, DFLT_MSGMAX = 10, DFLT_MSGSIZEMAX = 8192,
      O_CREAT = 64, O_EXCL = 128, O_NONBLOCK = 2048, O_ACCMODE = 3, O_RDWR = 2, O_WRONLY = 1\<rparr>"

definition example_mq_env :: "attach_try list \<Rightarrow> mq_env" where
  "example_mq_env tries =
     \<lparr>kmalloc = (\<lambda>n. Some 65536), vmalloc = (\<lambda>n. None),
      current = 7, current_tgid = 7, current_euid = 1000, current_egid = 100,
      in_group_p = (\<lambda>g. g = 100), ns_capable = (\<lambda>c. False), get_seconds = 1300000000,
      idr_pre_get = True, idr_get_new = first_free 3 0, security_ipc_permission = (\<lambda>q f. None),
      kmallocs = (\<lambda>n sz. Some (4096 * int n)),
      copy_from_user = (\<lambda>um src n. Some (map (\<lambda>i. um (src + int i)) [0..<n])),
      copy_to_user = example_copy_to, security_msg_msg_alloc = None,
      mq_capable = (\<lambda>c. False), mq_signal_pending = False, mq_current_user = 5, mq_uid = 1000, rlimit_msgqueue = 819200,
      static_prio = (\<lambda>t. 0), new_inode = Some 10, table_kmalloc_ok = True, getname = Inr ''q'', unused_fd = Inr 3,
      lookup_err = None, want_write_err = None, vfs_create_err = None, vfs_unlink_err = None, inode_permission_ok = True,
      dentry_open = Inr 20, user_attr = None, attr_copy_ok = True, user_ts = None, hrtimeout = 1, put_prio_ok = True,
      user_sigevent = Some \<lparr>sigev_notify = SIGEV_THREAD, sigev_signo = 0, sigev_value = 0\<rparr>, valid_signal = (\<lambda>s. True),
      alloc_skb = Some 77, cookie_copy_ok = True, attach_tries = tries\<rparr>"

definition one_try :: "attach_try list" where
  "one_try = [\<lparr>try_fget = True, try_sock = Inr 4, try_attach = Attached\<rparr>]"

lemma example_mq_hdr_ok: "mq_hdr_ok example_mq_hdr"
  by (simp add: mq_hdr_ok_def msg_hdr_ok_def example_mq_hdr_def mq_calculate_sizes_def l30_size_array_bytes_def
      l30_size_records_bytes_def l30_size_mul_overflow_def l30_size_add_overflow_def)

definition example_mq0 :: mq_ns where
  "example_mq0 = fresh_mq_ns example_mq_hdr (\<lambda>_. 1)"

lemma example_mq_env0: "mq_env_ok (example_mq_env one_try) example_mq0"
  by (auto simp: mq_env_ok_def vfs_ok_def uaccess_ok_def kmallocs_ok_def example_mq_env_def example_mq0_def fresh_mq_ns_def
      mq_init_ns_def example_copy_to_def overwrite_def one_try_def fun_eq_iff)

lemma example_mq0_reach: "mq_reach example_mq_hdr (\<lambda>_. 1) example_mq0"
  by (simp add: example_mq0_def fresh [OF example_mq_hdr_ok])

text \<open>After \<^verbatim>\<open>mq_open\<close> with \<^verbatim>\<open>O_CREAT | O_RDWR\<close>.\<close>

definition example_info :: mqueue_inode_info where
  "example_info =
     \<lparr>messages = Table (replicate 10 None),
      attr = \<lparr>mq_flags = 0, mq_maxmsg = 10, mq_msgsize = 8192, mq_curmsgs = 0\<rparr>,
      notify = \<lparr>sigev_notify = SIGEV_OTHER, sigev_signo = 0, sigev_value = 0\<rparr>, notify_owner = None,
      mq_user = Some 5, notify_sock = None, notify_cookie = None, wait_send = [], wait_recv = [], qsize = 0, i_count = 2\<rparr>"

definition example_mq1 :: mq_ns where
  "example_mq1 = snd (mq_open example_mq_hdr (example_mq_env one_try) 66 False example_mq0)"

lemma example_sizes:
  "mq_calculate_sizes example_mq_hdr \<lparr>mq_flags = 0, mq_maxmsg = 10, mq_msgsize = 8192, mq_curmsgs = 0\<rparr> = Some (80, 82000)"
  by (simp add: mq_calculate_sizes_def example_mq_hdr_def l30_size_array_bytes_def
      l30_size_records_bytes_def l30_size_mul_overflow_def l30_size_add_overflow_def)

lemma example_mq0_sel [simp]:
  "mq_msg_max example_mq0 = 10" "mq_msgsize_max example_mq0 = 8192" "inodes example_mq0 = Map.empty" "names example_mq0 = Map.empty"
  "files example_mq0 = Map.empty" "fds example_mq0 = Map.empty" "user_bytes example_mq0 = (\<lambda>_. 0)" "sb_alive example_mq0"
  "mq_queues_count example_mq0 = 0" "mq_queues_max example_mq0 = 256" "waits example_mq0 = Map.empty" "mq_asleep example_mq0 = {}"
  "mq_blocks example_mq0 = Map.empty" "sock_refs example_mq0 = (\<lambda>_. 1)"
  by (simp_all add: example_mq0_def fresh_mq_ns_def mq_init_ns_def example_mq_hdr_def)

lemma example_env_sel [simp]:
  "new_inode (example_mq_env ts) = Some 10" "table_kmalloc_ok (example_mq_env ts)" "mq_current_user (example_mq_env ts) = 5"
  "rlimit_msgqueue (example_mq_env ts) = 819200" "getname (example_mq_env ts) = Inr ''q''" "unused_fd (example_mq_env ts) = Inr 3"
  "lookup_err (example_mq_env ts) = None" "want_write_err (example_mq_env ts) = None" "vfs_create_err (example_mq_env ts) = None"
  "dentry_open (example_mq_env ts) = Inr 20" "current (example_mq_env ts) = 7" "attach_tries (example_mq_env ts) = ts"
  "user_sigevent (example_mq_env ts) = Some \<lparr>sigev_notify = SIGEV_THREAD, sigev_signo = 0, sigev_value = 0\<rparr>"
  "alloc_skb (example_mq_env ts) = Some 77" "cookie_copy_ok (example_mq_env ts)" "current_tgid (example_mq_env ts) = 7"
  by (simp_all add: example_mq_env_def)

lemma example_get_inode:
  "mqueue_get_inode example_mq_hdr (example_mq_env one_try) None (example_mq0\<lparr>mq_queues_count := 1\<rparr>) =
     Some (Some 10, set_inode 10 (example_info\<lparr>i_count := 1\<rparr>) (example_mq0\<lparr>mq_queues_count := 1, user_bytes := (\<lambda>_. 0)(5 := 82000)\<rparr>))"
proof -
  have "l30_size_add_overflow 0 (82000 :: ulong) = Some 82000" by (simp add: l30_size_add_overflow_def)
  moreover have "\<not> (82000 :: ulong) > 819200" by simp
  ultimately show ?thesis by (simp add: mqueue_get_inode_def example_sizes Let_def example_info_def)
qed

lemma example_mq1_eq:
  "mq_open example_mq_hdr (example_mq_env one_try) 66 False example_mq0 = (Inr 3, example_mq1)"
  "inodes example_mq1 = [10 \<mapsto> example_info]" "files example_mq1 = [20 \<mapsto> \<lparr>f_inode = 10, f_read = True, f_write = True, f_nonblock = False, f_count = 1\<rparr>]"
  "fds example_mq1 = [3 \<mapsto> MqFile 20]" "waits example_mq1 = Map.empty" "mq_asleep example_mq1 = {}" "mq_blocks example_mq1 = Map.empty"
  "user_bytes example_mq1 = (\<lambda>_. 0)(5 := 82000)" "mq_queues_count example_mq1 = 1" "sb_alive example_mq1" "sock_refs example_mq1 = (\<lambda>_. 1)"
proof -
  have fl: "O_CREAT example_mq_hdr = 64" "O_EXCL example_mq_hdr = 128" "O_NONBLOCK example_mq_hdr = 2048" "O_ACCMODE example_mq_hdr = 3"
    "O_RDWR example_mq_hdr = 2" "O_WRONLY example_mq_hdr = 1"
    by (simp_all add: example_mq_hdr_def)
  show "mq_open example_mq_hdr (example_mq_env one_try) 66 False example_mq0 = (Inr 3, example_mq1)"
    "inodes example_mq1 = [10 \<mapsto> example_info]" "files example_mq1 = [20 \<mapsto> \<lparr>f_inode = 10, f_read = True, f_write = True, f_nonblock = False, f_count = 1\<rparr>]"
    "fds example_mq1 = [3 \<mapsto> MqFile 20]" "waits example_mq1 = Map.empty" "mq_asleep example_mq1 = {}" "mq_blocks example_mq1 = Map.empty"
    "user_bytes example_mq1 = (\<lambda>_. 0)(5 := 82000)" "mq_queues_count example_mq1 = 1" "sb_alive example_mq1" "sock_refs example_mq1 = (\<lambda>_. 1)"
    by (simp_all add: example_mq1_def mq_open_def fl do_create_def mqueue_create_def example_get_inode open_inode_def set_inode_def
        example_info_def)
qed

lemma example_mq1_reach: "mq_reach example_mq_hdr (\<lambda>_. 1) example_mq1"
  by (rule do_open [OF example_mq0_reach example_mq_env0 example_mq1_eq(1)])

definition example_env1 :: mq_env where
  "example_env1 = example_mq_env one_try\<lparr>new_inode := Some 11, dentry_open := Inr 21, unused_fd := Inr 4\<rparr>"

lemma example_mq_env1: "mq_env_ok example_env1 example_mq1"
  by (simp add: mq_env_ok_def vfs_ok_def kmallocs_ok_def example_mq1_eq one_try_def example_env1_def)
    (auto simp: uaccess_ok_def example_mq_env_def example_copy_to_def overwrite_def fun_eq_iff)

subsection \<open>Order of messages\<close>

text \<open>
  C17. \<open>mq_list\<close> are the messages of a queue, the next one to be received first. \<^verbatim>\<open>msg_insert\<close> on a queue
  that is not full puts the message behind all that are at least as important, which keeps the order
  by priority and makes it the last of its priority; \<^verbatim>\<open>msg_get\<close> on a queue that is not empty takes the
  first message, and no other one is more important. The counters of messages and bytes stay exact.
\<close>

theorem mq_priority_fifo:
  assumes "table_ok info" and "by_prio (mq_list info)"
  shows "(mq_curmsgs (attr info) \<noteq> mq_maxmsg (attr info) \<longrightarrow>
      (\<exists>info'. msg_insert m info = Some info' \<and> table_ok info' \<and> mq_list info' = prio_insert m (mq_list info) \<and>
         by_prio (mq_list info') \<and>
         (\<forall>k. filter (\<lambda>x. m_type x = k) (mq_list info') =
            filter (\<lambda>x. m_type x = k) (mq_list info) @ (if m_type m = k then [m] else [])))) \<and>
    (mq_curmsgs (attr info) \<noteq> 0 \<longrightarrow>
      (\<exists>info'. msg_get info = Some (hd (mq_list info), info') \<and> table_ok info' \<and> mq_list info = hd (mq_list info) # mq_list info' \<and>
         (\<forall>x\<in>set (mq_list info). m_type x \<le> m_type (hd (mq_list info)))))"
proof (intro conjI impI)
  assume n: "mq_curmsgs (attr info) \<noteq> mq_maxmsg (attr info)"
  show "\<exists>info'. msg_insert m info = Some info' \<and> table_ok info' \<and> mq_list info' = prio_insert m (mq_list info) \<and>
         by_prio (mq_list info') \<and>
         (\<forall>k. filter (\<lambda>x. m_type x = k) (mq_list info') =
            filter (\<lambda>x. m_type x = k) (mq_list info) @ (if m_type m = k then [m] else []))"
    using msg_insert_spec [OF assms(1) n, of m] by_prio_insert [OF assms(2), of m] prio_insert_fifo [OF assms(2), of _ m] by auto
next
  assume n: "mq_curmsgs (attr info) \<noteq> 0"
  then have "mq_list info \<noteq> []" using table_length [OF assms(1)] by auto
  then obtain x xs where x: "mq_list info = x # xs" by (cases "mq_list info") auto
  have "\<forall>y\<in>set (mq_list info). m_type y \<le> m_type (hd (mq_list info))" using assms(2) x by (auto simp: by_prio_def)
  then show "\<exists>info'. msg_get info = Some (hd (mq_list info), info') \<and> table_ok info' \<and> mq_list info = hd (mq_list info) # mq_list info' \<and>
         (\<forall>x\<in>set (mq_list info). m_type x \<le> m_type (hd (mq_list info)))"
    using msg_get_spec [OF assms(1) n] x by auto
qed

theorem mq_priority_fifo_witness:
  "table_ok example_info \<and> by_prio (mq_list example_info) \<and>
   (\<exists>info'. msg_insert \<lparr>m_type = 3, m_ts = 1, m_addr = 0, m_text = [7], m_segs = []\<rparr> example_info = Some info' \<and>
      mq_list info' = [\<lparr>m_type = 3, m_ts = 1, m_addr = 0, m_text = [7], m_segs = []\<rparr>])"
proof -
  have q: "queue_ok example_mq_hdr example_info"
    using mq_heldD(7) [OF mq_reachD [OF example_mq1_reach], of 10 example_info] by (simp add: example_mq1_eq)
  have "mq_list example_info = []" by (simp add: mq_list_def example_info_def)
  then show ?thesis
    using mq_priority_fifo [of example_info "\<lparr>m_type = 3, m_ts = 1, m_addr = 0, m_text = [7], m_segs = []\<rparr>"] q
    by (auto simp: queue_ok_def prio_insert_def by_prio_def) (simp_all add: example_info_def)
qed

subsection \<open>Safety\<close>

text \<open>
  C15. In every reachable state, every call on a POSIX queue returns or goes to sleep: it never
  follows a dangling pointer, notifies through a socket that is gone, frees what is not allocated, writes
  outside the message table or spins for ever. This holds where the calls get what \<open>mq_env_ok\<close> says from
  the code below: memory that is free, no fault of the file system, and for \<^verbatim>\<open>mq_notify\<close> that the loop at
  \<^verbatim>\<open>retry\<close> comes to an end and the descriptor of the socket is not closed between two of its passes. The
  last condition is needed: without it \<^verbatim>\<open>mq_notify\<close> may drop a reference it does not have, as is shown below.
\<close>

theorem mq_calls_safe:
  fixes E :: mq_env
  assumes "mq_reach K R ns" and "mq_env_ok E ns"
  shows "fst (mq_open K E oflag ha ns) \<noteq> Inl KBUG \<and> fst (mq_unlink K E ns) \<noteq> Inl KBUG \<and> close_fd K E n ns \<noteq> None \<and>
    returns_ok (fst (mq_notify K E n hn ns)) \<and> returns_ok (fst (mq_getsetattr K E n hn ho ns)) \<and>
    (case waits ns (current E) of
       None \<Rightarrow> returns_ok (fst (mq_timedsend K E um n u_msg len prio tmo ns)) \<and>
               returns_ok (fst (mq_timedreceive K E um n u_msg len wp tmo ns))
     | Some w \<Rightarrow> (case w_dir w of SEND \<Rightarrow> returns_ok (fst (resume_mq_send K E ns))
                             | RECV \<Rightarrow> returns_ok (fst (resume_mq_receive K E um ns))))"
proof -
  note inv = mq_reach_inv [OF assms(1)]
  have "fst (mq_open K E oflag ha ns) \<noteq> Inl KBUG" "fst (mq_unlink K E ns) \<noteq> Inl KBUG"
    using mq_open_spec [OF inv mq_env_vfs(1) [OF assms(2)], of oflag ha] mq_unlink_spec [OF inv mq_env_vfs(1) [OF assms(2)]] by auto
  moreover have "close_fd K E n ns \<noteq> None" using close_fd_spec [OF inv, of E n] by auto
  moreover have "returns_ok (fst (mq_notify K E n hn ns))" "returns_ok (fst (mq_getsetattr K E n hn ho ns))"
    using mq_notify_spec [OF inv mq_env_vfs(3) [OF assms(2)], of n hn] mq_getsetattr_spec [OF inv, of E n hn ho] by auto
  moreover have "returns_ok (fst (mq_timedsend K E um n u_msg len prio tmo ns))" "returns_ok (fst (mq_timedreceive K E um n u_msg len wp tmo ns))"
    if "waits ns (current E) = None"
    using mq_timedsend_spec [OF inv assms(2) that, of um n u_msg len prio tmo]
      mq_timedreceive_spec [OF inv assms(2) that, of um n u_msg len wp tmo] by auto
  moreover have "returns_ok (fst (resume_mq_send K E ns))" if "waits ns (current E) = Some w" "w_dir w = SEND" for w
    using resume_mq_send_spec [OF inv that] by auto
  moreover have "returns_ok (fst (resume_mq_receive K E um ns))" if "waits ns (current E) = Some w" "w_dir w = RECV" for w
    using resume_mq_receive_spec [OF inv mq_env_vfs(2) [OF assms(2)] that, of um] by auto
  ultimately show ?thesis by (auto split: option.split direction.split)
qed

theorem mq_calls_safe_witness:
  "mq_env_ok example_env1 example_mq1 \<and> mq_reach example_mq_hdr (\<lambda>_. 1) example_mq1 \<and>
   returns_ok (fst (mq_timedsend example_mq_hdr example_env1 (\<lambda>a. 0) 3 100 5 1 False example_mq1)) \<and>
   returns_ok (fst (mq_notify example_mq_hdr example_env1 3 True example_mq1))"
  using mq_calls_safe [OF example_mq1_reach example_mq_env1, of 0 False 3 True False "\<lambda>a. 0" 100 5 1 False False]
    example_mq1_reach example_mq_env1 by (simp add: example_mq1_eq(5))

subsection \<open>No lost wake-up\<close>

text \<open>
  C16. In every reachable state, a task that sleeps in \<^verbatim>\<open>mq_timedsend\<close> sleeps on a queue that is full and
  a task that sleeps in \<^verbatim>\<open>mq_timedreceive\<close> on a queue that is empty; both are on the wait list of their
  queue, so the next call that makes room or brings a message finds them.
\<close>

theorem mq_no_lost_wakeup:
  assumes "mq_reach K R ns" and "t \<in> mq_asleep ns"
  shows "\<exists>w fl info. waits ns t = Some w \<and> files ns (w_file w) = Some fl \<and> inodes ns (f_inode fl) = Some info \<and>
    (case w_dir w of
       SEND \<Rightarrow> t \<in> set (wait_send info) \<and> mq_curmsgs (attr info) = mq_maxmsg (attr info)
     | RECV \<Rightarrow> t \<in> set (wait_recv info) \<and> mq_curmsgs (attr info) = 0)"
proof -
  note h = mq_reachD [OF assms(1)]
  note D = mq_heldD [OF h]
  obtain w where w: "waits ns t = Some w" "w_state w = STATE_NONE" using D(6) assms(2) by (auto simp: frames_ok_def)
  have "files ns (w_file w) \<noteq> None" using D(3) w(1) by (auto simp: files_ok_def)
  then obtain fl where fl: "files ns (w_file w) = Some fl" by blast
  have "inodes ns (f_inode fl) \<noteq> None" using D(4) fl by (auto simp: inodes_ok_def)
  then obtain info where i: "inodes ns (f_inode fl) = Some info" by blast
  have "waits_on (waits ns) (files ns) (w_dir w) t (f_inode fl)" using w fl by (auto simp: waits_on_def)
  then have "case w_dir w of SEND \<Rightarrow> t \<in> set (wait_send info) | RECV \<Rightarrow> t \<in> set (wait_recv info)"
    using list_waits(1,2) [OF h i] by (auto split: direction.split)
  then have "case w_dir w of
       SEND \<Rightarrow> t \<in> set (wait_send info) \<and> mq_curmsgs (attr info) = mq_maxmsg (attr info)
     | RECV \<Rightarrow> t \<in> set (wait_recv info) \<and> mq_curmsgs (attr info) = 0"
    using D(7) [OF i] by (auto simp: queue_ok_def split: direction.splits)
  then show ?thesis using w(1) fl i by blast
qed

text \<open>Task 7 waits for a message.\<close>

definition example_mq2 :: mq_ns where
  "example_mq2 = snd (mq_timedreceive example_mq_hdr example_env1
     (\<lambda>a. 0) 3 100 8192 False False example_mq1)"

lemma example_mq2_eq: "mq_reach example_mq_hdr (\<lambda>_. 1) example_mq2" "7 \<in> mq_asleep example_mq2"
proof -
  show "mq_reach example_mq_hdr (\<lambda>_. 1) example_mq2"
    by (rule do_receive [OF example_mq1_reach example_mq_env1, of "\<lambda>a. 0" 3 100 8192 False False "fst (mq_timedreceive example_mq_hdr example_env1
     (\<lambda>a. 0) 3 100 8192 False False example_mq1)"]) (simp_all add: example_mq1_eq example_mq2_def example_env1_def)
  show "7 \<in> mq_asleep example_mq2"
    by (simp add: example_mq2_def mq_timedreceive_def fget_def example_mq1_eq example_info_def wq_sleep_def set_inode_def Let_def example_env1_def)
qed

theorem mq_no_lost_wakeup_witness:
  "mq_reach example_mq_hdr (\<lambda>_. 1) example_mq2 \<and> 7 \<in> mq_asleep example_mq2 \<and> (\<exists>w. waits example_mq2 7 = Some w)"
  using mq_no_lost_wakeup [OF example_mq2_eq] example_mq2_eq by auto

subsection \<open>Accounting\<close>

text \<open>
  C18. In every reachable state the bytes charged to each user are exactly those of the queues the user
  has created that still exist; while the file system is mounted the number of queues is exact; the
  count of an inode is the number of its names and open files, the count of a file that of its
  descriptors and of the tasks that sleep in a call on it.
\<close>

theorem mq_accounting:
  assumes "mq_reach K R ns"
  shows "(\<forall>u. uint (user_bytes ns u) = map_sum (charged K u) (inodes ns)) \<and>
    (sb_alive ns \<longrightarrow> mq_queues_count ns = int (card (dom (inodes ns)))) \<and>
    (\<forall>i info. inodes ns i = Some info \<longrightarrow> 1 \<le> i_count info \<and> i_count info = names_to (names ns) i + files_to (files ns) i) \<and>
    (\<forall>f fl. files ns f = Some fl \<longrightarrow> 1 \<le> f_count fl \<and> f_count fl = fds_to (fds ns) f + waits_to (waits ns) f)"
proof -
  note D = mq_heldD [OF mq_reachD [OF assms]]
  have "map_sum (\<lambda>_. 1 :: int) (inodes ns) = int (card (dom (inodes ns)))" by (simp add: map_sum_def)
  then show ?thesis using D(3,4,9) unfolding mq_acct_ok_def inodes_ok_def files_ok_def by simp
qed

theorem mq_accounting_witness:
  "mq_reach example_mq_hdr (\<lambda>_. 1) example_mq1 \<and> uint (user_bytes example_mq1 5) = 82000 \<and>
   mq_queues_count example_mq1 = int (card (dom (inodes example_mq1)))"
  using mq_accounting [OF example_mq1_reach] example_mq1_reach by (simp add: example_mq1_eq)

subsection \<open>Sockets of notifications\<close>

text \<open>
  C19. As long as no socket descriptor is closed between two passes of the loop of \<^verbatim>\<open>mq_notify\<close>, a
  registered notification keeps its socket: in every reachable state the socket of every queue with a
  \<^verbatim>\<open>SIGEV_THREAD\<close> notification has a reference on top of those it had from elsewhere.
\<close>

theorem mq_socket_kept:
  assumes "mq_reach K R ns" and "inodes ns i = Some info" and "notify_owner info \<noteq> None"
    and "sigev_notify (notify info) = SIGEV_THREAD"
  shows "\<exists>s c. notify_sock info = Some s \<and> notify_cookie info = Some c \<and> R s < sock_refs ns s"
proof -
  note D = mq_heldD [OF mq_reachD [OF assms(1)]]
  obtain s c where s: "notify_sock info = Some s" "notify_cookie info = Some c"
    using D(7) [OF assms(2)] assms(3,4) by (auto simp: queue_ok_def)
  have "finite (dom (inodes ns))" using D(10) by (simp add: socks_ok_def)
  then have "1 \<le> (map_sum (\<lambda>x. of_bool (registered s x)) (inodes ns) :: int)"
    using map_sum_ge [of "inodes ns" i info "\<lambda>x. of_bool (registered s x) :: int"] assms s by (simp add: registered_def)
  moreover have "R s + map_sum (\<lambda>x. of_bool (registered s x)) (inodes ns) \<le> sock_refs ns s" using D(10) by (simp add: socks_ok_def)
  ultimately show ?thesis using s by auto
qed

definition example_mq3 :: mq_ns where
  "example_mq3 = snd (mq_notify example_mq_hdr example_env1 3 True example_mq1)"

lemma example_mq3_eq:
  "mq_reach example_mq_hdr (\<lambda>_. 1) example_mq3"
  "inodes example_mq3 = [10 \<mapsto> example_info\<lparr>notify_owner := Some 7, notify_sock := Some 4, notify_cookie := Some 77,
     notify := (notify example_info)\<lparr>sigev_notify := SIGEV_THREAD\<rparr>\<rparr>]"
proof -
  show "mq_reach example_mq_hdr (\<lambda>_. 1) example_mq3"
    by (rule do_notify [OF example_mq1_reach example_mq_env1, of 3 True "fst (mq_notify example_mq_hdr example_env1 3 True example_mq1)"])
      (simp add: example_mq3_def)
  have "notify_owner example_info = None" by (simp add: example_info_def)
  then show "inodes example_mq3 = [10 \<mapsto> example_info\<lparr>notify_owner := Some 7, notify_sock := Some 4, notify_cookie := Some 77,
     notify := (notify example_info)\<lparr>sigev_notify := SIGEV_THREAD\<rparr>\<rparr>]"
    by (simp add: example_mq3_def mq_notify_def notify_prepare_def one_try_def sock_hold_def fget_def example_mq1_eq notify_locked_def
        notify_register_def Let_def set_inode_def out_fput_def fput_def notify_out_def example_env1_def)
qed

theorem mq_socket_kept_witness:
  "\<exists>info. inodes example_mq3 10 = Some info \<and> notify_sock info = Some 4 \<and> 1 < sock_refs example_mq3 4"
  using mq_socket_kept [OF example_mq3_eq(1), of 10] by (simp add: example_mq3_eq(2))

text \<open>
  C20. When \<^verbatim>\<open>netlink_attachskb\<close> asks to try again it has dropped the reference to the socket. If the
  descriptor is closed before the second pass, \<^verbatim>\<open>mq_notify\<close> leaves the loop with the stale pointer
  still in \<^verbatim>\<open>sock\<close> and drops the reference once more: the call fails with \<^verbatim>\<open>EBADF\<close> and the socket has lost a
  reference that belongs to someone else.
\<close>

theorem mq_notify_double_put:
  assumes "user_sigevent E = Some n" and "sigev_notify n = SIGEV_THREAD" and "alloc_skb E = Some nc" and "cookie_copy_ok E"
    and "attach_tries E = [\<lparr>try_fget = True, try_sock = Inr s, try_attach = AttachAgain\<rparr>, \<lparr>try_fget = False, try_sock = x, try_attach = y\<rparr>]"
  shows "\<exists>ns'. mq_notify K E mqdes True ns = (Done (Inl EBADF), ns') \<and> sock_refs ns' s = sock_refs ns s - 1"
  using assms by (simp add: mq_notify_def notify_prepare_def notify_out_def sock_put_def sock_hold_def)

theorem mq_notify_double_put_witness:
  "\<exists>(E :: mq_env) ns'. mq_notify example_mq_hdr E 3 True example_mq1 = (Done (Inl EBADF), ns') \<and> sock_refs ns' 4 = sock_refs example_mq1 4 - 1"
  using mq_notify_double_put [of "example_mq_env [\<lparr>try_fget = True, try_sock = Inr 4, try_attach = AttachAgain\<rparr>,
      \<lparr>try_fget = False, try_sock = Inl EBADF, try_attach = Attached\<rparr>]"
      "\<lparr>sigev_notify = SIGEV_THREAD, sigev_signo = 0, sigev_value = 0\<rparr>" 77 4 "Inl EBADF" Attached example_mq_hdr 3 example_mq1]
  by (auto simp del: split_paired_Ex)

end
