(* ===== verification/Ipc_Shm.thy ===== *)
theory Ipc_Shm
  imports Ipc_Util
begin

text \<open>
  \<^verbatim>\<open>ipc/shm.c\<close>: System V shared memory.

  A namespace is a \<open>shm_ns\<close>: the limits and \<^verbatim>\<open>shm_tot\<close> of \<^verbatim>\<open>struct ipc_namespace\<close>, the identifier
  table, the segments with their reference counts, the backing files that \<^verbatim>\<open>shmem_file_setup\<close> and
  \<^verbatim>\<open>hugetlb_file_setup\<close> hand out, the files with a \<^verbatim>\<open>struct shm_file_data\<close> that \<^verbatim>\<open>do_shmat\<close> makes, and
  the areas (\<^verbatim>\<open>struct vm_area_struct\<close>) that map them. The memory management code calls
  back: mapping a file calls its \<^verbatim>\<open>mmap\<close> operation, copying an area at fork calls \<^verbatim>\<open>shm_open\<close>, and
  unmapping an area calls \<^verbatim>\<open>shm_close\<close> and then drops the reference of the area to its file. Its
  decisions (addresses, whether a mapping succeeds, which areas there are) are parameters.

  \<open>others E n\<close> is what other tasks do to the namespace where \<^verbatim>\<open>do_shmat\<close> holds no lock.
\<close>

subsection \<open>State\<close>

record shmid_kernel =
  shm_perm :: kern_ipc_perm
  shm_file :: addr
  shm_nattch :: ulong
  shm_segsz :: ulong
  shm_atim :: int
  shm_dtim :: int
  shm_ctim :: int
  shm_cprid :: int
  shm_lprid :: int
  mlock_user :: "nat option"

text \<open>A backing file: what this code reads of its inode, and whether its pages are locked.\<close>

record backing =
  b_huge :: bool
  b_size :: ulong
  b_ino :: int
  b_locked :: bool

text \<open>A file made by \<^verbatim>\<open>do_shmat\<close>, with its \<^verbatim>\<open>struct shm_file_data\<close> and its reference count.\<close>

record shm_file_data =
  sfd_id :: int
  sfd_file :: addr
  sfd_count :: int
  sfd_size :: ulong

record shm_ns =
  shm_ctlmax :: ulong
  shm_ctlall :: ulong
  shm_ctlmni :: int
  shm_tot :: int
  shm_ids :: ipc_ids
  segs :: "addr \<rightharpoonup> shmid_kernel"
  shm_mem :: ipc_mem
  backings :: "addr \<rightharpoonup> backing"
  sfds :: "addr \<rightharpoonup> shm_file_data"
  areas :: "addr \<rightharpoonup> addr"
  ns_refs :: int

datatype shm_cmd = SHM_STAT | SHM_INFO | SHM_LOCK | SHM_UNLOCK

record shm_hdr = ipc_hdr +
  sizeof_shmid_kernel :: ulong
  PAGE_SHIFT :: nat
  SHMMAX :: ulong
  SHMALL :: ulong
  SHMMNI :: int
  SHMMIN :: ulong
  SHMLBA :: ulong
  SHM_DEST :: flags
  SHM_LOCKED :: flags
  SHM_HUGETLB :: flags
  SHM_NORESERVE :: flags
  SHM_RND :: flags
  SHM_REMAP :: flags
  SHM_RDONLY :: flags
  SHM_EXEC :: flags
  S_IXUGO :: flags
  arch_force_shmlba :: bool
  shm_decode :: "flags \<Rightarrow> shm_cmd ipc_cmd"

record shmid64_ds =
  h64_perm :: ipc64_perm
  h64_segsz :: ulong
  h64_atime :: int
  h64_dtime :: int
  h64_ctime :: int
  h64_cpid :: int
  h64_lpid :: int
  h64_nattch :: ulong

record shmid_ds =
  hold_perm :: ipc_perm_old
  hold_segsz :: "32 word"
  hold_atime :: int
  hold_dtime :: int
  hold_ctime :: int
  hold_cpid :: int
  hold_lpid :: int
  hold_nattch :: "16 word"

record shminfo64 =
  n64_shmmax :: ulong
  n64_shmmin :: ulong
  n64_shmmni :: ulong
  n64_shmseg :: ulong
  n64_shmall :: ulong

record shminfo_old =
  nold_shmmax :: int
  nold_shmmin :: int
  nold_shmmni :: int
  nold_shmseg :: int
  nold_shmall :: int

record shm_info =
  u_used_ids :: int
  u_shm_tot :: ulong
  u_shm_rss :: ulong
  u_shm_swp :: ulong

datatype shm_out =
  NoShmOut | OutShminfo64 shminfo64 | OutShminfo shminfo_old | OutShmInfo shm_info
  | OutShm64 shmid64_ds | OutShmOld shmid_ds

record shm_env = ipc_env +
  shm_others :: "nat \<Rightarrow> shm_ns \<Rightarrow> shm_ns"
  security_shm_alloc :: "errno option"
  security_shm_associate :: "shmid_kernel \<Rightarrow> flags \<Rightarrow> errno option"
  security_shm_shmctl :: "shmid_kernel option \<Rightarrow> shm_cmd ipc_cmd \<Rightarrow> errno option"
  security_shm_shmat :: "shmid_kernel \<Rightarrow> ulong \<Rightarrow> flags \<Rightarrow> errno option"
  overcommit_never :: bool
  hugetlb_file_setup :: "int \<Rightarrow> ulong \<Rightarrow> bool \<Rightarrow> errno + addr \<times> nat option"
  shmem_file_setup :: "int \<Rightarrow> ulong \<Rightarrow> bool \<Rightarrow> errno + addr"
  shmem_lock_err :: "errno option"
  nrpages :: "addr \<Rightarrow> ulong"
  swapped :: "addr \<Rightarrow> ulong"
  pages_per_huge_page :: "addr \<Rightarrow> ulong"
  current_user :: nat
  rlimit_memlock :: ulong
  shm_copy_ok :: bool
  user_shmid64 :: "shmid64_ds option"
  user_shmid :: "shmid_ds option"
  sfd_kzalloc_ok :: bool
  alloc_file_addr :: "addr option"
  find_vma_intersection :: "ulong \<Rightarrow> ulong \<Rightarrow> bool"
  start_stack :: ulong
  mmap_area :: "ulong \<Rightarrow> ulong \<Rightarrow> bool \<Rightarrow> errno + addr \<times> ulong"
  backing_mmap :: "errno option"

subsection \<open>Namespaces and locks\<close>

definition shm_init_ns :: "'h shm_hdr_scheme \<Rightarrow> shm_ns \<Rightarrow> shm_ns" where
  "shm_init_ns K ns =
     ns\<lparr>shm_ctlmax := SHMMAX K, shm_ctlall := SHMALL K, shm_ctlmni := SHMMNI K, shm_tot := 0,
        shm_ids := ipc_init_ids K\<rparr>"

definition shm_perms :: "shm_ns \<Rightarrow> perms" where
  "shm_perms ns = (\<lambda>p. map_option shm_perm (segs ns p))"

definition shm_lock :: "'h shm_hdr_scheme \<Rightarrow> shm_ns \<Rightarrow> int \<Rightarrow> errno + addr" where
  "shm_lock K ns x = ipc_lock K (shm_ids ns) (shm_perms ns) x"

definition shm_lock_check :: "'h shm_hdr_scheme \<Rightarrow> shm_ns \<Rightarrow> int \<Rightarrow> errno + addr" where
  "shm_lock_check K ns x = ipc_lock_check K (shm_ids ns) (shm_perms ns) x"

definition set_seg :: "addr \<Rightarrow> shmid_kernel \<Rightarrow> shm_ns \<Rightarrow> shm_ns" where
  "set_seg p shp ns = ns\<lparr>segs := (segs ns)(p \<mapsto> shp)\<rparr>"

definition shm_rmid :: "'h shm_hdr_scheme \<Rightarrow> addr \<Rightarrow> shmid_kernel \<Rightarrow> shm_ns \<Rightarrow> shm_ns" where
  "shm_rmid K p shp ns =
     (case ipc_rmid K (shm_ids ns) (shm_perm shp) of
        (ids, perm) \<Rightarrow> set_seg p (shp\<lparr>shm_perm := perm\<rparr>) (ns\<lparr>shm_ids := ids\<rparr>))"

text \<open>Dropping the last reference makes the segment go away at the end of the grace period.\<close>

definition shm_putref :: "'h shm_hdr_scheme \<Rightarrow> addr \<Rightarrow> shm_ns \<Rightarrow> shm_ns option" where
  "shm_putref K p ns =
     (case ipc_rcu_putref K p (shm_mem ns) of
        None \<Rightarrow> None
      | Some m \<Rightarrow>
          Some (ns\<lparr>shm_mem := m,
                   segs := (if hdrs m (container_hdr K p) = None then (segs ns)(p := None) else segs ns)\<rparr>))"

text \<open>The size of a segment in pages; \<^verbatim>\<open>newseg\<close> keeps it in an \<^verbatim>\<open>int\<close>.\<close>

definition seg_pages :: "'h shm_hdr_scheme \<Rightarrow> ulong \<Rightarrow> ulong" where
  "seg_pages K sz = drop_bit (PAGE_SHIFT K) (sz + PAGE_SIZE K - 1)"

subsection \<open>Attaching and detaching areas\<close>

text \<open>
  \<^verbatim>\<open>shm_destroy\<close>: the pages leave the account, the segment leaves the table, its pages are unlocked,
  and the backing file and the segment are dropped. A missing file is \<open>None\<close>.
\<close>

definition shm_destroy :: "'h shm_hdr_scheme \<Rightarrow> addr \<Rightarrow> shm_ns \<Rightarrow> shm_ns option" where
  "shm_destroy K p ns =
     (case segs ns p of
        None \<Rightarrow> None
      | Some shp \<Rightarrow>
          (let ns1 = ns\<lparr>shm_tot := c_int (shm_tot ns - uint (seg_pages K (shm_segsz shp)))\<rparr>;
               ns2 = shm_rmid K p shp ns1
           in if backings ns2 (shm_file shp) = None then None
              else shm_putref K p (ns2\<lparr>backings := (backings ns2)(shm_file shp := None)\<rparr>)))"

definition shm_open :: "'h shm_hdr_scheme \<Rightarrow> 'e shm_env_scheme \<Rightarrow> addr \<Rightarrow> shm_ns \<Rightarrow> shm_ns option" where
  "shm_open K E file ns =
     (case sfds ns file of
        None \<Rightarrow> None
      | Some sfd \<Rightarrow>
          (case shm_lock K ns (sfd_id sfd) of
             Inl _ \<Rightarrow> None
           | Inr p \<Rightarrow>
               (case segs ns p of
                  None \<Rightarrow> None
                | Some shp \<Rightarrow>
                    Some (set_seg p (shp\<lparr>shm_atim := get_seconds E, shm_lprid := current_tgid E,
                                         shm_nattch := shm_nattch shp + 1\<rparr>) ns))))"

text \<open>The end of \<^verbatim>\<open>shm_close\<close> and of \<^verbatim>\<open>do_shmat\<close>: one attach less, and the end of a doomed segment.\<close>

definition nattch_put :: "'h shm_hdr_scheme \<Rightarrow> addr \<Rightarrow> shmid_kernel \<Rightarrow> shm_ns \<Rightarrow> shm_ns option" where
  "nattch_put K p shp ns =
     (let shp = shp\<lparr>shm_nattch := shm_nattch shp - 1\<rparr>;
          ns = set_seg p shp ns
      in if shm_nattch shp = 0 \<and> p_mode (shm_perm shp) AND SHM_DEST K \<noteq> 0 then shm_destroy K p ns
         else Some ns)"

definition shm_close :: "'h shm_hdr_scheme \<Rightarrow> 'e shm_env_scheme \<Rightarrow> addr \<Rightarrow> shm_ns \<Rightarrow> shm_ns option" where
  "shm_close K E file ns =
     (case sfds ns file of
        None \<Rightarrow> None
      | Some sfd \<Rightarrow>
          (case shm_lock K ns (sfd_id sfd) of
             Inl _ \<Rightarrow> None
           | Inr p \<Rightarrow>
               (case segs ns p of
                  None \<Rightarrow> None
                | Some shp \<Rightarrow>
                    nattch_put K p (shp\<lparr>shm_lprid := current_tgid E, shm_dtim := get_seconds E\<rparr>) ns)))"

text \<open>\<^verbatim>\<open>shm_release\<close> runs when the last reference to a file made by \<^verbatim>\<open>do_shmat\<close> is dropped.\<close>

definition shm_release :: "addr \<Rightarrow> shm_ns \<Rightarrow> shm_ns" where
  "shm_release file ns = ns\<lparr>ns_refs := ns_refs ns - 1, sfds := (sfds ns)(file := None)\<rparr>"

definition fput :: "addr \<Rightarrow> shm_ns \<Rightarrow> shm_ns option" where
  "fput file ns =
     (case sfds ns file of
        None \<Rightarrow> None
      | Some sfd \<Rightarrow>
          if sfd_count sfd - 1 = 0 then Some (shm_release file ns)
          else Some (ns\<lparr>sfds := (sfds ns)(file \<mapsto> sfd\<lparr>sfd_count := sfd_count sfd - 1\<rparr>)\<rparr>))"

text \<open>
  \<^verbatim>\<open>shm_mmap\<close>, called by the memory management code for the new area \<open>v\<close>, which then holds a reference
  to the file. The \<^verbatim>\<open>mmap\<close> operation of the backing file needs that file.
\<close>

definition shm_mmap ::
  "'h shm_hdr_scheme \<Rightarrow> 'e shm_env_scheme \<Rightarrow> addr \<Rightarrow> addr \<Rightarrow> shm_ns \<Rightarrow> (errno option \<times> shm_ns)" where
  "shm_mmap K E file v ns =
     (case sfds ns file of
        None \<Rightarrow> (Some KBUG, ns)
      | Some sfd \<Rightarrow>
          if backings ns (sfd_file sfd) = None then (Some KBUG, ns)
          else
            (case backing_mmap E of
               Some ret \<Rightarrow> (Some ret, ns)
             | None \<Rightarrow>
                 (case shm_open K E file ns of
                    None \<Rightarrow> (Some KBUG, ns)
                  | Some ns' \<Rightarrow>
                      (None, ns'\<lparr>areas := (areas ns')(v \<mapsto> file),
                                 sfds := (sfds ns')(file \<mapsto> sfd\<lparr>sfd_count := sfd_count sfd + 1\<rparr>)\<rparr>))))"

text \<open>What copying an area at fork and unmapping an area do to this module.\<close>

definition dup_area :: "'h shm_hdr_scheme \<Rightarrow> 'e shm_env_scheme \<Rightarrow> addr \<Rightarrow> addr \<Rightarrow> shm_ns \<Rightarrow> shm_ns option" where
  "dup_area K E v v' ns =
     (case areas ns v of
        None \<Rightarrow> None
      | Some file \<Rightarrow>
          (case sfds ns file of
             None \<Rightarrow> None
           | Some sfd \<Rightarrow>
               shm_open K E file
                 (ns\<lparr>areas := (areas ns)(v' \<mapsto> file),
                     sfds := (sfds ns)(file \<mapsto> sfd\<lparr>sfd_count := sfd_count sfd + 1\<rparr>)\<rparr>)))"

definition unmap_area :: "'h shm_hdr_scheme \<Rightarrow> 'e shm_env_scheme \<Rightarrow> addr \<Rightarrow> shm_ns \<Rightarrow> shm_ns option" where
  "unmap_area K E v ns =
     (case areas ns v of
        None \<Rightarrow> None
      | Some file \<Rightarrow>
          (case shm_close K E file ns of
             None \<Rightarrow> None
           | Some ns1 \<Rightarrow> fput file (ns1\<lparr>areas := (areas ns1)(v := None)\<rparr>)))"

subsection \<open>Creating segments\<close>

text \<open>
  The name of the file is made from the key. The answer of the setup functions: the
  address, the user charged for locked memory, and whether the file is one of hugetlbfs.
\<close>

definition file_setup ::
  "'h shm_hdr_scheme \<Rightarrow> 'e shm_env_scheme \<Rightarrow> int \<Rightarrow> ulong \<Rightarrow> flags \<Rightarrow> errno + addr \<times> nat option \<times> bool" where
  "file_setup K E key sz shmflg =
     (if shmflg AND SHM_HUGETLB K \<noteq> 0 then
        (case hugetlb_file_setup E key sz (shmflg AND SHM_NORESERVE K \<noteq> 0) of
           Inl err \<Rightarrow> Inl err
         | Inr (file, user) \<Rightarrow> Inr (file, user, True))
      else
        (case shmem_file_setup E key sz (shmflg AND SHM_NORESERVE K \<noteq> 0 \<and> \<not> overcommit_never E) of
           Inl err \<Rightarrow> Inl err
         | Inr file \<Rightarrow> Inr (file, None, False)))"

definition newseg ::
  "'h shm_hdr_scheme \<Rightarrow> 'e shm_env_scheme \<Rightarrow> ipc_params \<Rightarrow> shm_ns \<Rightarrow> (errno + int) \<times> shm_ns" where
  "newseg K E params ns =
     (let sz = par_size params;
          numpages = c_int (uint (seg_pages K sz))
      in if sz < SHMMIN K \<or> sz > shm_ctlmax ns then (Inl EINVAL, ns)
         else if (word_of_int (c_int (shm_tot ns + numpages)) :: ulong) > shm_ctlall ns then (Inl ENOSPC, ns)
         else
           (case ipc_rcu_alloc K E (sizeof_shmid_kernel K) (shm_mem ns) of
              (None, m) \<Rightarrow> (Inl ENOMEM, ns)
            | (Some p, m) \<Rightarrow>
                (let fail = (\<lambda>err. case ipc_rcu_putref K p m of
                                     None \<Rightarrow> (Inl KBUG, ns\<lparr>shm_mem := m\<rparr>)
                                   | Some m' \<Rightarrow> (Inl err, ns\<lparr>shm_mem := m'\<rparr>));
                     perm = new_perm (par_key params) (par_flg params AND S_IRWXUGO K)
                 in case security_shm_alloc E of
                      Some error \<Rightarrow> fail error
                    | None \<Rightarrow>
                        (case file_setup K E (par_key params) sz (par_flg params) of
                           Inl error \<Rightarrow> fail error
                         | Inr (file, user, huge) \<Rightarrow>
                             (case ipc_addid K E (shm_ids ns) p perm (shm_ctlmni ns) of
                                (Inl error, ids, perm') \<Rightarrow> fail error
                              | (Inr i, ids, perm') \<Rightarrow>
                                  (Inr (p_id perm'),
                                   set_seg p
                                     \<lparr>shm_perm = perm', shm_file = file, shm_nattch = 0, shm_segsz = sz,
                                      shm_atim = 0, shm_dtim = 0, shm_ctim = get_seconds E,
                                      shm_cprid = current_tgid E, shm_lprid = 0, mlock_user = user\<rparr>
                                     (ns\<lparr>shm_mem := m, shm_ids := ids,
                                         backings := (backings ns)(file \<mapsto>
                                           \<lparr>b_huge = huge, b_size = sz, b_ino = p_id perm', b_locked = False\<rparr>),
                                         shm_tot := c_int (shm_tot ns + numpages)\<rparr>)))))))"

definition shm_security :: "'e shm_env_scheme \<Rightarrow> addr \<Rightarrow> flags \<Rightarrow> shm_ns \<Rightarrow> errno option" where
  "shm_security E p shmflg ns =
     (case segs ns p of None \<Rightarrow> Some KBUG | Some shp \<Rightarrow> security_shm_associate E shp shmflg)"

definition shm_more_checks :: "'e shm_env_scheme \<Rightarrow> addr \<Rightarrow> ipc_params \<Rightarrow> shm_ns \<Rightarrow> errno option" where
  "shm_more_checks E p params ns =
     (case segs ns p of
        None \<Rightarrow> Some KBUG
      | Some shp \<Rightarrow> if shm_segsz shp < par_size params then Some EINVAL else None)"

definition shm_ops :: "'h shm_hdr_scheme \<Rightarrow> (shm_ns, 'e shm_env_scheme) ipc_ops" where
  "shm_ops K =
     \<lparr>ns_ids = shm_ids, ns_perms = shm_perms, getnew = newseg K, associate = shm_security,
      more_checks = shm_more_checks\<rparr>"

definition shmget ::
  "'h shm_hdr_scheme \<Rightarrow> int \<Rightarrow> ulong \<Rightarrow> flags \<Rightarrow> 'e shm_env_scheme list \<Rightarrow> shm_ns \<Rightarrow> ((errno + int) \<times> shm_ns) option" where
  "shmget K key sz shmflg Es ns =
     ipcget K (shm_ops K) \<lparr>par_key = key, par_flg = shmflg, par_size = sz, par_nsems = 0\<rparr> Es ns"

subsection \<open>Control\<close>

definition copy_shmid_to_user :: "'h shm_hdr_scheme \<Rightarrow> shmid64_ds \<Rightarrow> ipc_version \<Rightarrow> shm_out" where
  "copy_shmid_to_user K inp version =
     (case version of
        IPC_64 \<Rightarrow> OutShm64 inp
      | IPC_OLD \<Rightarrow>
          OutShmOld \<lparr>hold_perm = ipc64_perm_to_ipc_perm K (h64_perm inp), hold_segsz = ucast (h64_segsz inp),
                     hold_atime = h64_atime inp, hold_dtime = h64_dtime inp, hold_ctime = h64_ctime inp,
                     hold_cpid = c_ushort (h64_cpid inp), hold_lpid = c_ushort (h64_lpid inp),
                     hold_nattch = ucast (h64_nattch inp)\<rparr>)"

definition copy_shmid_from_user :: "'e shm_env_scheme \<Rightarrow> ipc_version \<Rightarrow> ipc64_perm option" where
  "copy_shmid_from_user E version =
     (case version of
        IPC_64 \<Rightarrow> map_option h64_perm (user_shmid64 E)
      | IPC_OLD \<Rightarrow>
          (case user_shmid E of
             None \<Rightarrow> None
           | Some b \<Rightarrow>
               Some \<lparr>i_key = 0, i_uid = ucast (o_uid (hold_perm b)), i_gid = ucast (o_gid (hold_perm b)),
                     i_cuid = 0, i_cgid = 0, i_mode = o_mode (hold_perm b), i_seq = 0\<rparr>))"

definition copy_shminfo_to_user :: "shminfo64 \<Rightarrow> ipc_version \<Rightarrow> shm_out" where
  "copy_shminfo_to_user inp version =
     (case version of
        IPC_64 \<Rightarrow> OutShminfo64 inp
      | IPC_OLD \<Rightarrow>
          OutShminfo \<lparr>nold_shmmax = (if uint (n64_shmmax inp) > INT_MAX then INT_MAX else c_int (uint (n64_shmmax inp))),
                      nold_shmmin = c_int (uint (n64_shmmin inp)), nold_shmmni = c_int (uint (n64_shmmni inp)),
                      nold_shmseg = c_int (uint (n64_shmseg inp)), nold_shmall = c_int (uint (n64_shmall inp))\<rparr>)"

definition shm_add_rss_swap ::
  "'e shm_env_scheme \<Rightarrow> shm_ns \<Rightarrow> shmid_kernel \<Rightarrow> ulong \<times> ulong \<Rightarrow> (ulong \<times> ulong) option" where
  "shm_add_rss_swap E ns shp acc =
     (case (backings ns (shm_file shp), acc) of
        (None, _) \<Rightarrow> None
      | (Some b, rss_add, swp_add) \<Rightarrow>
          if b_huge b
          then Some (rss_add + pages_per_huge_page E (shm_file shp) * nrpages E (shm_file shp), swp_add)
          else Some (rss_add + nrpages E (shm_file shp), swp_add + swapped E (shm_file shp)))"

text \<open>
  Like \<^verbatim>\<open>ipc_findkey\<close>, the loop of \<^verbatim>\<open>shm_get_stat\<close> only stops once it has seen \<^verbatim>\<open>in_use\<close> entries: not
  returning is \<open>None\<close>, a fault is \<open>Some None\<close>.
\<close>

partial_function (option) stat_from ::
  "'e shm_env_scheme \<Rightarrow> shm_ns \<Rightarrow> int \<Rightarrow> nat \<Rightarrow> ulong \<times> ulong \<Rightarrow> (ulong \<times> ulong) option option" where
  "stat_from E ns seen next_id acc =
     (if seen < in_use (shm_ids ns) then
        (case ipcs_idr (shm_ids ns) next_id of
           None \<Rightarrow> stat_from E ns seen (next_id + 1) acc
         | Some p \<Rightarrow>
             (case segs ns p of
                None \<Rightarrow> Some None
              | Some shp \<Rightarrow>
                  (case shm_add_rss_swap E ns shp acc of
                     None \<Rightarrow> Some None
                   | Some acc' \<Rightarrow> stat_from E ns (seen + 1) (next_id + 1) acc')))
      else Some (Some acc))"

definition shm_get_stat :: "'e shm_env_scheme \<Rightarrow> shm_ns \<Rightarrow> (ulong \<times> ulong) option option" where
  "shm_get_stat E ns = stat_from E ns 0 0 (0, 0)"

definition do_shm_rmid :: "'h shm_hdr_scheme \<Rightarrow> addr \<Rightarrow> shm_ns \<Rightarrow> shm_ns option" where
  "do_shm_rmid K p ns =
     (case segs ns p of
        None \<Rightarrow> None
      | Some shp \<Rightarrow>
          if shm_nattch shp \<noteq> 0
          then Some (set_seg p (shp\<lparr>shm_perm := (shm_perm shp)\<lparr>p_mode := p_mode (shm_perm shp) OR SHM_DEST K,
                                                             p_key := IPC_PRIVATE\<rparr>\<rparr>) ns)
          else shm_destroy K p ns)"

definition shmctl_down ::
  "'h shm_hdr_scheme \<Rightarrow> 'e shm_env_scheme \<Rightarrow> int \<Rightarrow> shm_cmd ipc_cmd \<Rightarrow> ipc_version \<Rightarrow> shm_ns \<Rightarrow>
   (errno + int) \<times> shm_ns" where
  "shmctl_down K E shmid cmd version ns =
     (let ubuf = copy_shmid_from_user E version
      in if cmd = IPC_SET \<and> ubuf = None then (Inl EFAULT, ns)
         else
           (case ipcctl_pre_down K E (shm_ids ns) (shm_perms ns) shmid of
              Inl err \<Rightarrow> (Inl err, ns)
            | Inr p \<Rightarrow>
                (case segs ns p of
                   None \<Rightarrow> (Inl KBUG, ns)
                 | Some shp \<Rightarrow>
                     (case security_shm_shmctl E (Some shp) cmd of
                        Some err \<Rightarrow> (Inl err, ns)
                      | None \<Rightarrow>
                          (case cmd of
                             IPC_RMID \<Rightarrow>
                               (case do_shm_rmid K p ns of None \<Rightarrow> (Inl KBUG, ns) | Some ns' \<Rightarrow> (Inr 0, ns'))
                           | IPC_SET \<Rightarrow>
                               (Inr 0, set_seg p (shp\<lparr>shm_perm := ipc_update_perm K (the ubuf) (shm_perm shp),
                                                     shm_ctim := get_seconds E\<rparr>) ns)
                           | _ \<Rightarrow> (Inl EINVAL, ns))))))"

definition shmctl_stat ::
  "'h shm_hdr_scheme \<Rightarrow> 'e shm_env_scheme \<Rightarrow> int \<Rightarrow> shm_cmd ipc_cmd \<Rightarrow> ipc_version \<Rightarrow> shm_ns \<Rightarrow>
   errno + int \<times> shm_out" where
  "shmctl_stat K E shmid cmd version ns =
     (case (if cmd = CMD SHM_STAT then shm_lock K ns shmid else shm_lock_check K ns shmid) of
        Inl err \<Rightarrow> Inl err
      | Inr p \<Rightarrow>
          (case segs ns p of
             None \<Rightarrow> Inl KBUG
           | Some shp \<Rightarrow>
               (let result = (if cmd = CMD SHM_STAT then p_id (shm_perm shp) else 0)
                in if ipcperms E (shm_perm shp) (ucast (S_IRUGO K)) \<noteq> None then Inl EACCES
                   else (case security_shm_shmctl E (Some shp) cmd of
                           Some err \<Rightarrow> Inl err
                         | None \<Rightarrow>
                             if shm_copy_ok E
                             then Inr (result, copy_shmid_to_user K
                                         \<lparr>h64_perm = kernel_to_ipc64_perm (shm_perm shp), h64_segsz = shm_segsz shp,
                                          h64_atime = shm_atim shp, h64_dtime = shm_dtim shp,
                                          h64_ctime = shm_ctim shp, h64_cpid = shm_cprid shp,
                                          h64_lpid = shm_lprid shp, h64_nattch = shm_nattch shp\<rparr> version)
                             else Inl EFAULT))))"

text \<open>\<^verbatim>\<open>SHM_LOCK\<close> and \<^verbatim>\<open>SHM_UNLOCK\<close>.\<close>

definition shmctl_lock ::
  "'h shm_hdr_scheme \<Rightarrow> 'e shm_env_scheme \<Rightarrow> int \<Rightarrow> shm_cmd \<Rightarrow> shm_ns \<Rightarrow> (errno + int) \<times> shm_ns" where
  "shmctl_lock K E shmid cmd ns =
     (case shm_lock_check K ns shmid of
        Inl err \<Rightarrow> (Inl err, ns)
      | Inr p \<Rightarrow>
          (case segs ns p of
             None \<Rightarrow> (Inl KBUG, ns)
           | Some shp \<Rightarrow>
               if \<not> ns_capable E CAP_IPC_LOCK \<and>
                  (current_euid E \<noteq> p_uid (shm_perm shp) \<and> current_euid E \<noteq> p_cuid (shm_perm shp) \<or>
                   cmd = SHM_LOCK \<and> rlimit_memlock E = 0)
               then (Inl EPERM, ns)
               else
                 (case security_shm_shmctl E (Some shp) (CMD cmd) of
                    Some err \<Rightarrow> (Inl err, ns)
                  | None \<Rightarrow>
                      (case backings ns (shm_file shp) of
                         None \<Rightarrow> (Inl KBUG, ns)
                       | Some b \<Rightarrow>
                           if b_huge b then (Inr 0, ns)
                           else if cmd = SHM_LOCK then
                             (case shmem_lock_err E of
                                Some err \<Rightarrow> (Inl err, ns)
                              | None \<Rightarrow>
                                  (let ns = ns\<lparr>backings := (backings ns)(shm_file shp \<mapsto> b\<lparr>b_locked := True\<rparr>)\<rparr>
                                   in if p_mode (shm_perm shp) AND SHM_LOCKED K = 0
                                      then (Inr 0, set_seg p
                                              (shp\<lparr>shm_perm := (shm_perm shp)\<lparr>p_mode := p_mode (shm_perm shp) OR SHM_LOCKED K\<rparr>,
                                                   mlock_user := Some (current_user E)\<rparr>) ns)
                                      else (Inr 0, ns)))
                           else
                             (Inr 0, set_seg p
                                (shp\<lparr>shm_perm := (shm_perm shp)\<lparr>p_mode := p_mode (shm_perm shp) AND NOT (SHM_LOCKED K)\<rparr>,
                                     mlock_user := None\<rparr>)
                                (ns\<lparr>backings := (backings ns)(shm_file shp \<mapsto> b\<lparr>b_locked := False\<rparr>)\<rparr>))))))"

definition shmctl_info ::
  "'h shm_hdr_scheme \<Rightarrow> 'e shm_env_scheme \<Rightarrow> shm_cmd ipc_cmd \<Rightarrow> ipc_version \<Rightarrow> shm_ns \<Rightarrow>
   (errno + int \<times> shm_out) option" where
  "shmctl_info K E cmd version ns =
     (case security_shm_shmctl E None cmd of
        Some err \<Rightarrow> Some (Inl err)
      | None \<Rightarrow>
          (let max_id = ipc_get_maxid K (shm_ids ns);
               ret = (if max_id < 0 then 0 else max_id)
           in if cmd = IPC_INFO then
                Some (if shm_copy_ok E
                      then Inr (ret, copy_shminfo_to_user
                                  \<lparr>n64_shmmax = shm_ctlmax ns, n64_shmmin = SHMMIN K,
                                   n64_shmmni = word_of_int (shm_ctlmni ns), n64_shmseg = word_of_int (shm_ctlmni ns),
                                   n64_shmall = shm_ctlall ns\<rparr> version)
                      else Inl EFAULT)
              else
                (case shm_get_stat E ns of
                   None \<Rightarrow> None
                 | Some None \<Rightarrow> Some (Inl KBUG)
                 | Some (Some (rss, swp)) \<Rightarrow>
                     Some (if shm_copy_ok E
                           then Inr (ret, OutShmInfo \<lparr>u_used_ids = in_use (shm_ids ns),
                                                      u_shm_tot = word_of_int (shm_tot ns),
                                                      u_shm_rss = rss, u_shm_swp = swp\<rparr>)
                           else Inl EFAULT))))"

text \<open>A call whose loop does not return is \<open>None\<close>.\<close>

definition shmctl ::
  "'h shm_hdr_scheme \<Rightarrow> 'e shm_env_scheme \<Rightarrow> int \<Rightarrow> flags \<Rightarrow> shm_ns \<Rightarrow> ((errno + int \<times> shm_out) \<times> shm_ns) option" where
  "shmctl K E shmid cmd0 ns =
     (let noout = (\<lambda>(r, ns'). Some (case r of Inl err \<Rightarrow> Inl err | Inr n \<Rightarrow> Inr (n, NoShmOut), ns'))
      in if sint cmd0 < 0 \<or> shmid < 0 then Some (Inl EINVAL, ns)
         else
           (case ipc_parse_version K cmd0 of
              (version, cmd1) \<Rightarrow>
                (case shm_decode K cmd1 of
                   IPC_INFO \<Rightarrow> map_option (\<lambda>r. (r, ns)) (shmctl_info K E IPC_INFO version ns)
                 | IPC_STAT \<Rightarrow> Some (shmctl_stat K E shmid IPC_STAT version ns, ns)
                 | IPC_RMID \<Rightarrow> noout (shmctl_down K E shmid IPC_RMID version ns)
                 | IPC_SET \<Rightarrow> noout (shmctl_down K E shmid IPC_SET version ns)
                 | CMD SHM_INFO \<Rightarrow> map_option (\<lambda>r. (r, ns)) (shmctl_info K E (CMD SHM_INFO) version ns)
                 | CMD SHM_STAT \<Rightarrow> Some (shmctl_stat K E shmid (CMD SHM_STAT) version ns, ns)
                 | CMD SHM_LOCK \<Rightarrow> noout (shmctl_lock K E shmid SHM_LOCK ns)
                 | CMD SHM_UNLOCK \<Rightarrow> noout (shmctl_lock K E shmid SHM_UNLOCK ns)
                 | BAD_CMD \<Rightarrow> Some (Inl EINVAL, ns))))"

subsection \<open>Attach\<close>

text \<open>The address to map at and whether it is fixed.\<close>

definition shmat_addr :: "'h shm_hdr_scheme \<Rightarrow> ulong \<Rightarrow> flags \<Rightarrow> errno + ulong \<times> bool" where
  "shmat_addr K shmaddr shmflg =
     (if shmaddr \<noteq> 0 then
        (if shmaddr AND (SHMLBA K - 1) \<noteq> 0 then
           (if shmflg AND SHM_RND K \<noteq> 0 then Inr (shmaddr AND NOT (SHMLBA K - 1), True)
            else if arch_force_shmlba K \<or> shmaddr AND (PAGE_SIZE K - 1) \<noteq> 0 then Inl EINVAL
            else Inr (shmaddr, True))
         else Inr (shmaddr, True))
      else if shmflg AND SHM_REMAP K \<noteq> 0 then Inl EINVAL
      else Inr (0, False))"

definition shmat_mode :: "'h shm_hdr_scheme \<Rightarrow> flags \<Rightarrow> flags" where
  "shmat_mode K shmflg =
     (if shmflg AND SHM_RDONLY K \<noteq> 0 then S_IRUGO K else S_IRUGO K OR S_IWUGO K) OR
     (if shmflg AND SHM_EXEC K \<noteq> 0 then S_IXUGO K else 0)"

text \<open>\<^verbatim>\<open>out_nattch\<close>: the attach that kept the segment during the call.\<close>

definition out_nattch :: "'h shm_hdr_scheme \<Rightarrow> int \<Rightarrow> errno + ulong \<Rightarrow> shm_ns \<Rightarrow> (errno + ulong) \<times> shm_ns" where
  "out_nattch K shmid err ns =
     (case shm_lock K ns shmid of
        Inl _ \<Rightarrow> (Inl KBUG, ns)
      | Inr p \<Rightarrow>
          (case segs ns p of
             None \<Rightarrow> (Inl KBUG, ns)
           | Some shp \<Rightarrow>
               (case nattch_put K p shp ns of None \<Rightarrow> (Inl KBUG, ns) | Some ns' \<Rightarrow> (err, ns'))))"

text \<open>Mapping the new file \<open>file\<close>: the checks under \<^verbatim>\<open>mmap_sem\<close> and \<^verbatim>\<open>do_mmap\<close>.\<close>

definition shmat_map ::
  "'h shm_hdr_scheme \<Rightarrow> 'e shm_env_scheme \<Rightarrow> addr \<Rightarrow> ulong \<Rightarrow> bool \<Rightarrow> ulong \<Rightarrow> flags \<Rightarrow> shm_ns \<Rightarrow> (errno + ulong) \<times> shm_ns" where
  "shmat_map K E file addr fixed sz shmflg ns =
     (if addr \<noteq> 0 \<and> shmflg AND SHM_REMAP K = 0 \<and>
         (find_vma_intersection E addr (addr + sz) \<or>
          addr < start_stack E \<and> addr > start_stack E - sz - PAGE_SIZE K * 5)
      then (Inl EINVAL, ns)
      else
        (case mmap_area E addr sz fixed of
           Inl err \<Rightarrow> (Inl err, ns)
         | Inr (v, user_addr) \<Rightarrow>
             (case shm_mmap K E file v ns of
                (Some err, ns') \<Rightarrow> (Inl err, ns')
              | (None, ns') \<Rightarrow> (Inr user_addr, ns'))))"

definition do_shmat ::
  "'h shm_hdr_scheme \<Rightarrow> 'e shm_env_scheme \<Rightarrow> int \<Rightarrow> ulong \<Rightarrow> flags \<Rightarrow> shm_ns \<Rightarrow> (errno + ulong) \<times> shm_ns" where
  "do_shmat K E shmid shmaddr shmflg ns =
     (if shmid < 0 then (Inl EINVAL, ns)
      else
        (case shmat_addr K shmaddr shmflg of
           Inl err \<Rightarrow> (Inl err, ns)
         | Inr (addr, fixed) \<Rightarrow>
             (case shm_lock_check K ns shmid of
                Inl err \<Rightarrow> (Inl err, ns)
              | Inr p \<Rightarrow>
                  (case segs ns p of
                     None \<Rightarrow> (Inl KBUG, ns)
                   | Some shp \<Rightarrow>
                       if ipcperms E (shm_perm shp) (ucast (shmat_mode K shmflg)) \<noteq> None then (Inl EACCES, ns)
                       else
                         (case security_shm_shmat E shp shmaddr shmflg of
                            Some err \<Rightarrow> (Inl err, ns)
                          | None \<Rightarrow>
                              (case backings ns (shm_file shp) of
                                 None \<Rightarrow> (Inl KBUG, ns)
                               | Some b \<Rightarrow>
                                   (let ns1 = shm_others E 0
                                                (set_seg p (shp\<lparr>shm_nattch := shm_nattch shp + 1\<rparr>) ns)
                                    in case (if sfd_kzalloc_ok E then alloc_file_addr E else None) of
                                         None \<Rightarrow> out_nattch K shmid (Inl ENOMEM) ns1
                                       | Some file \<Rightarrow>
                                           (case segs ns1 p of
                                              None \<Rightarrow> (Inl KBUG, ns1)
                                            | Some shp1 \<Rightarrow>
                                                (let ns2 = ns1\<lparr>ns_refs := ns_refs ns1 + 1,
                                                              sfds := (sfds ns1)(file \<mapsto>
                                                                \<lparr>sfd_id = p_id (shm_perm shp1), sfd_file = shm_file shp1,
                                                                 sfd_count = 1, sfd_size = b_size b\<rparr>)\<rparr>
                                                 in case shmat_map K E file addr fixed (b_size b) shmflg ns2 of
                                                      (r, ns3) \<Rightarrow>
                                                        (case fput file ns3 of
                                                           None \<Rightarrow> (Inl KBUG, ns3)
                                                         | Some ns4 \<Rightarrow>
                                                             out_nattch K shmid r (shm_others E 1 ns4)))))))))))"

definition shmat ::
  "'h shm_hdr_scheme \<Rightarrow> 'e shm_env_scheme \<Rightarrow> int \<Rightarrow> ulong \<Rightarrow> flags \<Rightarrow> shm_ns \<Rightarrow> (errno + ulong) \<times> shm_ns" where
  "shmat K E shmid shmaddr shmflg ns = do_shmat K E shmid shmaddr shmflg ns"

subsection \<open>Detach\<close>

text \<open>
  The areas of the caller from \<^verbatim>\<open>find_vma (mm, addr)\<close> on, in the order of \<^verbatim>\<open>vm_next\<close>; \<open>vm_is_shm\<close> is
  \<^verbatim>\<open>vm_ops == &shm_vm_ops\<close>.
\<close>

record vma =
  vm_area :: addr
  vm_start :: ulong
  vm_end :: ulong
  vm_pgoff :: ulong
  vm_is_shm :: bool

definition vma_matches :: "'h shm_hdr_scheme \<Rightarrow> ulong \<Rightarrow> vma \<Rightarrow> bool" where
  "vma_matches K addr v \<longleftrightarrow> vm_is_shm v \<and> (vm_start v - addr) div PAGE_SIZE K = vm_pgoff v"

fun shmdt_first ::
  "'h shm_hdr_scheme \<Rightarrow> 'e shm_env_scheme \<Rightarrow> ulong \<Rightarrow> vma list \<Rightarrow> shm_ns \<Rightarrow> ((ulong \<times> vma list) option \<times> shm_ns) option" where
  "shmdt_first K E addr [] ns = Some (None, ns)"
| "shmdt_first K E addr (v # vs) ns =
     (if vma_matches K addr v then
        (case areas ns (vm_area v) of
           None \<Rightarrow> None
         | Some file \<Rightarrow>
             (case sfds ns file of
                None \<Rightarrow> None
              | Some sfd \<Rightarrow>
                  (case unmap_area K E (vm_area v) ns of
                     None \<Rightarrow> None
                   | Some ns' \<Rightarrow> Some (Some (sfd_size sfd, vs), ns'))))
      else shmdt_first K E addr vs ns)"

fun shmdt_rest :: "'h shm_hdr_scheme \<Rightarrow> 'e shm_env_scheme \<Rightarrow> ulong \<Rightarrow> ulong \<Rightarrow> vma list \<Rightarrow> shm_ns \<Rightarrow> shm_ns option" where
  "shmdt_rest K E addr sz [] ns = Some ns"
| "shmdt_rest K E addr sz (v # vs) ns =
     (if sint (vm_end v - addr) \<le> sint sz then
        (if vma_matches K addr v then
           (case unmap_area K E (vm_area v) ns of None \<Rightarrow> None | Some ns' \<Rightarrow> shmdt_rest K E addr sz vs ns')
         else shmdt_rest K E addr sz vs ns)
      else Some ns)"

definition page_align :: "'h shm_hdr_scheme \<Rightarrow> ulong \<Rightarrow> ulong" where
  "page_align K sz = (sz + PAGE_SIZE K - 1) AND NOT (PAGE_SIZE K - 1)"

definition shmdt ::
  "'h shm_hdr_scheme \<Rightarrow> 'e shm_env_scheme \<Rightarrow> ulong \<Rightarrow> vma list \<Rightarrow> shm_ns \<Rightarrow> (errno + int) \<times> shm_ns" where
  "shmdt K E addr vs ns =
     (if addr AND (PAGE_SIZE K - 1) \<noteq> 0 then (Inl EINVAL, ns)
      else
        (case shmdt_first K E addr vs ns of
           None \<Rightarrow> (Inl KBUG, ns)
         | Some (None, ns1) \<Rightarrow> (Inl EINVAL, ns1)
         | Some (Some (sz, rest), ns1) \<Rightarrow>
             (case shmdt_rest K E addr (page_align K sz) rest ns1 of
                None \<Rightarrow> (Inl KBUG, ns1)
              | Some ns2 \<Rightarrow> (Inr 0, ns2))))"

text \<open>A line of \<^verbatim>\<open>/proc/sysvipc/shm\<close>: the numbers printed, in their order.\<close>

definition sysvipc_shm_proc_show :: "'h shm_hdr_scheme \<Rightarrow> 'e shm_env_scheme \<Rightarrow> shm_ns \<Rightarrow> shmid_kernel \<Rightarrow> int list option" where
  "sysvipc_shm_proc_show K E ns shp =
     (case shm_add_rss_swap E ns shp (0, 0) of
        None \<Rightarrow> None
      | Some (rss, swp) \<Rightarrow>
          Some [p_key (shm_perm shp), p_id (shm_perm shp), uint (p_mode (shm_perm shp)), uint (shm_segsz shp),
                shm_cprid shp, shm_lprid shp, uint (shm_nattch shp), uint (p_uid (shm_perm shp)),
                uint (p_gid (shm_perm shp)), uint (p_cuid (shm_perm shp)), uint (p_cgid (shm_perm shp)),
                shm_atim shp, shm_dtim shp, shm_ctim shp, uint (rss * PAGE_SIZE K), uint (swp * PAGE_SIZE K)])"

end
