(* ===== verification/Ipc_Namespace.thy ===== *)
theory Ipc_Namespace
  imports Ipc_Msg Ipc_Sem Ipc_Shm Ipc_Mqueue
begin

text \<open>
  \<^verbatim>\<open>ipc/namespace.c\<close>, \<^verbatim>\<open>ipc/ipcns_notifier.c\<close> and the handlers of \<^verbatim>\<open>ipc/ipc_sysctl.c\<close> and
  \<^verbatim>\<open>ipc/mq_sysctl.c\<close>: IPC namespaces, their reference counts, the chain of namespaces whose
  \<^verbatim>\<open>msg_ctlmni\<close> follows the memory size, and the removal of everything a namespace holds.

  A namespace is the product of the parts that the four components model. Its count of references is
  \<open>ns_refs\<close> of the shared memory part, since attached segments hold references. The world holds the
  namespaces by address, the notifier chain and the namespace of every task.
\<close>

subsection \<open>State\<close>

record ipc_namespace =
  nss :: sem_ns
  nsm :: msg_ns
  nsh :: shm_ns
  nsq :: mq_ns
  auto_msgmni :: int

record ipc_world =
  namespaces :: "addr \<rightharpoonup> ipc_namespace"
  nr_ipc_ns :: int
  ipcns_chain :: "addr list"
  ipc_ns_of :: "task \<rightharpoonup> addr"

text \<open>The constants of the four components.\<close>

record ns_hdr =
  hdr_sem :: sem_hdr
  hdr_msg :: msgq_hdr
  hdr_shm :: shm_hdr
  hdr_mq :: mq_hdr
  CLONE_NEWIPC :: flags

record ns_env =
  ns_kmalloc :: "addr option"
  ns_raw :: ipc_namespace
  kern_mount_err :: "errno option"
  ns_meminfo :: sysinfo
  ns_sem_env :: sem_env

definition get_ns :: "ipc_world \<Rightarrow> addr \<Rightarrow> ipc_namespace option" where
  "get_ns W a = namespaces W a"

definition set_ns :: "addr \<Rightarrow> ipc_namespace \<Rightarrow> ipc_world \<Rightarrow> ipc_world" where
  "set_ns a ns W = W\<lparr>namespaces := (namespaces W)(a \<mapsto> ns)\<rparr>"

definition add_refs :: "int \<Rightarrow> ipc_namespace \<Rightarrow> ipc_namespace" where
  "add_refs d ns = ns\<lparr>nsh := (nsh ns)\<lparr>ns_refs := ns_refs (nsh ns) + d\<rparr>\<rparr>"

subsection \<open>The notifier chain\<close>

datatype ipcns_action = IPCNS_MEMCHANGED | IPCNS_CREATED | IPCNS_REMOVED | IPCNS_OTHER

definition ipcns_callback :: "ns_hdr \<Rightarrow> ns_env \<Rightarrow> ipcns_action \<Rightarrow> addr \<Rightarrow> ipc_world \<Rightarrow> ipc_world option" where
  "ipcns_callback K E act a W =
     (case act of
        IPCNS_OTHER \<Rightarrow> Some W
      | _ \<Rightarrow>
          (case get_ns W a of
             None \<Rightarrow> None
           | Some ns \<Rightarrow>
               Some (set_ns a (ns\<lparr>nsm := recompute_msgmni (hdr_msg K) (ns_meminfo E) (nr_ipc_ns W) (nsm ns)\<rparr>) W)))"

text \<open>\<^verbatim>\<open>blocking_notifier_call_chain\<close> runs the callbacks in the order of the chain.\<close>

fun call_chain :: "ns_hdr \<Rightarrow> ns_env \<Rightarrow> ipcns_action \<Rightarrow> addr list \<Rightarrow> ipc_world \<Rightarrow> ipc_world option" where
  "call_chain K E act [] W = Some W"
| "call_chain K E act (a # as) W =
     (case ipcns_callback K E act a W of None \<Rightarrow> None | Some W' \<Rightarrow> call_chain K E act as W')"

definition ipcns_notify :: "ns_hdr \<Rightarrow> ns_env \<Rightarrow> ipcns_action \<Rightarrow> ipc_world \<Rightarrow> ipc_world option" where
  "ipcns_notify K E act W = call_chain K E act (ipcns_chain W) W"

text \<open>All callbacks have the same priority, so registering appends.\<close>

definition register_ipcns_notifier :: "addr \<Rightarrow> ipc_world \<Rightarrow> ipc_world option" where
  "register_ipcns_notifier a W =
     (case get_ns W a of
        None \<Rightarrow> None
      | Some ns \<Rightarrow> Some (set_ns a (ns\<lparr>auto_msgmni := 1\<rparr>) (W\<lparr>ipcns_chain := ipcns_chain W @ [a]\<rparr>)))"

definition cond_register_ipcns_notifier :: "addr \<Rightarrow> ipc_world \<Rightarrow> ipc_world option" where
  "cond_register_ipcns_notifier a W =
     (case get_ns W a of
        None \<Rightarrow> None
      | Some ns \<Rightarrow>
          Some (set_ns a (ns\<lparr>auto_msgmni := 1\<rparr>)
                  (if a \<in> set (ipcns_chain W) then W else W\<lparr>ipcns_chain := ipcns_chain W @ [a]\<rparr>)))"

definition unregister_ipcns_notifier :: "addr \<Rightarrow> ipc_world \<Rightarrow> ipc_world option" where
  "unregister_ipcns_notifier a W =
     (case get_ns W a of
        None \<Rightarrow> None
      | Some ns \<Rightarrow>
          Some (set_ns a (ns\<lparr>auto_msgmni := 0\<rparr>) (W\<lparr>ipcns_chain := remove1 a (ipcns_chain W)\<rparr>)))"

subsection \<open>Creating namespaces\<close>

definition create_ipc_ns :: "ns_hdr \<Rightarrow> ns_env \<Rightarrow> ipc_world \<Rightarrow> ((errno + addr) \<times> ipc_world) option" where
  "create_ipc_ns K E W =
     (case ns_kmalloc E of
        None \<Rightarrow> Some (Inl ENOMEM, W)
      | Some a \<Rightarrow>
          (case mq_init_ns (hdr_mq K) (kern_mount_err E) (nsq (ns_raw E)) of
             (Some err, _) \<Rightarrow> Some (Inl err, W)
           | (None, mq) \<Rightarrow>
               (let W = W\<lparr>nr_ipc_ns := nr_ipc_ns W + 1\<rparr>;
                    raw = ns_raw E;
                    ns = raw\<lparr>nsq := mq, nss := sem_init_ns (hdr_sem K) (nss raw),
                             nsm := msg_init_ns (hdr_msg K) (ns_meminfo E) (nr_ipc_ns W) (nsm raw),
                             nsh := shm_init_ns (hdr_shm K) ((nsh raw)\<lparr>ns_refs := 1\<rparr>)\<rparr>
                in case ipcns_notify K E IPCNS_CREATED (set_ns a ns W) of
                     None \<Rightarrow> None
                   | Some W1 \<Rightarrow>
                       (case register_ipcns_notifier a W1 of
                          None \<Rightarrow> None
                        | Some W2 \<Rightarrow> Some (Inr a, W2)))))"

definition get_ipc_ns :: "addr \<Rightarrow> ipc_world \<Rightarrow> ipc_world option" where
  "get_ipc_ns a W = (case get_ns W a of None \<Rightarrow> None | Some ns \<Rightarrow> Some (set_ns a (add_refs 1 ns) W))"

definition copy_ipcs :: "ns_hdr \<Rightarrow> ns_env \<Rightarrow> flags \<Rightarrow> task \<Rightarrow> ipc_world \<Rightarrow> ((errno + addr) \<times> ipc_world) option" where
  "copy_ipcs K E flags tsk W =
     (if flags AND CLONE_NEWIPC K = 0 then
        (case ipc_ns_of W tsk of
           None \<Rightarrow> None
         | Some a \<Rightarrow> (case get_ipc_ns a W of None \<Rightarrow> None | Some W' \<Rightarrow> Some (Inr a, W')))
      else create_ipc_ns K E W)"

subsection \<open>Removing everything\<close>

text \<open>
  The loop of \<^verbatim>\<open>free_ipcs\<close> over the table of a part of type \<open>'n\<close>. The outer \<open>None\<close> is a loop that does
  not end, the inner one a fault in \<open>free\<close>.
\<close>

partial_function (option) free_ipcs_from ::
  "('n \<Rightarrow> ipc_ids) \<Rightarrow> (addr \<Rightarrow> 'n \<Rightarrow> 'n option) \<Rightarrow> int \<Rightarrow> int \<Rightarrow> nat \<Rightarrow> 'n \<Rightarrow> 'n option option" where
  "free_ipcs_from ids free n tot next_id ns =
     (if tot < n then
        (case ipcs_idr (ids ns) next_id of
           None \<Rightarrow> free_ipcs_from ids free n tot (next_id + 1) ns
         | Some p \<Rightarrow>
             (case free p ns of
                None \<Rightarrow> Some None
              | Some ns' \<Rightarrow> free_ipcs_from ids free n (tot + 1) (next_id + 1) ns'))
      else Some (Some ns))"

definition free_ipcs :: "('n \<Rightarrow> ipc_ids) \<Rightarrow> (addr \<Rightarrow> 'n \<Rightarrow> 'n option) \<Rightarrow> 'n \<Rightarrow> 'n option option" where
  "free_ipcs ids free ns = free_ipcs_from ids free (in_use (ids ns)) 0 0 ns"

text \<open>\<^verbatim>\<open>idr_destroy\<close> drops what is left of the table.\<close>

definition sem_exit_ns :: "'h sem_hdr_scheme \<Rightarrow> sem_ns \<Rightarrow> sem_ns option option" where
  "sem_exit_ns K ns =
     map_option (map_option (\<lambda>n. n\<lparr>sem_ids := (sem_ids n)\<lparr>ipcs_idr := Map.empty\<rparr>\<rparr>)) (free_ipcs sem_ids (freeary K) ns)"

definition msg_exit_ns :: "'h msgq_hdr_scheme \<Rightarrow> msg_ns \<Rightarrow> msg_ns option option" where
  "msg_exit_ns K ns =
     map_option (map_option (\<lambda>n. n\<lparr>msg_ids := (msg_ids n)\<lparr>ipcs_idr := Map.empty\<rparr>\<rparr>)) (free_ipcs msg_ids (freeque K) ns)"

definition shm_exit_ns :: "'h shm_hdr_scheme \<Rightarrow> shm_ns \<Rightarrow> shm_ns option option" where
  "shm_exit_ns K ns =
     map_option (map_option (\<lambda>n. n\<lparr>shm_ids := (shm_ids n)\<lparr>ipcs_idr := Map.empty\<rparr>\<rparr>)) (free_ipcs shm_ids (do_shm_rmid K) ns)"

text \<open>
  \<^verbatim>\<open>free_ipc_ns\<close>: the world without the namespace, and the parts as they are when its memory is
  freed. As above, the outer \<open>None\<close> is not returning and the inner one a fault.
\<close>

definition free_ipc_ns ::
  "ns_hdr \<Rightarrow> ns_env \<Rightarrow> addr \<Rightarrow> ipc_world \<Rightarrow> (ipc_namespace \<times> ipc_world) option option" where
  "free_ipc_ns K E a W =
     (case unregister_ipcns_notifier a W of
        None \<Rightarrow> Some None
      | Some W1 \<Rightarrow>
          (case get_ns W1 a of
             None \<Rightarrow> Some None
           | Some ns \<Rightarrow>
               (case (sem_exit_ns (hdr_sem K) (nss ns), msg_exit_ns (hdr_msg K) (nsm ns), shm_exit_ns (hdr_shm K) (nsh ns)) of
                  (Some (Some s), Some (Some m), Some (Some h)) \<Rightarrow>
                    (let ns' = ns\<lparr>nss := s, nsm := m, nsh := h\<rparr>;
                         W2 = (set_ns a ns' W1)\<lparr>nr_ipc_ns := nr_ipc_ns W1 - 1\<rparr>
                     in case ipcns_notify K E IPCNS_REMOVED W2 of
                          None \<Rightarrow> Some None
                        | Some W3 \<Rightarrow> Some (Some (ns', W3\<lparr>namespaces := (namespaces W3)(a := None)\<rparr>)))
                | (Some None, _, _) \<Rightarrow> Some None
                | (Some (Some _), Some None, _) \<Rightarrow> Some None
                | (Some (Some _), Some (Some _), Some None) \<Rightarrow> Some None
                | _ \<Rightarrow> None)))"

definition put_ipc_ns :: "ns_hdr \<Rightarrow> ns_env \<Rightarrow> addr \<Rightarrow> ipc_world \<Rightarrow> ipc_world option option" where
  "put_ipc_ns K E a W =
     (case get_ns W a of
        None \<Rightarrow> Some None
      | Some ns \<Rightarrow>
          (let ns = add_refs (- 1) ns
           in if ns_refs (nsh ns) = 0 then
                map_option (map_option snd)
                  (free_ipc_ns K E a (set_ns a (ns\<lparr>nsq := mq_clear_sbinfo (nsq ns)\<rparr>) W))
              else Some (Some (set_ns a ns W))))"

definition ipcns_get :: "task \<Rightarrow> ipc_world \<Rightarrow> (addr option \<times> ipc_world) option" where
  "ipcns_get t W =
     (case ipc_ns_of W t of
        None \<Rightarrow> Some (None, W)
      | Some a \<Rightarrow> (case get_ipc_ns a W of None \<Rightarrow> None | Some W' \<Rightarrow> Some (Some a, W')))"

definition ipcns_put :: "ns_hdr \<Rightarrow> ns_env \<Rightarrow> addr \<Rightarrow> ipc_world \<Rightarrow> ipc_world option option" where
  "ipcns_put K E a W = put_ipc_ns K E a W"

text \<open>\<open>fuel\<close> is the one of \<open>exit_sem\<close>.\<close>

definition ipcns_install ::
  "nat \<Rightarrow> ns_hdr \<Rightarrow> ns_env \<Rightarrow> task \<Rightarrow> addr \<Rightarrow> ipc_world \<Rightarrow> ipc_world option option" where
  "ipcns_install fuel K E t new W =
     (case ipc_ns_of W t of
        None \<Rightarrow> Some None
      | Some old \<Rightarrow>
          (case get_ns W old of
             None \<Rightarrow> Some None
           | Some ns \<Rightarrow>
               (case exit_sem fuel (hdr_sem K) (ns_sem_env E) t (nss ns) of
                  None \<Rightarrow> None
                | Some (Inl _) \<Rightarrow> Some None
                | Some (Inr s) \<Rightarrow>
                    (case put_ipc_ns K E old (set_ns old (ns\<lparr>nss := s\<rparr>) W) of
                       None \<Rightarrow> None
                     | Some None \<Rightarrow> Some None
                     | Some (Some W1) \<Rightarrow>
                         (case get_ipc_ns new W1 of
                            None \<Rightarrow> Some None
                          | Some W2 \<Rightarrow> Some (Some (W2\<lparr>ipc_ns_of := (ipc_ns_of W2)(t \<mapsto> new)\<rparr>)))))))"

subsection \<open>Tunables\<close>

text \<open>
  The files of \<^verbatim>\<open>/proc/sys/kernel\<close>. \<open>written\<close> is what \<^verbatim>\<open>proc_dointvec\<close> (or \<^verbatim>\<open>_minmax\<close>) did: an error,
  or the value stored and whether the whole buffer was read (\<^verbatim>\<open>lenp_bef == *lenp\<close>).
\<close>

definition proc_ipc_callback_dointvec ::
  "addr \<Rightarrow> errno + int \<times> bool \<Rightarrow> ipc_world \<Rightarrow> (errno option \<times> ipc_world) option" where
  "proc_ipc_callback_dointvec a written W =
     (case get_ns W a of
        None \<Rightarrow> None
      | Some ns \<Rightarrow>
          (case written of
             Inl err \<Rightarrow> Some (Some err, W)
           | Inr (v, whole) \<Rightarrow>
               (let W1 = set_ns a (ns\<lparr>nsm := (nsm ns)\<lparr>msg_ctlmni := v\<rparr>\<rparr>) W
                in if whole then map_option (Pair None) (unregister_ipcns_notifier a W1) else Some (None, W1))))"

definition ipc_auto_callback :: "ns_hdr \<Rightarrow> ns_env \<Rightarrow> addr \<Rightarrow> int \<Rightarrow> ipc_world \<Rightarrow> ipc_world option" where
  "ipc_auto_callback K E a val W =
     (if val = 0 then unregister_ipcns_notifier a W
      else
        (case get_ns W a of
           None \<Rightarrow> None
         | Some ns \<Rightarrow>
             cond_register_ipcns_notifier a
               (set_ns a (ns\<lparr>nsm := recompute_msgmni (hdr_msg K) (ns_meminfo E) (nr_ipc_ns W) (nsm ns)\<rparr>) W)))"

definition proc_ipcauto_dointvec_minmax ::
  "ns_hdr \<Rightarrow> ns_env \<Rightarrow> addr \<Rightarrow> errno + int \<times> bool \<Rightarrow> ipc_world \<Rightarrow> (errno option \<times> ipc_world) option" where
  "proc_ipcauto_dointvec_minmax K E a written W =
     (case get_ns W a of
        None \<Rightarrow> None
      | Some ns \<Rightarrow>
          (case written of
             Inl err \<Rightarrow> Some (Some err, W)
           | Inr (newval, whole) \<Rightarrow>
               (let oldval = auto_msgmni ns;
                    W1 = set_ns a (ns\<lparr>auto_msgmni := newval\<rparr>) W
                in if whole \<and> newval \<noteq> oldval then map_option (Pair None) (ipc_auto_callback K E a newval W1)
                   else Some (None, W1))))"

end
