(* ===== verification/Blk_Prelude.thy ===== *)
theory Blk_Prelude
  imports Ipc_Prelude
begin

text \<open>
  What the parts of the block layer share: request numbers, directions, the flag bits of
  \<^verbatim>\<open>include/linux/blk_types.h\<close> as constants of a header record, and the comparison of times in
  jiffies, which wraps around.
\<close>

type_synonym rqid = nat

datatype data_dir = READ | WRITE

text \<open>Bits of \<^verbatim>\<open>cmd_flags\<close> and \<^verbatim>\<open>bi_rw\<close>.\<close>

record blk_hdr =
  REQ_FLUSH :: flags
  REQ_FUA :: flags
  REQ_FLUSH_SEQ :: flags
  REQ_DISCARD :: flags
  REQ_SECURE :: flags
  REQ_SORTED :: flags
  REQ_SOFTBARRIER :: flags
  REQ_STARTED :: flags
  REQ_QUEUED :: flags
  REQ_ELVPRIV :: flags
  HZ :: nat

definition time_before :: "ulong \<Rightarrow> ulong \<Rightarrow> bool" where
  "time_before a b = (sint (a - b) < 0)"

definition time_after :: "ulong \<Rightarrow> ulong \<Rightarrow> bool" where
  "time_after a b = time_before b a"

lemma time_before_irrefl [simp]: "\<not> time_before a a"
  by (simp add: time_before_def)

text \<open>Times less than half of the range apart compare as numbers.\<close>

lemma time_before_near:
  assumes "0 \<le> d" "d < 2 ^ 63"
  shows "time_before a (a + word_of_int d) \<longleftrightarrow> 0 < d"
proof -
  have "sint (- (word_of_int d :: ulong)) = - d"
    using assms signed_take_bit_int_eq_self [of 63 "- d"] signed_of_int [of "- d", where ?'b = 64 and ?'a = int] by simp
  then show ?thesis by (simp add: time_before_def)
qed

end
