(* ===== verification/Blk_Flush.thy ===== *)
theory Blk_Flush
  imports Blk_Prelude
begin

unbundle bit_operations_syntax

text \<open>
  \<^verbatim>\<open>block/blk-flush.c\<close>: the state machine that executes FLUSH and FUA requests as a sequence of a flush
  before, the data, and a flush after. Requests that wait for a flush share it: two lists take turns, one
  collects requests (\<^verbatim>\<open>flush_pending_idx\<close>) while the flush of the other is in flight
  (\<^verbatim>\<open>flush_running_idx\<close>); the two indices are one bit each and differ while a flush is in flight.

  The dispatch queue holds the flush request of the queue, of which there is one, and requests of
  others. The link \<^verbatim>\<open>flush.list\<close> of a request is its membership in one of the three lists;
  \<^verbatim>\<open>list_move_tail\<close> takes it out of the one it is on. \<open>None\<close> is a failing \<^verbatim>\<open>BUG_ON\<close> or a request that has
  been freed.
\<close>

subsection \<open>The flush state of a queue\<close>

definition REQ_FSEQ_PREFLUSH :: flags where "REQ_FSEQ_PREFLUSH = 1"
definition REQ_FSEQ_DATA :: flags where "REQ_FSEQ_DATA = 2"
definition REQ_FSEQ_POSTFLUSH :: flags where "REQ_FSEQ_POSTFLUSH = 4"
definition REQ_FSEQ_DONE :: flags where "REQ_FSEQ_DONE = 8"
definition REQ_FSEQ_ACTIONS :: flags where
  "REQ_FSEQ_ACTIONS = REQ_FSEQ_PREFLUSH OR REQ_FSEQ_DATA OR REQ_FSEQ_POSTFLUSH"

definition FLUSH_PENDING_TIMEOUT :: "'h blk_hdr_scheme \<Rightarrow> ulong" where
  "FLUSH_PENDING_TIMEOUT K = of_nat (5 * HZ K)"

datatype end_io = EndNull | FlushDataEndIo | OtherEndIo

record flush_rq =
  fr_cmd_flags :: flags
  fr_sectors :: nat
  fr_bio :: "nat option"
  fr_biotail :: "nat option"
  fr_end_io :: end_io
  fr_seq :: flags

datatype entry = FlushRq | Rq rqid

record flush_queue =
  flush_flags :: flags
  flush_list :: "bool \<Rightarrow> rqid list"
  flush_pending_idx :: bool
  flush_running_idx :: bool
  flush_pending_since :: ulong
  flush_data_in_flight :: "rqid list"
  flush_queue_delayed :: bool
  queue_head :: "entry list"
  requests :: "rqid \<rightharpoonup> flush_rq"
  ended :: "(rqid \<times> int) list"
  run_queue_async :: nat

definition blk_flush_policy :: "'h blk_hdr_scheme \<Rightarrow> flags \<Rightarrow> flush_rq \<Rightarrow> flags" where
  "blk_flush_policy K fflags rq =
     (if fflags AND REQ_FLUSH K \<noteq> 0 then
        (if fr_cmd_flags rq AND REQ_FLUSH K \<noteq> 0 then REQ_FSEQ_PREFLUSH else 0) OR
        (if fr_sectors rq \<noteq> 0 then REQ_FSEQ_DATA else 0) OR
        (if fflags AND REQ_FUA K = 0 \<and> fr_cmd_flags rq AND REQ_FUA K \<noteq> 0 then REQ_FSEQ_POSTFLUSH else 0)
      else 0)"

text \<open>The first zero bit; there is one in every \<^verbatim>\<open>flush.seq\<close> the code computes.\<close>

definition ffz :: "flags \<Rightarrow> nat" where
  "ffz w = (case find (\<lambda>i. \<not> bit w i) [0..<32] of Some i \<Rightarrow> i | None \<Rightarrow> 32)"

definition blk_flush_cur_seq :: "flush_rq \<Rightarrow> flags" where
  "blk_flush_cur_seq rq = push_bit (ffz (fr_seq rq)) 1"

definition blk_flush_restore_request :: "'h blk_hdr_scheme \<Rightarrow> flush_rq \<Rightarrow> flush_rq" where
  "blk_flush_restore_request K rq =
     rq\<lparr>fr_bio := fr_biotail rq, fr_cmd_flags := fr_cmd_flags rq AND NOT (REQ_FLUSH_SEQ K), fr_end_io := EndNull\<rparr>"

subsection \<open>Sequencing\<close>

definition blk_kick_flush :: "'h blk_hdr_scheme \<Rightarrow> ulong \<Rightarrow> flush_queue \<Rightarrow> bool \<times> flush_queue" where
  "blk_kick_flush K jiffies q =
     (if flush_pending_idx q \<noteq> flush_running_idx q \<or> flush_list q (flush_pending_idx q) = [] then (False, q)
      else if flush_data_in_flight q \<noteq> [] \<and> time_before jiffies (flush_pending_since q + FLUSH_PENDING_TIMEOUT K)
      then (False, q)
      else (True, q\<lparr>flush_pending_idx := \<not> flush_pending_idx q, queue_head := queue_head q @ [FlushRq]\<rparr>))"

text \<open>\<^verbatim>\<open>list_del_init (&rq->flush.list)\<close>, the first half of \<^verbatim>\<open>list_move_tail\<close>.\<close>

definition flush_unlink :: "rqid \<Rightarrow> flush_queue \<Rightarrow> flush_queue" where
  "flush_unlink r q =
     q\<lparr>flush_list := (\<lambda>i. removeAll r (flush_list q i)), flush_data_in_flight := removeAll r (flush_data_in_flight q)\<rparr>"

text \<open>\<^verbatim>\<open>__blk_end_request_all\<close> of a request without \<^verbatim>\<open>end_io\<close>: its bio is completed, the request is freed.\<close>

definition end_request_all :: "rqid \<Rightarrow> int \<Rightarrow> flush_queue \<Rightarrow> flush_queue" where
  "end_request_all r error q = q\<lparr>requests := (requests q)(r := None), ended := ended q @ [(r, error)]\<rparr>"

definition set_request :: "rqid \<Rightarrow> flush_rq \<Rightarrow> flush_queue \<Rightarrow> flush_queue" where
  "set_request r rq q = q\<lparr>requests := (requests q)(r \<mapsto> rq)\<rparr>"

definition blk_flush_complete_seq ::
  "'h blk_hdr_scheme \<Rightarrow> ulong \<Rightarrow> rqid \<Rightarrow> flags \<Rightarrow> int \<Rightarrow> flush_queue \<Rightarrow> (bool \<times> flush_queue) option" where
  "blk_flush_complete_seq K jiffies r seq error q =
     (case requests q r of None \<Rightarrow> None
      | Some rq0 \<Rightarrow>
        if fr_seq rq0 AND seq \<noteq> 0 then None
        else
          let rq = rq0\<lparr>fr_seq := fr_seq rq0 OR seq\<rparr>;
              seq' = (if error = 0 then blk_flush_cur_seq rq else REQ_FSEQ_DONE);
              pending = flush_pending_idx q;
              q1 = set_request r rq q
          in (if seq' = REQ_FSEQ_PREFLUSH \<or> seq' = REQ_FSEQ_POSTFLUSH then
                let q2 = (if flush_list q pending = [] then q1\<lparr>flush_pending_since := jiffies\<rparr> else q1);
                    q3 = flush_unlink r q2
                in Some (blk_kick_flush K jiffies
                     (q3\<lparr>flush_list := (flush_list q3)(pending := flush_list q3 pending @ [r])\<rparr>))
              else if seq' = REQ_FSEQ_DATA then
                let q2 = flush_unlink r q1;
                    (kicked, q4) = blk_kick_flush K jiffies
                       (q2\<lparr>flush_data_in_flight := flush_data_in_flight q2 @ [r], queue_head := Rq r # queue_head q2\<rparr>)
                in Some (True, q4)
              else if seq' = REQ_FSEQ_DONE then
                (if Rq r \<in> set (queue_head q) then None
                 else Some (blk_kick_flush K jiffies
                        (end_request_all r error (set_request r (blk_flush_restore_request K rq) (flush_unlink r q1)))))
              else None))"

text \<open>
  The loop of \<^verbatim>\<open>flush_end_io\<close> over the list with index \<open>i\<close>: the entry after the current one is read before
  the body runs. A body that queues its request for another flush may put it at the end of the list
  the loop runs on; the loop gets there unless the current entry was the last one.
\<close>

fun flush_walk ::
  "nat \<Rightarrow> 'h blk_hdr_scheme \<Rightarrow> ulong \<Rightarrow> int \<Rightarrow> bool \<Rightarrow> rqid list \<Rightarrow> bool \<times> flush_queue \<Rightarrow> (bool \<times> flush_queue) option" where
  "flush_walk 0 K jiffies error i rs (queued, q) = None"
| "flush_walk (Suc n) K jiffies error i [] (queued, q) = Some (queued, q)"
| "flush_walk (Suc n) K jiffies error i (r # rest) (queued, q) =
     (case requests q r of None \<Rightarrow> None
      | Some rq \<Rightarrow>
        let seq = blk_flush_cur_seq rq
        in if seq \<noteq> REQ_FSEQ_PREFLUSH \<and> seq \<noteq> REQ_FSEQ_POSTFLUSH then None
           else case blk_flush_complete_seq K jiffies r seq error q of None \<Rightarrow> None
             | Some (k, q') \<Rightarrow>
                 flush_walk n K jiffies error i
                   (if rest \<noteq> [] \<and> r \<in> set (flush_list q' i) then rest @ [r] else rest) (queued \<or> k, q'))"

text \<open>
  The call of \<^verbatim>\<open>elv_completed_request\<close>, which updates the counters of requests in flight and not the flush state,
  is left out.
\<close>

definition flush_end_io :: "'h blk_hdr_scheme \<Rightarrow> ulong \<Rightarrow> int \<Rightarrow> flush_queue \<Rightarrow> flush_queue option" where
  "flush_end_io K jiffies error q =
     (let i = flush_running_idx q; running = flush_list q i
      in if flush_pending_idx q = flush_running_idx q then None
         else case flush_walk (2 * length running + 1) K jiffies error i running
                     (False, q\<lparr>flush_running_idx := \<not> flush_running_idx q\<rparr>) of
             None \<Rightarrow> None
           | Some (queued, q') \<Rightarrow>
               Some (q'\<lparr>run_queue_async := run_queue_async q' + (if queued \<or> flush_queue_delayed q' then 1 else 0),
                        flush_queue_delayed := False\<rparr>))"

definition flush_data_end_io :: "'h blk_hdr_scheme \<Rightarrow> ulong \<Rightarrow> rqid \<Rightarrow> int \<Rightarrow> flush_queue \<Rightarrow> flush_queue option" where
  "flush_data_end_io K jiffies r error q =
     (case blk_flush_complete_seq K jiffies r REQ_FSEQ_DATA error q of None \<Rightarrow> None
      | Some (queued, q') \<Rightarrow> Some (q'\<lparr>run_queue_async := run_queue_async q' + (if queued then 1 else 0)\<rparr>))"

definition blk_insert_flush :: "'h blk_hdr_scheme \<Rightarrow> ulong \<Rightarrow> rqid \<Rightarrow> flush_queue \<Rightarrow> flush_queue option" where
  "blk_insert_flush K jiffies r q =
     (case requests q r of None \<Rightarrow> None
      | Some rq \<Rightarrow>
        let fflags = flush_flags q;
            policy = blk_flush_policy K fflags rq;
            fl = fr_cmd_flags rq AND NOT (REQ_FLUSH K);
            fl' = (if fflags AND REQ_FUA K = 0 then fl AND NOT (REQ_FUA K) else fl)
        in if fr_end_io rq \<noteq> EndNull then None
           else if fr_bio rq = None \<or> fr_bio rq \<noteq> fr_biotail rq then None
           else if policy AND REQ_FSEQ_DATA \<noteq> 0 \<and> policy AND (REQ_FSEQ_PREFLUSH OR REQ_FSEQ_POSTFLUSH) = 0 then
             Some (set_request r (rq\<lparr>fr_cmd_flags := fl'\<rparr>) q\<lparr>queue_head := queue_head q @ [Rq r]\<rparr>)
           else
             map_option snd (blk_flush_complete_seq K jiffies r (REQ_FSEQ_ACTIONS AND NOT policy) 0
               (set_request r (rq\<lparr>fr_cmd_flags := fl' OR REQ_FLUSH_SEQ K, fr_end_io := FlushDataEndIo, fr_seq := 0\<rparr>) q)))"

subsection \<open>Aborting, and a flush on its own\<close>

fun restore_requests :: "'h blk_hdr_scheme \<Rightarrow> rqid list \<Rightarrow> (rqid \<rightharpoonup> flush_rq) \<Rightarrow> rqid \<rightharpoonup> flush_rq" where
  "restore_requests K [] m = m"
| "restore_requests K (r # rs) m =
     restore_requests K rs (m(r := map_option (blk_flush_restore_request K) (m r)))"

definition blk_abort_flushes :: "'h blk_hdr_scheme \<Rightarrow> flush_queue \<Rightarrow> flush_queue" where
  "blk_abort_flushes K q =
     (let waiting = flush_list q False @ flush_list q True
      in q\<lparr>requests := restore_requests K (flush_data_in_flight q @ waiting) (requests q),
           flush_data_in_flight := [], flush_list := (\<lambda>i. []), queue_head := queue_head q @ map Rq waiting\<rparr>)"

text \<open>
  \<^verbatim>\<open>blkdev_issue_flush\<close> submits an empty bio and waits. What \<^verbatim>\<open>submit_bio\<close> makes of the bio is the
  argument \<open>complete\<close>: the error of its completion and the sector the driver has stored.
\<close>

definition blkdev_issue_flush ::
  "bool \<Rightarrow> bool \<Rightarrow> bool \<Rightarrow> int \<times> nat \<Rightarrow> bool \<Rightarrow> (errno + unit) \<times> nat option" where
  "blkdev_issue_flush has_disk has_queue has_make_request complete want_sector =
     (if \<not> has_disk \<or> \<not> has_queue \<or> \<not> has_make_request then (Inl ENXIO, None)
      else (let uptodate = (fst complete = 0)
            in (if uptodate then Inr () else Inl EIO, if want_sector then Some (snd complete) else None)))"

end
