(* ===== verification/Flush_Correct.thy ===== *)
theory Flush_Correct
  imports Blk_Flush
begin

text \<open>
  The flush machinery of a queue with its driver: any request may be inserted, the driver takes
  requests from the dispatch queue and completes them in any order. The trace of these events, the
  newest one first, says whether a flush that began after an event has ended.
\<close>

subsection \<open>Bits of a sequence\<close>

lemma bit_fseq [simp]:
  "bit (1 :: flags) i \<longleftrightarrow> i = 0" "bit (2 :: flags) i \<longleftrightarrow> i = 1"
  "bit (4 :: flags) i \<longleftrightarrow> i = 2" "bit (7 :: flags) i \<longleftrightarrow> i < 3"
proof -
  show "bit (1 :: flags) i \<longleftrightarrow> i = 0" by (simp add: bit_1_iff)
  show "bit (2 :: flags) i \<longleftrightarrow> i = 1" using bit_exp_iff [where ?'a = flags, of 1 i] by (auto simp: possible_bit_def)
  show "bit (4 :: flags) i \<longleftrightarrow> i = 2" using bit_exp_iff [where ?'a = flags, of 2 i] by (auto simp: possible_bit_def)
  have "(7 :: flags) = mask 3" by (simp add: mask_eq_exp_minus_1)
  then show "bit (7 :: flags) i \<longleftrightarrow> i < 3" by (simp only: bit_mask_iff) (auto simp: possible_bit_def)
qed

lemmas fseq_defs = REQ_FSEQ_PREFLUSH_def REQ_FSEQ_DATA_def REQ_FSEQ_POSTFLUSH_def REQ_FSEQ_DONE_def

lemma actions_eq: "REQ_FSEQ_ACTIONS = 7"
  by (simp add: REQ_FSEQ_ACTIONS_def fseq_defs)

definition stage :: "flags \<Rightarrow> nat" where
  "stage s = (if \<not> bit s 0 then 0 else if \<not> bit s 1 then 1 else if \<not> bit s 2 then 2 else 3)"

lemma cur_seq_stage:
  assumes "\<not> bit (fr_seq rq) 3"
  shows "blk_flush_cur_seq rq = 2 ^ stage (fr_seq rq)"
proof -
  have "[0..<32] = [0, 1, 2, 3] @ [4..<32::nat]" by (simp add: upt_conv_Cons)
  then have "ffz (fr_seq rq) = stage (fr_seq rq)" using assms by (simp add: ffz_def stage_def)
  then show ?thesis by (simp add: blk_flush_cur_seq_def push_bit_eq_mult)
qed

lemma stage_cases: "stage s = 0 \<or> stage s = 1 \<or> stage s = 2 \<or> stage s = 3"
  by (simp add: stage_def)

lemma disjoint_bits: "(s :: flags) AND t = 0 \<longleftrightarrow> (\<forall>i. \<not> (bit s i \<and> bit t i))"
proof -
  have "s AND t = 0 \<longleftrightarrow> (\<forall>i. bit (s AND t) i = bit (0 :: flags) i)"
    by (metis bit_eqI)
  then show ?thesis by (simp add: bit_and_iff)
qed

subsection \<open>Where requests are\<close>

definition dispatched :: "flush_queue \<Rightarrow> entry list \<Rightarrow> entry list" where
  "dispatched q d = queue_head q @ d"

abbreviation in_flight :: "flush_queue \<Rightarrow> bool" where
  "in_flight q \<equiv> flush_pending_idx q \<noteq> flush_running_idx q"

definition waits_flush :: "flush_queue \<Rightarrow> rqid \<Rightarrow> bool" where
  "waits_flush q r \<longleftrightarrow> r \<in> set (flush_list q False) \<union> set (flush_list q True)"

text \<open>\<open>r\<close> is in the flush machinery and its sequence stands before one of the stages \<open>S\<close>.\<close>

definition at_stage :: "flush_queue \<Rightarrow> nat set \<Rightarrow> rqid \<Rightarrow> bool" where
  "at_stage q S r \<longleftrightarrow>
     (\<exists>rq. requests q r = Some rq \<and> fr_end_io rq = FlushDataEndIo \<and> \<not> bit (fr_seq rq) 3 \<and> stage (fr_seq rq) \<in> S)"

text \<open>
  Every live request is in one place: on one of the two lists that wait for a flush, or dispatched (and
  on \<^verbatim>\<open>flush_data_in_flight\<close> when it goes through the machinery); \<open>X\<close> are those in the hands of the
  running code. The flush request is dispatched exactly while the indices differ.
\<close>

definition placed :: "flush_queue \<Rightarrow> entry list \<Rightarrow> rqid set \<Rightarrow> bool" where
  "placed q d X \<longleftrightarrow>
     distinct (dispatched q d) \<and>
     (FlushRq \<in> set (dispatched q d) \<longleftrightarrow> in_flight q) \<and>
     (in_flight q \<longrightarrow> flush_list q (flush_running_idx q) \<noteq> []) \<and>
     distinct (flush_list q False @ flush_list q True @ flush_data_in_flight q) \<and>
     (\<forall>r. waits_flush q r \<longrightarrow> at_stage q {0, 2} r \<and> Rq r \<notin> set (dispatched q d) \<and> r \<notin> X) \<and>
     (\<forall>r \<in> set (flush_data_in_flight q). at_stage q {1} r \<and> Rq r \<in> set (dispatched q d) \<and> r \<notin> X) \<and>
     (\<forall>r rq. requests q r = Some rq \<longrightarrow> r \<notin> fst ` set (ended q)) \<and>
     (\<forall>r rq. requests q r = Some rq \<longrightarrow> fr_end_io rq = FlushDataEndIo \<longrightarrow>
        waits_flush q r \<or> r \<in> set (flush_data_in_flight q) \<or> r \<in> X) \<and>
     (\<forall>r rq. requests q r = Some rq \<longrightarrow> fr_end_io rq \<noteq> FlushDataEndIo \<longrightarrow>
        fr_end_io rq = EndNull \<and> Rq r \<in> set (dispatched q d)) \<and>
     (\<forall>r. Rq r \<in> set (dispatched q d) \<longrightarrow> requests q r \<noteq> None \<and> r \<notin> X) \<and>
     distinct (map fst (ended q))"

lemma placedD:
  assumes "placed q d X"
  shows "distinct (dispatched q d)" "FlushRq \<in> set (dispatched q d) \<longleftrightarrow> in_flight q"
    "in_flight q \<longrightarrow> flush_list q (flush_running_idx q) \<noteq> []"
    "distinct (flush_list q False @ flush_list q True @ flush_data_in_flight q)"
    "\<forall>r. waits_flush q r \<longrightarrow> at_stage q {0, 2} r \<and> Rq r \<notin> set (dispatched q d) \<and> r \<notin> X"
    "\<forall>r \<in> set (flush_data_in_flight q). at_stage q {1} r \<and> Rq r \<in> set (dispatched q d) \<and> r \<notin> X"
    "\<forall>r rq. requests q r = Some rq \<longrightarrow> r \<notin> fst ` set (ended q)"
    "\<forall>r rq. requests q r = Some rq \<longrightarrow> fr_end_io rq = FlushDataEndIo \<longrightarrow>
        waits_flush q r \<or> r \<in> set (flush_data_in_flight q) \<or> r \<in> X"
    "\<forall>r rq. requests q r = Some rq \<longrightarrow> fr_end_io rq \<noteq> FlushDataEndIo \<longrightarrow>
        fr_end_io rq = EndNull \<and> Rq r \<in> set (dispatched q d)"
    "\<forall>r. Rq r \<in> set (dispatched q d) \<longrightarrow> requests q r \<noteq> None \<and> r \<notin> X"
    "distinct (map fst (ended q))"
  using assms unfolding placed_def by blast+

lemma placedI:
  assumes "distinct (dispatched q d)" "FlushRq \<in> set (dispatched q d) \<longleftrightarrow> in_flight q"
    "in_flight q \<longrightarrow> flush_list q (flush_running_idx q) \<noteq> []"
    "distinct (flush_list q False @ flush_list q True @ flush_data_in_flight q)"
    "\<forall>r. waits_flush q r \<longrightarrow> at_stage q {0, 2} r \<and> Rq r \<notin> set (dispatched q d) \<and> r \<notin> X"
    "\<forall>r \<in> set (flush_data_in_flight q). at_stage q {1} r \<and> Rq r \<in> set (dispatched q d) \<and> r \<notin> X"
    "\<forall>r rq. requests q r = Some rq \<longrightarrow> r \<notin> fst ` set (ended q)"
    "\<forall>r rq. requests q r = Some rq \<longrightarrow> fr_end_io rq = FlushDataEndIo \<longrightarrow>
        waits_flush q r \<or> r \<in> set (flush_data_in_flight q) \<or> r \<in> X"
    "\<forall>r rq. requests q r = Some rq \<longrightarrow> fr_end_io rq \<noteq> FlushDataEndIo \<longrightarrow>
        fr_end_io rq = EndNull \<and> Rq r \<in> set (dispatched q d)"
    "\<forall>r. Rq r \<in> set (dispatched q d) \<longrightarrow> requests q r \<noteq> None \<and> r \<notin> X"
    "distinct (map fst (ended q))"
  shows "placed q d X"
  using assms unfolding placed_def by blast

lemma placed_frame:
  assumes "flush_list q' = flush_list q" "flush_data_in_flight q' = flush_data_in_flight q" "queue_head q' = queue_head q"
    "requests q' = requests q" "ended q' = ended q" "flush_pending_idx q' = flush_pending_idx q"
    "flush_running_idx q' = flush_running_idx q"
  shows "placed q' d X = placed q d X"
  unfolding placed_def dispatched_def waits_flush_def at_stage_def assms ..

text \<open>With no flush in flight only one list is in use, and what waits there waits for data.\<close>

definition kicked :: "flush_queue \<Rightarrow> bool" where
  "kicked q \<longleftrightarrow> \<not> in_flight q \<longrightarrow> flush_list q (flush_pending_idx q) \<noteq> [] \<longrightarrow> flush_data_in_flight q \<noteq> []"

definition one_list :: "flush_queue \<Rightarrow> bool" where
  "one_list q \<longleftrightarrow> \<not> in_flight q \<longrightarrow> flush_list q (\<not> flush_pending_idx q) = []"

lemma kick_spec:
  assumes p: "placed q d {}" and k: "blk_kick_flush K j q = (b, q')"
  shows "placed q' d {} \<and> kicked q' \<and> requests q' = requests q \<and> ended q' = ended q \<and>
    flush_running_idx q' = flush_running_idx q \<and> (in_flight q \<longrightarrow> in_flight q') \<and> flush_list q' = flush_list q \<and>
    flush_data_in_flight q' = flush_data_in_flight q"
proof (cases "b")
  case True
  then have i: "\<not> in_flight q" "flush_list q (flush_pending_idx q) \<noteq> []"
    and q': "q' = q\<lparr>flush_pending_idx := \<not> flush_pending_idx q, queue_head := queue_head q @ [FlushRq]\<rparr>"
    using k by (auto simp: blk_kick_flush_def split: if_splits)
  have same: "waits_flush q' = waits_flush q" "at_stage q' = at_stage q"
    by (simp_all add: waits_flush_def at_stage_def q' fun_eq_iff)
  have d: "set (dispatched q' d) = insert FlushRq (set (dispatched q d))" by (auto simp: dispatched_def q')
  have dd: "distinct (dispatched q' d)" using p i by (auto simp: placed_def dispatched_def q')
  have "placed q' d {}" using p i dd unfolding placed_def same d by (simp add: q')
  then show ?thesis using i by (simp add: kicked_def q')
next
  case False
  then have "q' = q" "kicked q" using k by (auto simp: blk_kick_flush_def kicked_def split: if_splits)
  then show ?thesis using p by simp
qed

subsection \<open>Completing a part of a sequence\<close>

lemma unlink_fields [simp]:
  "requests (flush_unlink r q) = requests q" "ended (flush_unlink r q) = ended q"
  "queue_head (flush_unlink r q) = queue_head q" "flush_pending_idx (flush_unlink r q) = flush_pending_idx q"
  "flush_running_idx (flush_unlink r q) = flush_running_idx q"
  "flush_list (flush_unlink r q) i = removeAll r (flush_list q i)"
  "flush_data_in_flight (flush_unlink r q) = removeAll r (flush_data_in_flight q)"
  by (simp_all add: flush_unlink_def)

text \<open>The three places a request can go, from the hands of the running code.\<close>

lemma place_waiting:
  assumes p: "placed (flush_unlink r q) d {r}" and rq: "requests q r = Some rq0"
    and e: "fr_end_io rq0 = FlushDataEndIo" and s: "\<not> bit s 3" "stage s \<in> {0, 2}"
    and q': "flush_list q' = (\<lambda>i. removeAll r (flush_list q i) @ (if i = flush_pending_idx q then [r] else []))"
      "flush_data_in_flight q' = removeAll r (flush_data_in_flight q)" "queue_head q' = queue_head q"
      "requests q' = (requests q)(r \<mapsto> rq0\<lparr>fr_seq := s\<rparr>)" "ended q' = ended q"
      "flush_pending_idx q' = flush_pending_idx q" "flush_running_idx q' = flush_running_idx q"
  shows "placed q' d {}"
proof -
  note P = placedD [OF p]
  have w: "waits_flush q' r' \<longleftrightarrow> r' = r \<or> waits_flush (flush_unlink r q) r'" for r'
    by (cases "flush_pending_idx q") (auto simp: waits_flush_def q')
  have a: "at_stage q' S r' \<longleftrightarrow> (if r' = r then stage s \<in> S else at_stage (flush_unlink r q) S r')" for S r'
    using e s by (auto simp: at_stage_def q')
  have d: "dispatched q' d = dispatched (flush_unlink r q) d" by (simp add: dispatched_def q')
  have nr: "r \<notin> set (flush_data_in_flight q')" by (simp add: q')
  show ?thesis
  proof (rule placedI)
    show "distinct (flush_list q' False @ flush_list q' True @ flush_data_in_flight q')"
      using P(4) by (cases "flush_pending_idx q") (simp_all add: q' disjoint_iff)
    show "in_flight q' \<longrightarrow> flush_list q' (flush_running_idx q') \<noteq> []" using P(3) by (simp add: q')
    show "\<forall>r'. waits_flush q' r' \<longrightarrow> at_stage q' {0, 2} r' \<and> Rq r' \<notin> set (dispatched q' d) \<and> r' \<notin> {}"
      using P(5, 10) s by (auto simp: w a d)
    show "\<forall>r' \<in> set (flush_data_in_flight q'). at_stage q' {1} r' \<and> Rq r' \<in> set (dispatched q' d) \<and> r' \<notin> {}"
      using P(6) nr by (auto simp: a d q')
    show "\<forall>r' rq'. requests q' r' = Some rq' \<longrightarrow> r' \<notin> fst ` set (ended q')" using P(7) rq by (simp add: q')
    show "\<forall>r' rq'. requests q' r' = Some rq' \<longrightarrow> fr_end_io rq' = FlushDataEndIo \<longrightarrow>
        waits_flush q' r' \<or> r' \<in> set (flush_data_in_flight q') \<or> r' \<in> {}"
      using P(8) by (auto simp: w q' split: if_splits)
    show "\<forall>r' rq'. requests q' r' = Some rq' \<longrightarrow> fr_end_io rq' \<noteq> FlushDataEndIo \<longrightarrow>
        fr_end_io rq' = EndNull \<and> Rq r' \<in> set (dispatched q' d)"
      using P(9) e by (auto simp: d q')
    show "\<forall>r'. Rq r' \<in> set (dispatched q' d) \<longrightarrow> requests q' r' \<noteq> None \<and> r' \<notin> {}"
      using P(10) by (simp add: d q')
  qed (use P(1, 2, 11) in \<open>simp_all add: d q'\<close>)
qed

lemma place_data:
  assumes p: "placed (flush_unlink r q) d {r}" and rq: "requests q r = Some rq0"
    and e: "fr_end_io rq0 = FlushDataEndIo" and s: "\<not> bit s 3" "stage s = 1"
    and q': "flush_list q' = (\<lambda>i. removeAll r (flush_list q i))"
      "flush_data_in_flight q' = removeAll r (flush_data_in_flight q) @ [r]" "queue_head q' = Rq r # queue_head q"
      "requests q' = (requests q)(r \<mapsto> rq0\<lparr>fr_seq := s\<rparr>)" "ended q' = ended q"
      "flush_pending_idx q' = flush_pending_idx q" "flush_running_idx q' = flush_running_idx q"
  shows "placed q' d {}"
proof -
  note P = placedD [OF p]
  have w: "waits_flush q' r' \<longleftrightarrow> waits_flush (flush_unlink r q) r'" for r' by (simp add: waits_flush_def q')
  have wr: "\<not> waits_flush q' r" by (simp add: waits_flush_def q')
  have a: "at_stage q' S r' \<longleftrightarrow> (if r' = r then stage s \<in> S else at_stage (flush_unlink r q) S r')" for S r'
    using e s by (auto simp: at_stage_def q')
  have d: "dispatched q' d = Rq r # dispatched (flush_unlink r q) d" by (simp add: dispatched_def q')
  show ?thesis
  proof (rule placedI)
    show "distinct (flush_list q' False @ flush_list q' True @ flush_data_in_flight q')"
      using P(4) by (simp add: q' disjoint_iff)
    show "distinct (dispatched q' d)" using P(1, 10) by (auto simp: d)
    show "in_flight q' \<longrightarrow> flush_list q' (flush_running_idx q') \<noteq> []" using P(3) by (simp add: q')
    show "\<forall>r'. waits_flush q' r' \<longrightarrow> at_stage q' {0, 2} r' \<and> Rq r' \<notin> set (dispatched q' d) \<and> r' \<notin> {}"
      using P(5) wr by (auto simp: w a d)
    show "\<forall>r' \<in> set (flush_data_in_flight q'). at_stage q' {1} r' \<and> Rq r' \<in> set (dispatched q' d) \<and> r' \<notin> {}"
      using P(6) s by (auto simp: a d q')
    show "\<forall>r' rq'. requests q' r' = Some rq' \<longrightarrow> r' \<notin> fst ` set (ended q')" using P(7) rq by (simp add: q')
    show "\<forall>r' rq'. requests q' r' = Some rq' \<longrightarrow> fr_end_io rq' = FlushDataEndIo \<longrightarrow>
        waits_flush q' r' \<or> r' \<in> set (flush_data_in_flight q') \<or> r' \<in> {}"
      using P(8) by (auto simp: w q' split: if_splits)
    show "\<forall>r' rq'. requests q' r' = Some rq' \<longrightarrow> fr_end_io rq' \<noteq> FlushDataEndIo \<longrightarrow>
        fr_end_io rq' = EndNull \<and> Rq r' \<in> set (dispatched q' d)"
      using P(9) e by (auto simp: d q')
    show "\<forall>r'. Rq r' \<in> set (dispatched q' d) \<longrightarrow> requests q' r' \<noteq> None \<and> r' \<notin> {}"
      using P(10) by (simp add: d q')
  qed (use P(2, 11) in \<open>simp_all add: d q'\<close>)
qed

lemma place_ended:
  assumes p: "placed (flush_unlink r q) d {r}" and rq: "requests q r = Some rq0"
    and q': "flush_list q' = (\<lambda>i. removeAll r (flush_list q i))"
      "flush_data_in_flight q' = removeAll r (flush_data_in_flight q)" "queue_head q' = queue_head q"
      "requests q' = (requests q)(r := None)" "ended q' = ended q @ [(r, error)]"
      "flush_pending_idx q' = flush_pending_idx q" "flush_running_idx q' = flush_running_idx q"
  shows "placed q' d {}"
proof -
  note P = placedD [OF p]
  have w: "waits_flush q' r' \<longleftrightarrow> waits_flush (flush_unlink r q) r'" for r' by (simp add: waits_flush_def q')
  have wr: "\<not> waits_flush q' r" by (simp add: waits_flush_def q')
  have a: "at_stage q' S r' \<longleftrightarrow> r' \<noteq> r \<and> at_stage (flush_unlink r q) S r'" for S r' by (auto simp: at_stage_def q')
  have d: "dispatched q' d = dispatched (flush_unlink r q) d" by (simp add: dispatched_def q')
  have r: "Rq r \<notin> set (dispatched (flush_unlink r q) d)" using P(10) by auto
  show ?thesis
  proof (rule placedI)
    show "in_flight q' \<longrightarrow> flush_list q' (flush_running_idx q') \<noteq> []" using P(3) by (simp add: q')
    show "distinct (flush_list q' False @ flush_list q' True @ flush_data_in_flight q')" using P(4) by (simp add: q')
    show "\<forall>r'. waits_flush q' r' \<longrightarrow> at_stage q' {0, 2} r' \<and> Rq r' \<notin> set (dispatched q' d) \<and> r' \<notin> {}"
      using P(5) wr by (auto simp: w a d)
    show "\<forall>r' \<in> set (flush_data_in_flight q'). at_stage q' {1} r' \<and> Rq r' \<in> set (dispatched q' d) \<and> r' \<notin> {}"
      using P(6) by (auto simp: a d q')
    show "\<forall>r' rq'. requests q' r' = Some rq' \<longrightarrow> r' \<notin> fst ` set (ended q')" using P(7) by (simp add: q')
    show "\<forall>r' rq'. requests q' r' = Some rq' \<longrightarrow> fr_end_io rq' = FlushDataEndIo \<longrightarrow>
        waits_flush q' r' \<or> r' \<in> set (flush_data_in_flight q') \<or> r' \<in> {}"
      using P(8) by (auto simp: w q' split: if_splits)
    show "\<forall>r' rq'. requests q' r' = Some rq' \<longrightarrow> fr_end_io rq' \<noteq> FlushDataEndIo \<longrightarrow>
        fr_end_io rq' = EndNull \<and> Rq r' \<in> set (dispatched q' d)"
      using P(9) by (auto simp: d q' split: if_splits)
    show "\<forall>r'. Rq r' \<in> set (dispatched q' d) \<longrightarrow> requests q' r' \<noteq> None \<and> r' \<notin> {}"
      using P(10) r by (auto simp: d q')
    show "distinct (map fst (ended q'))" using P(7, 11) rq by (auto simp: q')
  qed (use P(1, 2) in \<open>simp_all add: d q'\<close>)
qed

text \<open>
  What a completed part does: the request ends when an error came back or nothing is left to do,
  otherwise it goes on to its next stage.
\<close>

definition moves_to :: "rqid \<Rightarrow> flush_rq \<Rightarrow> flags \<Rightarrow> int \<Rightarrow> flush_queue \<Rightarrow> flush_queue \<Rightarrow> bool" where
  "moves_to r rq0 s error q q' \<longleftrightarrow>
     flush_running_idx q' = flush_running_idx q \<and> (in_flight q \<longrightarrow> in_flight q') \<and>
     (if error \<noteq> 0 \<or> stage s = 3
      then requests q' = (requests q)(r := None) \<and> ended q' = ended q @ [(r, error)]
      else requests q' = (requests q)(r \<mapsto> rq0\<lparr>fr_seq := s\<rparr>) \<and> ended q' = ended q) \<and>
     (\<forall>i. flush_list q' i = removeAll r (flush_list q i) @
        (if error = 0 \<and> stage s \<in> {0, 2} \<and> i = flush_pending_idx q then [r] else []))"

lemma complete_spec:
  assumes p: "placed (flush_unlink r q) d {r}" and rq: "requests q r = Some rq0"
    and e: "fr_end_io rq0 = FlushDataEndIo" and s: "fr_seq rq0 AND seq = 0" "\<not> bit (fr_seq rq0 OR seq) 3"
  shows "\<exists>b q'. blk_flush_complete_seq K j r seq error q = Some (b, q') \<and> placed q' d {} \<and> kicked q' \<and>
    moves_to r rq0 (fr_seq rq0 OR seq) error q q'"
proof -
  let ?s = "fr_seq rq0 OR seq"
  have cur: "blk_flush_cur_seq (rq0\<lparr>fr_seq := ?s\<rparr>) = 2 ^ stage ?s" using cur_seq_stage s(2) by simp
  have nq: "Rq r \<notin> set (queue_head q)" using placedD(10) [OF p] by (auto simp: dispatched_def)
  consider "error = 0" "stage ?s \<in> {0, 2}" | "error = 0" "stage ?s = 1" | "error \<noteq> 0 \<or> stage ?s = 3"
    using stage_cases [of ?s] by auto
  then show ?thesis
  proof cases
    case 1
    let ?q1 = "set_request r (rq0\<lparr>fr_seq := ?s\<rparr>) q"
    define q2 where "q2 = (if flush_list q (flush_pending_idx q) = [] then ?q1\<lparr>flush_pending_since := j\<rparr> else ?q1)"
    define q3 where "q3 = (flush_unlink r q2)\<lparr>flush_list := (flush_list (flush_unlink r q2))
      (flush_pending_idx q := flush_list (flush_unlink r q2) (flush_pending_idx q) @ [r])\<rparr>"
    obtain b q' where k: "blk_kick_flush K j q3 = (b, q')" by (cases "blk_kick_flush K j q3")
    have c: "blk_flush_complete_seq K j r seq error q = Some (b, q')"
      using 1 rq s(1) cur k by (auto simp: blk_flush_complete_seq_def fseq_defs Let_def q3_def q2_def)
    have f: "flush_list q3 = (\<lambda>i. removeAll r (flush_list q i) @ (if i = flush_pending_idx q then [r] else []))"
      by (auto simp: q3_def q2_def set_request_def fun_eq_iff)
    have f': "flush_data_in_flight q3 = removeAll r (flush_data_in_flight q)" "queue_head q3 = queue_head q"
      "requests q3 = (requests q)(r \<mapsto> rq0\<lparr>fr_seq := ?s\<rparr>)" "ended q3 = ended q"
      "flush_pending_idx q3 = flush_pending_idx q" "flush_running_idx q3 = flush_running_idx q"
      by (simp_all add: q3_def q2_def set_request_def)
    show ?thesis using c kick_spec [OF place_waiting [OF p rq e s(2) 1(2) f f'] k] 1
      by (auto simp: moves_to_def f f')
  next
    case 2
    define q3 where "q3 = (flush_unlink r (set_request r (rq0\<lparr>fr_seq := ?s\<rparr>) q))\<lparr>
      flush_data_in_flight := removeAll r (flush_data_in_flight q) @ [r], queue_head := Rq r # queue_head q\<rparr>"
    obtain b q' where k: "blk_kick_flush K j q3 = (b, q')" by (cases "blk_kick_flush K j q3")
    have c: "blk_flush_complete_seq K j r seq error q = Some (True, q')"
      using 2 rq s(1) cur k by (simp add: blk_flush_complete_seq_def fseq_defs Let_def q3_def set_request_def)
    have f: "flush_list q3 = (\<lambda>i. removeAll r (flush_list q i))"
      "flush_data_in_flight q3 = removeAll r (flush_data_in_flight q) @ [r]" "queue_head q3 = Rq r # queue_head q"
      "requests q3 = (requests q)(r \<mapsto> rq0\<lparr>fr_seq := ?s\<rparr>)" "ended q3 = ended q"
      "flush_pending_idx q3 = flush_pending_idx q" "flush_running_idx q3 = flush_running_idx q"
      by (simp_all add: q3_def set_request_def fun_eq_iff)
    show ?thesis using c kick_spec [OF place_data [OF p rq e s(2) 2(2) f] k] 2
      by (auto simp: moves_to_def f)
  next
    case 3
    define q3 where "q3 = end_request_all r error
      (set_request r (blk_flush_restore_request K (rq0\<lparr>fr_seq := ?s\<rparr>)) (flush_unlink r (set_request r (rq0\<lparr>fr_seq := ?s\<rparr>) q)))"
    obtain b q' where k: "blk_kick_flush K j q3 = (b, q')" by (cases "blk_kick_flush K j q3")
    have c: "blk_flush_complete_seq K j r seq error q = Some (b, q')"
      using 3 rq s(1) cur k nq by (auto simp: blk_flush_complete_seq_def fseq_defs Let_def q3_def)
    have f: "flush_list q3 = (\<lambda>i. removeAll r (flush_list q i))"
      "flush_data_in_flight q3 = removeAll r (flush_data_in_flight q)" "queue_head q3 = queue_head q"
      "requests q3 = (requests q)(r := None)" "ended q3 = ended q @ [(r, error)]"
      "flush_pending_idx q3 = flush_pending_idx q" "flush_running_idx q3 = flush_running_idx q"
      by (simp_all add: q3_def set_request_def end_request_all_def fun_eq_iff)
    show ?thesis using c kick_spec [OF place_ended [OF p rq f] k] 3
      by (auto simp: moves_to_def f)
  qed
qed

text \<open>A request is taken in hand by the loop of \<^verbatim>\<open>flush_end_io\<close>, by the end of its data, and when it is new.\<close>

lemma take_waiting:
  assumes p: "placed q d {}" and r: "r \<in> set (flush_list q i)" and i: "in_flight q \<Longrightarrow> i \<noteq> flush_running_idx q"
  shows "placed (flush_unlink r q) d {r}"
proof -
  note P = placedD [OF p]
  let ?q = "flush_unlink r q"
  have w: "waits_flush ?q r' \<longleftrightarrow> r' \<noteq> r \<and> waits_flush q r'" for r' by (auto simp: waits_flush_def)
  have a: "at_stage ?q = at_stage q" by (simp add: at_stage_def fun_eq_iff)
  have d: "dispatched ?q d = dispatched q d" by (simp add: dispatched_def)
  have wr: "waits_flush q r" using r by (cases i) (auto simp: waits_flush_def)
  show ?thesis
  proof (rule placedI)
    show "in_flight ?q \<longrightarrow> flush_list ?q (flush_running_idx ?q) \<noteq> []"
    proof
      assume f: "in_flight ?q"
      then have "i = (\<not> flush_running_idx q)" using i by auto
      then have "r \<notin> set (flush_list q (flush_running_idx q))" using P(4) r by (cases "flush_running_idx q") auto
      then show "flush_list ?q (flush_running_idx ?q) \<noteq> []" using P(3) f by simp
    qed
    show "distinct (flush_list ?q False @ flush_list ?q True @ flush_data_in_flight ?q)"
      using P(4) by (simp add: distinct_removeAll disjoint_iff)
    show "\<forall>r'. Rq r' \<in> set (dispatched ?q d) \<longrightarrow> requests ?q r' \<noteq> None \<and> r' \<notin> {r}"
      using P(5, 10) wr unfolding d by auto
  qed (use P in \<open>auto simp: w a d\<close>)
qed

lemma take_data:
  assumes p: "placed q (Rq r # d) {}" and r: "r \<in> set (flush_data_in_flight q)"
  shows "placed (flush_unlink r q) d {r}"
proof -
  note P = placedD [OF p]
  let ?q = "flush_unlink r q"
  have nw: "\<not> waits_flush q r" using P(5, 6) r by blast
  have w: "waits_flush ?q r' \<longleftrightarrow> waits_flush q r'" for r' using nw by (auto simp: waits_flush_def)
  have a: "at_stage ?q = at_stage q" by (simp add: at_stage_def fun_eq_iff)
  have d: "set (dispatched q (Rq r # d)) = insert (Rq r) (set (dispatched ?q d))" "Rq r \<notin> set (dispatched ?q d)"
    "distinct (dispatched ?q d)"
    using P(1) by (auto simp: dispatched_def)
  have l: "removeAll r (flush_list q i) = flush_list q i" for i
    using nw by (cases i) (auto simp: waits_flush_def)
  have e: "\<exists>rq. requests q r = Some rq \<and> fr_end_io rq = FlushDataEndIo" using P(6) r by (auto simp: at_stage_def)
  show ?thesis
  proof (rule placedI)
    show "\<forall>r' rq'. requests ?q r' = Some rq' \<longrightarrow> fr_end_io rq' \<noteq> FlushDataEndIo \<longrightarrow>
        fr_end_io rq' = EndNull \<and> Rq r' \<in> set (dispatched ?q d)"
      using P(9) e unfolding d by fastforce
    show "\<forall>r'. Rq r' \<in> set (dispatched ?q d) \<longrightarrow> requests ?q r' \<noteq> None \<and> r' \<notin> {r}"
      using P(10) d by auto
    show "distinct (flush_list ?q False @ flush_list ?q True @ flush_data_in_flight ?q)"
      using P(4) by (simp add: l distinct_removeAll disjoint_iff)
  qed (use P nw d in \<open>auto simp: w a l\<close>)
qed

lemma take_new:
  assumes p: "placed q d {}" and r: "requests q r = None" "r \<notin> fst ` set (ended q)" and rq: "fr_end_io rq = FlushDataEndIo"
  shows "placed (flush_unlink r (set_request r rq q)) d {r}"
proof -
  note P = placedD [OF p]
  let ?q = "flush_unlink r (set_request r rq q)"
  have nw: "\<not> waits_flush q r" "r \<notin> set (flush_data_in_flight q)" using P(5, 6) r by (auto simp: at_stage_def)
  have l: "removeAll r (flush_list q i) = flush_list q i" for i using nw by (cases i) (auto simp: waits_flush_def)
  have f: "flush_list ?q i = flush_list q i" "flush_data_in_flight ?q = flush_data_in_flight q" "ended ?q = ended q"
    "requests ?q = (requests q)(r \<mapsto> rq)" "dispatched ?q d = dispatched q d" "flush_pending_idx ?q = flush_pending_idx q"
    "flush_running_idx ?q = flush_running_idx q" for i
    using nw l [of i] by (simp_all add: set_request_def dispatched_def)
  have w: "waits_flush ?q = waits_flush q" unfolding waits_flush_def f by simp
  have a: "r' \<noteq> r \<Longrightarrow> at_stage ?q S r' = at_stage q S r'" for r' S unfolding at_stage_def f by simp
  show ?thesis
  proof (rule placedI)
    show "\<forall>r'. waits_flush ?q r' \<longrightarrow> at_stage ?q {0, 2} r' \<and> Rq r' \<notin> set (dispatched ?q d) \<and> r' \<notin> {r}"
      using P(5) nw unfolding w f(5) by (metis a singletonD)
    show "\<forall>r' \<in> set (flush_data_in_flight ?q). at_stage ?q {1} r' \<and> Rq r' \<in> set (dispatched ?q d) \<and> r' \<notin> {r}"
      using P(6) nw unfolding f(2, 5) by (metis a singletonD)
  qed (use P r rq in \<open>auto simp: w f simp del: unlink_fields split: if_splits\<close>)
qed

subsection \<open>What has happened\<close>

datatype flush_event = Insert rqid flags | Start entry | Finish entry int

text \<open>The events after \<open>e\<close>, and whether a flush began and then ended with success among them.\<close>

definition after :: "flush_event \<Rightarrow> flush_event list \<Rightarrow> flush_event list" where
  "after e tr = takeWhile (\<lambda>x. x \<noteq> e) tr"

definition flushed :: "flush_event list \<Rightarrow> bool" where
  "flushed tr \<longleftrightarrow> Start FlushRq \<in> set (tl (dropWhile (\<lambda>x. x \<noteq> Finish FlushRq 0) tr))"

lemma after_Cons: "after e (x # tr) = (if x = e then [] else x # after e tr)"
  by (simp add: after_def)

lemma flushed_Cons: "flushed tr \<Longrightarrow> flushed (x # tr)"
  by (auto simp: flushed_def) (metis list.sel(2) list.set_sel(2) set_dropWhileD)

lemma flushed_Finish: "Start FlushRq \<in> set tr \<Longrightarrow> flushed (Finish FlushRq 0 # tr)"
  by (simp add: flushed_def)

text \<open>
  The last flush of a request must begin after its data has been written, or after its insertion when it has none.
\<close>

definition mark :: "rqid \<Rightarrow> flags \<Rightarrow> flags \<Rightarrow> flush_event" where
  "mark r p s = (if bit p 1 \<and> bit s 1 then Finish (Rq r) 0 else Insert r p)"

text \<open>The bits of \<open>s\<close> have been earned: what the policy \<open>p\<close> asks for has happened where \<open>s\<close> says so.\<close>

definition plan_ok :: "flush_event list \<Rightarrow> rqid \<Rightarrow> flags \<Rightarrow> flags \<Rightarrow> bool" where
  "plan_ok tr r p s \<longleftrightarrow>
     (bit p 0 \<or> bit s 0) \<and> (bit p 1 \<or> bit s 1) \<and> (bit p 2 \<or> bit s 2) \<and> (bit p 0 \<and> bit p 2 \<longrightarrow> bit p 1) \<and>
     (bit p 0 \<and> bit s 0 \<longrightarrow> flushed (after (Insert r p) tr)) \<and>
     (bit p 1 \<and> bit s 1 \<longrightarrow> bit s 0 \<and> Finish (Rq r) 0 \<in> set tr) \<and>
     (bit p 2 \<and> bit s 2 \<longrightarrow> bit s 0 \<and> bit s 1 \<and> flushed (after (mark r p s) tr))"

lemma plan_ok_Cons:
  assumes "plan_ok tr r p s" "x \<noteq> Insert r p" "x \<noteq> Finish (Rq r) 0"
  shows "plan_ok (x # tr) r p s"
  using assms by (auto simp: plan_ok_def mark_def after_Cons intro: flushed_Cons)

definition hist :: "flush_queue \<Rightarrow> flush_event list \<Rightarrow> bool" where
  "hist q tr \<longleftrightarrow>
     (\<forall>r p p'. Insert r p \<in> set tr \<longrightarrow> Insert r p' \<in> set tr \<longrightarrow> p = p') \<and>
     (\<forall>r rq. requests q r = Some rq \<longrightarrow> (\<exists>p. Insert r p \<in> set tr \<and>
        (if fr_end_io rq = FlushDataEndIo then plan_ok tr r p (fr_seq rq) else p = REQ_FSEQ_DATA))) \<and>
     (\<forall>r e. (r, e) \<in> set (ended q) \<longrightarrow> (\<exists>p. Insert r p \<in> set tr \<and> (e = 0 \<longrightarrow> plan_ok tr r p 7)))"

lemma histD:
  assumes "hist q tr"
  shows "Insert r p \<in> set tr \<Longrightarrow> Insert r p' \<in> set tr \<Longrightarrow> p = p'"
    "requests q r = Some rq \<Longrightarrow> \<exists>p. Insert r p \<in> set tr \<and>
       (if fr_end_io rq = FlushDataEndIo then plan_ok tr r p (fr_seq rq) else p = REQ_FSEQ_DATA)"
    "(r, e) \<in> set (ended q) \<Longrightarrow> \<exists>p. Insert r p \<in> set tr \<and> (e = 0 \<longrightarrow> plan_ok tr r p 7)"
  using assms unfolding hist_def by blast+

text \<open>The flush the driver works on began after each request of its list was ready for it.\<close>

definition flush_since :: "flush_queue \<Rightarrow> entry list \<Rightarrow> flush_event list \<Rightarrow> bool" where
  "flush_since q d tr \<longleftrightarrow>
     (FlushRq \<in> set d \<longrightarrow> (\<forall>r \<in> set (flush_list q (flush_running_idx q)). \<forall>rq p.
        requests q r = Some rq \<longrightarrow> Insert r p \<in> set tr \<longrightarrow> Start FlushRq \<in> set (after (mark r p (fr_seq rq)) tr)))"

definition flush_inv :: "flush_queue \<Rightarrow> entry list \<Rightarrow> flush_event list \<Rightarrow> bool" where
  "flush_inv q d tr \<longleftrightarrow> placed q d {} \<and> kicked q \<and> one_list q \<and> hist q tr \<and> flush_since q d tr"

lemma stage_bits:
  "stage s = 0 \<longleftrightarrow> \<not> bit s 0" "stage s = 1 \<longleftrightarrow> bit s 0 \<and> \<not> bit s 1"
  "stage s = 2 \<longleftrightarrow> bit s 0 \<and> bit s 1 \<and> \<not> bit s 2" "stage s = 3 \<longleftrightarrow> bit s 0 \<and> bit s 1 \<and> bit s 2"
  by (simp_all add: stage_def)

lemma plan_ok_done: "plan_ok tr r p s \<Longrightarrow> stage s = 3 \<Longrightarrow> plan_ok tr r p 7"
  by (auto simp: plan_ok_def mark_def stage_bits)

definition drop_rq :: "rqid \<Rightarrow> flush_queue \<Rightarrow> flush_queue" where
  "drop_rq r q = q\<lparr>requests := (requests q)(r := None)\<rparr>"

lemma hist_drop: "hist q tr \<Longrightarrow> hist (drop_rq r q) tr"
  by (simp add: hist_def drop_rq_def)

lemma hist_moves:
  assumes h: "hist (drop_rq r q) tr" and rq: "fr_end_io rq0 = FlushDataEndIo"
    and m: "moves_to r rq0 s error q q'" and p: "Insert r p \<in> set tr" "error = 0 \<Longrightarrow> plan_ok tr r p s"
  shows "hist q' tr"
proof (cases "error \<noteq> 0 \<or> stage s = 3")
  case True
  then have q': "requests q' = (requests q)(r := None)" "ended q' = ended q @ [(r, error)]"
    using m by (simp_all add: moves_to_def)
  have "\<exists>p. Insert r p \<in> set tr \<and> (error = 0 \<longrightarrow> plan_ok tr r p 7)" using p plan_ok_done True by blast
  then show ?thesis using h unfolding hist_def q' drop_rq_def by auto
next
  case False
  then have q': "requests q' = (requests q)(r \<mapsto> rq0\<lparr>fr_seq := s\<rparr>)" "ended q' = ended q"
    using m by (simp_all add: moves_to_def)
  have "\<exists>p. Insert r p \<in> set tr \<and> plan_ok tr r p s" using p False by blast
  then show ?thesis using h rq unfolding hist_def q' drop_rq_def by auto
qed

lemma hist_frame: "requests q' = requests q \<Longrightarrow> ended q' = ended q \<Longrightarrow> hist q' tr = hist q tr"
  by (simp only: hist_def)

lemma hist_upd:
  assumes h: "hist q tr" and q': "requests q' = (requests q)(r \<mapsto> rq)" "ended q' = ended q"
    and p: "Insert r p \<in> set tr" "if fr_end_io rq = FlushDataEndIo then plan_ok tr r p (fr_seq rq) else p = REQ_FSEQ_DATA"
  shows "hist q' tr"
proof -
  have "\<exists>p. Insert r' p \<in> set tr \<and>
      (if fr_end_io rq' = FlushDataEndIo then plan_ok tr r' p (fr_seq rq') else p = REQ_FSEQ_DATA)"
    if "requests q' r' = Some rq'" for r' rq'
    using that p histD(2) [OF h, of r' rq'] by (cases "r' = r") (auto simp: q')
  then show ?thesis using histD(1, 3) [OF h] unfolding hist_def q'(2) by blast
qed

lemma hist_Cons:
  assumes h: "hist q tr" and x: "\<And>r p. x \<noteq> Insert r p"
    and f: "\<And>r. x = Finish (Rq r) 0 \<Longrightarrow> requests q r = None \<and> r \<notin> fst ` set (ended q)"
  shows "hist q (x # tr)"
proof -
  have 1: "plan_ok (x # tr) r p s" if "plan_ok tr r p s" "requests q r \<noteq> None \<or> r \<in> fst ` set (ended q)" for r p s
  proof -
    have "x \<noteq> Finish (Rq r) 0" using f that(2) by auto
    then show ?thesis using plan_ok_Cons [OF that(1)] x by simp
  qed
  have 2: "Insert r p \<in> set (x # tr) \<longleftrightarrow> Insert r p \<in> set tr" for r p using x by auto
  have live: "\<exists>p. Insert r p \<in> set tr \<and> (if fr_end_io rq = FlushDataEndIo then plan_ok (x # tr) r p (fr_seq rq)
      else p = REQ_FSEQ_DATA)" if rq: "requests q r = Some rq" for r rq
  proof -
    obtain p where p: "Insert r p \<in> set tr"
      "if fr_end_io rq = FlushDataEndIo then plan_ok tr r p (fr_seq rq) else p = REQ_FSEQ_DATA"
      using histD(2) [OF h rq] by auto
    have "plan_ok tr r p (fr_seq rq) \<longrightarrow> plan_ok (x # tr) r p (fr_seq rq)" using 1 rq by simp
    then show ?thesis using p by (intro exI [of _ p]) auto
  qed
  have "\<exists>p. Insert r p \<in> set tr \<and> (e = 0 \<longrightarrow> plan_ok (x # tr) r p 7)" if e: "(r, e) \<in> set (ended q)" for r e
  proof -
    have "r \<in> fst ` set (ended q)" using e by force
    then show ?thesis using histD(3) [OF h e] 1 by blast
  qed
  then show ?thesis using histD(1) [OF h] live unfolding hist_def 2 by blast
qed

subsection \<open>The end of a flush\<close>

text \<open>One more part of the plan is done by the flush.\<close>

lemma plan_ok_flush:
  assumes p: "plan_ok tr r p s" and st: "stage s \<in> {0, 2}" and f: "flushed (after (mark r p s) tr)"
  shows "plan_ok tr r p (s OR 2 ^ stage s) \<and> stage (s OR 2 ^ stage s) \<in> {1, 3}"
proof (cases "stage s = 0")
  case True
  then have "\<not> bit s 0" by (simp add: stage_bits)
  moreover from this have "bit p 0" using p by (auto simp: plan_ok_def)
  ultimately show ?thesis using p f True
    by (auto simp: plan_ok_def mark_def stage_def bit_or_iff split: if_splits)
next
  case False
  then have "stage s = 2" using st by simp
  then show ?thesis using p f by (auto simp: plan_ok_def mark_def stage_def bit_or_iff split: if_splits)
qed

lemma bit_stage:
  assumes "stage s \<in> {0, 2}" and "\<not> bit s 3"
  shows "s AND 2 ^ stage s = 0" "\<not> bit (s OR 2 ^ stage s) 3"
proof -
  show "s AND 2 ^ stage s = 0"
    using assms unfolding and_exp_eq_0_iff_not_bit by (auto simp: stage_def split: if_splits)
  show "\<not> bit (s OR 2 ^ stage s) 3"
    using assms by (auto simp: stage_def bit_or_iff split: if_splits)
qed

lemma flush_walk_spec:
  assumes "placed q d {}" "flush_list q i = rs" "flush_running_idx q \<noteq> i" "hist q tr" "length rs < n"
    and "\<And>r rq p. error = 0 \<Longrightarrow> r \<in> set rs \<Longrightarrow> requests q r = Some rq \<Longrightarrow> Insert r p \<in> set tr \<Longrightarrow>
      flushed (after (mark r p (fr_seq rq)) tr)"
  shows "\<exists>b q'. flush_walk n K j error i rs (b0, q) = Some (b, q') \<and> placed q' d {} \<and> flush_list q' i = [] \<and>
    flush_running_idx q' = flush_running_idx q \<and> hist q' tr \<and> (rs \<noteq> [] \<or> kicked q \<longrightarrow> kicked q')"
  using assms
proof (induction rs arbitrary: n q b0)
  case Nil
  then show ?case by (cases n) auto
next
  case (Cons r rest)
  then obtain m where n: "n = Suc m" "length rest < m" by (cases n) auto
  note P = placedD [OF Cons.prems(1)]
  have r: "r \<in> set (flush_list q i)" "r \<notin> set rest" using P(4) Cons.prems(2) by (cases i; auto)+
  then have "waits_flush q r" by (cases i) (auto simp: waits_flush_def)
  then obtain rq where rq: "requests q r = Some rq" "fr_end_io rq = FlushDataEndIo" "\<not> bit (fr_seq rq) 3"
    "stage (fr_seq rq) \<in> {0, 2}"
    using P(5) by (auto simp: at_stage_def)
  let ?t = "2 ^ stage (fr_seq rq)"
  have cur: "blk_flush_cur_seq rq = ?t" "?t = REQ_FSEQ_PREFLUSH \<or> ?t = REQ_FSEQ_POSTFLUSH"
    using cur_seq_stage rq(3, 4) by (auto simp: fseq_defs)
  obtain k q1 where c: "blk_flush_complete_seq K j r ?t error q = Some (k, q1)" "placed q1 d {}" "kicked q1"
    "moves_to r rq (fr_seq rq OR ?t) error q q1"
    using complete_spec [OF take_waiting [OF Cons.prems(1) r(1)] rq(1, 2) bit_stage [OF rq(4, 3)]] Cons.prems(3) by metis
  obtain p where p: "Insert r p \<in> set tr" "plan_ok tr r p (fr_seq rq)" using histD(2) [OF Cons.prems(4) rq(1)] rq(2) by auto
  have fin: "error = 0 \<Longrightarrow> plan_ok tr r p (fr_seq rq OR ?t) \<and> stage (fr_seq rq OR ?t) \<in> {1, 3}"
    using plan_ok_flush [OF p(2) rq(4)] Cons.prems(6) rq(1) p(1) by simp
  have h1: "hist q1 tr" using hist_moves [OF hist_drop [OF Cons.prems(4)] rq(2) c(4) p(1)] fin by blast
  have l1: "flush_list q1 i = rest" "flush_running_idx q1 = flush_running_idx q"
    and r1: "r' \<noteq> r \<Longrightarrow> requests q1 r' = requests q r'" for r'
    using c(4) fin Cons.prems(2) r(2) by (auto simp: moves_to_def split: if_splits)
  have "\<exists>b q'. flush_walk m K j error i rest (b0 \<or> k, q1) = Some (b, q') \<and> placed q' d {} \<and> flush_list q' i = [] \<and>
    flush_running_idx q' = flush_running_idx q1 \<and> hist q' tr \<and> (rest \<noteq> [] \<or> kicked q1 \<longrightarrow> kicked q')"
  proof (rule Cons.IH)
    fix r' rq' p'
    assume a: "error = 0" "r' \<in> set rest" "requests q1 r' = Some rq'" "Insert r' p' \<in> set tr"
    then have "requests q r' = Some rq'" using r1 r(2) by metis
    then show "flushed (after (mark r' p' (fr_seq rq')) tr)" using Cons.prems(6) a by simp
  qed (use c h1 l1 n Cons.prems(3) in auto)
  then show ?case using rq(1) cur c(1, 3) l1 r(2) n by auto
qed

lemma remove_flush:
  assumes "placed q (FlushRq # d) {}"
  shows "placed (q\<lparr>flush_running_idx := flush_pending_idx q\<rparr>) d {}" "in_flight q" "FlushRq \<notin> set d"
proof -
  note P = placedD [OF assms]
  have f: "in_flight q" using P(2) by (simp add: dispatched_def)
  define q0 where "q0 = q\<lparr>flush_running_idx := flush_pending_idx q\<rparr>"
  have d: "set (dispatched q (FlushRq # d)) = insert FlushRq (set (dispatched q0 d))" "FlushRq \<notin> set (dispatched q0 d)"
    "distinct (dispatched q0 d)"
    using P(1) by (auto simp: dispatched_def q0_def)
  have w: "waits_flush q0 = waits_flush q" "at_stage q0 = at_stage q" "flush_list q0 = flush_list q"
    "flush_data_in_flight q0 = flush_data_in_flight q" "requests q0 = requests q" "ended q0 = ended q" "\<not> in_flight q0"
    by (simp_all add: waits_flush_def at_stage_def fun_eq_iff q0_def)
  show "placed (q\<lparr>flush_running_idx := flush_pending_idx q\<rparr>) d {}" unfolding q0_def [symmetric]
    by (rule placedI) (use P(4-11) d w(7) in \<open>auto simp: w(1-6)\<close>)
  show "in_flight q" "FlushRq \<notin> set d" using f P(1) by (auto simp: dispatched_def)
qed

lemma flush_end_io_inv:
  assumes inv: "flush_inv q (FlushRq # d) tr"
  shows "\<exists>q'. flush_end_io K j error q = Some q' \<and> flush_inv q' d (Finish FlushRq error # tr)"
proof -
  have I: "placed q (FlushRq # d) {}" "hist q tr" "flush_since q (FlushRq # d) tr" using inv by (simp_all add: flush_inv_def)
  let ?q = "q\<lparr>flush_running_idx := flush_pending_idx q\<rparr>" and ?i = "flush_running_idx q" and ?tr = "Finish FlushRq error # tr"
  let ?rs = "flush_list q ?i"
  note R = remove_flush [OF I(1)]
  have idx: "flush_pending_idx q = (\<not> ?i)" using R(2) by auto
  have "hist q ?tr" by (rule hist_Cons [OF I(2)]) simp_all
  then have h: "hist ?q ?tr" using hist_frame [of ?q q] by simp
  have ne: "?rs \<noteq> []" using placedD(3) [OF I(1)] R(2) by simp
  have fl: "flushed (after (mark r p (fr_seq rq)) ?tr)"
    if "error = 0" "r \<in> set ?rs" "requests ?q r = Some rq" "Insert r p \<in> set ?tr" for r rq p
  proof -
    have "mark r p (fr_seq rq) \<noteq> Finish FlushRq 0" by (simp add: mark_def)
    moreover have "Start FlushRq \<in> set (after (mark r p (fr_seq rq)) tr)" using I(3) that by (simp add: flush_since_def)
    ultimately show ?thesis using flushed_Finish that(1) by (auto simp: after_Cons)
  qed
  have "\<exists>b q'. flush_walk (2 * length ?rs + 1) K j error ?i ?rs (False, ?q) = Some (b, q') \<and> placed q' d {} \<and>
    flush_list q' ?i = [] \<and> flush_running_idx q' = flush_running_idx ?q \<and> hist q' ?tr \<and> (?rs \<noteq> [] \<or> kicked ?q \<longrightarrow> kicked q')"
    by (rule flush_walk_spec) (use R(1) idx h fl in \<open>auto\<close>)
  then obtain b q' where q': "flush_walk (2 * length ?rs + 1) K j error ?i ?rs (False, ?q) = Some (b, q')" "placed q' d {}"
    "flush_list q' ?i = []" "flush_running_idx q' = (\<not> ?i)" "hist q' ?tr" "kicked q'"
    using ne idx by auto
  define n where "n = (if b \<or> flush_queue_delayed q' then 1 else 0 :: nat)"
  let ?q' = "q'\<lparr>run_queue_async := run_queue_async q' + n, flush_queue_delayed := False\<rparr>"
  have e: "flush_end_io K j error q = Some ?q'"
    using q'(1) idx by (simp add: flush_end_io_def Let_def n_def)
  have "placed ?q' d {}" using q'(2) placed_frame [of ?q' q'] by simp
  moreover have "one_list ?q'" "kicked ?q'" using q'(3, 4, 6) by (auto simp: one_list_def kicked_def)
  moreover have "hist ?q' ?tr" using q'(5) hist_frame [of ?q' q'] by simp
  ultimately show ?thesis using e R(3) by (simp add: flush_inv_def flush_since_def)
qed

subsection \<open>The other steps\<close>

lemma one_list_moves: "one_list q \<Longrightarrow> moves_to r rq0 s error q q' \<Longrightarrow> one_list q'"
  by (cases "flush_pending_idx q"; cases "flush_pending_idx q'"; cases "flush_running_idx q")
    (auto simp: one_list_def moves_to_def)

text \<open>Nothing that waits for the flush in flight is changed by the events of another request.\<close>

lemma since_moves:
  assumes f: "flush_since q d tr" and m: "moves_to r rq0 s error q q'" and fl: "FlushRq \<in> set d \<Longrightarrow> in_flight q"
    and x: "x = Insert r p \<or> x = Finish (Rq r) e"
  shows "flush_since q' d (x # tr)"
  unfolding flush_since_def
proof (intro impI ballI allI)
  fix r' rq p'
  assume a: "FlushRq \<in> set d" "r' \<in> set (flush_list q' (flush_running_idx q'))" "requests q' r' = Some rq"
    "Insert r' p' \<in> set (x # tr)"
  have l: "flush_list q' (flush_running_idx q') = removeAll r (flush_list q (flush_running_idx q))"
    using m fl a(1) by (auto simp: moves_to_def)
  then have r': "r' \<noteq> r" "r' \<in> set (flush_list q (flush_running_idx q))" using a(2) by auto
  then have "requests q r' = Some rq" using m a(3) by (auto simp: moves_to_def split: if_splits)
  moreover have "Insert r' p' \<in> set tr" using a(4) x r'(1) by auto
  ultimately have "Start FlushRq \<in> set (after (mark r' p' (fr_seq rq)) tr)" using f a(1) r'(2) by (simp add: flush_since_def)
  moreover have "x \<noteq> mark r' p' (fr_seq rq)" using x r'(1) by (auto simp: mark_def)
  ultimately show "Start FlushRq \<in> set (after (mark r' p' (fr_seq rq)) (x # tr))" by (simp add: after_Cons)
qed

text \<open>\<open>r\<close> has never been seen and is as \<^verbatim>\<open>__elv_add_request\<close> gets it.\<close>

definition new_rq :: "flush_queue \<Rightarrow> flush_event list \<Rightarrow> rqid \<Rightarrow> flush_rq \<Rightarrow> bool" where
  "new_rq q tr r rq \<longleftrightarrow>
     requests q r = None \<and> (\<forall>e \<in> set tr. \<forall>p. e \<noteq> Insert r p) \<and> fr_end_io rq = EndNull \<and> fr_bio rq \<noteq> None \<and>
     fr_biotail rq = fr_bio rq"

lemma new_not_ended: "hist q tr \<Longrightarrow> new_rq q tr r rq \<Longrightarrow> r \<notin> fst ` set (ended q)"
  using histD(3) by (fastforce simp: new_rq_def)

lemma hist_Insert:
  assumes h: "hist q tr" and n: "new_rq q tr r rq"
  shows "hist q (Insert r p # tr)"
proof -
  have ne: "r \<notin> fst ` set (ended q)" by (rule new_not_ended [OF assms])
  have live: "\<exists>p'. Insert r' p' \<in> set (Insert r p # tr) \<and> (if fr_end_io rq' = FlushDataEndIo
      then plan_ok (Insert r p # tr) r' p' (fr_seq rq') else p' = REQ_FSEQ_DATA)" if rq': "requests q r' = Some rq'" for r' rq'
  proof -
    have "r' \<noteq> r" using rq' n by (auto simp: new_rq_def)
    then have "plan_ok tr r' p' s \<Longrightarrow> plan_ok (Insert r p # tr) r' p' s" for p' s by (simp add: plan_ok_Cons)
    then show ?thesis using histD(2) [OF h rq'] by (auto split: if_splits)
  qed
  have "\<exists>p'. Insert r' p' \<in> set (Insert r p # tr) \<and> (e = 0 \<longrightarrow> plan_ok (Insert r p # tr) r' p' 7)"
    if e: "(r', e) \<in> set (ended q)" for r' e
  proof -
    have "r' \<noteq> r" using e ne by force
    then have "plan_ok tr r' p' s \<Longrightarrow> plan_ok (Insert r p # tr) r' p' s" for p' s by (simp add: plan_ok_Cons)
    then show ?thesis using histD(3) [OF h e] by auto
  qed
  moreover have "Insert r' p1 \<in> set (Insert r p # tr) \<Longrightarrow> Insert r' p2 \<in> set (Insert r p # tr) \<Longrightarrow> p1 = p2" for r' p1 p2
    using histD(1) [OF h] n by (auto simp: new_rq_def)
  ultimately show ?thesis using live unfolding hist_def by blast
qed

definition policy_ok :: "flags \<Rightarrow> bool" where
  "policy_ok p \<longleftrightarrow> (bit p 0 \<and> bit p 2 \<longrightarrow> bit p 1)"

lemma in_flight_driver: "placed q d X \<Longrightarrow> FlushRq \<in> set d \<Longrightarrow> in_flight q"
  using placedD(2) by (fastforce simp: dispatched_def)

lemma sequence_inv:
  assumes inv: "flush_inv q d tr" and n: "new_rq q tr r rq" and p: "policy_ok p"
    and rq1: "fr_end_io rq1 = FlushDataEndIo" "fr_seq rq1 = 0"
  shows "\<exists>b q'. blk_flush_complete_seq K j r (REQ_FSEQ_ACTIONS AND NOT p) 0 (set_request r rq1 q) = Some (b, q') \<and>
    flush_inv q' d (Insert r p # tr)"
proof -
  have I: "placed q d {}" "one_list q" "hist q tr" "flush_since q d tr" using inv by (simp_all add: flush_inv_def)
  let ?q = "set_request r rq1 q" and ?s = "7 AND NOT p" and ?tr = "Insert r p # tr"
  have t: "placed (flush_unlink r ?q) d {r}"
    by (rule take_new [OF I(1) _ new_not_ended [OF I(3) n] rq1(1)]) (use n in \<open>simp add: new_rq_def\<close>)
  have rq: "requests ?q r = Some rq1" by (simp add: set_request_def)
  obtain b q' where q': "blk_flush_complete_seq K j r ?s 0 ?q = Some (b, q')" "placed q' d {}" "kicked q'"
    "moves_to r rq1 ?s 0 ?q q'"
    using complete_spec [OF t rq rq1(1), of ?s K j 0] rq1(2) by (auto simp: bit_and_iff)
  have "plan_ok ?tr r p ?s" using p by (auto simp: plan_ok_def policy_ok_def bit_and_iff bit_not_iff possible_bit_def)
  moreover have "drop_rq r ?q = drop_rq r q" by (simp add: drop_rq_def set_request_def)
  ultimately have "hist q' ?tr"
    using hist_moves [OF _ rq1(1) q'(4), of ?tr p] hist_drop [OF hist_Insert [OF I(3) n, of p], of r] by simp
  moreover have "one_list q'" by (rule one_list_moves [OF _ q'(4)]) (use I(2) in \<open>simp add: one_list_def set_request_def\<close>)
  moreover have "flush_since ?q d tr"
  proof -
    have "at_stage q {0, 2} r' \<Longrightarrow> r' \<noteq> r" for r' using n by (auto simp: at_stage_def new_rq_def)
    moreover have "r' \<in> set (flush_list q i) \<Longrightarrow> at_stage q {0, 2} r'" for r' i
      using placedD(5) [OF I(1)] by (cases i) (auto simp: waits_flush_def)
    ultimately show ?thesis using I(4) unfolding flush_since_def set_request_def by fastforce
  qed
  then have "flush_since q' d ?tr"
    by (rule since_moves [OF _ q'(4)]) (use in_flight_driver [OF I(1)] in \<open>auto simp: set_request_def\<close>)
  ultimately show ?thesis using q' by (simp add: flush_inv_def actions_eq)
qed

text \<open>A request that needs no flush, and one that came through the elevator.\<close>

lemma since_queue:
  assumes "flush_since q d tr" "flush_list q' = flush_list q" "flush_running_idx q' = flush_running_idx q"
    "\<And>r. r \<in> set (flush_list q (flush_running_idx q)) \<Longrightarrow> requests q' r = requests q r"
    "\<And>r p s. r \<in> set (flush_list q (flush_running_idx q)) \<Longrightarrow> x \<noteq> Insert r p \<and> x \<noteq> Finish (Rq r) 0"
  shows "flush_since q' d (x # tr)"
  unfolding flush_since_def
proof (intro impI ballI allI)
  fix r rq p
  assume a: "FlushRq \<in> set d" "r \<in> set (flush_list q' (flush_running_idx q'))" "requests q' r = Some rq" "Insert r p \<in> set (x # tr)"
  then have r: "r \<in> set (flush_list q (flush_running_idx q))" using assms(2, 3) by simp
  have "x \<noteq> Insert r p" using assms(5) [OF r] by simp
  then have "Start FlushRq \<in> set (after (mark r p (fr_seq rq)) tr)"
    using a(1, 3, 4) r assms(1) assms(4) [OF r] by (auto simp: flush_since_def)
  moreover have "x \<noteq> mark r p (fr_seq rq)" using assms(5) [OF r] by (simp add: mark_def)
  ultimately show "Start FlushRq \<in> set (after (mark r p (fr_seq rq)) (x # tr))" by (simp add: after_Cons)
qed

lemma waits_seq:
  assumes "placed q d X" "r \<in> set (flush_list q i)"
  shows "at_stage q {0, 2} r" "Rq r \<notin> set (dispatched q d)"
  using placedD(5) [OF assms(1)] assms(2) by (cases i; auto simp: waits_flush_def)+

lemma plain_inv:
  assumes inv: "flush_inv q d tr" and n: "new_rq q tr r rq" and rq1: "fr_end_io rq1 = EndNull"
  shows "flush_inv (set_request r rq1 q\<lparr>queue_head := queue_head q @ [Rq r]\<rparr>) d (Insert r REQ_FSEQ_DATA # tr)"
proof -
  have I: "placed q d {}" "one_list q" "kicked q" "hist q tr" "flush_since q d tr" using inv by (simp_all add: flush_inv_def)
  define q' where "q' = set_request r rq1 q\<lparr>queue_head := queue_head q @ [Rq r]\<rparr>"
  note P = placedD [OF I(1)]
  have r: "requests q r = None" "r \<notin> fst ` set (ended q)" using n new_not_ended [OF I(4) n] by (auto simp: new_rq_def)
  have f: "flush_list q' = flush_list q" "flush_data_in_flight q' = flush_data_in_flight q" "ended q' = ended q"
    "requests q' = (requests q)(r \<mapsto> rq1)" "flush_pending_idx q' = flush_pending_idx q"
    "flush_running_idx q' = flush_running_idx q"
    by (simp_all add: q'_def set_request_def)
  have d: "set (dispatched q' d) = insert (Rq r) (set (dispatched q d))" by (auto simp: dispatched_def q'_def)
  have nd: "Rq r \<notin> set (dispatched q d)" using P(10) r by auto
  then have dd: "distinct (dispatched q' d)" using P(1) by (auto simp: dispatched_def q'_def)
  have w: "waits_flush q' = waits_flush q" unfolding waits_flush_def f by simp
  have a: "at_stage q S r' \<Longrightarrow> r' \<noteq> r \<and> at_stage q' S r'" for r' S using r unfolding at_stage_def f by auto
  have pl: "placed q' d {}"
  proof (rule placedI)
    show "\<forall>r'. waits_flush q' r' \<longrightarrow> at_stage q' {0, 2} r' \<and> Rq r' \<notin> set (dispatched q' d) \<and> r' \<notin> {}"
      using P(5) a unfolding w d by blast
    show "\<forall>r' \<in> set (flush_data_in_flight q'). at_stage q' {1} r' \<and> Rq r' \<in> set (dispatched q' d) \<and> r' \<notin> {}"
      using P(6) a unfolding f d by blast
  qed (use P r rq1 dd in \<open>auto simp: w f d split: if_splits\<close>)
  have "hist q' (Insert r REQ_FSEQ_DATA # tr)"
    by (rule hist_upd [OF hist_Insert [OF I(4) n, of REQ_FSEQ_DATA] f(4, 3), of REQ_FSEQ_DATA]) (use rq1 in simp_all)
  moreover have "flush_since q' d (Insert r REQ_FSEQ_DATA # tr)"
    by (rule since_queue [OF I(5)]) (use waits_seq(1) [OF I(1)] a f in fastforce)+
  ultimately show ?thesis using pl I(2, 3) f unfolding q'_def [symmetric] by (simp add: flush_inv_def one_list_def kicked_def)
qed

lemma insert_inv:
  assumes inv: "flush_inv q d tr" and n: "new_rq q tr r rq"
    and p: "p = blk_flush_policy K (flush_flags q) rq" "policy_ok p"
  shows "\<exists>q'. blk_insert_flush K j r (set_request r rq q) = Some q' \<and> flush_inv q' d (Insert r p # tr)"
proof -
  have bio: "fr_end_io rq = EndNull" "fr_bio rq \<noteq> None" "fr_biotail rq = fr_bio rq" using n by (simp_all add: new_rq_def)
  define fl where "fl = (if flush_flags q AND REQ_FUA K = 0 then (fr_cmd_flags rq AND NOT (REQ_FLUSH K)) AND NOT (REQ_FUA K)
    else fr_cmd_flags rq AND NOT (REQ_FLUSH K))"
  have pp: "blk_flush_policy K (flush_flags (set_request r rq q)) rq = p" using p by (simp add: set_request_def)
  show ?thesis
  proof (cases "p AND REQ_FSEQ_DATA \<noteq> 0 \<and> p AND (REQ_FSEQ_PREFLUSH OR REQ_FSEQ_POSTFLUSH) = 0")
    case True
    have "p = REQ_FSEQ_DATA" using True unfolding p(1) blk_flush_policy_def fseq_defs by (auto split: if_splits)
    moreover have "blk_insert_flush K j r (set_request r rq q) =
      Some (set_request r (rq\<lparr>fr_cmd_flags := fl\<rparr>) q\<lparr>queue_head := queue_head q @ [Rq r]\<rparr>)"
      using True bio pp by (auto simp: blk_insert_flush_def Let_def set_request_def fl_def)
    ultimately show ?thesis using plain_inv [OF inv n, of "rq\<lparr>fr_cmd_flags := fl\<rparr>"] bio by simp
  next
    case False
    let ?rq1 = "rq\<lparr>fr_cmd_flags := fl OR REQ_FLUSH_SEQ K, fr_end_io := FlushDataEndIo, fr_seq := 0\<rparr>"
    have "blk_insert_flush K j r (set_request r rq q) =
      map_option snd (blk_flush_complete_seq K j r (REQ_FSEQ_ACTIONS AND NOT p) 0 (set_request r ?rq1 q))"
      using False bio pp by (auto simp: blk_insert_flush_def Let_def set_request_def fl_def)
    then show ?thesis using sequence_inv [OF inv n p(2), of ?rq1 K j] by auto
  qed
qed

text \<open>The end of the data of a request of the machinery.\<close>

lemma plan_ok_data:
  assumes p: "plan_ok tr r p s" and st: "stage s = 1"
  shows "plan_ok (Finish (Rq r) 0 # tr) r p (s OR 2)"
proof -
  have "bit s 0" "\<not> bit s 1" "bit p 1" using p st [unfolded stage_bits(2)] by (auto simp: plan_ok_def)
  then show ?thesis using p by (auto simp: plan_ok_def bit_or_iff after_Cons intro: flushed_Cons)
qed

lemma data_end_inv:
  assumes inv: "flush_inv q (Rq r # d) tr" and rq: "requests q r = Some rq" "fr_end_io rq = FlushDataEndIo"
  shows "\<exists>q'. flush_data_end_io K j r error (set_request r (rq\<lparr>fr_bio := None\<rparr>) q) = Some q' \<and>
    flush_inv q' d (Finish (Rq r) error # tr)"
proof -
  have I: "placed q (Rq r # d) {}" "one_list q" "hist q tr" "flush_since q (Rq r # d) tr" using inv by (simp_all add: flush_inv_def)
  note P = placedD [OF I(1)]
  let ?rq = "rq\<lparr>fr_bio := None\<rparr>" and ?tr = "Finish (Rq r) error # tr"
  define q0 where "q0 = set_request r ?rq q"
  have f: "flush_list q0 = flush_list q" "flush_data_in_flight q0 = flush_data_in_flight q" "ended q0 = ended q"
    "requests q0 = (requests q)(r \<mapsto> ?rq)" "flush_pending_idx q0 = flush_pending_idx q"
    "flush_running_idx q0 = flush_running_idx q" "dispatched q0 d' = dispatched q d'" for d'
    by (simp_all add: q0_def set_request_def dispatched_def)
  have w: "waits_flush q0 = waits_flush q" "at_stage q0 = at_stage q"
    using rq by (auto simp: waits_flush_def at_stage_def f fun_eq_iff)
  have p0: "placed q0 (Rq r # d) {}"
    by (rule placedI) (use P rq in \<open>auto simp: w f split: if_splits\<close>)
  have nw: "\<not> waits_flush q r" using P(5) by (auto simp: dispatched_def)
  then have rd: "r \<in> set (flush_data_in_flight q)" using P(8) rq by auto
  then have st: "stage (fr_seq rq) = 1" "\<not> bit (fr_seq rq) 3" using P(6) rq(1) by (auto simp: at_stage_def)
  have sq: "fr_seq ?rq AND REQ_FSEQ_DATA = 0" "\<not> bit (fr_seq ?rq OR REQ_FSEQ_DATA) 3"
    using st(1) [unfolded stage_bits(2)] st(2) and_exp_eq_0_iff_not_bit [of "fr_seq rq" 1]
    by (auto simp: fseq_defs bit_or_iff)
  obtain b q1 where q1: "blk_flush_complete_seq K j r REQ_FSEQ_DATA error q0 = Some (b, q1)" "placed q1 d {}" "kicked q1"
    "moves_to r ?rq (fr_seq ?rq OR REQ_FSEQ_DATA) error q0 q1"
    using complete_spec [OF take_data [OF p0] _ _ sq, of K j error] rd rq by (auto simp: f)
  obtain p where p: "Insert r p \<in> set tr" "plan_ok tr r p (fr_seq rq)" using histD(2) [OF I(3) rq(1)] rq(2) by auto
  have "drop_rq r q0 = drop_rq r q" by (simp add: drop_rq_def q0_def set_request_def)
  moreover have "r \<notin> fst ` set (ended q)" using P(7) rq(1) by simp
  ultimately have hd: "hist (drop_rq r q0) ?tr"
    by (simp add: drop_rq_def) (rule hist_Cons, use hist_drop [OF I(3), of r] in \<open>auto simp: drop_rq_def\<close>)
  have "hist q1 ?tr" by (rule hist_moves [OF hd _ q1(4), of p]) (use rq p plan_ok_data [OF p(2) st(1)] in \<open>auto simp: fseq_defs\<close>)
  moreover have "one_list q1" by (rule one_list_moves [OF _ q1(4)]) (use I(2) in \<open>simp add: one_list_def f\<close>)
  moreover have "flush_since q0 d tr"
  proof -
    have "r' \<in> set (flush_list q i) \<Longrightarrow> requests q0 r' = requests q r'" for r' i
      using nw by (cases i) (auto simp: waits_flush_def f)
    then show ?thesis using I(4) by (auto simp: flush_since_def f(1, 6))
  qed
  then have "flush_since q1 d ?tr"
    by (rule since_moves [OF _ q1(4)]) (use in_flight_driver [OF I(1)] in \<open>auto simp: f\<close>)
  ultimately have "flush_inv q1 d ?tr" using q1 by (simp add: flush_inv_def)
  moreover define q2 where "q2 = q1\<lparr>run_queue_async := run_queue_async q1 + (if b then 1 else 0)\<rparr>"
  moreover have "flush_data_end_io K j r error q0 = Some q2" using q1(1) by (simp add: flush_data_end_io_def q2_def)
  ultimately show ?thesis using placed_frame [of q2 q1 d "{}"] hist_frame [of q2 q1]
    unfolding q0_def [symmetric] by (auto simp: flush_inv_def kicked_def one_list_def flush_since_def)
qed

text \<open>The driver takes a request, puts it back, and ends one that does not belong to the machinery.\<close>

lemma placed_cong:
  assumes "distinct (dispatched q' d')" "set (dispatched q' d') = set (dispatched q d)"
    "flush_list q' = flush_list q" "flush_data_in_flight q' = flush_data_in_flight q" "requests q' = requests q"
    "ended q' = ended q" "flush_pending_idx q' = flush_pending_idx q" "flush_running_idx q' = flush_running_idx q"
  shows "placed q d X \<Longrightarrow> placed q' d' X"
  using assms(1) unfolding placed_def waits_flush_def at_stage_def assms(2-) by blast

lemma start_inv:
  assumes inv: "flush_inv q d tr" and e: "queue_head q = e # es"
  shows "flush_inv (q\<lparr>queue_head := es\<rparr>) (e # d) (Start e # tr)"
proof -
  have I: "placed q d {}" "one_list q" "kicked q" "hist q tr" "flush_since q d tr" using inv by (simp_all add: flush_inv_def)
  let ?q = "q\<lparr>queue_head := es\<rparr>"
  have "placed ?q (e # d) {}"
    by (rule placed_cong [OF _ _ _ _ _ _ _ _ I(1)]) (use placedD(1) [OF I(1)] in \<open>auto simp: dispatched_def e\<close>)
  moreover have "hist q (Start e # tr)" by (rule hist_Cons [OF I(4)]) simp_all
  then have "hist ?q (Start e # tr)" using hist_frame [of ?q q] by simp
  moreover have "flush_since ?q (e # d) (Start e # tr)"
  proof (cases "e = FlushRq")
    case True
    then show ?thesis by (simp add: flush_since_def after_Cons mark_def)
  next
    case False
    then show ?thesis using I(5) by (auto simp: flush_since_def after_Cons mark_def)
  qed
  ultimately show ?thesis using I by (simp add: flush_inv_def one_list_def kicked_def)
qed

lemma driver_perm:
  assumes inv: "flush_inv q (d1 @ e # d2) tr"
  shows "flush_inv q (e # d1 @ d2) tr"
proof -
  have "placed q (e # d1 @ d2) {}"
    by (rule placed_cong [of _ _ q "d1 @ e # d2"])
      (use inv placedD(1) [of q "d1 @ e # d2"] in \<open>auto simp: flush_inv_def dispatched_def\<close>)
  then show ?thesis using inv by (simp add: flush_inv_def flush_since_def)
qed

lemma requeue_inv:
  assumes inv: "flush_inv q (e # d) tr"
  shows "flush_inv (q\<lparr>queue_head := e # queue_head q\<rparr>) d tr"
proof -
  have I: "placed q (e # d) {}" "one_list q" "kicked q" "hist q tr" "flush_since q (e # d) tr"
    using inv by (simp_all add: flush_inv_def)
  let ?q = "q\<lparr>queue_head := e # queue_head q\<rparr>"
  have "placed ?q d {}"
    by (rule placed_cong [OF _ _ _ _ _ _ _ _ I(1)]) (use placedD(1) [OF I(1)] in \<open>auto simp: dispatched_def\<close>)
  then show ?thesis using I hist_frame [of ?q q] by (simp add: flush_inv_def one_list_def kicked_def flush_since_def)
qed

lemma plain_end_inv:
  assumes inv: "flush_inv q (Rq r # d) tr" and rq: "requests q r = Some rq" "fr_end_io rq \<noteq> FlushDataEndIo"
  shows "flush_inv (end_request_all r error q) d (Finish (Rq r) error # tr)"
proof -
  have I: "placed q (Rq r # d) {}" "one_list q" "kicked q" "hist q tr" "flush_since q (Rq r # d) tr"
    using inv by (simp_all add: flush_inv_def)
  note P = placedD [OF I(1)]
  let ?tr = "Finish (Rq r) error # tr"
  define q' where "q' = end_request_all r error q"
  have f: "flush_list q' = flush_list q" "flush_data_in_flight q' = flush_data_in_flight q" "ended q' = ended q @ [(r, error)]"
    "requests q' = (requests q)(r := None)" "flush_pending_idx q' = flush_pending_idx q"
    "flush_running_idx q' = flush_running_idx q" "dispatched q' d' = dispatched q d'" for d'
    by (simp_all add: q'_def end_request_all_def dispatched_def)
  have d: "set (dispatched q (Rq r # d)) = insert (Rq r) (set (dispatched q d))" "Rq r \<notin> set (dispatched q d)"
    "distinct (dispatched q d)"
    using P(1) by (auto simp: dispatched_def)
  have w: "waits_flush q' = waits_flush q" unfolding waits_flush_def f by simp
  have a: "at_stage q S r' \<Longrightarrow> r' \<noteq> r \<and> at_stage q' S r'" for r' S using rq unfolding at_stage_def f by auto
  have pl: "placed q' d {}"
  proof (rule placedI)
    show "\<forall>r'. waits_flush q' r' \<longrightarrow> at_stage q' {0, 2} r' \<and> Rq r' \<notin> set (dispatched q' d) \<and> r' \<notin> {}"
      using P(5) a unfolding w d f by blast
    show "\<forall>r' \<in> set (flush_data_in_flight q'). at_stage q' {1} r' \<and> Rq r' \<in> set (dispatched q' d) \<and> r' \<notin> {}"
      using P(6) a unfolding f d by blast
    show "distinct (map fst (ended q'))" using P(7, 11) rq by (auto simp: f)
  qed (use P d in \<open>auto simp: w f split: if_splits\<close>)
  obtain p where p: "Insert r p \<in> set tr" "p = REQ_FSEQ_DATA" using histD(2) [OF I(4) rq(1)] rq(2) by auto
  have "hist (drop_rq r q) ?tr"
    by (rule hist_Cons [OF hist_drop [OF I(4)]]) (use P(7) rq in \<open>auto simp: drop_rq_def\<close>)
  moreover have "error = 0 \<longrightarrow> plan_ok ?tr r p 7" by (simp add: p plan_ok_def fseq_defs)
  ultimately have "hist q' ?tr" using p(1) unfolding hist_def f drop_rq_def by auto
  moreover have "flush_since q d tr" using I(5) by (simp add: flush_since_def)
  then have "flush_since q' d ?tr"
    by (rule since_queue) (use waits_seq(1) [OF I(1)] a f in fastforce)+
  ultimately show ?thesis using pl I(2, 3) unfolding q'_def [symmetric] by (simp add: flush_inv_def one_list_def kicked_def f)
qed

end
