(* ===== verification/Flush_Theorems.thy ===== *)
theory Flush_Theorems
  imports Flush_Correct
begin

text \<open>
  The properties of the flush machinery in every state that insertions, the driver and changes of the
  flags of the queue can reach.
\<close>

definition flush_init :: "flags \<Rightarrow> flush_queue" where
  "flush_init fl =
     \<lparr>flush_flags = fl, flush_list = (\<lambda>i. []), flush_pending_idx = False, flush_running_idx = False,
      flush_pending_since = 0, flush_data_in_flight = [], flush_queue_delayed = False, queue_head = [],
      requests = (\<lambda>r. None), ended = [], run_queue_async = 0\<rparr>"

text \<open>
  The clock may show anything at each step. A request with a flush before and a flush after is one that
  has data: without data the second flush would have nothing to make durable.
\<close>

inductive flush_reach :: "blk_hdr \<Rightarrow> flush_queue \<Rightarrow> entry list \<Rightarrow> flush_event list \<Rightarrow> bool" for K where
  init: "flush_reach K (flush_init fl) [] []"
| insert: "flush_reach K q d tr \<Longrightarrow> new_rq q tr r rq \<Longrightarrow> p = blk_flush_policy K (flush_flags q) rq \<Longrightarrow> policy_ok p \<Longrightarrow>
    blk_insert_flush K j r (set_request r rq q) = Some q' \<Longrightarrow> flush_reach K q' d (Insert r p # tr)"
| plain: "flush_reach K q d tr \<Longrightarrow> new_rq q tr r rq \<Longrightarrow>
    flush_reach K (set_request r rq q\<lparr>queue_head := queue_head q @ [Rq r]\<rparr>) d (Insert r REQ_FSEQ_DATA # tr)"
| start: "flush_reach K q d tr \<Longrightarrow> queue_head q = e # es \<Longrightarrow>
    flush_reach K (q\<lparr>queue_head := es\<rparr>) (e # d) (Start e # tr)"
| requeue: "flush_reach K q (d1 @ e # d2) tr \<Longrightarrow>
    flush_reach K (q\<lparr>queue_head := e # queue_head q\<rparr>) (d1 @ d2) tr"
| flush_done: "flush_reach K q (d1 @ FlushRq # d2) tr \<Longrightarrow> flush_end_io K j error q = Some q' \<Longrightarrow>
    flush_reach K q' (d1 @ d2) (Finish FlushRq error # tr)"
| data_done: "flush_reach K q (d1 @ Rq r # d2) tr \<Longrightarrow> requests q r = Some rq \<Longrightarrow> fr_end_io rq = FlushDataEndIo \<Longrightarrow>
    flush_data_end_io K j r error (set_request r (rq\<lparr>fr_bio := None\<rparr>) q) = Some q' \<Longrightarrow>
    flush_reach K q' (d1 @ d2) (Finish (Rq r) error # tr)"
| plain_done: "flush_reach K q (d1 @ Rq r # d2) tr \<Longrightarrow> requests q r = Some rq \<Longrightarrow> fr_end_io rq = EndNull \<Longrightarrow>
    flush_reach K (end_request_all r error q) (d1 @ d2) (Finish (Rq r) error # tr)"
| config: "flush_reach K q d tr \<Longrightarrow> flush_reach K (q\<lparr>flush_flags := fl, flush_queue_delayed := b\<rparr>) d tr"

lemma flush_init_inv: "flush_inv (flush_init fl) [] []"
  by (simp add: flush_inv_def placed_def kicked_def one_list_def hist_def flush_since_def flush_init_def dispatched_def
      waits_flush_def)

lemma flush_reach_inv:
  assumes "flush_reach K q d tr"
  shows "flush_inv q d tr"
  using assms
proof induction
  case (insert q d tr r rq p j q')
  then show ?case using insert_inv [OF insert.IH insert.hyps(2, 3, 4), of j] by simp
next
  case (plain q d tr r rq)
  then show ?case using plain_inv [OF plain.IH plain.hyps(2), of rq] by (simp add: new_rq_def)
next
  case (requeue q d1 e d2 tr)
  then show ?case by (intro requeue_inv driver_perm)
next
  case (flush_done q d1 d2 tr j error q')
  then show ?case using flush_end_io_inv [OF driver_perm [OF flush_done.IH], of K j error] by simp
next
  case (data_done q d1 r d2 tr rq j error q')
  then show ?case using data_end_inv [OF driver_perm [OF data_done.IH], of rq K j error] by simp
next
  case (plain_done q d1 r d2 tr rq error)
  then show ?case using plain_end_inv [OF driver_perm [OF plain_done.IH], of rq error] by simp
next
  case (config q d tr b fl)
  then show ?case using placed_frame [of "q\<lparr>flush_flags := fl, flush_queue_delayed := b\<rparr>" q d "{}"]
    hist_frame [of "q\<lparr>flush_flags := fl, flush_queue_delayed := b\<rparr>" q]
    by (simp add: flush_inv_def kicked_def one_list_def flush_since_def)
qed (auto intro: flush_init_inv start_inv)

subsection \<open>A run\<close>

definition example_blk_hdr :: blk_hdr where
  "example_blk_hdr =
     \<lparr>REQ_FLUSH = 1, REQ_FUA = 2, REQ_FLUSH_SEQ = 4, REQ_DISCARD = 8, REQ_SECURE = 16, REQ_SORTED = 32,
      REQ_SOFTBARRIER = 64, REQ_STARTED = 128, REQ_QUEUED = 256, REQ_ELVPRIV = 512, HZ = 100\<rparr>"

text \<open>A write with FLUSH and FUA on a queue that has a write cache and no FUA, up to its completion.\<close>

definition example_rq :: flush_rq where
  "example_rq = \<lparr>fr_cmd_flags = 3, fr_sectors = 8, fr_bio = Some 1, fr_biotail = Some 1, fr_end_io = EndNull, fr_seq = 0\<rparr>"

definition example_q :: "flags \<Rightarrow> nat \<Rightarrow> flush_queue" where
  "example_q s n = (flush_init 1)\<lparr>requests := [1 \<mapsto> example_rq\<lparr>fr_cmd_flags := 4, fr_end_io := FlushDataEndIo, fr_seq := s\<rparr>],
     run_queue_async := n\<rparr>"

definition example_q1 :: flush_queue where
  "example_q1 = (example_q 0 0)\<lparr>flush_list := (\<lambda>i. if i then [] else [1]), flush_pending_idx := True, queue_head := [FlushRq]\<rparr>"

definition example_q2 :: flush_queue where
  "example_q2 = (example_q 1 1)\<lparr>flush_pending_idx := True, flush_running_idx := True, flush_data_in_flight := [1],
     queue_head := [Rq 1]\<rparr>"

definition example_q3 :: flush_queue where
  "example_q3 = (example_q 3 2)\<lparr>flush_list := (\<lambda>i. if i then [1] else []), flush_running_idx := True, queue_head := [FlushRq],
     requests := [1 \<mapsto> example_rq\<lparr>fr_cmd_flags := 4, fr_end_io := FlushDataEndIo, fr_seq := 3, fr_bio := None\<rparr>]\<rparr>"

definition example_q4 :: flush_queue where
  "example_q4 = (flush_init 1)\<lparr>ended := [(1, 0)], run_queue_async := 2\<rparr>"

lemma ffz_values: "ffz 0 = 0" "ffz 1 = 1" "ffz 3 = 2" "ffz 7 = 3"
  by (simp_all add: ffz_def upt_conv_Cons)

lemmas example_defs = example_q_def example_q1_def example_q2_def example_q3_def example_q4_def example_rq_def
  example_blk_hdr_def flush_init_def
lemmas flush_code = blk_insert_flush_def blk_flush_complete_seq_def blk_kick_flush_def blk_flush_policy_def flush_end_io_def
  flush_data_end_io_def blk_flush_cur_seq_def ffz_values set_request_def flush_unlink_def end_request_all_def
  blk_flush_restore_request_def fseq_defs actions_eq Let_def

lemma example_insert: "blk_insert_flush example_blk_hdr 0 1 (set_request 1 example_rq (flush_init 1)) = Some example_q1"
  by (simp add: flush_code example_defs fun_eq_iff)

lemma walk_one:
  "flush_walk 3 K j error i [r] (b, q) =
     (case requests q r of None \<Rightarrow> None
      | Some rq \<Rightarrow>
        if blk_flush_cur_seq rq \<noteq> REQ_FSEQ_PREFLUSH \<and> blk_flush_cur_seq rq \<noteq> REQ_FSEQ_POSTFLUSH then None
        else map_option (\<lambda>(k, q'). (b \<or> k, q')) (blk_flush_complete_seq K j r (blk_flush_cur_seq rq) error q))"
  by (auto simp: numeral_3_eq_3 Let_def split: option.split)

lemma example_flush: "flush_end_io example_blk_hdr 0 0 (example_q1\<lparr>queue_head := []\<rparr>) = Some example_q2"
  by (simp add: flush_code walk_one example_defs fun_eq_iff)

lemma example_data: "flush_data_end_io example_blk_hdr 0 1 0
    (set_request 1 (example_rq\<lparr>fr_cmd_flags := 4, fr_end_io := FlushDataEndIo, fr_seq := 1, fr_bio := None\<rparr>)
      (example_q2\<lparr>queue_head := []\<rparr>)) = Some example_q3"
  by (simp add: flush_code example_defs fun_eq_iff)

lemma example_end: "flush_end_io example_blk_hdr 0 0 (example_q3\<lparr>queue_head := []\<rparr>) = Some example_q4"
  by (simp add: flush_code walk_one example_defs fun_eq_iff)

lemma example_new: "new_rq (flush_init 1) [] 1 example_rq" "policy_ok 7"
    "blk_flush_policy example_blk_hdr (flush_flags (flush_init 1)) example_rq = 7"
  by (simp_all add: new_rq_def policy_ok_def flush_init_def example_rq_def example_blk_hdr_def blk_flush_policy_def fseq_defs)

definition example_tr2 :: "flush_event list" where
  "example_tr2 = [Finish FlushRq 0, Start FlushRq, Insert 1 7]"

definition example_tr4 :: "flush_event list" where
  "example_tr4 = [Finish FlushRq 0, Start FlushRq, Finish (Rq 1) 0, Start (Rq 1)] @ example_tr2"

lemma example_reach2: "flush_reach example_blk_hdr example_q2 [] example_tr2"
proof -
  have "flush_reach example_blk_hdr example_q1 [] [Insert 1 7]"
    by (rule flush_reach.insert [OF flush_reach.init example_new(1) example_new(3) [symmetric] example_new(2) example_insert])
  then have "flush_reach example_blk_hdr (example_q1\<lparr>queue_head := []\<rparr>) ([] @ FlushRq # []) [Start FlushRq, Insert 1 7]"
    using flush_reach.start [of example_blk_hdr example_q1 "[]" _ FlushRq "[]"] by (simp add: example_q1_def)
  from flush_reach.flush_done [OF this example_flush] show ?thesis by (simp add: example_tr2_def)
qed

lemma example_reach4: "flush_reach example_blk_hdr example_q4 [] example_tr4"
proof -
  have "flush_reach example_blk_hdr (example_q2\<lparr>queue_head := []\<rparr>) ([] @ Rq 1 # []) (Start (Rq 1) # example_tr2)"
    using flush_reach.start [OF example_reach2, of "Rq 1" "[]"] by (simp add: example_q2_def)
  then have "flush_reach example_blk_hdr example_q3 ([] @ []) ([Finish (Rq 1) 0, Start (Rq 1)] @ example_tr2)"
    using flush_reach.data_done [OF _ _ _ example_data, of "[]" "[]" "Start (Rq 1) # example_tr2"]
    by (simp add: example_q2_def example_q_def)
  then have "flush_reach example_blk_hdr (example_q3\<lparr>queue_head := []\<rparr>) ([] @ FlushRq # [])
    ([Start FlushRq, Finish (Rq 1) 0, Start (Rq 1)] @ example_tr2)"
    using flush_reach.start [of example_blk_hdr example_q3 "[]" _ FlushRq "[]"] by (simp add: example_q3_def)
  from flush_reach.flush_done [OF this example_end] show ?thesis by (simp add: example_tr4_def)
qed

subsection \<open>Properties\<close>

text \<open>
  C21. The order a request asks for is kept. A request whose policy has a flush before (bit 0) is dispatched
  for its data only when a flush that the driver began after the insertion has ended with success. A
  request that is completed with success has had that flush, its data has been written when it has any
  (bit 1), and when it asks for a flush after (bit 2), one began after the data was written and ended
  with success before the completion. The requests inserted are new ones with one bio (\<open>new_rq\<close>), and
  those that ask for both flushes and have no data are left out (\<open>policy_ok\<close>).
\<close>

theorem flush_order:
  assumes "flush_reach K q d tr" and "Insert r p \<in> set tr"
  shows "(Rq r \<in> set (queue_head q @ d) \<and> bit p 0 \<longrightarrow> flushed (after (Insert r p) tr)) \<and>
    ((r, 0) \<in> set (ended q) \<longrightarrow>
       (bit p 0 \<longrightarrow> flushed (after (Insert r p) tr)) \<and> (bit p 1 \<longrightarrow> Finish (Rq r) 0 \<in> set tr) \<and>
       (bit p 2 \<longrightarrow> flushed (after (if bit p 1 then Finish (Rq r) 0 else Insert r p) tr)))"
proof -
  have I: "placed q d {}" "hist q tr" using flush_reach_inv [OF assms(1)] by (simp_all add: flush_inv_def)
  note P = placedD [OF I(1)]
  have same: "Insert r p' \<in> set tr \<Longrightarrow> p' = p" for p' using histD(1) [OF I(2)] assms(2) by blast
  have "flushed (after (Insert r p) tr)" if r: "Rq r \<in> set (queue_head q @ d)" "bit p 0"
  proof -
    obtain rq where rq: "requests q r = Some rq" using P(10) r(1) by (auto simp: dispatched_def)
    have p: "if fr_end_io rq = FlushDataEndIo then plan_ok tr r p (fr_seq rq) else p = REQ_FSEQ_DATA"
      using histD(2) [OF I(2) rq] same by auto
    then have "fr_end_io rq = FlushDataEndIo" using r(2) by (auto simp: fseq_defs split: if_splits)
    moreover from this have "r \<in> set (flush_data_in_flight q)" using P(5, 8) rq r(1) by (auto simp: dispatched_def)
    then have "stage (fr_seq rq) = 1" using P(6) rq by (auto simp: at_stage_def)
    ultimately show ?thesis using p r(2) unfolding stage_bits by (simp add: plan_ok_def)
  qed
  moreover have "plan_ok tr r p 7" if "(r, 0) \<in> set (ended q)" using histD(3) [OF I(2) that] same by auto
  ultimately show ?thesis by (auto simp: plan_ok_def mark_def)
qed

theorem flush_order_witness:
  "flush_reach example_blk_hdr example_q4 [] example_tr4 \<and> (1, 0) \<in> set (ended example_q4) \<and>
   flushed (after (Finish (Rq 1) 0) example_tr4)"
proof -
  have i: "Insert 1 7 \<in> set example_tr4" by (simp add: example_tr4_def example_tr2_def)
  have e: "(1, 0) \<in> set (ended example_q4)" by (simp add: example_q4_def)
  have "flushed (after (Finish (Rq 1) 0) example_tr4)" using flush_order [OF example_reach4 i] e by simp
  then show ?thesis using example_reach4 e by simp
qed

text \<open>
  C22. No \<^verbatim>\<open>BUG_ON\<close> of the machinery fails: the end of the flush request, the end of the data of a request and
  the insertion of a new one (\<open>new_rq\<close>: never seen, with one bio; \<open>policy_ok\<close>: not both flushes without data)
  return from every state reachable with such requests, whatever the time and the error.
  Every live request is in exactly one place, waiting for a flush or dispatched, never both; the flush
  request is dispatched exactly while the two indices differ, and no request is ended twice.
\<close>

theorem flush_machine_safe:
  assumes "flush_reach K q d tr"
  shows "(FlushRq \<in> set d \<longrightarrow> flush_end_io K j error q \<noteq> None) \<and>
    (\<forall>r rq. Rq r \<in> set d \<longrightarrow> requests q r = Some rq \<longrightarrow> fr_end_io rq = FlushDataEndIo \<longrightarrow>
       flush_data_end_io K j r error (set_request r (rq\<lparr>fr_bio := None\<rparr>) q) \<noteq> None) \<and>
    (\<forall>r rq. new_rq q tr r rq \<longrightarrow> policy_ok (blk_flush_policy K (flush_flags q) rq) \<longrightarrow>
       blk_insert_flush K j r (set_request r rq q) \<noteq> None) \<and>
    (\<forall>r. requests q r \<noteq> None \<longrightarrow>
       (r \<in> set (flush_list q False @ flush_list q True)) \<noteq> (Rq r \<in> set (queue_head q @ d)) \<and> r \<notin> fst ` set (ended q)) \<and>
    distinct (queue_head q @ d) \<and> distinct (map fst (ended q)) \<and>
    (FlushRq \<in> set (queue_head q @ d) \<longleftrightarrow> flush_pending_idx q \<noteq> flush_running_idx q)"
proof -
  have inv: "flush_inv q d tr" by (rule flush_reach_inv [OF assms])
  then have pl: "placed q d {}" by (simp add: flush_inv_def)
  note P = placedD [OF pl, unfolded dispatched_def waits_flush_def]
  have "flush_end_io K j error q \<noteq> None" if "FlushRq \<in> set d"
    using split_list [OF that] flush_end_io_inv [OF driver_perm, of q _ _ tr K j error] inv by blast
  moreover have "flush_data_end_io K j r error (set_request r (rq\<lparr>fr_bio := None\<rparr>) q) \<noteq> None"
    if "Rq r \<in> set d" "requests q r = Some rq" "fr_end_io rq = FlushDataEndIo" for r rq
    using split_list [OF that(1)] data_end_inv [OF driver_perm that(2, 3), of _ _ tr K j error] inv by blast
  moreover have "blk_insert_flush K j r (set_request r rq q) \<noteq> None"
    if "new_rq q tr r rq" "policy_ok (blk_flush_policy K (flush_flags q) rq)" for r rq
    using insert_inv [OF inv that(1) HOL.refl that(2), of j] by blast
  moreover have "(r \<in> set (flush_list q False @ flush_list q True)) \<noteq> (Rq r \<in> set (queue_head q @ d)) \<and> r \<notin> fst ` set (ended q)"
    if "requests q r \<noteq> None" for r
    using that P(5, 6, 7, 8, 9) by (metis Un_iff empty_iff not_None_eq set_append)
  ultimately show ?thesis using P(1, 2, 11) by blast
qed

theorem flush_machine_safe_witness:
  "flush_reach example_blk_hdr example_q2 [] example_tr2 \<and> requests example_q2 1 \<noteq> None \<and> 1 \<notin> fst ` set (ended example_q2)"
proof -
  have "requests example_q2 1 \<noteq> None" by (simp add: example_q2_def example_q_def)
  then show ?thesis using flush_machine_safe [OF example_reach2] example_reach2 by blast
qed

text \<open>
  C23. Nothing stalls. When a request waits for a flush, the flush request is dispatched, or data of the
  machinery is, whose end considers the flush again; and when the dispatch queue is empty and the
  driver has nothing left, every request that was ever inserted has been ended.
\<close>

theorem flush_no_stall:
  assumes "flush_reach K q d tr"
  shows "(r \<in> set (flush_list q False @ flush_list q True) \<longrightarrow>
      FlushRq \<in> set (queue_head q @ d) \<or> (\<exists>r'. Rq r' \<in> set (queue_head q @ d) \<and> r' \<in> set (flush_data_in_flight q))) \<and>
    (queue_head q = [] \<and> d = [] \<longrightarrow> (\<forall>r. requests q r = None))"
proof -
  have I: "placed q d {}" "kicked q" "one_list q" using flush_reach_inv [OF assms] by (simp_all add: flush_inv_def)
  note P = placedD [OF I(1), unfolded dispatched_def waits_flush_def]
  have w: "FlushRq \<in> set (queue_head q @ d) \<or> (\<exists>r'. Rq r' \<in> set (queue_head q @ d) \<and> r' \<in> set (flush_data_in_flight q))"
    if r: "r \<in> set (flush_list q False @ flush_list q True)" for r
  proof (cases "in_flight q")
    case True
    then show ?thesis using P(2) by blast
  next
    case False
    have "flush_list q (flush_pending_idx q) \<noteq> []"
      using I(3) False r by (cases "flush_pending_idx q") (auto simp: one_list_def)
    then have "flush_data_in_flight q \<noteq> []" using I(2) False by (simp add: kicked_def)
    then show ?thesis using P(6) by (metis last_in_set)
  qed
  have "requests q r = None" if e: "queue_head q = []" "d = []" for r
  proof (rule ccontr)
    assume "requests q r \<noteq> None"
    then have "r \<in> set (flush_list q False @ flush_list q True)" using P(6, 8, 9) e by (auto simp: e)
    then show False using w e by fastforce
  qed
  then show ?thesis using w by blast
qed

theorem flush_no_stall_witness:
  "flush_reach example_blk_hdr example_q4 [] example_tr4 \<and> queue_head example_q4 = [] \<and> requests example_q4 1 = None"
proof -
  have "queue_head example_q4 = []" by (simp add: example_q4_def flush_init_def)
  then show ?thesis using flush_no_stall [OF example_reach4] example_reach4 by simp
qed

text \<open>
  C24. On a queue without a write cache a request with FLUSH or FUA that has data is not written: the policy
  is empty also for its data, so the insertion completes it with success at once and the driver never
  sees it.
\<close>

theorem flush_data_dropped:
  assumes "flush_reach K q d tr" and "new_rq q tr r rq" and "flush_flags q AND REQ_FLUSH K = 0" and "fr_sectors rq \<noteq> 0"
  shows "\<exists>q'. blk_insert_flush K j r (set_request r rq q) = Some q' \<and> (r, 0) \<in> set (ended q') \<and> Rq r \<notin> set (queue_head q')"
proof -
  have inv: "flush_inv q d tr" by (rule flush_reach_inv [OF assms(1)])
  have p: "blk_flush_policy K (flush_flags q) rq = 0" using assms(3) by (simp add: blk_flush_policy_def)
  obtain q' where q': "blk_insert_flush K j r (set_request r rq q) = Some q'" "flush_inv q' d (Insert r 0 # tr)"
    using insert_inv [OF inv assms(2) HOL.refl, of K j] p by (auto simp: policy_ok_def)
  have st: "blk_flush_cur_seq (rq'\<lparr>fr_seq := 7\<rparr>) = 8" for rq' by (simp add: blk_flush_cur_seq_def ffz_values)
  have kick: "blk_kick_flush K j q0 = (a, q1) \<Longrightarrow> ended q1 = ended q0" for q0 q1 a
    by (auto simp: blk_kick_flush_def split: if_splits)
  have p': "blk_flush_policy K (flush_flags (set_request r rq q)) rq = 0" using p by (simp add: set_request_def)
  have "(r, 0) \<in> set (ended q')"
    using q'(1) assms(2) p'
    by (auto simp: blk_insert_flush_def Let_def new_rq_def blk_flush_complete_seq_def set_request_def actions_eq fseq_defs st
        end_request_all_def split: if_splits prod.splits dest!: kick)
  moreover have "placed q' d {}" using q'(2) by (simp add: flush_inv_def)
  moreover have "requests q' r = None" using placedD(7) [OF \<open>placed q' d {}\<close>] \<open>(r, 0) \<in> set (ended q')\<close>
    by (metis fst_conv image_eqI not_None_eq)
  ultimately show ?thesis using placedD(10) [of q' d "{}"] q'(1) by (auto simp: dispatched_def)
qed

theorem flush_data_dropped_witness:
  "\<exists>q'. blk_insert_flush example_blk_hdr 0 1 (set_request 1 example_rq (flush_init 0)) = Some q' \<and> (1, 0) \<in> set (ended q') \<and>
     Rq 1 \<notin> set (queue_head q')"
  by (rule flush_data_dropped [OF flush_reach.init]) (simp_all add: new_rq_def flush_init_def example_rq_def example_blk_hdr_def)

end
