(* ===== verification/Blk_Tag.thy ===== *)
theory Blk_Tag
  imports Blk_Prelude
begin

unbundle bit_operations_syntax

text \<open>
  \<^verbatim>\<open>block/blk-tag.c\<close>: tags of commands in flight. A tag map (\<^verbatim>\<open>struct blk_queue_tag\<close>) may be shared by
  several queues and lives until the last user has dropped it; \<open>tag_maps\<close> holds the live ones. \<^verbatim>\<open>tag_index\<close>
  has \<^verbatim>\<open>real_max_depth\<close> entries, \<^verbatim>\<open>tag_map\<close> is the list of all bits of its words. Reading or writing past the
  end of an array, a pointer that is \<^verbatim>\<open>NULL\<close> or freed, and \<^verbatim>\<open>BUG\<close> are the error \<open>KBUG\<close>. The search for a
  free bit and \<^verbatim>\<open>test_and_set_bit_lock\<close> are one step, so the loop around them runs once.
\<close>

record blk_queue_tag =
  tag_index :: "rqid option list"
  tag_map :: "bool list"
  max_depth :: int
  real_max_depth :: int
  refcnt :: int

record tag_rq =
  t_flags :: flags
  t_tag :: int
  t_sync :: bool
  t_account :: bool
  t_queue :: nat

record tag_queue =
  queue_tags :: "addr option"
  flag_queued :: bool
  nr_requests :: ulong
  in_flight_async :: "32 word"
  tq_head :: "rqid list"
  tag_busy_list :: "rqid list"

record tag_sys =
  tag_maps :: "addr \<rightharpoonup> blk_queue_tag"
  tqueues :: "nat \<rightharpoonup> tag_queue"
  trqs :: "rqid \<rightharpoonup> tag_rq"

text \<open>The answers of the allocator: for the structure, and for its two arrays.\<close>

record tag_env =
  tag_kmalloc :: "addr option"
  index_kcalloc :: bool
  map_kcalloc :: bool

definition BITS_PER_LONG :: nat where "BITS_PER_LONG = 64"

text \<open>The bits in as many words as \<open>n\<close> of them need.\<close>

definition words_bits :: "int \<Rightarrow> nat" where
  "words_bits n = (nat n + BITS_PER_LONG - 1) div BITS_PER_LONG * BITS_PER_LONG"

subsection \<open>Life of a tag map\<close>

definition blk_free_tags_ref :: "addr \<Rightarrow> tag_sys \<Rightarrow> errno + bool \<times> tag_sys" where
  "blk_free_tags_ref a s =
     (case tag_maps s a of None \<Rightarrow> Inl KBUG
      | Some bqt \<Rightarrow>
        if refcnt bqt - 1 = 0 then
          (if list_ex (\<lambda>b. b) (take (nat (max_depth bqt)) (tag_map bqt)) then Inl KBUG
           else Inr (True, s\<lparr>tag_maps := (tag_maps s)(a := None)\<rparr>))
        else Inr (False, s\<lparr>tag_maps := (tag_maps s)(a \<mapsto> bqt\<lparr>refcnt := refcnt bqt - 1\<rparr>)\<rparr>))"

definition set_tq :: "nat \<Rightarrow> tag_queue \<Rightarrow> tag_sys \<Rightarrow> tag_sys" where
  "set_tq k tq s = s\<lparr>tqueues := (tqueues s)(k \<mapsto> tq)\<rparr>"

definition blk_queue_free_tags_final :: "nat \<Rightarrow> tag_sys \<Rightarrow> errno + tag_sys" where
  "blk_queue_free_tags_final k s =
     (case tqueues s k of None \<Rightarrow> Inl KBUG
      | Some tq \<Rightarrow>
        case queue_tags tq of None \<Rightarrow> Inr s
        | Some a \<Rightarrow>
          case blk_free_tags_ref a s of Inl e \<Rightarrow> Inl e
          | Inr (_, s') \<Rightarrow> Inr (set_tq k (tq\<lparr>queue_tags := None, flag_queued := False\<rparr>) s'))"

definition blk_free_tags :: "addr \<Rightarrow> tag_sys \<Rightarrow> errno + tag_sys" where
  "blk_free_tags a s =
     (case blk_free_tags_ref a s of Inl e \<Rightarrow> Inl e
      | Inr (freed, s') \<Rightarrow> if freed then Inr s' else Inl KBUG)"

definition blk_queue_free_tags :: "nat \<Rightarrow> tag_sys \<Rightarrow> errno + tag_sys" where
  "blk_queue_free_tags k s =
     (case tqueues s k of None \<Rightarrow> Inl KBUG | Some tq \<Rightarrow> Inr (set_tq k (tq\<lparr>flag_queued := False\<rparr>) s))"

text \<open>
  The depth and the two arrays; \<open>q\<close> is \<^verbatim>\<open>q->nr_requests\<close>, or \<^verbatim>\<open>None\<close> for a map without a queue. Its double is
  computed and compared as \<^verbatim>\<open>unsigned long\<close>, and is below the \<^verbatim>\<open>int\<close> it replaces.
\<close>

definition init_tag_map :: "tag_env \<Rightarrow> ulong option \<Rightarrow> int \<Rightarrow> errno + int \<times> rqid option list \<times> bool list" where
  "init_tag_map E q depth =
     (if depth \<le> 0 then Inl EINVAL
      else
        let depth' = (case q of Some nr \<Rightarrow> if word_of_int depth > nr * 2 then uint (nr * 2) else depth | None \<Rightarrow> depth)
        in if depth' \<le> 0 then Inl EINVAL
           else if \<not> index_kcalloc E then Inl ENOMEM
           else if \<not> map_kcalloc E then Inl ENOMEM
           else Inr (depth', replicate (nat depth') None, replicate (words_bits depth') False))"

definition blk_queue_init_tags_new :: "tag_env \<Rightarrow> ulong option \<Rightarrow> int \<Rightarrow> tag_sys \<Rightarrow> (addr \<times> tag_sys) option" where
  "blk_queue_init_tags_new E q depth s =
     (case tag_kmalloc E of None \<Rightarrow> None
      | Some a \<Rightarrow>
        case init_tag_map E q depth of Inl _ \<Rightarrow> None
        | Inr (d, ix, bm) \<Rightarrow>
            Some (a, s\<lparr>tag_maps := (tag_maps s)(a \<mapsto>
              \<lparr>tag_index = ix, tag_map = bm, max_depth = d, real_max_depth = d, refcnt = 1\<rparr>)\<rparr>))"

definition blk_init_tags :: "tag_env \<Rightarrow> int \<Rightarrow> tag_sys \<Rightarrow> (addr \<times> tag_sys) option" where
  "blk_init_tags E depth s = blk_queue_init_tags_new E None depth s"

definition blk_queue_resize_tags :: "tag_env \<Rightarrow> nat \<Rightarrow> int \<Rightarrow> tag_sys \<Rightarrow> errno + tag_sys" where
  "blk_queue_resize_tags E k new_depth s =
     (case tqueues s k of None \<Rightarrow> Inl KBUG
      | Some tq \<Rightarrow>
        if new_depth \<le> 0 then Inl EINVAL
        else case queue_tags tq of None \<Rightarrow> Inl ENXIO
        | Some a \<Rightarrow>
          case tag_maps s a of None \<Rightarrow> Inl KBUG
          | Some bqt \<Rightarrow>
            if new_depth \<le> real_max_depth bqt then
              Inr (s\<lparr>tag_maps := (tag_maps s)(a \<mapsto> bqt\<lparr>max_depth := new_depth\<rparr>)\<rparr>)
            else if refcnt bqt \<noteq> 1 then Inl EBUSY
            else case init_tag_map E (Some (nr_requests tq)) new_depth of Inl e \<Rightarrow> Inl e
              | Inr (d, ix, bm) \<Rightarrow>
                let n = nat (real_max_depth bqt); w = words_bits (real_max_depth bqt)
                in if length ix < n \<or> length bm < w then Inl KBUG
                   else Inr (s\<lparr>tag_maps := (tag_maps s)(a \<mapsto> bqt\<lparr>real_max_depth := d, max_depth := d,
                     tag_index := take n (tag_index bqt) @ drop n ix, tag_map := take w (tag_map bqt) @ drop w bm\<rparr>)\<rparr>))"

definition blk_queue_init_tags :: "tag_env \<Rightarrow> nat \<Rightarrow> int \<Rightarrow> addr option \<Rightarrow> tag_sys \<Rightarrow> errno + tag_sys" where
  "blk_queue_init_tags E k depth tags s =
     (case tqueues s k of None \<Rightarrow> Inl KBUG
      | Some tq \<Rightarrow>
        let assign = (\<lambda>a s'. Inr (set_tq k (tq\<lparr>queue_tags := Some a, flag_queued := True, tag_busy_list := []\<rparr>) s'))
        in if tags \<noteq> None \<and> queue_tags tq \<noteq> None \<and> tags \<noteq> queue_tags tq then Inl KBUG
           else if queue_tags tq \<noteq> None then
             (case blk_queue_resize_tags E k depth s of Inl e \<Rightarrow> Inl e
              | Inr s' \<Rightarrow> Inr (set_tq k (tq\<lparr>flag_queued := True\<rparr>) s'))
           else case tags of
             None \<Rightarrow> (case blk_queue_init_tags_new E (Some (nr_requests tq)) depth s of None \<Rightarrow> Inl ENOMEM
                      | Some (a, s') \<Rightarrow> assign a s')
           | Some a \<Rightarrow> (case tag_maps s a of None \<Rightarrow> Inl KBUG
                      | Some bqt \<Rightarrow> assign a (s\<lparr>tag_maps := (tag_maps s)(a \<mapsto> bqt\<lparr>refcnt := refcnt bqt + 1\<rparr>)\<rparr>)))"

subsection \<open>Tags of requests\<close>

definition blk_queue_end_tag :: "'h blk_hdr_scheme \<Rightarrow> nat \<Rightarrow> rqid \<Rightarrow> tag_sys \<Rightarrow> errno + tag_sys" where
  "blk_queue_end_tag K k r s =
     (case (tqueues s k, trqs s r) of
        (Some tq, Some rq) \<Rightarrow>
          if t_tag rq = - 1 then Inl KBUG
          else (case queue_tags tq of None \<Rightarrow> Inl KBUG
            | Some a \<Rightarrow>
              case tag_maps s a of None \<Rightarrow> Inl KBUG
              | Some bqt \<Rightarrow>
                if t_tag rq \<ge> real_max_depth bqt then Inr s
                else
                  let t = nat (t_tag rq);
                      tq' = tq\<lparr>tag_busy_list := removeAll r (tag_busy_list tq), tq_head := removeAll r (tq_head tq)\<rparr>;
                      rq' = rq\<lparr>t_flags := t_flags rq AND NOT (REQ_QUEUED K), t_tag := - 1\<rparr>;
                      bqt' = bqt\<lparr>tag_index := (tag_index bqt)[t := None], tag_map := (tag_map bqt)[t := False]\<rparr>
                  in if t_tag rq < 0 \<or> t \<ge> length (tag_index bqt) \<or> t \<ge> length (tag_map bqt) then Inl KBUG
                     else Inr (s\<lparr>tag_maps := (tag_maps s)(a \<mapsto> bqt'), tqueues := (tqueues s)(k \<mapsto> tq'),
                                 trqs := (trqs s)(r \<mapsto> rq')\<rparr>))
      | _ \<Rightarrow> Inl KBUG)"

text \<open>\<^verbatim>\<open>find_first_zero_bit\<close>: \<open>n\<close> when there is none below it.\<close>

definition find_first_zero_bit :: "bool list \<Rightarrow> nat \<Rightarrow> nat" where
  "find_first_zero_bit bm n = length (takeWhile (\<lambda>b. b) (take n bm))"

text \<open>How many tags the request may choose from; \<^verbatim>\<open>None\<close> when too much asynchronous work is in flight.\<close>

definition tag_limit :: "int \<Rightarrow> bool \<Rightarrow> 32 word \<Rightarrow> int option" where
  "tag_limit depth sync in_flight =
     (if \<not> sync \<and> depth > 1 then
        let d = (if depth - 2 = 0 then 1 else depth - 2)
        in if uint in_flight > d then None else Some d
      else Some depth)"

text \<open>
  \<^verbatim>\<open>blk_dequeue_request\<close> of \<^verbatim>\<open>block/blk-core.c\<close>: the request leaves the dispatch queue and is counted as in
  flight.
\<close>

definition tag_dequeue :: "rqid \<Rightarrow> tag_rq \<Rightarrow> tag_queue \<Rightarrow> tag_queue option" where
  "tag_dequeue r rq tq =
     (if r \<notin> set (tq_head tq) then None
      else Some (tq\<lparr>tq_head := removeAll r (tq_head tq),
                    in_flight_async := in_flight_async tq + (if t_account rq \<and> \<not> t_sync rq then 1 else 0)\<rparr>))"

text \<open>The result is the return value: \<open>True\<close> for 1, no tag was available.\<close>

definition blk_queue_start_tag :: "'h blk_hdr_scheme \<Rightarrow> nat \<Rightarrow> rqid \<Rightarrow> tag_sys \<Rightarrow> errno + bool \<times> tag_sys" where
  "blk_queue_start_tag K k r s =
     (case (tqueues s k, trqs s r) of
        (Some tq, Some rq) \<Rightarrow>
          if t_flags rq AND REQ_QUEUED K \<noteq> 0 then Inl KBUG
          else (case queue_tags tq of None \<Rightarrow> Inl KBUG
            | Some a \<Rightarrow>
              case tag_maps s a of None \<Rightarrow> Inl KBUG
              | Some bqt \<Rightarrow>
                case tag_limit (max_depth bqt) (t_sync rq) (in_flight_async tq) of None \<Rightarrow> Inr (True, s)
                | Some depth \<Rightarrow>
                  let tag = find_first_zero_bit (tag_map bqt) (nat depth)
                  in if tag \<ge> nat depth then Inr (True, s)
                     else if tag \<ge> length (tag_map bqt) \<or> tag \<ge> length (tag_index bqt) then Inl KBUG
                     else case tag_dequeue r rq tq of None \<Rightarrow> Inl KBUG
                       | Some tq' \<Rightarrow>
                         let bqt' = bqt\<lparr>tag_index := (tag_index bqt)[tag := Some r], tag_map := (tag_map bqt)[tag := True]\<rparr>;
                             rq' = rq\<lparr>t_flags := t_flags rq OR REQ_QUEUED K, t_tag := int tag\<rparr>
                         in Inr (False, s\<lparr>tag_maps := (tag_maps s)(a \<mapsto> bqt'),
                              tqueues := (tqueues s)(k \<mapsto> tq'\<lparr>tag_busy_list := r # tag_busy_list tq'\<rparr>),
                              trqs := (trqs s)(r \<mapsto> rq')\<rparr>))
      | _ \<Rightarrow> Inl KBUG)"

text \<open>
  \<^verbatim>\<open>blk_requeue_request\<close> of \<^verbatim>\<open>block/blk-core.c\<close>: the tag is given back, the request is no longer in flight and
  goes to the front of the dispatch queue.
\<close>

definition tag_requeue :: "'h blk_hdr_scheme \<Rightarrow> nat \<Rightarrow> rqid \<Rightarrow> tag_sys \<Rightarrow> errno + tag_sys" where
  "tag_requeue K k r s =
     (case trqs s r of None \<Rightarrow> Inl KBUG
      | Some rq \<Rightarrow>
        case (if t_flags rq AND REQ_QUEUED K \<noteq> 0 then blk_queue_end_tag K k r s else Inr s) of Inl e \<Rightarrow> Inl e
        | Inr s1 \<Rightarrow>
          case tqueues s1 k of None \<Rightarrow> Inl KBUG
          | Some tq \<Rightarrow>
            if r \<in> set (tq_head tq) \<or> r \<in> set (tag_busy_list tq) then Inl KBUG
            else Inr (set_tq k (tq\<lparr>in_flight_async := in_flight_async tq - (if t_account rq \<and> \<not> t_sync rq then 1 else 0),
                                   tq_head := r # tq_head tq\<rparr>) s1))"

fun requeue_all :: "'h blk_hdr_scheme \<Rightarrow> nat \<Rightarrow> rqid list \<Rightarrow> tag_sys \<Rightarrow> errno + tag_sys" where
  "requeue_all K k [] s = Inr s"
| "requeue_all K k (r # rs) s = (case tag_requeue K k r s of Inl e \<Rightarrow> Inl e | Inr s' \<Rightarrow> requeue_all K k rs s')"

definition blk_queue_invalidate_tags :: "'h blk_hdr_scheme \<Rightarrow> nat \<Rightarrow> tag_sys \<Rightarrow> errno + tag_sys" where
  "blk_queue_invalidate_tags K k s =
     (case tqueues s k of None \<Rightarrow> Inl KBUG | Some tq \<Rightarrow> requeue_all K k (tag_busy_list tq) s)"

end
