(* ===== verification/Tag_Correct.thy ===== *)
theory Tag_Correct
  imports Blk_Tag
begin

text \<open>
  The invariant of the tag maps and the queues that use them, and what the tag operations do.
\<close>

subsection \<open>Bits and depths\<close>

lemma words_bits_le: "0 \<le> n \<Longrightarrow> nat n \<le> words_bits n"
  by (simp add: words_bits_def BITS_PER_LONG_def)

lemma words_bits_mono: "m \<le> n \<Longrightarrow> words_bits m \<le> words_bits n"
  by (simp add: words_bits_def div_le_mono)

lemma first_zero_le: "find_first_zero_bit bm n \<le> n"
  by (metis find_first_zero_bit_def length_take length_takeWhile_le min.boundedE)

lemma first_zero_spec:
  assumes "find_first_zero_bit bm n < n" "n \<le> length bm"
  shows "\<not> bm ! find_first_zero_bit bm n" "\<And>i. i < find_first_zero_bit bm n \<Longrightarrow> bm ! i"
proof -
  let ?z = "find_first_zero_bit bm n"
  have z: "?z < length (take n bm)" using assms by simp
  then show "\<not> bm ! ?z" using nth_length_takeWhile [of "\<lambda>b. b" "take n bm"] assms(1)
    by (simp add: find_first_zero_bit_def)
  show "bm ! i" if "i < ?z" for i
    using that nth_mem [of i "takeWhile (\<lambda>b. b) (take n bm)"] takeWhile_nth [of i "\<lambda>b. b" "take n bm"] set_takeWhileD assms(1)
    by (fastforce simp: find_first_zero_bit_def)
qed

lemma first_zero_none: "find_first_zero_bit bm n \<ge> n \<Longrightarrow> n \<le> length bm \<Longrightarrow> i < n \<Longrightarrow> bm ! i"
  using first_zero_le [of bm n] takeWhile_nth [of i "\<lambda>b. b" "take n bm"] set_takeWhileD
    nth_mem [of i "takeWhile (\<lambda>b. b) (take n bm)"]
  by (fastforce simp: find_first_zero_bit_def)

lemma tag_limit_bound: "tag_limit d sync n = Some l \<Longrightarrow> 1 \<le> d \<Longrightarrow> 1 \<le> l \<and> l \<le> d"
  by (auto simp: tag_limit_def Let_def split: if_splits)

lemma queued_on [simp]: "(f OR m) AND m = (m :: flags)"
  by (rule bit_eqI) (auto simp: bit_and_iff bit_or_iff)

lemma queued_off [simp]: "(f AND NOT m) AND m = (0 :: flags)"
  by (rule bit_eqI) (auto simp: bit_and_iff bit_not_iff)

subsection \<open>The invariant\<close>

definition map_ok :: "blk_queue_tag \<Rightarrow> bool" where
  "map_ok b \<longleftrightarrow>
     1 \<le> max_depth b \<and> max_depth b \<le> real_max_depth b \<and> length (tag_index b) = nat (real_max_depth b) \<and>
     length (tag_map b) = words_bits (real_max_depth b) \<and>
     (\<forall>t < length (tag_map b). tag_map b ! t \<longleftrightarrow> t < length (tag_index b) \<and> tag_index b ! t \<noteq> None)"

definition users :: "(nat \<rightharpoonup> tag_queue) \<Rightarrow> addr \<Rightarrow> int" where
  "users qs a = map_sum (\<lambda>tq. of_bool (queue_tags tq = Some a)) qs"

definition holds_tag :: "(addr \<rightharpoonup> blk_queue_tag) \<Rightarrow> addr \<Rightarrow> tag_rq \<Rightarrow> rqid \<Rightarrow> bool" where
  "holds_tag ms a rq r \<longleftrightarrow>
     (\<exists>b. ms a = Some b \<and> 0 \<le> t_tag rq \<and> nat (t_tag rq) < length (tag_index b) \<and> tag_index b ! nat (t_tag rq) = Some r)"

text \<open>Requests on the busy list hold their tag, requests on the dispatch queue have none.\<close>

definition tqueue_ok :: "'h blk_hdr_scheme \<Rightarrow> tag_sys \<Rightarrow> nat \<Rightarrow> tag_queue \<Rightarrow> bool" where
  "tqueue_ok K s k tq \<longleftrightarrow>
     distinct (tag_busy_list tq @ tq_head tq) \<and>
     (case queue_tags tq of None \<Rightarrow> tag_busy_list tq = [] | Some a \<Rightarrow> tag_maps s a \<noteq> None \<and>
        (\<forall>r \<in> set (tag_busy_list tq). \<exists>rq. trqs s r = Some rq \<and> t_queue rq = k \<and> t_flags rq AND REQ_QUEUED K \<noteq> 0 \<and>
           holds_tag (tag_maps s) a rq r)) \<and>
     (\<forall>r \<in> set (tq_head tq). \<exists>rq. trqs s r = Some rq \<and> t_queue rq = k \<and> t_flags rq AND REQ_QUEUED K = 0)"

text \<open>Each entry of an index belongs to a request that is busy; \<open>X\<close> are the maps with an external owner.\<close>

definition index_ok :: "tag_sys \<Rightarrow> addr \<Rightarrow> blk_queue_tag \<Rightarrow> bool" where
  "index_ok s a b \<longleftrightarrow>
     (\<forall>t r. t < length (tag_index b) \<longrightarrow> tag_index b ! t = Some r \<longrightarrow>
        (\<exists>rq tq. trqs s r = Some rq \<and> t_tag rq = int t \<and> tqueues s (t_queue rq) = Some tq \<and> queue_tags tq = Some a \<and>
           r \<in> set (tag_busy_list tq)))"

definition tag_inv :: "'h blk_hdr_scheme \<Rightarrow> addr set \<Rightarrow> tag_sys \<Rightarrow> bool" where
  "tag_inv K X s \<longleftrightarrow>
     finite (dom (tqueues s)) \<and> (\<forall>a \<in> X. tag_maps s a \<noteq> None) \<and>
     (\<forall>k tq. tqueues s k = Some tq \<longrightarrow> tqueue_ok K s k tq) \<and>
     (\<forall>a b. tag_maps s a = Some b \<longrightarrow> map_ok b \<and> index_ok s a b \<and> refcnt b = users (tqueues s) a + of_bool (a \<in> X) \<and>
        1 \<le> refcnt b)"

lemma tag_invD:
  assumes "tag_inv K X s"
  shows "finite (dom (tqueues s))" "a \<in> X \<Longrightarrow> tag_maps s a \<noteq> None" "tqueues s k = Some tq \<Longrightarrow> tqueue_ok K s k tq"
    "tag_maps s a = Some b \<Longrightarrow> map_ok b" "tag_maps s a = Some b \<Longrightarrow> index_ok s a b"
    "tag_maps s a = Some b \<Longrightarrow> refcnt b = users (tqueues s) a + of_bool (a \<in> X) \<and> 1 \<le> refcnt b"
  using assms unfolding tag_inv_def by blast+

subsection \<open>Giving and taking a tag\<close>

text \<open>
  Slot \<open>t\<close> of the map changes between free and the request \<open>r\<close>; everything else keeps its tags.
\<close>

lemma slot_inv:
  assumes inv: "tag_inv K X s" and a: "tag_maps s a = Some b" and k: "tqueues s k = Some tq" "queue_tags tq = Some a"
    and r: "trqs s r = Some rq" "t_queue rq = k" and t: "t < length (tag_index b)" "tag_index b ! t = None \<or> tag_index b ! t = Some r"
    and rt: "\<And>t'. t' < length (tag_index b) \<Longrightarrow> tag_index b ! t' = Some r \<Longrightarrow> t' = t"
    and s': "tag_maps s' = (tag_maps s)(a \<mapsto> b\<lparr>tag_index := (tag_index b)[t := v], tag_map := (tag_map b)[t := (v \<noteq> None)]\<rparr>)"
      "tqueues s' = (tqueues s)(k \<mapsto> tq')" "trqs s' = (trqs s)(r \<mapsto> rq')"
    and tq': "queue_tags tq' = Some a" "distinct (tag_busy_list tq' @ tq_head tq')"
      "\<And>r'. r' \<noteq> r \<Longrightarrow> r' \<in> set (tag_busy_list tq') \<longleftrightarrow> r' \<in> set (tag_busy_list tq)"
      "\<And>r'. r' \<noteq> r \<Longrightarrow> r' \<in> set (tq_head tq') \<Longrightarrow> r' \<in> set (tq_head tq)"
    and v: "v = None \<and> r \<notin> set (tag_busy_list tq') \<and> t_flags rq' AND REQ_QUEUED K = 0 \<or>
       v = Some r \<and> r \<in> set (tag_busy_list tq') \<and> r \<notin> set (tq_head tq') \<and> t_flags rq' AND REQ_QUEUED K \<noteq> 0 \<and> t_tag rq' = int t"
    and rq': "t_queue rq' = k"
  shows "tag_inv K X s'"
proof -
  let ?b = "b\<lparr>tag_index := (tag_index b)[t := v], tag_map := (tag_map b)[t := (v \<noteq> None)]\<rparr>"
  have mo: "map_ok b" and io: "index_ok s a b" using tag_invD(4, 5) [OF inv] a by blast+
  have tl: "t < length (tag_map b)" using t(1) mo words_bits_le [of "real_max_depth b"] by (simp add: map_ok_def)
  have map': "map_ok ?b" using mo t(1) tl by (auto simp: map_ok_def nth_list_update)
  have hold: "holds_tag (tag_maps s') a' rq0 r0" if h: "holds_tag (tag_maps s) a' rq0 r0" "r0 \<noteq> r" for a' rq0 r0
  proof (cases "a' = a")
    case True
    then have "nat (t_tag rq0) \<noteq> t" using h a t(2) by (auto simp: holds_tag_def)
    then show ?thesis using h True a by (auto simp: holds_tag_def s')
  qed (use h in \<open>simp add: holds_tag_def s'\<close>)
  have other: "r' \<noteq> r" if "tqueues s k' = Some tq0" "k' \<noteq> k" "r' \<in> set (tag_busy_list tq0) \<or> r' \<in> set (tq_head tq0)" for k' tq0 r'
    using tag_invD(3) [OF inv that(1)] that(2, 3) r by (auto simp: tqueue_ok_def split: option.splits)
  have qk: "tqueue_ok K s' k tq'"
  proof -
    have old: "tqueue_ok K s k tq" by (rule tag_invD(3) [OF inv k(1)])
    have "\<exists>rq0. trqs s' r' = Some rq0 \<and> t_queue rq0 = k \<and> t_flags rq0 AND REQ_QUEUED K \<noteq> 0 \<and> holds_tag (tag_maps s') a rq0 r'"
      if "r' \<in> set (tag_busy_list tq')" for r'
    proof (cases "r' = r")
      case True
      then have "v = Some r" "t_tag rq' = int t" "t_flags rq' AND REQ_QUEUED K \<noteq> 0" using v that by auto
      then show ?thesis using True rq' t(1) by (simp add: holds_tag_def s')
    next
      case False
      then have "r' \<in> set (tag_busy_list tq)" using that tq'(3) by simp
      then show ?thesis using old False hold k(2) by (auto simp: tqueue_ok_def s'(3))
    qed
    moreover have "\<exists>rq0. trqs s' r' = Some rq0 \<and> t_queue rq0 = k \<and> t_flags rq0 AND REQ_QUEUED K = 0" if "r' \<in> set (tq_head tq')" for r'
      using that old tq'(4) v rq' by (cases "r' = r") (auto simp: tqueue_ok_def s'(3))
    ultimately show ?thesis using tq'(1, 2) by (simp add: tqueue_ok_def s'(1))
  qed
  have "tqueue_ok K s' k' tq0" if q: "tqueues s' k' = Some tq0" for k' tq0
  proof (cases "k' = k")
    case False
    then have k': "tqueues s k' = Some tq0" using q by (simp add: s')
    have "trqs s' r' = trqs s r'" if "r' \<in> set (tag_busy_list tq0) \<or> r' \<in> set (tq_head tq0)" for r'
      using other [OF k' False that] by (simp add: s')
    then show ?thesis using tag_invD(3) [OF inv k'] hold other [OF k' False]
      by (fastforce simp: tqueue_ok_def s'(1) split: option.splits)
  qed (use q qk in \<open>simp add: s'\<close>)
  moreover have us: "users (tqueues s') a' = users (tqueues s) a'" for a'
    unfolding users_def s'(2) by (rule map_sum_upd_same [OF tag_invD(1) [OF inv] k(1)]) (simp add: tq'(1) k(2))
  moreover have "index_ok s' a' b'" if b': "tag_maps s' a' = Some b'" for a' b'
  proof (cases "a' = a")
    case True
    then have b'': "b' = ?b" using b' by (simp add: s')
    show ?thesis unfolding index_ok_def
    proof (intro allI impI)
      fix t' r'
      assume x: "t' < length (tag_index b')" "tag_index b' ! t' = Some r'"
      show "\<exists>rq0 tq0. trqs s' r' = Some rq0 \<and> t_tag rq0 = int t' \<and> tqueues s' (t_queue rq0) = Some tq0 \<and>
        queue_tags tq0 = Some a' \<and> r' \<in> set (tag_busy_list tq0)"
      proof (cases "t' = t")
        case t': True
        then have "v = Some r'" using x t(1) by (simp add: b'')
        then have "r' = r" "r \<in> set (tag_busy_list tq')" "t_tag rq' = int t" using v by auto
        then show ?thesis using True t' rq' tq'(1) by (simp add: s')
      next
        case False
        then have i: "t' < length (tag_index b)" "tag_index b ! t' = Some r'" using x by (simp_all add: b'')
        then have "r' \<noteq> r" using rt False by blast
        then show ?thesis using io i True k tq'(1, 3) by (fastforce simp: index_ok_def s')
      qed
    qed
  next
    case False
    then have "tag_maps s a' = Some b'" using b' by (simp add: s')
    then have "index_ok s a' b'" by (rule tag_invD(5) [OF inv])
    then show ?thesis using False k r unfolding index_ok_def s' by fastforce
  qed
  moreover have "\<exists>b0. tag_maps s a' = Some b0 \<and> refcnt b' = refcnt b0 \<and> map_ok b'" if "tag_maps s' a' = Some b'" for a' b'
    using that tag_invD(4) [OF inv] map' a by (auto simp: s' split: if_splits)
  then have "map_ok b' \<and> refcnt b' = users (tqueues s') a' + of_bool (a' \<in> X) \<and> 1 \<le> refcnt b'"
    if "tag_maps s' a' = Some b'" for a' b'
    using that tag_invD(6) [OF inv] us by metis
  moreover have "finite (dom (tqueues s'))" "a' \<in> X \<Longrightarrow> tag_maps s' a' \<noteq> None" for a'
    using tag_invD(1, 2) [OF inv] by (simp_all add: s')
  ultimately show ?thesis unfolding tag_inv_def by blast
qed

lemma start_spec:
  assumes inv: "tag_inv K X s" and k: "tqueues s k = Some tq" "queue_tags tq = Some a" and r: "r \<in> set (tq_head tq)"
    and K: "REQ_QUEUED K \<noteq> 0"
  obtains b rq where "tag_maps s a = Some b" "trqs s r = Some rq"
    "case tag_limit (max_depth b) (t_sync rq) (in_flight_async tq) of
       None \<Rightarrow> blk_queue_start_tag K k r s = Inr (True, s)
     | Some l \<Rightarrow> (\<forall>i < nat l. tag_map b ! i) \<and> blk_queue_start_tag K k r s = Inr (True, s) \<or>
         (\<exists>t s'. t < nat l \<and> \<not> tag_map b ! t \<and> (\<forall>i < t. tag_map b ! i) \<and> blk_queue_start_tag K k r s = Inr (False, s') \<and>
            tag_inv K X s' \<and> trqs s' r = Some (rq\<lparr>t_flags := t_flags rq OR REQ_QUEUED K, t_tag := int t\<rparr>) \<and>
            (\<exists>b'. tag_maps s' a = Some b' \<and> tag_index b' = (tag_index b)[t := Some r]) \<and>
            (\<exists>n. tqueues s' k = Some (tq\<lparr>tq_head := removeAll r (tq_head tq), in_flight_async := n, tag_busy_list := r # tag_busy_list tq\<rparr>)))"
proof -
  have ok: "tqueue_ok K s k tq" by (rule tag_invD(3) [OF inv k(1)])
  then obtain rq where rq: "trqs s r = Some rq" "t_queue rq = k" "t_flags rq AND REQ_QUEUED K = 0"
    using r by (auto simp: tqueue_ok_def)
  obtain b where b: "tag_maps s a = Some b" using ok k(2) by (auto simp: tqueue_ok_def)
  have mo: "map_ok b" "index_ok s a b" using tag_invD(4, 5) [OF inv b] .
  have nb: "r \<notin> set (tag_busy_list tq)" using ok r by (auto simp: tqueue_ok_def)
  have "case tag_limit (max_depth b) (t_sync rq) (in_flight_async tq) of
       None \<Rightarrow> blk_queue_start_tag K k r s = Inr (True, s)
     | Some l \<Rightarrow> (\<forall>i < nat l. tag_map b ! i) \<and> blk_queue_start_tag K k r s = Inr (True, s) \<or>
         (\<exists>t s'. t < nat l \<and> \<not> tag_map b ! t \<and> (\<forall>i < t. tag_map b ! i) \<and> blk_queue_start_tag K k r s = Inr (False, s') \<and>
            tag_inv K X s' \<and> trqs s' r = Some (rq\<lparr>t_flags := t_flags rq OR REQ_QUEUED K, t_tag := int t\<rparr>) \<and>
            (\<exists>b'. tag_maps s' a = Some b' \<and> tag_index b' = (tag_index b)[t := Some r]) \<and>
            (\<exists>n. tqueues s' k = Some (tq\<lparr>tq_head := removeAll r (tq_head tq), in_flight_async := n, tag_busy_list := r # tag_busy_list tq\<rparr>)))"
  proof (cases "tag_limit (max_depth b) (t_sync rq) (in_flight_async tq)")
    case None
    then show ?thesis using k rq b by (simp add: blk_queue_start_tag_def)
  next
    case (Some l)
    let ?t = "find_first_zero_bit (tag_map b) (nat l)"
    have l: "nat l \<le> length (tag_index b)" "nat l \<le> length (tag_map b)"
      using tag_limit_bound [OF Some] mo(1) words_bits_le [of "real_max_depth b"] by (auto simp: map_ok_def)
    show ?thesis
    proof (cases "?t \<ge> nat l")
      case True
      then have "blk_queue_start_tag K k r s = Inr (True, s)" using k rq b Some by (simp add: blk_queue_start_tag_def Let_def)
      then show ?thesis using Some first_zero_none [OF True l(2)] by simp
    next
      case False
      let ?tq = "tq\<lparr>tq_head := removeAll r (tq_head tq),
        in_flight_async := in_flight_async tq + (if t_account rq \<and> \<not> t_sync rq then 1 else 0), tag_busy_list := r # tag_busy_list tq\<rparr>"
      let ?rq = "rq\<lparr>t_flags := t_flags rq OR REQ_QUEUED K, t_tag := int ?t\<rparr>"
      define s' where "s' = s\<lparr>tag_maps := (tag_maps s)(a \<mapsto> b\<lparr>tag_index := (tag_index b)[?t := Some r], tag_map := (tag_map b)[?t := True]\<rparr>),
        tqueues := (tqueues s)(k \<mapsto> ?tq), trqs := (trqs s)(r \<mapsto> ?rq)\<rparr>"
      have z: "\<not> tag_map b ! ?t" "\<And>i. i < ?t \<Longrightarrow> tag_map b ! i" using first_zero_spec [OF _ l(2)] False by auto
      have run: "blk_queue_start_tag K k r s = Inr (False, s')"
        using k rq b Some False l r by (simp add: blk_queue_start_tag_def tag_dequeue_def Let_def s'_def)
      have free: "tag_index b ! ?t = None" using z(1) mo(1) l False by (simp add: map_ok_def)
      have "tag_inv K X s'"
      proof (rule slot_inv [OF inv b k rq(1, 2), where t = ?t and v = "Some r" and tq' = ?tq and rq' = ?rq])
        show "t' = ?t" if "t' < length (tag_index b)" "tag_index b ! t' = Some r" for t'
          using mo(2) that rq(1) k nb rq(2) by (auto simp: index_ok_def)
        show "distinct (tag_busy_list ?tq @ tq_head ?tq)" using ok nb by (auto simp: tqueue_ok_def distinct_removeAll)
      qed (use free False l K rq(2) k(2) in \<open>auto simp: s'_def\<close>)
      moreover have "trqs s' r = Some ?rq" "\<exists>b'. tag_maps s' a = Some b' \<and> tag_index b' = (tag_index b)[?t := Some r]"
        "tqueues s' k = Some ?tq"
        by (simp_all add: s'_def)
      moreover have "?t < nat l" using False by simp
      ultimately show ?thesis using Some run z by (simp only: option.case) blast
    qed
  qed
  then show thesis using that b rq(1) by blast
qed

lemma end_spec:
  assumes inv: "tag_inv K X s" and k: "tqueues s k = Some tq" and r: "r \<in> set (tag_busy_list tq)"
  shows "\<exists>rq s' a. trqs s r = Some rq \<and> t_queue rq = k \<and> t_flags rq AND REQ_QUEUED K \<noteq> 0 \<and> blk_queue_end_tag K k r s = Inr s' \<and>
    tag_inv K X s' \<and> tqueues s' = (tqueues s)(k \<mapsto> tq\<lparr>tag_busy_list := removeAll r (tag_busy_list tq)\<rparr>) \<and>
    trqs s' = (trqs s)(r \<mapsto> rq\<lparr>t_flags := t_flags rq AND NOT (REQ_QUEUED K), t_tag := - 1\<rparr>)"
proof -
  have ok: "tqueue_ok K s k tq" by (rule tag_invD(3) [OF inv k])
  then obtain a where a: "queue_tags tq = Some a" using r by (cases "queue_tags tq") (auto simp: tqueue_ok_def)
  obtain rq where rq: "trqs s r = Some rq" "t_queue rq = k" "t_flags rq AND REQ_QUEUED K \<noteq> 0" "holds_tag (tag_maps s) a rq r"
    using ok a r by (auto simp: tqueue_ok_def)
  obtain b where b: "tag_maps s a = Some b" "0 \<le> t_tag rq" "nat (t_tag rq) < length (tag_index b)" "tag_index b ! nat (t_tag rq) = Some r"
    using rq(4) by (auto simp: holds_tag_def)
  have mo: "map_ok b" "index_ok s a b" using tag_invD(4, 5) [OF inv b(1)] .
  have "r \<notin> set (tq_head tq)" using ok r by (auto simp: tqueue_ok_def)
  then have nh: "removeAll r (tq_head tq) = tq_head tq" by simp
  let ?t = "nat (t_tag rq)" and ?tq = "tq\<lparr>tag_busy_list := removeAll r (tag_busy_list tq)\<rparr>"
  let ?rq = "rq\<lparr>t_flags := t_flags rq AND NOT (REQ_QUEUED K), t_tag := - 1\<rparr>"
  define s' where "s' = s\<lparr>tag_maps := (tag_maps s)(a \<mapsto> b\<lparr>tag_index := (tag_index b)[?t := None], tag_map := (tag_map b)[?t := False]\<rparr>),
    tqueues := (tqueues s)(k \<mapsto> ?tq), trqs := (trqs s)(r \<mapsto> ?rq)\<rparr>"
  have tl: "?t < length (tag_map b)" "t_tag rq < real_max_depth b"
    using b mo(1) words_bits_le [of "real_max_depth b"] by (auto simp: map_ok_def)
  have eta: "tq\<lparr>tag_busy_list := x, tq_head := tq_head tq\<rparr> = tq\<lparr>tag_busy_list := x\<rparr>" for x by simp
  have run: "blk_queue_end_tag K k r s = Inr s'"
    using k rq a b tl nh by (simp add: blk_queue_end_tag_def Let_def s'_def eta)
  have "tag_inv K X s'"
  proof (rule slot_inv [OF inv b(1) k a rq(1, 2), where t = ?t and v = None and tq' = ?tq and rq' = ?rq])
    show "t' = ?t" if "t' < length (tag_index b)" "tag_index b ! t' = Some r" for t'
      using mo(2) that rq(1) by (auto simp: index_ok_def)
    show "distinct (tag_busy_list ?tq @ tq_head ?tq)" using ok by (auto simp: tqueue_ok_def distinct_removeAll)
  qed (use b a rq(2) in \<open>auto simp: s'_def\<close>)
  then show ?thesis using run rq by (auto simp: s'_def)
qed

text \<open>A queue whose dispatch queue changes, and a request that is new.\<close>

lemma head_inv:
  assumes inv: "tag_inv K X s" and k: "tqueues s k = Some tq"
    and tq': "queue_tags tq' = queue_tags tq" "tag_busy_list tq' = tag_busy_list tq" "distinct (tag_busy_list tq' @ tq_head tq')"
    and h: "\<And>r. r \<in> set (tq_head tq') \<Longrightarrow> \<exists>rq. trqs s r = Some rq \<and> t_queue rq = k \<and> t_flags rq AND REQ_QUEUED K = 0"
  shows "tag_inv K X (set_tq k tq' s)"
proof -
  have f: "tqueues (set_tq k tq' s) = (tqueues s)(k \<mapsto> tq')" "tag_maps (set_tq k tq' s) = tag_maps s" "trqs (set_tq k tq' s) = trqs s"
    by (simp_all add: set_tq_def)
  have us: "users (tqueues (set_tq k tq' s)) a = users (tqueues s) a" for a
    unfolding users_def f
    by (rule map_sum_upd_same [OF tag_invD(1) [OF inv] k]) (simp add: tq')
  have okf: "tqueue_ok K (set_tq k tq' s) k' tq0 = tqueue_ok K s k' tq0" for k' tq0 by (simp only: tqueue_ok_def f)
  have "tqueue_ok K (set_tq k tq' s) k' tq0" if "tqueues (set_tq k tq' s) k' = Some tq0" for k' tq0
  proof (cases "k' = k")
    case True
    then have q: "tq0 = tq'" using that by (simp add: f)
    show ?thesis using tag_invD(3) [OF inv k] tq'(3) h unfolding okf unfolding q True tqueue_ok_def tq'(1, 2) by simp
  next
    case False
    then show ?thesis using that tag_invD(3) [OF inv, of k' tq0] unfolding okf by (simp add: f)
  qed
  moreover have "index_ok (set_tq k tq' s) a b" if "tag_maps s a = Some b" for a b
    using tag_invD(5) [OF inv that] k tq' by (fastforce simp: index_ok_def f)
  moreover have "refcnt b = users (tqueues (set_tq k tq' s)) a + of_bool (a \<in> X) \<and> 1 \<le> refcnt b" if "tag_maps s a = Some b" for a b
    unfolding us by (rule tag_invD(6) [OF inv that])
  moreover have "finite (dom (tqueues (set_tq k tq' s)))" using tag_invD(1) [OF inv] by (simp add: f)
  ultimately show ?thesis using tag_invD(2, 4) [OF inv] unfolding tag_inv_def f(2) by blast
qed

lemma requeue_spec:
  assumes inv: "tag_inv K X s" and k: "tqueues s k = Some tq" and r: "r \<in> set (tag_busy_list tq)"
  shows "\<exists>s' n. tag_requeue K k r s = Inr s' \<and> tag_inv K X s' \<and>
    tqueues s' k = Some (tq\<lparr>tag_busy_list := removeAll r (tag_busy_list tq), in_flight_async := n, tq_head := r # tq_head tq\<rparr>)"
proof -
  obtain rq s1 where e: "trqs s r = Some rq" "t_queue rq = k" "t_flags rq AND REQ_QUEUED K \<noteq> 0" "blk_queue_end_tag K k r s = Inr s1"
    "tag_inv K X s1" "tqueues s1 = (tqueues s)(k \<mapsto> tq\<lparr>tag_busy_list := removeAll r (tag_busy_list tq)\<rparr>)"
    "trqs s1 = (trqs s)(r \<mapsto> rq\<lparr>t_flags := t_flags rq AND NOT (REQ_QUEUED K), t_tag := - 1\<rparr>)"
    using end_spec [OF assms] by auto
  define n where "n = in_flight_async tq - (if t_account rq \<and> \<not> t_sync rq then 1 else 0)"
  let ?tq1 = "tq\<lparr>tag_busy_list := removeAll r (tag_busy_list tq)\<rparr>"
  let ?tq = "?tq1\<lparr>in_flight_async := n, tq_head := r # tq_head tq\<rparr>"
  have k1: "tqueues s1 k = Some ?tq1" by (simp add: e(6))
  have ok: "tqueue_ok K s k tq" "tqueue_ok K s1 k ?tq1" by (rule tag_invD(3) [OF inv k]) (rule tag_invD(3) [OF e(5) k1])
  have nh: "r \<notin> set (tq_head tq)" using ok(1) r by (auto simp: tqueue_ok_def)
  have "tag_requeue K k r s = Inr (set_tq k ?tq s1)"
    using e(1, 3, 4) k1 nh by (simp add: tag_requeue_def n_def)
  moreover have "tag_inv K X (set_tq k ?tq s1)"
    by (rule head_inv [OF e(5) k1]) (use ok(2) nh e(2) in \<open>auto simp: tqueue_ok_def e(7)\<close>)
  ultimately show ?thesis by (intro exI [of _ "set_tq k ?tq s1"] exI [of _ n]) (simp add: set_tq_def)
qed

lemma requeue_all_spec:
  assumes "tag_inv K X s" and "tqueues s k = Some tq" and "tag_busy_list tq = rs"
  shows "\<exists>s' tq'. requeue_all K k rs s = Inr s' \<and> tag_inv K X s' \<and> tqueues s' k = Some tq' \<and>
    tag_busy_list tq' = [] \<and> tq_head tq' = rev rs @ tq_head tq \<and> queue_tags tq' = queue_tags tq"
  using assms
proof (induction rs arbitrary: s tq)
  case (Cons r rs)
  have d: "r \<notin> set rs" using tag_invD(3) [OF Cons.prems(1, 2)] Cons.prems(3) by (simp add: tqueue_ok_def)
  obtain s1 n where s1: "tag_requeue K k r s = Inr s1" "tag_inv K X s1"
    "tqueues s1 k = Some (tq\<lparr>tag_busy_list := removeAll r (tag_busy_list tq), in_flight_async := n, tq_head := r # tq_head tq\<rparr>)"
    using requeue_spec [OF Cons.prems(1, 2), of r] Cons.prems(3) by auto
  show ?case using Cons.IH [OF s1(2, 3)] s1(1) Cons.prems(3) d by simp
qed simp

subsection \<open>Life of a map\<close>

text \<open>A map whose depth grows or shrinks and keeps the tags in use.\<close>

lemma map_upd_inv:
  assumes inv: "tag_inv K X s" and a: "tag_maps s a = Some b" and m: "map_ok b'" "refcnt b' = refcnt b"
    and ix: "length (tag_index b) \<le> length (tag_index b')" "\<And>t. t < length (tag_index b) \<Longrightarrow> tag_index b' ! t = tag_index b ! t"
      "\<And>t. length (tag_index b) \<le> t \<Longrightarrow> t < length (tag_index b') \<Longrightarrow> tag_index b' ! t = None"
  shows "tag_inv K X (s\<lparr>tag_maps := (tag_maps s)(a \<mapsto> b')\<rparr>)"
proof -
  define s' where "s' = s\<lparr>tag_maps := (tag_maps s)(a \<mapsto> b')\<rparr>"
  have f: "tag_maps s' = (tag_maps s)(a \<mapsto> b')" "tqueues s' = tqueues s" "trqs s' = trqs s" by (simp_all add: s'_def)
  have h: "holds_tag (tag_maps s) a' rq r \<Longrightarrow> holds_tag (tag_maps s') a' rq r" for a' rq r
    using a ix by (auto simp: holds_tag_def f)
  have "tqueue_ok K s' k tq" if "tqueues s k = Some tq" for k tq
    using tag_invD(3) [OF inv that] h unfolding tqueue_ok_def f(2, 3) by (cases "queue_tags tq") (fastforce simp: f(1))+
  moreover have "index_ok s' a0 b0" if b0: "tag_maps s' a0 = Some b0" for a0 b0
  proof (cases "a0 = a")
    case True
    then have "b0 = b'" using b0 by (simp add: f)
    then have "t < length (tag_index b) \<and> tag_index b ! t = Some r" if "t < length (tag_index b0)" "tag_index b0 ! t = Some r" for t r
      using that ix by (metis linorder_not_le option.distinct(1))
    then show ?thesis using tag_invD(5) [OF inv a] True unfolding index_ok_def f by blast
  next
    case False
    then show ?thesis using tag_invD(5) [OF inv, of a0 b0] b0 unfolding index_ok_def f by simp
  qed
  moreover have "map_ok b0 \<and> refcnt b0 = users (tqueues s) a0 + of_bool (a0 \<in> X) \<and> 1 \<le> refcnt b0"
    if b0: "tag_maps s' a0 = Some b0" for a0 b0
    using b0 m tag_invD(4, 6) [OF inv, of a0 b0] tag_invD(6) [OF inv a] by (cases "a0 = a") (auto simp: f)
  moreover have "a0 \<in> X \<Longrightarrow> tag_maps s' a0 \<noteq> None" for a0 using tag_invD(2) [OF inv] by (simp add: f)
  ultimately show ?thesis using tag_invD(1) [OF inv] unfolding s'_def [symmetric] tag_inv_def f(2) by blast
qed

lemma init_map_ok:
  assumes "init_tag_map E q depth = Inr (d, ix, bm)"
  shows "1 \<le> d" "length ix = nat d" "length bm = words_bits d" "\<And>t. t < length ix \<Longrightarrow> ix ! t = None"
    "\<And>t. t < length bm \<Longrightarrow> \<not> bm ! t" "d \<le> depth" "q = Some nr \<Longrightarrow> d = (if word_of_int depth > nr * 2 then uint (nr * 2) else depth)"
proof -
  have le: "uint (nr * 2) \<le> depth" if "(word_of_int depth :: ulong) > nr * 2" "0 < depth" for nr
    using that zmod_le_nonneg_dividend [of depth "2 ^ 64"] by (simp add: word_less_def uint_word_of_int)
  show "1 \<le> d" "length ix = nat d" "length bm = words_bits d" "\<And>t. t < length ix \<Longrightarrow> ix ! t = None"
    "\<And>t. t < length bm \<Longrightarrow> \<not> bm ! t" "d \<le> depth" "q = Some nr \<Longrightarrow> d = (if word_of_int depth > nr * 2 then uint (nr * 2) else depth)"
    using assms le by (auto simp: init_tag_map_def Let_def split: if_splits option.splits)
qed

lemma word_of_int_less: "0 \<le> n \<Longrightarrow> n < 2 ^ 64 \<Longrightarrow> (w < (word_of_int n :: ulong)) = (uint w < n)"
  by (simp add: word_less_def uint_word_of_int)

lemma resize_spec:
  assumes inv: "tag_inv K X s" and k: "tqueues s k = Some tq" "queue_tags tq = Some a" and b: "tag_maps s a = Some b"
  shows "n < 2 ^ 64 \<Longrightarrow> blk_queue_resize_tags E k n s = Inl KBUG \<longleftrightarrow>
      real_max_depth b < n \<and> refcnt b = 1 \<and> 0 < nr_requests tq * 2 \<and> index_kcalloc E \<and> map_kcalloc E \<and>
      uint (nr_requests tq * 2) < real_max_depth b"
    "blk_queue_resize_tags E k n s = Inr s' \<Longrightarrow> tag_inv K X s' \<and> tqueues s' = tqueues s \<and>
      (\<exists>b'. tag_maps s' a = Some b' \<and> real_max_depth b \<le> real_max_depth b' \<and>
        (\<forall>t < length (tag_index b). tag_index b' ! t = tag_index b ! t))"
proof -
  have mo: "map_ok b" by (rule tag_invD(4) [OF inv b])
  let ?R = "blk_queue_resize_tags E k n s"
  consider (err) "n \<le> 0" | (small) "0 < n" "n \<le> real_max_depth b" | (busy) "real_max_depth b < n" "refcnt b \<noteq> 1"
    | (fail) e where "real_max_depth b < n" "refcnt b = 1" "init_tag_map E (Some (nr_requests tq)) n = Inl e"
    | (grow) d ix bm where "real_max_depth b < n" "refcnt b = 1" "init_tag_map E (Some (nr_requests tq)) n = Inr (d, ix, bm)"
    by (metis linorder_not_le obj_sumE prod_cases3)
  then have "(n < 2 ^ 64 \<longrightarrow> ?R = Inl KBUG \<longleftrightarrow> real_max_depth b < n \<and> refcnt b = 1 \<and> 0 < nr_requests tq * 2 \<and> index_kcalloc E \<and> map_kcalloc E \<and>
      uint (nr_requests tq * 2) < real_max_depth b) \<and>
    (?R = Inr s' \<longrightarrow> tag_inv K X s' \<and> tqueues s' = tqueues s \<and>
      (\<exists>b'. tag_maps s' a = Some b' \<and> real_max_depth b \<le> real_max_depth b' \<and>
        (\<forall>t < length (tag_index b). tag_index b' ! t = tag_index b ! t)))"
  proof cases
    case err
    then show ?thesis using k b mo by (auto simp: blk_queue_resize_tags_def map_ok_def)
  next
    case small
    let ?b = "b\<lparr>max_depth := n\<rparr>"
    have "tag_inv K X (s\<lparr>tag_maps := (tag_maps s)(a \<mapsto> ?b)\<rparr>)"
      by (rule map_upd_inv [OF inv b]) (use mo small in \<open>auto simp: map_ok_def\<close>)
    then show ?thesis using k b small by (auto simp: blk_queue_resize_tags_def)
  next
    case busy
    then show ?thesis using k b mo by (auto simp: blk_queue_resize_tags_def map_ok_def)
  next
    case fail
    then have "n < 2 ^ 64 \<Longrightarrow> \<not> (0 < nr_requests tq * 2 \<and> index_kcalloc E \<and> map_kcalloc E)" "e \<noteq> KBUG"
      using mo by (auto simp: init_tag_map_def Let_def map_ok_def word_less_def split: if_splits)
    then show ?thesis using fail k b mo by (auto simp: blk_queue_resize_tags_def map_ok_def)
  next
    case grow
    note I = init_map_ok [OF grow(3)]
    let ?n = "nat (real_max_depth b)" and ?w = "words_bits (real_max_depth b)"
    let ?b = "b\<lparr>real_max_depth := d, max_depth := d, tag_index := take ?n (tag_index b) @ drop ?n ix, tag_map := take ?w (tag_map b) @ drop ?w bm\<rparr>"
    have d: "1 \<le> real_max_depth b" using mo by (simp add: map_ok_def)
    have cap: "n < 2 ^ 64 \<Longrightarrow> d = min n (uint (nr_requests tq * 2))"
      using I(7) [OF HOL.refl] word_of_int_less [of n "nr_requests tq * 2"] grow(1) d by auto
    have ok: "index_kcalloc E" "map_kcalloc E"
      using grow(3) I(1) by (auto simp: init_tag_map_def Let_def split: if_splits)
    have pos: "n < 2 ^ 64 \<Longrightarrow> 0 < nr_requests tq * 2" using cap I(1) by (simp add: word_less_def)
    have cut: "length ix < ?n \<or> length bm < ?w \<longleftrightarrow> d < real_max_depth b"
      using I(1, 2, 3) d words_bits_mono [of "real_max_depth b" d] by linarith
    have run: "?R = (if d < real_max_depth b then Inl KBUG else Inr (s\<lparr>tag_maps := (tag_maps s)(a \<mapsto> ?b)\<rparr>))"
      using grow k b d cut by (simp add: blk_queue_resize_tags_def Let_def del: not_less)
    have "tag_inv K X (s\<lparr>tag_maps := (tag_maps s)(a \<mapsto> ?b)\<rparr>)" if "real_max_depth b \<le> d"
    proof (rule map_upd_inv [OF inv b])
      have l: "length (tag_index b) = ?n" "length (tag_map b) = ?w" "?n \<le> length ix" "?w \<le> length bm"
        using mo cut that by (auto simp: map_ok_def)
      show "map_ok ?b" using mo I(1, 2, 3, 4, 5) l words_bits_le [of "real_max_depth b"] d
        by (auto simp: map_ok_def nth_append)
      show "tag_index ?b ! t = None" if "length (tag_index b) \<le> t" "t < length (tag_index ?b)" for t
        using that l I(4) by (simp add: nth_append)
    qed (use mo cut that in \<open>auto simp: map_ok_def nth_append\<close>)
    moreover have "tag_index ?b ! t = tag_index b ! t" if "t < length (tag_index b)" for t
      using that mo by (simp add: map_ok_def nth_append)
    ultimately show ?thesis using run grow(1, 2) ok cap pos by auto
  qed
  then show "n < 2 ^ 64 \<Longrightarrow> ?R = Inl KBUG \<longleftrightarrow> real_max_depth b < n \<and> refcnt b = 1 \<and> 0 < nr_requests tq * 2 \<and> index_kcalloc E \<and> map_kcalloc E \<and>
      uint (nr_requests tq * 2) < real_max_depth b"
    "?R = Inr s' \<Longrightarrow> tag_inv K X s' \<and> tqueues s' = tqueues s \<and>
      (\<exists>b'. tag_maps s' a = Some b' \<and> real_max_depth b \<le> real_max_depth b' \<and>
        (\<forall>t < length (tag_index b). tag_index b' ! t = tag_index b ! t))"
    by blast+
qed

text \<open>Requests on no list may come and go.\<close>

lemma rq_frame_inv:
  assumes inv: "tag_inv K X s"
    and same: "\<And>k tq r. tqueues s k = Some tq \<Longrightarrow> r \<in> set (tag_busy_list tq @ tq_head tq) \<Longrightarrow> f r = trqs s r"
  shows "tag_inv K X (s\<lparr>trqs := f\<rparr>)"
proof -
  let ?s = "s\<lparr>trqs := f\<rparr>"
  have "tqueue_ok K ?s k tq" if q: "tqueues s k = Some tq" for k tq
    using tag_invD(3) [OF inv q] same [OF q] by (cases "queue_tags tq") (auto simp: tqueue_ok_def)
  moreover have "index_ok ?s a b" if a: "tag_maps s a = Some b" for a b
    unfolding index_ok_def
  proof (intro allI impI)
    fix t r
    assume "t < length (tag_index b)" "tag_index b ! t = Some r"
    then obtain rq tq where o: "trqs s r = Some rq" "t_tag rq = int t" "tqueues s (t_queue rq) = Some tq" "queue_tags tq = Some a"
      "r \<in> set (tag_busy_list tq)"
      using tag_invD(5) [OF inv a] unfolding index_ok_def by blast
    then show "\<exists>rq tq. trqs ?s r = Some rq \<and> t_tag rq = int t \<and> tqueues ?s (t_queue rq) = Some tq \<and> queue_tags tq = Some a \<and>
      r \<in> set (tag_busy_list tq)"
      using same [OF o(3), of r] by simp
  qed
  moreover have "tqueues ?s = tqueues s" "tag_maps ?s = tag_maps s" by simp_all
  ultimately show ?thesis using inv unfolding tag_inv_def by metis
qed

lemma new_queue_inv:
  assumes inv: "tag_inv K X s" and k: "tqueues s k = None" and tq: "queue_tags tq = None" "tag_busy_list tq = []" "tq_head tq = []"
  shows "tag_inv K X (set_tq k tq s)"
proof -
  let ?s = "set_tq k tq s"
  have f: "tqueues ?s = (tqueues s)(k \<mapsto> tq)" "tag_maps ?s = tag_maps s" "trqs ?s = trqs s" by (simp_all add: set_tq_def)
  have us: "users (tqueues ?s) a = users (tqueues s) a" for a
    unfolding users_def f map_sum_new [OF tag_invD(1) [OF inv] k] by (simp add: tq)
  have "tqueue_ok K ?s k' tq0" if "tqueues ?s k' = Some tq0" for k' tq0
    using that tag_invD(3) [OF inv, of k' tq0] tq unfolding tqueue_ok_def f by (cases "k' = k") auto
  moreover have "index_ok ?s a b" if "tag_maps s a = Some b" for a b
    using tag_invD(5) [OF inv that] k unfolding index_ok_def f by fastforce
  moreover have "finite (dom (tqueues ?s))" using tag_invD(1) [OF inv] by (simp add: f)
  ultimately show ?thesis using inv unfolding tag_inv_def us f(2) by blast
qed

lemma unused_map: "tag_inv K X s \<Longrightarrow> tag_maps s a = None \<Longrightarrow> tqueues s k = Some tq \<Longrightarrow> queue_tags tq \<noteq> Some a"
  using tag_invD(3) by (fastforce simp: tqueue_ok_def)

lemma users_unused: "tag_inv K X s \<Longrightarrow> tag_maps s a = None \<Longrightarrow> users (tqueues s) a = 0"
  unfolding users_def map_sum_def by (rule sum.neutral) (auto dest: unused_map)

text \<open>A new map, with one reference of its maker: \<open>Y\<close> adds it to the external ones.\<close>

lemma new_map_inv:
  assumes inv: "tag_inv K X s" and m: "blk_queue_init_tags_new E q depth s = Some (a, s')" and a: "tag_maps s a = None"
  shows "tag_inv K (insert a X) s'" "tqueues s' = tqueues s" "tag_maps s' a \<noteq> None" "a \<notin> X"
proof -
  obtain d ix bm where i: "init_tag_map E q depth = Inr (d, ix, bm)"
    and s': "s' = s\<lparr>tag_maps := (tag_maps s)(a \<mapsto> \<lparr>tag_index = ix, tag_map = bm, max_depth = d, real_max_depth = d, refcnt = 1\<rparr>)\<rparr>"
    using m by (auto simp: blk_queue_init_tags_new_def split: option.splits sum.splits)
  note I = init_map_ok [OF i]
  let ?b = "\<lparr>tag_index = ix, tag_map = bm, max_depth = d, real_max_depth = d, refcnt = 1\<rparr>"
  have f: "tag_maps s' = (tag_maps s)(a \<mapsto> ?b)" "tqueues s' = tqueues s" "trqs s' = trqs s" by (simp_all add: s')
  have mo: "map_ok ?b" using I by (auto simp: map_ok_def)
  have h: "holds_tag (tag_maps s) a' rq r \<Longrightarrow> holds_tag (tag_maps s') a' rq r" for a' rq r using a by (auto simp: holds_tag_def f)
  have qo: "tqueue_ok K s' k tq" if q: "tqueues s k = Some tq" for k tq
    using tag_invD(3) [OF inv q] h unfolding tqueue_ok_def f(2, 3) by (cases "queue_tags tq") (fastforce simp: f(1))+
  have io: "index_ok s' a0 b0" if "tag_maps s' a0 = Some b0" for a0 b0
    using that tag_invD(5) [OF inv, of a0 b0] I(4) unfolding index_ok_def f by (cases "a0 = a") auto
  have nX: "a \<notin> X" using tag_invD(2) [OF inv] a by blast
  have "map_ok b0 \<and> refcnt b0 = users (tqueues s) a0 + of_bool (a0 \<in> insert a X) \<and> 1 \<le> refcnt b0" if "tag_maps s' a0 = Some b0" for a0 b0
  proof (cases "a0 = a")
    case True
    then show ?thesis using that mo users_unused [OF inv a] by (auto simp: f)
  next
    case False
    then show ?thesis using that tag_invD(4, 6) [OF inv, of a0 b0] by (simp add: f)
  qed
  moreover have "a0 \<in> insert a X \<Longrightarrow> tag_maps s' a0 \<noteq> None" for a0 using tag_invD(2) [OF inv] by (auto simp: f)
  ultimately show "tag_inv K (insert a X) s'" using tag_invD(1) [OF inv] qo io unfolding tag_inv_def f(2) by blast
  show "tqueues s' = tqueues s" "tag_maps s' a \<noteq> None" "a \<notin> X" using f nX by simp_all
qed

text \<open>The reference of the maker becomes that of a queue, or a queue takes one of its own.\<close>

lemma assign_inv:
  assumes inv: "tag_inv K X s" and k: "tqueues s k = Some tq" "queue_tags tq = None" and a: "tag_maps s a = Some b"
    and tq': "queue_tags tq' = Some a" "tag_busy_list tq' = []" "tq_head tq' = tq_head tq"
    and X': "a \<in> X \<and> X' = X - {a} \<and> b' = b \<or> X' = X \<and> b' = b\<lparr>refcnt := refcnt b + 1\<rparr>"
  shows "tag_inv K X' (s\<lparr>tag_maps := (tag_maps s)(a \<mapsto> b'), tqueues := (tqueues s)(k \<mapsto> tq')\<rparr>)"
proof -
  define s' where "s' = s\<lparr>tag_maps := (tag_maps s)(a \<mapsto> b'), tqueues := (tqueues s)(k \<mapsto> tq')\<rparr>"
  have f: "tag_maps s' = (tag_maps s)(a \<mapsto> b')" "tqueues s' = (tqueues s)(k \<mapsto> tq')" "trqs s' = trqs s" by (simp_all add: s'_def)
  have b': "tag_index b' = tag_index b" "map_ok b'" using X' tag_invD(4) [OF inv a] by (auto simp: map_ok_def)
  have us: "users (tqueues s') a' = users (tqueues s) a' + of_bool (a' = a)" for a'
    unfolding users_def f map_sum_upd [OF tag_invD(1) [OF inv] k(1)] by (simp add: k(2) tq'(1))
  have h: "holds_tag (tag_maps s) a' rq r \<Longrightarrow> holds_tag (tag_maps s') a' rq r" for a' rq r using a b' by (auto simp: holds_tag_def f)
  have ok: "tqueue_ok K s k tq" by (rule tag_invD(3) [OF inv k(1)])
  have qk: "tqueue_ok K s' k tq'" using ok k(2) unfolding tqueue_ok_def f(3) by (simp add: tq' f(1))
  have qo: "tqueue_ok K s' k0 tq0" if q: "tqueues s' k0 = Some tq0" for k0 tq0
  proof (cases "k0 = k")
    case False
    then have "tqueue_ok K s k0 tq0" using q tag_invD(3) [OF inv] by (simp add: f)
    then show ?thesis using h unfolding tqueue_ok_def f(3) by (cases "queue_tags tq0") (fastforce simp: f(1))+
  qed (use q qk in \<open>simp add: f\<close>)
  have io: "index_ok s' a0 b0" if m0: "tag_maps s' a0 = Some b0" for a0 b0
  proof -
    obtain b1 where b1: "tag_maps s a0 = Some b1" "tag_index b0 = tag_index b1" using m0 a b' by (cases "a0 = a") (auto simp: f)
    show ?thesis unfolding index_ok_def b1(2)
    proof (intro allI impI)
      fix t r
      assume "t < length (tag_index b1)" "tag_index b1 ! t = Some r"
      then obtain rq tq0 where o: "trqs s r = Some rq" "t_tag rq = int t" "tqueues s (t_queue rq) = Some tq0" "queue_tags tq0 = Some a0"
        "r \<in> set (tag_busy_list tq0)"
        using tag_invD(5) [OF inv b1(1)] unfolding index_ok_def by blast
      then have "t_queue rq \<noteq> k" using k by auto
      then show "\<exists>rq tq. trqs s' r = Some rq \<and> t_tag rq = int t \<and> tqueues s' (t_queue rq) = Some tq \<and> queue_tags tq = Some a0 \<and>
        r \<in> set (tag_busy_list tq)" using o by (simp add: f)
    qed
  qed
  have "map_ok b0 \<and> refcnt b0 = users (tqueues s') a0 + of_bool (a0 \<in> X') \<and> 1 \<le> refcnt b0" if "tag_maps s' a0 = Some b0" for a0 b0
    using that b'(2) X' tag_invD(6) [OF inv a] tag_invD(4, 6) [OF inv, of a0 b0] unfolding us by (cases "a0 = a") (auto simp: f)
  moreover have "a0 \<in> X' \<Longrightarrow> tag_maps s' a0 \<noteq> None" for a0 using tag_invD(2) [OF inv, of a0] X' by (auto simp: f)
  moreover have "finite (dom (tqueues s'))" using tag_invD(1) [OF inv] by (simp add: f)
  ultimately show ?thesis using qo io unfolding s'_def [symmetric] tag_inv_def by blast
qed

text \<open>A queue without busy tags drops its map, and so does the external owner.\<close>

lemma free_bits:
  assumes inv: "tag_inv K X s" and a: "tag_maps s a = Some b" and n: "\<And>k tq. tqueues s k = Some tq \<Longrightarrow> queue_tags tq = Some a \<Longrightarrow> tag_busy_list tq = []"
  shows "\<not> list_ex (\<lambda>x. x) (take n (tag_map b))"
proof -
  have "tag_index b ! t = None" if t: "t < length (tag_index b)" for t
  proof (rule ccontr)
    assume "tag_index b ! t \<noteq> None"
    then obtain r where "tag_index b ! t = Some r" by auto
    then obtain rq tq where "trqs s r = Some rq" "tqueues s (t_queue rq) = Some tq" "queue_tags tq = Some a" "r \<in> set (tag_busy_list tq)"
      using tag_invD(5) [OF inv a] t unfolding index_ok_def by blast
    then show False using n by fastforce
  qed
  then have "\<not> tag_map b ! t" if "t < length (tag_map b)" for t using that tag_invD(4) [OF inv a] by (auto simp: map_ok_def)
  then show ?thesis by (auto simp: list_ex_iff in_set_conv_nth)
qed

lemma users_pos: "finite (dom qs) \<Longrightarrow> qs k = Some tq \<Longrightarrow> queue_tags tq = Some a \<Longrightarrow> 1 \<le> users qs a"
  using map_sum_ge [of qs k tq "\<lambda>tq. of_bool (queue_tags tq = Some a) :: int"] by (simp add: users_def)

text \<open>The reference of \<open>k\<close> or of the external owner goes; the rest of the state already has it so.\<close>

lemma drop_inv:
  assumes inv: "tag_inv K X s" and a: "tag_maps s a = Some b"
    and qs: "finite (dom qs)" "\<And>a'. users qs a' + of_bool (a' \<in> X') = users (tqueues s) a' + of_bool (a' \<in> X) - of_bool (a' = a)" "X' \<subseteq> X"
    and old: "\<And>k tq. qs k = Some tq \<Longrightarrow> tqueues s k = Some tq \<or> queue_tags tq = None \<and> tag_busy_list tq = [] \<and>
        (\<exists>tq0. tqueues s k = Some tq0 \<and> tq_head tq = tq_head tq0)"
    and busy: "\<And>k tq. tqueues s k = Some tq \<Longrightarrow> tag_busy_list tq \<noteq> [] \<Longrightarrow> qs k = Some tq"
  shows "tag_inv K X' (s\<lparr>tag_maps := (tag_maps s)(a := if refcnt b = 1 then None else Some (b\<lparr>refcnt := refcnt b - 1\<rparr>)), tqueues := qs\<rparr>)"
proof -
  define s' where "s' = s\<lparr>tag_maps := (tag_maps s)(a := if refcnt b = 1 then None else Some (b\<lparr>refcnt := refcnt b - 1\<rparr>)), tqueues := qs\<rparr>"
  have f: "tag_maps s' = (tag_maps s)(a := if refcnt b = 1 then None else Some (b\<lparr>refcnt := refcnt b - 1\<rparr>))" "tqueues s' = qs" "trqs s' = trqs s"
    by (simp_all add: s'_def)
  have m: "\<exists>b1. tag_maps s a0 = Some b1 \<and> tag_index b0 = tag_index b1 \<and> map_ok b0 \<and> refcnt b0 = refcnt b1 - of_bool (a0 = a) \<and>
      (a0 = a \<longrightarrow> refcnt b1 \<noteq> 1)" if "tag_maps s' a0 = Some b0" for a0 b0
    using that a tag_invD(4) [OF inv, of a0] by (cases "a0 = a") (auto simp: f map_ok_def split: if_splits)
  have h: "holds_tag (tag_maps s') a' rq r" if "holds_tag (tag_maps s) a' rq r" "a' = a \<Longrightarrow> refcnt b \<noteq> 1" for a' rq r
    using that a by (cases "a' = a") (auto simp: holds_tag_def f)
  have dead: "queue_tags tq \<noteq> Some a" if "refcnt b = 1" "qs k = Some tq" for k tq
    using users_pos [OF qs(1) that(2), of a] that(1) qs(2) [of a] tag_invD(6) [OF inv a] by (cases "a \<in> X'") auto
  have qo: "tqueue_ok K s' k tq" if q: "qs k = Some tq" for k tq
  proof -
    consider "tqueues s k = Some tq" | tq0 where "queue_tags tq = None" "tag_busy_list tq = []" "tqueues s k = Some tq0" "tq_head tq = tq_head tq0"
      using old [OF q] by blast
    then show ?thesis
    proof cases
      case 1
      have n: "queue_tags tq = Some a \<Longrightarrow> refcnt b \<noteq> 1" using dead q by blast
      show ?thesis
      proof (cases "queue_tags tq")
        case None
        then show ?thesis using tag_invD(3) [OF inv 1] by (simp add: tqueue_ok_def f)
      next
        case (Some a0)
        then have "tag_maps s' a0 \<noteq> None" using tag_invD(3) [OF inv 1] n by (auto simp: tqueue_ok_def f)
        moreover have "holds_tag (tag_maps s) a0 rq r \<Longrightarrow> holds_tag (tag_maps s') a0 rq r" for rq r using h Some n by blast
        ultimately show ?thesis using tag_invD(3) [OF inv 1] Some unfolding tqueue_ok_def f(3) by (simp, blast)
      qed
    next
      case 2
      then show ?thesis using tag_invD(3) [OF inv 2(3)] by (simp add: tqueue_ok_def f)
    qed
  qed
  have io: "index_ok s' a0 b0" if m0: "tag_maps s' a0 = Some b0" for a0 b0
  proof -
    obtain b1 where b1: "tag_maps s a0 = Some b1" "tag_index b0 = tag_index b1" using m [OF m0] by blast
    show ?thesis using tag_invD(5) [OF inv b1(1)] busy unfolding index_ok_def b1(2) f by (metis emptyE list.set(1))
  qed
  have ref: "refcnt b0 = users qs a0 + of_bool (a0 \<in> X') \<and> 1 \<le> refcnt b0" if m0: "tag_maps s' a0 = Some b0" for a0 b0
  proof -
    obtain b1 where b1: "tag_maps s a0 = Some b1" "refcnt b0 = refcnt b1 - of_bool (a0 = a)" "a0 = a \<longrightarrow> refcnt b1 \<noteq> 1"
      using m [OF m0] by blast
    then show ?thesis using tag_invD(6) [OF inv b1(1)] qs(2) [of a0] by auto
  qed
  have "tag_maps s' a0 \<noteq> None" if x: "a0 \<in> X'" for a0
  proof -
    have "refcnt b \<noteq> 1" if "a0 = a"
    proof
      assume "refcnt b = 1"
      then have "users qs a + of_bool (a \<in> X') = 0" using qs(2) [of a] tag_invD(6) [OF inv a] by auto
      moreover have "0 \<le> users qs a" unfolding users_def by (rule map_sum_nonneg) simp
      ultimately show False using x that by auto
    qed
    then show ?thesis using tag_invD(2) [OF inv] x qs(3) by (auto simp: f)
  qed
  then show ?thesis using qo io ref qs(1) m unfolding s'_def [symmetric] tag_inv_def f(2) by blast
qed

lemma free_final_spec:
  assumes inv: "tag_inv K X s" and k: "tqueues s k = Some tq" "tag_busy_list tq = []"
  shows "\<exists>s'. blk_queue_free_tags_final k s = Inr s' \<and> tag_inv K X s'"
proof (cases "queue_tags tq")
  case None
  then show ?thesis using k inv by (simp add: blk_queue_free_tags_final_def)
next
  case (Some a)
  obtain b where b: "tag_maps s a = Some b" using tag_invD(3) [OF inv k(1)] Some by (auto simp: tqueue_ok_def)
  let ?tq = "tq\<lparr>queue_tags := None, flag_queued := False\<rparr>"
  let ?qs = "(tqueues s)(k \<mapsto> ?tq)"
  have us: "users ?qs a' = users (tqueues s) a' - of_bool (a' = a)" for a'
    unfolding users_def map_sum_upd [OF tag_invD(1) [OF inv] k(1)] by (simp add: Some)
  have alone: "tag_busy_list tq' = []" if "refcnt b = 1" "tqueues s k' = Some tq'" "queue_tags tq' = Some a" for k' tq'
  proof (cases "k' = k")
    case False
    then have "1 \<le> users ?qs a" using users_pos [of ?qs k' tq' a] that tag_invD(1) [OF inv] by simp
    then show ?thesis using us [of a] tag_invD(6) [OF inv b] that(1) by (cases "a \<in> X") auto
  qed (use that k in simp)
  have "refcnt b = 1 \<Longrightarrow> \<not> list_ex (\<lambda>x. x) (take n (tag_map b))" for n using free_bits [OF inv b] alone by blast
  then have "blk_queue_free_tags_final k s = Inr (s\<lparr>tag_maps := (tag_maps s)(a := if refcnt b = 1 then None else Some (b\<lparr>refcnt := refcnt b - 1\<rparr>)),
      tqueues := ?qs\<rparr>)"
    using k b Some by (simp add: blk_queue_free_tags_final_def blk_free_tags_ref_def set_tq_def)
  moreover have "tag_inv K X (s\<lparr>tag_maps := (tag_maps s)(a := if refcnt b = 1 then None else Some (b\<lparr>refcnt := refcnt b - 1\<rparr>)), tqueues := ?qs\<rparr>)"
    by (rule drop_inv [OF inv b]) (use tag_invD(1) [OF inv] us k in \<open>auto split: if_splits\<close>)
  ultimately show ?thesis by simp
qed

lemma free_ext_spec:
  assumes inv: "tag_inv K X s" and a: "a \<in> X" "users (tqueues s) a = 0"
  shows "\<exists>s'. blk_free_tags a s = Inr s' \<and> tag_inv K (X - {a}) s'"
proof -
  obtain b where b: "tag_maps s a = Some b" using tag_invD(2) [OF inv a(1)] by auto
  have r: "refcnt b = 1" using tag_invD(6) [OF inv b] a by simp
  have "tag_busy_list tq = []" if "tqueues s k = Some tq" "queue_tags tq = Some a" for k tq
    using users_pos [OF tag_invD(1) [OF inv] that] a(2) by simp
  then have "\<not> list_ex (\<lambda>x. x) (take n (tag_map b))" for n using free_bits [OF inv b] by blast
  then have "blk_free_tags a s = Inr (s\<lparr>tag_maps := (tag_maps s)(a := if refcnt b = 1 then None else Some (b\<lparr>refcnt := refcnt b - 1\<rparr>)),
      tqueues := tqueues s\<rparr>)"
    using b r by (simp add: blk_free_tags_def blk_free_tags_ref_def)
  moreover have "tag_inv K (X - {a}) (s\<lparr>tag_maps := (tag_maps s)(a := if refcnt b = 1 then None else Some (b\<lparr>refcnt := refcnt b - 1\<rparr>)),
      tqueues := tqueues s\<rparr>)"
    by (rule drop_inv [OF inv b]) (use tag_invD(1) [OF inv] a in auto)
  ultimately show ?thesis by simp
qed

lemma init_tags_spec:
  assumes inv: "tag_inv K X s" and k: "tqueues s k = Some tq" and run: "blk_queue_init_tags E k depth tags s = Inr s'"
    and fresh: "\<And>a. tag_kmalloc E = Some a \<Longrightarrow> tag_maps s a = None"
  shows "tag_inv K X s'"
proof (cases "queue_tags tq")
  case (Some a)
  obtain b where b: "tag_maps s a = Some b" using tag_invD(3) [OF inv k] Some by (auto simp: tqueue_ok_def)
  obtain s1 where s1: "blk_queue_resize_tags E k depth s = Inr s1" "s' = set_tq k (tq\<lparr>flag_queued := True\<rparr>) s1"
    using run k Some by (auto simp: blk_queue_init_tags_def split: if_splits sum.splits)
  have r: "tag_inv K X s1" "tqueues s1 k = Some tq" using resize_spec(2) [OF inv k Some b s1(1)] k by auto
  show ?thesis unfolding s1(2)
    by (rule head_inv [OF r]) (use tag_invD(3) [OF r] in \<open>auto simp: tqueue_ok_def\<close>)
next
  case None
  let ?tq = "\<lambda>a. tq\<lparr>queue_tags := Some a, flag_queued := True, tag_busy_list := []\<rparr>"
  show ?thesis
  proof (cases tags)
    case t: None
    obtain a s1 where s1: "blk_queue_init_tags_new E (Some (nr_requests tq)) depth s = Some (a, s1)" "s' = set_tq k (?tq a) s1"
      using run k None t by (auto simp: blk_queue_init_tags_def Let_def split: option.splits prod.splits)
    have "tag_kmalloc E = Some a" using s1(1) by (auto simp: blk_queue_init_tags_new_def split: option.splits sum.splits)
    then have a: "tag_maps s a = None" by (rule fresh)
    note N = new_map_inv [OF inv s1(1) a]
    obtain b where b: "tag_maps s1 a = Some b" using N(3) by auto
    have "tag_inv K X (s1\<lparr>tag_maps := (tag_maps s1)(a \<mapsto> b), tqueues := (tqueues s1)(k \<mapsto> ?tq a)\<rparr>)"
      by (rule assign_inv [OF N(1) _ None b]) (use N(2, 4) k in auto)
    moreover have "(tag_maps s1)(a \<mapsto> b) = tag_maps s1" using b by (simp add: fun_upd_idem)
    ultimately show ?thesis by (simp add: s1(2) set_tq_def)
  next
    case t: (Some a)
    obtain b where b: "tag_maps s a = Some b"
      "s' = s\<lparr>tag_maps := (tag_maps s)(a \<mapsto> b\<lparr>refcnt := refcnt b + 1\<rparr>), tqueues := (tqueues s)(k \<mapsto> ?tq a)\<rparr>"
      using run k None t by (auto simp: blk_queue_init_tags_def set_tq_def split: option.splits)
    show ?thesis unfolding b(2) by (rule assign_inv [OF inv k None b(1)]) auto
  qed
qed

text \<open>A driver that starts requests one after the other, as long as each of them gets a tag.\<close>

fun start_tags :: "'h blk_hdr_scheme \<Rightarrow> nat \<Rightarrow> rqid list \<Rightarrow> tag_sys \<Rightarrow> tag_sys option" where
  "start_tags K k [] s = Some s"
| "start_tags K k (r # rs) s =
     (case blk_queue_start_tag K k r s of Inr (False, s') \<Rightarrow> start_tags K k rs s' | _ \<Rightarrow> None)"

lemma started_from_head:
  assumes "blk_queue_start_tag K k r s = Inr (False, s')" and "tqueues s k = Some tq"
  obtains a where "queue_tags tq = Some a" "r \<in> set (tq_head tq)"
  using assms that by (auto simp: blk_queue_start_tag_def tag_dequeue_def Let_def split: option.splits if_splits)

lemma start_tags_spec:
  assumes "tag_inv K X s" and "REQ_QUEUED K \<noteq> 0" and "tqueues s k = Some tq" and "start_tags K k rs s = Some s'"
  shows "tag_inv K X s' \<and> (\<exists>tq'. tqueues s' k = Some tq' \<and> tag_busy_list tq' = rev rs @ tag_busy_list tq \<and>
    tq_head tq' = filter (\<lambda>r. r \<notin> set rs) (tq_head tq))"
  using assms
proof (induction rs arbitrary: s tq)
  case (Cons r rs)
  obtain s1 where s1: "blk_queue_start_tag K k r s = Inr (False, s1)" "start_tags K k rs s1 = Some s'"
    using Cons.prems(4) by (auto split: sum.splits prod.splits bool.splits)
  obtain a where a: "queue_tags tq = Some a" "r \<in> set (tq_head tq)" by (rule started_from_head [OF s1(1) Cons.prems(3)])
  have "tag_inv K X s1 \<and>
      (\<exists>n. tqueues s1 k = Some (tq\<lparr>tq_head := removeAll r (tq_head tq), in_flight_async := n, tag_busy_list := r # tag_busy_list tq\<rparr>))"
    by (rule start_spec [OF Cons.prems(1, 3) a Cons.prems(2)]) (use s1(1) in \<open>auto split: option.splits\<close>)
  then obtain tq1 where tq1: "tag_inv K X s1" "tqueues s1 k = Some tq1" "tag_busy_list tq1 = r # tag_busy_list tq"
    "tq_head tq1 = removeAll r (tq_head tq)" by auto
  have "filter (\<lambda>x. x \<notin> set rs) (removeAll r xs) = filter (\<lambda>x. x \<notin> set (r # rs)) xs" for xs by (induction xs) auto
  then show ?case using Cons.IH [OF tq1(1) Cons.prems(2) tq1(2) s1(2)] tq1(3, 4) by simp
qed simp

end
