(* ===== verification/Tag_Theorems.thy ===== *)
theory Tag_Theorems
  imports Tag_Correct
begin

text \<open>The properties of tags in every state that queues, drivers and the owners of tag maps can reach.\<close>

text \<open>
  \<open>X\<close> are the maps with an owner outside of the queues. A queue is released when none of its requests
  is busy, and the owner frees a map when no queue uses it, as the comments of the two functions demand.
  A request that is on no list may be freed. The allocator does not return memory in use.
\<close>

inductive tag_reach :: "blk_hdr \<Rightarrow> addr set \<Rightarrow> tag_sys \<Rightarrow> bool" for K where
  init: "tag_reach K {} \<lparr>tag_maps = Map.empty, tqueues = Map.empty, trqs = Map.empty\<rparr>"
| queue: "tag_reach K X s \<Longrightarrow> tqueues s k = None \<Longrightarrow>
    tag_reach K X (set_tq k \<lparr>queue_tags = None, flag_queued = False, nr_requests = n, in_flight_async = 0, tq_head = [], tag_busy_list = []\<rparr> s)"
| request: "tag_reach K X s \<Longrightarrow> trqs s r = None \<Longrightarrow> tqueues s k = Some tq \<Longrightarrow> t_queue rq = k \<Longrightarrow> t_flags rq AND REQ_QUEUED K = 0 \<Longrightarrow>
    tag_reach K X (set_tq k (tq\<lparr>tq_head := tq_head tq @ [r]\<rparr>) (s\<lparr>trqs := (trqs s)(r \<mapsto> rq)\<rparr>))"
| gone: "tag_reach K X s \<Longrightarrow> (\<And>k tq. tqueues s k = Some tq \<Longrightarrow> r \<notin> set (tag_busy_list tq @ tq_head tq)) \<Longrightarrow>
    tag_reach K X (s\<lparr>trqs := (trqs s)(r := None)\<rparr>)"
| config: "tag_reach K X s \<Longrightarrow> tqueues s k = Some tq \<Longrightarrow>
    tag_reach K X (set_tq k (tq\<lparr>nr_requests := n, in_flight_async := m\<rparr>) s)"
| ext: "tag_reach K X s \<Longrightarrow> blk_init_tags E depth s = Some (a, s') \<Longrightarrow> tag_maps s a = None \<Longrightarrow> tag_reach K (insert a X) s'"
| ext_free: "tag_reach K X s \<Longrightarrow> a \<in> X \<Longrightarrow> users (tqueues s) a = 0 \<Longrightarrow> blk_free_tags a s = Inr s' \<Longrightarrow> tag_reach K (X - {a}) s'"
| init_tags: "tag_reach K X s \<Longrightarrow> tqueues s k = Some tq \<Longrightarrow> (\<And>a. tag_kmalloc E = Some a \<Longrightarrow> tag_maps s a = None) \<Longrightarrow>
    blk_queue_init_tags E k depth tags s = Inr s' \<Longrightarrow> tag_reach K X s'"
| resize: "tag_reach K X s \<Longrightarrow> tqueues s k = Some tq \<Longrightarrow> blk_queue_resize_tags E k n s = Inr s' \<Longrightarrow> tag_reach K X s'"
| disable: "tag_reach K X s \<Longrightarrow> blk_queue_free_tags k s = Inr s' \<Longrightarrow> tag_reach K X s'"
| cleanup: "tag_reach K X s \<Longrightarrow> tqueues s k = Some tq \<Longrightarrow> tag_busy_list tq = [] \<Longrightarrow> blk_queue_free_tags_final k s = Inr s' \<Longrightarrow>
    tag_reach K X s'"
| start: "tag_reach K X s \<Longrightarrow> tqueues s k = Some tq \<Longrightarrow> queue_tags tq = Some a \<Longrightarrow> r \<in> set (tq_head tq) \<Longrightarrow>
    blk_queue_start_tag K k r s = Inr (b, s') \<Longrightarrow> tag_reach K X s'"
| finish: "tag_reach K X s \<Longrightarrow> tqueues s k = Some tq \<Longrightarrow> r \<in> set (tag_busy_list tq) \<Longrightarrow> blk_queue_end_tag K k r s = Inr s' \<Longrightarrow>
    tag_reach K X s'"
| requeue: "tag_reach K X s \<Longrightarrow> tqueues s k = Some tq \<Longrightarrow> r \<in> set (tag_busy_list tq) \<Longrightarrow> tag_requeue K k r s = Inr s' \<Longrightarrow>
    tag_reach K X s'"
| invalidate: "tag_reach K X s \<Longrightarrow> blk_queue_invalidate_tags K k s = Inr s' \<Longrightarrow> tag_reach K X s'"

lemma tag_reach_inv:
  assumes "tag_reach K X s" and K: "REQ_QUEUED K \<noteq> 0"
  shows "tag_inv K X s"
  using assms(1)
proof induction
  case init
  then show ?case by (simp add: tag_inv_def)
next
  case (queue X s k n)
  then show ?case by (intro new_queue_inv) simp_all
next
  case (request X s r k tq rq)
  have q: "tqueue_ok K s k tq" by (rule tag_invD(3) [OF request.IH request.hyps(3)])
  have n: "r \<notin> set (tag_busy_list tq' @ tq_head tq')" if "tqueues s k' = Some tq'" for k' tq'
    using tag_invD(3) [OF request.IH that] request.hyps(2) by (cases "queue_tags tq'") (auto simp: tqueue_ok_def)
  have "tag_inv K X (s\<lparr>trqs := (trqs s)(r \<mapsto> rq)\<rparr>)" by (rule rq_frame_inv [OF request.IH]) (use n in fastforce)
  then show ?case by (rule head_inv) (use q n [OF request.hyps(3)] request.hyps in \<open>auto simp: tqueue_ok_def\<close>)
next
  case (gone X s r)
  then show ?case by (intro rq_frame_inv) auto
next
  case (config X s k tq n m)
  then show ?case using tag_invD(3) [OF config.IH config.hyps(2)] by (intro head_inv) (auto simp: tqueue_ok_def)
next
  case (ext X s E depth a s')
  then show ?case using new_map_inv(1) by (simp add: blk_init_tags_def)
next
  case (ext_free X s a s')
  then show ?case using free_ext_spec [OF ext_free.IH ext_free.hyps(2, 3)] by simp
next
  case (init_tags X s k tq E depth tags s')
  then show ?case using init_tags_spec by blast
next
  case (resize X s k tq E n s')
  obtain a where a: "queue_tags tq = Some a" using resize.hyps by (auto simp: blk_queue_resize_tags_def split: if_splits option.splits)
  then obtain b where "tag_maps s a = Some b" using tag_invD(3) [OF resize.IH resize.hyps(2)] by (auto simp: tqueue_ok_def)
  then show ?case using resize_spec(2) [OF resize.IH resize.hyps(2) a _ resize.hyps(3)] by blast
next
  case (disable X s k s')
  then obtain tq where tq: "tqueues s k = Some tq" "s' = set_tq k (tq\<lparr>flag_queued := False\<rparr>) s"
    by (auto simp: blk_queue_free_tags_def split: option.splits)
  then show ?case using tag_invD(3) [OF disable.IH tq(1)] disable.IH by (auto simp: tqueue_ok_def intro!: head_inv)
next
  case (cleanup X s k tq s')
  then show ?case using free_final_spec [OF cleanup.IH cleanup.hyps(2, 3)] by simp
next
  case (start X s k tq a r b s')
  obtain b0 rq where "tag_maps s a = Some b0" "trqs s r = Some rq" and
    c: "case tag_limit (max_depth b0) (t_sync rq) (in_flight_async tq) of
       None \<Rightarrow> blk_queue_start_tag K k r s = Inr (True, s)
     | Some l \<Rightarrow> (\<forall>i < nat l. tag_map b0 ! i) \<and> blk_queue_start_tag K k r s = Inr (True, s) \<or>
         (\<exists>t s'. t < nat l \<and> \<not> tag_map b0 ! t \<and> (\<forall>i < t. tag_map b0 ! i) \<and> blk_queue_start_tag K k r s = Inr (False, s') \<and>
            tag_inv K X s' \<and> trqs s' r = Some (rq\<lparr>t_flags := t_flags rq OR REQ_QUEUED K, t_tag := int t\<rparr>) \<and>
            (\<exists>b'. tag_maps s' a = Some b' \<and> tag_index b' = (tag_index b0)[t := Some r]) \<and>
            (\<exists>n. tqueues s' k = Some (tq\<lparr>tq_head := removeAll r (tq_head tq), in_flight_async := n, tag_busy_list := r # tag_busy_list tq\<rparr>)))"
    by (rule start_spec [OF start.IH start.hyps(2, 3, 4) K])
  then show ?case using start.IH start.hyps(5) by (auto split: option.splits)
next
  case (finish X s k tq r s')
  then show ?case using end_spec [OF finish.IH finish.hyps(2, 3)] by auto
next
  case (requeue X s k tq r s')
  then show ?case using requeue_spec [OF requeue.IH requeue.hyps(2, 3)] by auto
next
  case (invalidate X s k s')
  then obtain tq where tq: "tqueues s k = Some tq" "requeue_all K k (tag_busy_list tq) s = Inr s'"
    by (auto simp: blk_queue_invalidate_tags_def split: option.splits)
  then show ?case using requeue_all_spec [OF invalidate.IH tq(1) HOL.refl] by auto
qed

subsection \<open>Examples\<close>

definition example_tag_hdr :: blk_hdr where
  "example_tag_hdr =
     \<lparr>REQ_FLUSH = 1, REQ_FUA = 2, REQ_FLUSH_SEQ = 4, REQ_DISCARD = 8, REQ_SECURE = 16, REQ_SORTED = 32,
      REQ_SOFTBARRIER = 64, REQ_STARTED = 128, REQ_QUEUED = 256, REQ_ELVPRIV = 512, HZ = 100\<rparr>"

definition example_tag_env :: tag_env where
  "example_tag_env = \<lparr>tag_kmalloc = Some 1000, index_kcalloc = True, map_kcalloc = True\<rparr>"

text \<open>A queue with eight tags that may have up to \<open>n\<close> requests.\<close>

definition example_tags :: "rqid option list \<Rightarrow> bool list \<Rightarrow> blk_queue_tag" where
  "example_tags ix bs = \<lparr>tag_index = ix @ replicate (8 - length ix) None, tag_map = bs @ replicate (64 - length bs) False,
     max_depth = 8, real_max_depth = 8, refcnt = 1\<rparr>"

definition example_tq :: "ulong \<Rightarrow> rqid list \<Rightarrow> rqid list \<Rightarrow> tag_queue" where
  "example_tq n hs bs = \<lparr>queue_tags = Some 1000, flag_queued = True, nr_requests = n, in_flight_async = 0, tq_head = hs, tag_busy_list = bs\<rparr>"

definition example_trq :: "flags \<Rightarrow> int \<Rightarrow> tag_rq" where
  "example_trq f t = \<lparr>t_flags = f, t_tag = t, t_sync = True, t_account = False, t_queue = 0\<rparr>"

definition example_tag_sys :: "ulong \<Rightarrow> tag_sys" where
  "example_tag_sys n = \<lparr>tag_maps = [1000 \<mapsto> example_tags [] []], tqueues = [0 \<mapsto> example_tq n [] []], trqs = Map.empty\<rparr>"

lemma example_tag_reach: "tag_reach example_tag_hdr {} (example_tag_sys n)"
proof -
  define s0 where "s0 = set_tq 0 \<lparr>queue_tags = None, flag_queued = False, nr_requests = 4, in_flight_async = 0, tq_head = [], tag_busy_list = []\<rparr>
    \<lparr>tag_maps = Map.empty, tqueues = Map.empty, trqs = Map.empty\<rparr>"
  have 1: "tag_reach example_tag_hdr {} s0" unfolding s0_def by (rule tag_reach.queue [OF tag_reach.init]) simp
  have 2: "blk_queue_init_tags example_tag_env 0 8 None s0 = Inr (example_tag_sys 4)"
    by (simp add: blk_queue_init_tags_def blk_queue_init_tags_new_def init_tag_map_def s0_def set_tq_def example_tag_env_def
        example_tag_sys_def example_tags_def example_tq_def words_bits_def BITS_PER_LONG_def)
  have "tag_reach example_tag_hdr {} (example_tag_sys 4)"
    by (rule tag_reach.init_tags [OF 1 _ _ 2]) (simp_all add: s0_def set_tq_def)
  then have "tag_reach example_tag_hdr {} (set_tq 0 (example_tq 4 [] []\<lparr>nr_requests := n, in_flight_async := 0\<rparr>) (example_tag_sys 4))"
    by (rule tag_reach.config) (simp add: example_tag_sys_def)
  then show ?thesis by (simp add: set_tq_def example_tag_sys_def example_tq_def)
qed

lemma example_tag_request: "tag_reach example_tag_hdr {}
  (example_tag_sys 4\<lparr>tqueues := [0 \<mapsto> example_tq 4 [7] []], trqs := [7 \<mapsto> example_trq 0 (- 1)]\<rparr>)"
  using tag_reach.request [OF example_tag_reach [of 4], of 7 0 "example_tq 4 [] []" "example_trq 0 (- 1)"]
  by (simp add: example_tag_sys_def set_tq_def example_tq_def example_trq_def)

subsection \<open>Properties\<close>

text \<open>
  C25. In every reachable state the tags identify the requests in flight, also when queues share a map: a
  busy request holds a tag below the depth of its map, \<^verbatim>\<open>tag_index\<close> leads from the tag back to it, its bit
  is set, and two busy requests on one map have different tags. Starting, ending and requeueing a tag,
  invalidating all tags of a queue and releasing an idle queue never fault, and a map lives exactly as long
  as queues or an owner refer to it.
\<close>

theorem tags_identify_requests:
  assumes "tag_reach K X s" and "REQ_QUEUED K \<noteq> 0" and "tqueues s k = Some tq"
  shows "(\<forall>r \<in> set (tag_busy_list tq). \<exists>rq a b. trqs s r = Some rq \<and> queue_tags tq = Some a \<and> tag_maps s a = Some b \<and>
      0 \<le> t_tag rq \<and> t_tag rq < real_max_depth b \<and> tag_index b ! nat (t_tag rq) = Some r \<and> tag_map b ! nat (t_tag rq) \<and>
      (\<forall>k' tq' r' rq'. tqueues s k' = Some tq' \<longrightarrow> queue_tags tq' = Some a \<longrightarrow> r' \<in> set (tag_busy_list tq') \<longrightarrow>
         trqs s r' = Some rq' \<longrightarrow> t_tag rq' = t_tag rq \<longrightarrow> r' = r) \<and>
      blk_queue_end_tag K k r s \<noteq> Inl KBUG \<and> tag_requeue K k r s \<noteq> Inl KBUG) \<and>
    (\<forall>r \<in> set (tq_head tq). queue_tags tq \<noteq> None \<longrightarrow> blk_queue_start_tag K k r s \<noteq> Inl KBUG) \<and>
    blk_queue_invalidate_tags K k s \<noteq> Inl KBUG \<and>
    (tag_busy_list tq = [] \<longrightarrow> blk_queue_free_tags_final k s \<noteq> Inl KBUG) \<and>
    (\<forall>a b. tag_maps s a = Some b \<longrightarrow> refcnt b = users (tqueues s) a + of_bool (a \<in> X) \<and> 1 \<le> refcnt b)"
proof -
  have inv: "tag_inv K X s" by (rule tag_reach_inv [OF assms(1, 2)])
  have held: "\<exists>rq a b. trqs s r = Some rq \<and> queue_tags tq' = Some a \<and> tag_maps s a = Some b \<and>
      0 \<le> t_tag rq \<and> nat (t_tag rq) < length (tag_index b) \<and> tag_index b ! nat (t_tag rq) = Some r"
    if "tqueues s k' = Some tq'" "r \<in> set (tag_busy_list tq')" for k' tq' r
    using tag_invD(3) [OF inv that(1)] that(2) by (cases "queue_tags tq'") (auto simp: tqueue_ok_def holds_tag_def)
  have "\<exists>rq a b. trqs s r = Some rq \<and> queue_tags tq = Some a \<and> tag_maps s a = Some b \<and>
      0 \<le> t_tag rq \<and> t_tag rq < real_max_depth b \<and> tag_index b ! nat (t_tag rq) = Some r \<and> tag_map b ! nat (t_tag rq) \<and>
      (\<forall>k' tq' r' rq'. tqueues s k' = Some tq' \<longrightarrow> queue_tags tq' = Some a \<longrightarrow> r' \<in> set (tag_busy_list tq') \<longrightarrow>
         trqs s r' = Some rq' \<longrightarrow> t_tag rq' = t_tag rq \<longrightarrow> r' = r) \<and>
      blk_queue_end_tag K k r s \<noteq> Inl KBUG \<and> tag_requeue K k r s \<noteq> Inl KBUG" if r: "r \<in> set (tag_busy_list tq)" for r
  proof -
    obtain rq a b where o: "trqs s r = Some rq" "queue_tags tq = Some a" "tag_maps s a = Some b" "0 \<le> t_tag rq"
      "nat (t_tag rq) < length (tag_index b)" "tag_index b ! nat (t_tag rq) = Some r"
      using held [OF assms(3) r] by blast
    have m: "map_ok b" by (rule tag_invD(4) [OF inv o(3)])
    have "t_tag rq < real_max_depth b" "tag_map b ! nat (t_tag rq)"
      using m o words_bits_le [of "real_max_depth b"] by (auto simp: map_ok_def)
    moreover have "r' = r" if "tqueues s k' = Some tq'" "queue_tags tq' = Some a" "r' \<in> set (tag_busy_list tq')" "trqs s r' = Some rq'"
      "t_tag rq' = t_tag rq" for k' tq' r' rq'
      using held [OF that(1, 3)] that(2, 4, 5) o(3, 6) by auto
    moreover have "blk_queue_end_tag K k r s \<noteq> Inl KBUG" "tag_requeue K k r s \<noteq> Inl KBUG"
      using end_spec [OF inv assms(3) r] requeue_spec [OF inv assms(3) r] by auto
    ultimately show ?thesis using o by blast
  qed
  moreover have "blk_queue_start_tag K k r s \<noteq> Inl KBUG" if r: "r \<in> set (tq_head tq)" "queue_tags tq \<noteq> None" for r
  proof -
    obtain a where a: "queue_tags tq = Some a" using r(2) by auto
    show ?thesis using start_spec [OF inv assms(3) a r(1) assms(2), of "blk_queue_start_tag K k r s \<noteq> Inl KBUG"]
      by (fastforce split: option.splits)
  qed
  moreover have "blk_queue_invalidate_tags K k s \<noteq> Inl KBUG"
    using requeue_all_spec [OF inv assms(3) HOL.refl] assms(3) by (auto simp: blk_queue_invalidate_tags_def)
  moreover have "tag_busy_list tq = [] \<longrightarrow> blk_queue_free_tags_final k s \<noteq> Inl KBUG" using free_final_spec [OF inv assms(3)] by auto
  ultimately show ?thesis using tag_invD(6) [OF inv] by blast
qed

theorem tags_identify_requests_witness:
  "\<exists>s tq. tag_reach example_tag_hdr {} s \<and> tqueues s 0 = Some tq \<and> tag_busy_list tq = [7] \<and>
     (\<exists>rq a b. trqs s 7 = Some rq \<and> tag_maps s a = Some b \<and> tag_index b ! nat (t_tag rq) = Some 7)"
proof -
  let ?s = "example_tag_sys 4\<lparr>tqueues := [0 \<mapsto> example_tq 4 [7] []], trqs := [7 \<mapsto> example_trq 0 (- 1)]\<rparr>"
  define s where "s = ?s\<lparr>tag_maps := [1000 \<mapsto> example_tags [Some 7] [True]], tqueues := [0 \<mapsto> example_tq 4 [] [7]], trqs := [7 \<mapsto> example_trq 256 0]\<rparr>"
  have K: "REQ_QUEUED example_tag_hdr \<noteq> 0" by (simp add: example_tag_hdr_def)
  have "blk_queue_start_tag example_tag_hdr 0 7 ?s = Inr (False, s)"
    by (simp add: blk_queue_start_tag_def tag_dequeue_def tag_limit_def find_first_zero_bit_def example_tag_sys_def example_tq_def
        example_trq_def example_tags_def example_tag_hdr_def s_def Let_def numeral_eq_Suc)
  then have r: "tag_reach example_tag_hdr {} s"
    by (rule tag_reach.start [OF example_tag_request, where k = 0 and tq = "example_tq 4 [7] []" and a = 1000, rotated 3])
      (simp_all add: example_tq_def)
  have q: "tqueues s 0 = Some (example_tq 4 [] [7])" by (simp add: s_def)
  have b: "tag_busy_list (example_tq 4 [] [7]) = [7]" by (simp add: example_tq_def)
  then have "\<exists>rq a b. trqs s 7 = Some rq \<and> tag_maps s a = Some b \<and> tag_index b ! nat (t_tag rq) = Some 7"
    using tags_identify_requests [OF r K q, THEN conjunct1, THEN bspec, of 7] by fastforce
  then show ?thesis using r q b by blast
qed

text \<open>
  C26. Which tag a request gets. A synchronous request may use all tags. An asynchronous one may use all but
  the last two, or one tag where the depth is two, and none when more asynchronous requests than that are in
  flight; where the depth is one it is treated like a synchronous one, whatever is in flight. Among the
  tags it may use it gets the lowest free one, and \<^verbatim>\<open>blk_queue_start_tag\<close> returns 1 and changes nothing
  exactly when there is none.
\<close>

theorem start_tag_correct:
  assumes "tag_reach K X s" and "REQ_QUEUED K \<noteq> 0" and "tqueues s k = Some tq" and "queue_tags tq = Some a" and "tag_maps s a = Some b"
    and "r \<in> set (tq_head tq)" and "trqs s r = Some rq"
  shows "let limit = (if t_sync rq \<or> max_depth b = 1 then max_depth b else max 1 (max_depth b - 2)) in
    (if (\<exists>t < nat limit. \<not> tag_map b ! t) \<and> (t_sync rq \<or> max_depth b = 1 \<or> uint (in_flight_async tq) \<le> limit)
     then \<exists>t s'. blk_queue_start_tag K k r s = Inr (False, s') \<and> t < nat limit \<and> \<not> tag_map b ! t \<and> (\<forall>i < t. tag_map b ! i) \<and>
       trqs s' r = Some (rq\<lparr>t_flags := t_flags rq OR REQ_QUEUED K, t_tag := int t\<rparr>)
     else blk_queue_start_tag K k r s = Inr (True, s))"
proof -
  have inv: "tag_inv K X s" by (rule tag_reach_inv [OF assms(1, 2)])
  have d: "1 \<le> max_depth b" using tag_invD(4) [OF inv assms(5)] by (simp add: map_ok_def)
  define limit where "limit = (if t_sync rq \<or> max_depth b = 1 then max_depth b else max 1 (max_depth b - 2))"
  have lim: "tag_limit (max_depth b) (t_sync rq) (in_flight_async tq) =
      (if t_sync rq \<or> max_depth b = 1 \<or> uint (in_flight_async tq) \<le> limit then Some limit else None)"
    using d by (auto simp: tag_limit_def limit_def Let_def)
  have "case tag_limit (max_depth b) (t_sync rq) (in_flight_async tq) of
       None \<Rightarrow> blk_queue_start_tag K k r s = Inr (True, s)
     | Some l \<Rightarrow> (\<forall>i < nat l. tag_map b ! i) \<and> blk_queue_start_tag K k r s = Inr (True, s) \<or>
         (\<exists>t s'. t < nat l \<and> \<not> tag_map b ! t \<and> (\<forall>i < t. tag_map b ! i) \<and> blk_queue_start_tag K k r s = Inr (False, s') \<and>
            trqs s' r = Some (rq\<lparr>t_flags := t_flags rq OR REQ_QUEUED K, t_tag := int t\<rparr>))"
    by (rule start_spec [OF inv assms(3, 4, 6, 2)]) (use assms(5, 7) in \<open>auto split: option.splits\<close>)
  then show ?thesis unfolding limit_def [symmetric] Let_def lim by (auto split: if_splits)
qed

theorem start_tag_correct_witness:
  "\<exists>s s'. tag_reach example_tag_hdr {} s \<and> blk_queue_start_tag example_tag_hdr 0 7 s = Inr (False, s')"
proof -
  define s where "s = example_tag_sys 4\<lparr>tqueues := [0 \<mapsto> example_tq 4 [7] []], trqs := [7 \<mapsto> example_trq 0 (- 1)]\<rparr>"
  have r: "tag_reach example_tag_hdr {} s" unfolding s_def by (rule example_tag_request)
  have f: "REQ_QUEUED example_tag_hdr \<noteq> 0" "tqueues s 0 = Some (example_tq 4 [7] [])" "queue_tags (example_tq 4 [7] []) = Some 1000"
    "tag_maps s 1000 = Some (example_tags [] [])" "7 \<in> set (tq_head (example_tq 4 [7] []))" "trqs s 7 = Some (example_trq 0 (- 1))"
    by (simp_all add: s_def example_tag_hdr_def example_tag_sys_def example_tq_def)
  have e: "t_sync (example_trq 0 (- 1))" "max_depth (example_tags [] []) = 8" "\<exists>t < 8. \<not> tag_map (example_tags [] []) ! t"
    by (auto simp: example_trq_def example_tags_def intro!: exI [of _ 0])
  have "\<exists>s'. blk_queue_start_tag example_tag_hdr 0 7 s = Inr (False, s')"
    using start_tag_correct [OF r f] e unfolding Let_def e(2) by (auto split: if_splits)
  then show ?thesis using r by blast
qed

text \<open>
  C27. \<^verbatim>\<open>blk_queue_resize_tags\<close> keeps the tags in use and never makes the arrays shorter, except that it
  writes past the end of the new arrays when the map must grow and \<^verbatim>\<open>2 * nr_requests\<close>, computed as
  \<^verbatim>\<open>unsigned long\<close> and not 0, has become less than the present depth: the new arrays then have
  \<^verbatim>\<open>2 * nr_requests\<close> entries, but all of the old ones are copied into them. This is the only way it can
  fault. The new depth \<open>n\<close> is an \<^verbatim>\<open>int\<close>.
\<close>

theorem resize_tags_overflow:
  assumes "tag_reach K X s" and "REQ_QUEUED K \<noteq> 0" and "tqueues s k = Some tq" and "queue_tags tq = Some a" and "tag_maps s a = Some b"
    and "n < 2 ^ 31"
  shows "(blk_queue_resize_tags E k n s = Inl KBUG \<longleftrightarrow>
      real_max_depth b < n \<and> refcnt b = 1 \<and> 0 < nr_requests tq * 2 \<and> index_kcalloc E \<and> map_kcalloc E \<and>
      uint (nr_requests tq * 2) < real_max_depth b) \<and>
    (\<forall>s'. blk_queue_resize_tags E k n s = Inr s' \<longrightarrow>
      (\<exists>b'. tag_maps s' a = Some b' \<and> real_max_depth b \<le> real_max_depth b' \<and>
        (\<forall>t < length (tag_index b). tag_index b' ! t = tag_index b ! t)))"
proof -
  have inv: "tag_inv K X s" by (rule tag_reach_inv [OF assms(1, 2)])
  show ?thesis using resize_spec(1) [OF inv assms(3-5), of n E] resize_spec(2) [OF inv assms(3-5), of E n] assms(6) by simp
qed

theorem resize_tags_overflow_witness:
  "tag_reach example_tag_hdr {} (example_tag_sys 2) \<and> blk_queue_resize_tags example_tag_env 0 16 (example_tag_sys 2) = Inl KBUG"
proof -
  have "blk_queue_resize_tags example_tag_env 0 16 (example_tag_sys 2) = Inl KBUG"
    using resize_tags_overflow [OF example_tag_reach [of 2], of 0 "example_tq 2 [] []" 1000 "example_tags [] []" 16 example_tag_env]
    by (simp add: example_tag_hdr_def example_tag_sys_def example_tq_def example_tags_def example_tag_env_def)
  then show ?thesis using example_tag_reach by simp
qed

text \<open>
  C28. \<^verbatim>\<open>blk_queue_invalidate_tags\<close> puts all busy requests of the queue back at the front of its dispatch
  queue in the order in which they were started, and none of them is busy any more. A driver that has
  started the requests \<open>rs\<close> one after the other finds, after invalidation, first those that were busy
  before, then \<open>rs\<close>, in its order, then what else was queued; where \<open>rs\<close> were the first of the queue and
  nothing was busy, the queue is as it was before.
\<close>

theorem invalidate_tags_order:
  assumes "tag_reach K X s" and "REQ_QUEUED K \<noteq> 0" and "tqueues s k = Some tq" and "start_tags K k rs s = Some s1"
  shows "\<exists>s2 tq2. blk_queue_invalidate_tags K k s1 = Inr s2 \<and> tqueues s2 k = Some tq2 \<and> tag_busy_list tq2 = [] \<and>
    tq_head tq2 = rev (tag_busy_list tq) @ rs @ filter (\<lambda>r. r \<notin> set rs) (tq_head tq)"
proof -
  obtain tq1 where s1: "tag_inv K X s1" "tqueues s1 k = Some tq1" "tag_busy_list tq1 = rev rs @ tag_busy_list tq"
    "tq_head tq1 = filter (\<lambda>r. r \<notin> set rs) (tq_head tq)"
    using start_tags_spec [OF tag_reach_inv [OF assms(1, 2)] assms(2-4)] by blast
  then show ?thesis using requeue_all_spec [OF s1(1, 2) HOL.refl] by (auto simp: blk_queue_invalidate_tags_def)
qed

lemma example_tag_requests: "tag_reach example_tag_hdr {}
  (example_tag_sys 4\<lparr>tqueues := [0 \<mapsto> example_tq 4 [7, 9] []], trqs := [7 \<mapsto> example_trq 0 (- 1), 9 \<mapsto> example_trq 0 (- 1)]\<rparr>)"
  using tag_reach.request [OF example_tag_request, of 9 0 "example_tq 4 [7] []" "example_trq 0 (- 1)"]
  by (simp add: example_tag_sys_def set_tq_def example_tq_def example_trq_def)

theorem invalidate_tags_order_witness:
  "\<exists>s s1 s2 tq1 tq2. tag_reach example_tag_hdr {} s \<and> start_tags example_tag_hdr 0 [7, 9] s = Some s1 \<and>
     tqueues s1 0 = Some tq1 \<and> tag_busy_list tq1 = [9, 7] \<and>
     blk_queue_invalidate_tags example_tag_hdr 0 s1 = Inr s2 \<and> tqueues s2 0 = Some tq2 \<and> tq_head tq2 = [7, 9]"
proof -
  define s where "s = example_tag_sys 4\<lparr>tqueues := [0 \<mapsto> example_tq 4 [7, 9] []], trqs := [7 \<mapsto> example_trq 0 (- 1), 9 \<mapsto> example_trq 0 (- 1)]\<rparr>"
  define s0 where "s0 = s\<lparr>tag_maps := [1000 \<mapsto> example_tags [Some 7] [True]], tqueues := [0 \<mapsto> example_tq 4 [9] [7]],
    trqs := [7 \<mapsto> example_trq 256 0, 9 \<mapsto> example_trq 0 (- 1)]\<rparr>"
  define s1 where "s1 = s\<lparr>tag_maps := [1000 \<mapsto> example_tags [Some 7, Some 9] [True, True]], tqueues := [0 \<mapsto> example_tq 4 [] [9, 7]],
    trqs := [7 \<mapsto> example_trq 256 0, 9 \<mapsto> example_trq 256 1]\<rparr>"
  note ev = blk_queue_start_tag_def tag_dequeue_def tag_limit_def find_first_zero_bit_def example_tag_sys_def example_tq_def
    example_trq_def example_tags_def example_tag_hdr_def Let_def numeral_eq_Suc
  have "blk_queue_start_tag example_tag_hdr 0 7 s = Inr (False, s0)" by (simp add: ev s_def s0_def fun_eq_iff)
  moreover have "blk_queue_start_tag example_tag_hdr 0 9 s0 = Inr (False, s1)" by (simp add: ev s_def s0_def s1_def fun_eq_iff)
  ultimately have st: "start_tags example_tag_hdr 0 [7, 9] s = Some s1" by simp
  have r: "tag_reach example_tag_hdr {} s" unfolding s_def by (rule example_tag_requests)
  have q: "tqueues s 0 = Some (example_tq 4 [7, 9] [])" "tqueues s1 0 = Some (example_tq 4 [] [9, 7])" by (simp_all add: s_def s1_def)
  have "REQ_QUEUED example_tag_hdr \<noteq> 0" by (simp add: example_tag_hdr_def)
  from invalidate_tags_order [OF r this q(1) st] obtain s2 tq2 where
    "blk_queue_invalidate_tags example_tag_hdr 0 s1 = Inr s2" "tqueues s2 0 = Some tq2" "tq_head tq2 = [7, 9]"
    by (auto simp: example_tq_def)
  moreover have "tag_busy_list (example_tq 4 [] [9, 7]) = [9, 7]" by (simp add: example_tq_def)
  ultimately show ?thesis using r st q(2) by blast
qed

end
