(* ===== verification/Blk_Elevator.thy ===== *)
theory Blk_Elevator
  imports Blk_Prelude "HOL-Library.Multiset" "HOL-Library.Tree"
begin

unbundle bit_operations_syntax

text \<open>
  \<^verbatim>\<open>block/elevator.c\<close>: the part of a request queue that all I/O schedulers share, namely the dispatch
  queue, the hash of requests by their end sector for back merges, and the search trees by start sector.

  The balancing of a red-black tree, its erasure and the step to the next node belong to the library of
  the kernel: they are the fields of \<open>rb_lib\<close>. \<^verbatim>\<open>hash_long\<close> is a field of the header record. \<open>None\<close> is a failing
  \<^verbatim>\<open>BUG_ON\<close> or a request that does not exist.
\<close>

record elv_hdr = blk_hdr +
  RQ_NOMERGE_FLAGS :: flags
  hash_long :: "ulong \<Rightarrow> nat \<Rightarrow> nat"

record elv_rq =
  er_flags :: flags
  er_fs :: bool
  er_dir :: data_dir
  er_pos :: ulong
  er_sectors :: nat
  er_fifo_time :: ulong
  er_bio_rw :: flags
  er_disk :: nat
  er_special :: bool
  er_integrity :: bool
  er_sync :: bool

record elv_bio =
  eb_rw :: flags
  eb_sector :: ulong
  eb_sectors :: nat
  eb_dir :: data_dir
  eb_disk :: nat
  eb_integrity :: bool

record elv_q =
  elv_rqs :: "rqid \<rightharpoonup> elv_rq"
  elv_head :: "rqid list"
  last_merge :: "rqid option"
  elv_hash :: "rqid list list"
  nr_sorted :: int
  end_sector :: ulong
  boundary_rq :: "rqid option"
  elv_in_flight :: "bool \<Rightarrow> int"
  elv_nomerges :: bool
  elv_noxmerges :: bool

definition rq_end_sector :: "elv_rq \<Rightarrow> ulong" where
  "rq_end_sector rq = er_pos rq + of_nat (er_sectors rq)"

definition elv_hash_shift :: nat where "elv_hash_shift = 6"

definition ELV_HASH_FN :: "'h elv_hdr_scheme \<Rightarrow> ulong \<Rightarrow> nat" where
  "ELV_HASH_FN K sec = hash_long K (drop_bit 3 sec) elv_hash_shift"

definition ELV_HASH_ENTRIES :: nat where "ELV_HASH_ENTRIES = 2 ^ elv_hash_shift"

definition rq_hash_key :: "elv_rq \<Rightarrow> ulong" where
  "rq_hash_key rq = er_pos rq + of_nat (er_sectors rq)"

definition rq_mergeable :: "'h elv_hdr_scheme \<Rightarrow> elv_rq \<Rightarrow> bool" where
  "rq_mergeable K rq \<longleftrightarrow>
     er_flags rq AND RQ_NOMERGE_FLAGS K = 0 \<and> (er_flags rq AND REQ_DISCARD K \<noteq> 0 \<or> er_fs rq)"

subsection \<open>Merging a bio\<close>

datatype merge = ELEVATOR_NO_MERGE | ELEVATOR_FRONT_MERGE | ELEVATOR_BACK_MERGE

text \<open>\<open>allow\<close> is the answer of \<^verbatim>\<open>elv_iosched_allow_merge\<close>.\<close>

definition elv_rq_merge_ok :: "'h elv_hdr_scheme \<Rightarrow> bool \<Rightarrow> elv_rq \<Rightarrow> elv_bio \<Rightarrow> bool" where
  "elv_rq_merge_ok K allow rq bio \<longleftrightarrow>
     rq_mergeable K rq \<and>
     eb_rw bio AND REQ_DISCARD K = er_bio_rw rq AND REQ_DISCARD K \<and>
     eb_rw bio AND REQ_SECURE K = er_bio_rw rq AND REQ_SECURE K \<and>
     eb_dir bio = er_dir rq \<and> er_disk rq = eb_disk bio \<and> \<not> er_special rq \<and>
     eb_integrity bio = er_integrity rq \<and> allow"

definition elv_try_merge :: "'h elv_hdr_scheme \<Rightarrow> bool \<Rightarrow> elv_rq \<Rightarrow> elv_bio \<Rightarrow> merge" where
  "elv_try_merge K allow rq bio =
     (if elv_rq_merge_ok K allow rq bio then
        (if er_pos rq + of_nat (er_sectors rq) = eb_sector bio then ELEVATOR_BACK_MERGE
         else if er_pos rq - of_nat (eb_sectors bio) = eb_sector bio then ELEVATOR_FRONT_MERGE
         else ELEVATOR_NO_MERGE)
      else ELEVATOR_NO_MERGE)"

subsection \<open>The hash\<close>

definition ELV_ON_HASH :: "rqid \<Rightarrow> elv_q \<Rightarrow> bool" where
  "ELV_ON_HASH r q \<longleftrightarrow> list_ex (\<lambda>b. r \<in> set b) (elv_hash q)"

definition elv_rqhash_del :: "rqid \<Rightarrow> elv_q \<Rightarrow> elv_q" where
  "elv_rqhash_del r q = (if ELV_ON_HASH r q then q\<lparr>elv_hash := map (removeAll r) (elv_hash q)\<rparr> else q)"

definition elv_rqhash_add :: "'h elv_hdr_scheme \<Rightarrow> rqid \<Rightarrow> elv_q \<Rightarrow> elv_q option" where
  "elv_rqhash_add K r q =
     (case elv_rqs q r of None \<Rightarrow> None
      | Some rq \<Rightarrow>
        let i = ELV_HASH_FN K (rq_hash_key rq)
        in if ELV_ON_HASH r q \<or> i \<ge> length (elv_hash q) then None
           else Some (q\<lparr>elv_hash := (elv_hash q)[i := r # elv_hash q ! i]\<rparr>))"

definition elv_rqhash_reposition :: "'h elv_hdr_scheme \<Rightarrow> rqid \<Rightarrow> elv_q \<Rightarrow> elv_q option" where
  "elv_rqhash_reposition K r q = elv_rqhash_add K r (elv_rqhash_del r q)"

text \<open>The walk over a bucket: what it finds, and the bucket without the requests it has thrown out.\<close>

fun rqhash_scan :: "'h elv_hdr_scheme \<Rightarrow> (rqid \<rightharpoonup> elv_rq) \<Rightarrow> ulong \<Rightarrow> rqid list \<Rightarrow> (rqid option \<times> rqid list) option" where
  "rqhash_scan K rqs offset [] = Some (None, [])"
| "rqhash_scan K rqs offset (r # rs) =
     (case rqs r of None \<Rightarrow> None
      | Some rq \<Rightarrow>
        if \<not> rq_mergeable K rq then rqhash_scan K rqs offset rs
        else if rq_hash_key rq = offset then Some (Some r, r # rs)
        else map_option (\<lambda>(f, rs'). (f, r # rs')) (rqhash_scan K rqs offset rs))"

definition elv_rqhash_find :: "'h elv_hdr_scheme \<Rightarrow> ulong \<Rightarrow> elv_q \<Rightarrow> (rqid option \<times> elv_q) option" where
  "elv_rqhash_find K offset q =
     (let i = ELV_HASH_FN K offset
      in if i \<ge> length (elv_hash q) then None
         else map_option (\<lambda>(f, b). (f, q\<lparr>elv_hash := (elv_hash q)[i := b]\<rparr>)) (rqhash_scan K (elv_rqs q) offset (elv_hash q ! i)))"

subsection \<open>Search trees by start sector\<close>

record rb_lib =
  rb_insert_color :: "rqid tree \<Rightarrow> rqid tree"
  rb_erase :: "rqid \<Rightarrow> rqid tree \<Rightarrow> rqid tree"
  rb_next :: "rqid \<Rightarrow> rqid tree \<Rightarrow> rqid option"

definition map_right :: "('b \<Rightarrow> 'c) \<Rightarrow> 'a + 'b \<Rightarrow> 'a + 'c" where
  "map_right f x = (case x of Inl a \<Rightarrow> Inl a | Inr b \<Rightarrow> Inr (f b))"

text \<open>The descent of \<^verbatim>\<open>elv_rb_add\<close> down to \<^verbatim>\<open>rb_link_node\<close>; \<open>Inl\<close> is a request at the same sector.\<close>

fun rb_link :: "(rqid \<rightharpoonup> elv_rq) \<Rightarrow> ulong \<Rightarrow> rqid \<Rightarrow> rqid tree \<Rightarrow> (rqid + rqid tree) option" where
  "rb_link rqs pos r Leaf = Some (Inr (Node Leaf r Leaf))"
| "rb_link rqs pos r (Node lt x rt) =
     (case rqs x of None \<Rightarrow> None
      | Some rq \<Rightarrow>
        if pos < er_pos rq then map_option (map_right (\<lambda>t. Node t x rt)) (rb_link rqs pos r lt)
        else if pos > er_pos rq then map_option (map_right (\<lambda>t. Node lt x t)) (rb_link rqs pos r rt)
        else Some (Inl x))"

definition elv_rb_add :: "rb_lib \<Rightarrow> (rqid \<rightharpoonup> elv_rq) \<Rightarrow> rqid \<Rightarrow> rqid tree \<Rightarrow> (rqid + rqid tree) option" where
  "elv_rb_add L rqs r root =
     (case rqs r of None \<Rightarrow> None
      | Some rq \<Rightarrow> map_option (map_right (rb_insert_color L)) (rb_link rqs (er_pos rq) r root))"

definition elv_rb_del :: "rb_lib \<Rightarrow> rqid \<Rightarrow> rqid tree \<Rightarrow> rqid tree option" where
  "elv_rb_del L r root = (if r \<notin> set_tree root then None else Some (rb_erase L r root))"

fun elv_rb_find :: "(rqid \<rightharpoonup> elv_rq) \<Rightarrow> ulong \<Rightarrow> rqid tree \<Rightarrow> rqid option option" where
  "elv_rb_find rqs sector Leaf = Some None"
| "elv_rb_find rqs sector (Node lt x rt) =
     (case rqs x of None \<Rightarrow> None
      | Some rq \<Rightarrow>
        if sector < er_pos rq then elv_rb_find rqs sector lt
        else if sector > er_pos rq then elv_rb_find rqs sector rt
        else Some (Some x))"

subsection \<open>The dispatch queue\<close>

text \<open>Whether the walk from the end of the queue stops at \<open>pos\<close>.\<close>

definition sort_stop :: "'h elv_hdr_scheme \<Rightarrow> ulong \<Rightarrow> elv_rq \<Rightarrow> elv_rq \<Rightarrow> bool" where
  "sort_stop K boundary rq pos \<longleftrightarrow>
     er_flags rq AND REQ_DISCARD K \<noteq> er_flags pos AND REQ_DISCARD K \<or>
     er_dir rq \<noteq> er_dir pos \<or>
     er_flags pos AND (REQ_SOFTBARRIER K OR REQ_STARTED K) \<noteq> 0 \<or>
     (if er_pos rq \<ge> boundary \<and> er_pos pos < boundary then False
      else if er_pos rq < boundary \<and> er_pos pos \<ge> boundary then True
      else er_pos rq \<ge> er_pos pos)"

text \<open>The queue from its end; the second list is what the walk has passed.\<close>

fun dispatch_split :: "'h elv_hdr_scheme \<Rightarrow> (rqid \<rightharpoonup> elv_rq) \<Rightarrow> ulong \<Rightarrow> elv_rq \<Rightarrow> rqid list \<Rightarrow> rqid list \<Rightarrow> (rqid list \<times> rqid list) option" where
  "dispatch_split K rqs boundary rq [] passed = Some ([], passed)"
| "dispatch_split K rqs boundary rq (p # ps) passed =
     (case rqs p of None \<Rightarrow> None
      | Some prq \<Rightarrow>
        if sort_stop K boundary rq prq then Some (rev (p # ps), passed)
        else dispatch_split K rqs boundary rq ps (p # passed))"

definition elv_forget :: "rqid \<Rightarrow> elv_q \<Rightarrow> elv_q" where
  "elv_forget r q =
     (let q1 = (if last_merge q = Some r then q\<lparr>last_merge := None\<rparr> else q); q2 = elv_rqhash_del r q1
      in q2\<lparr>nr_sorted := nr_sorted q2 - 1\<rparr>)"

definition elv_dispatch_sort :: "'h elv_hdr_scheme \<Rightarrow> rqid \<Rightarrow> elv_q \<Rightarrow> elv_q option" where
  "elv_dispatch_sort K r q =
     (case elv_rqs q r of None \<Rightarrow> None
      | Some rq \<Rightarrow>
        map_option (\<lambda>(front, back). (elv_forget r q)\<lparr>elv_head := front @ [r] @ back\<rparr>)
          (dispatch_split K (elv_rqs q) (end_sector q) rq (rev (elv_head q)) []))"

definition elv_dispatch_add_tail :: "rqid \<Rightarrow> elv_q \<Rightarrow> elv_q option" where
  "elv_dispatch_add_tail r q =
     (case elv_rqs q r of None \<Rightarrow> None
      | Some rq \<Rightarrow>
        Some ((elv_forget r q)\<lparr>end_sector := rq_end_sector rq, boundary_rq := Some r, elv_head := elv_head q @ [r]\<rparr>))"

subsection \<open>The operations of a scheduler\<close>

record 'd elv_ops =
  elevator_add_req_fn :: "rqid \<Rightarrow> elv_q \<times> 'd \<Rightarrow> (elv_q \<times> 'd) option"
  elevator_dispatch_fn :: "bool \<Rightarrow> elv_q \<times> 'd \<Rightarrow> (bool \<times> elv_q \<times> 'd) option"
  elevator_merge_fn :: "(elv_bio \<Rightarrow> elv_q \<times> 'd \<Rightarrow> (merge \<times> rqid option) option) option"
  elevator_merged_fn :: "(rqid \<Rightarrow> merge \<Rightarrow> elv_q \<times> 'd \<Rightarrow> (elv_q \<times> 'd) option) option"
  elevator_merge_req_fn :: "(rqid \<Rightarrow> rqid \<Rightarrow> elv_q \<times> 'd \<Rightarrow> (elv_q \<times> 'd) option) option"

text \<open>
  \<^verbatim>\<open>elv_merge\<close>: the result and the request to merge with. The lookup in the hash may throw requests out
  of it.
\<close>

definition elv_merge :: "'h elv_hdr_scheme \<Rightarrow> 'd elv_ops \<Rightarrow> bool \<Rightarrow> elv_bio \<Rightarrow> elv_q \<times> 'd \<Rightarrow> (merge \<times> rqid option \<times> elv_q) option" where
  "elv_merge K ops allow bio qd =
     (let q = fst qd
      in if elv_nomerges q then Some (ELEVATOR_NO_MERGE, None, q)
         else
           case (case last_merge q of None \<Rightarrow> Some ELEVATOR_NO_MERGE
                 | Some r \<Rightarrow> map_option (\<lambda>rq. elv_try_merge K allow rq bio) (elv_rqs q r)) of
             None \<Rightarrow> None
           | Some ret \<Rightarrow>
             if ret \<noteq> ELEVATOR_NO_MERGE then Some (ret, last_merge q, q)
             else if elv_noxmerges q then Some (ELEVATOR_NO_MERGE, None, q)
             else case elv_rqhash_find K (eb_sector bio) q of None \<Rightarrow> None
               | Some (found, q') \<Rightarrow>
                 let good = (case found of None \<Rightarrow> False
                             | Some r \<Rightarrow> (case elv_rqs q r of None \<Rightarrow> False | Some rq \<Rightarrow> elv_rq_merge_ok K allow rq bio))
                 in if good then Some (ELEVATOR_BACK_MERGE, found, q')
                    else case elevator_merge_fn ops of None \<Rightarrow> Some (ELEVATOR_NO_MERGE, None, q')
                      | Some f \<Rightarrow> map_option (\<lambda>(m, r). (m, r, q')) (f bio (q', snd qd)))"

definition elv_merged_request :: "'h elv_hdr_scheme \<Rightarrow> 'd elv_ops \<Rightarrow> rqid \<Rightarrow> merge \<Rightarrow> elv_q \<times> 'd \<Rightarrow> (elv_q \<times> 'd) option" where
  "elv_merged_request K ops r type qd =
     (case (case elevator_merged_fn ops of None \<Rightarrow> Some qd | Some f \<Rightarrow> f r type qd) of None \<Rightarrow> None
      | Some (q, d) \<Rightarrow>
        case (if type = ELEVATOR_BACK_MERGE then elv_rqhash_reposition K r q else Some q) of None \<Rightarrow> None
        | Some q' \<Rightarrow> Some (q'\<lparr>last_merge := Some r\<rparr>, d))"

definition elv_merge_requests :: "'h elv_hdr_scheme \<Rightarrow> 'd elv_ops \<Rightarrow> rqid \<Rightarrow> rqid \<Rightarrow> elv_q \<times> 'd \<Rightarrow> (elv_q \<times> 'd) option" where
  "elv_merge_requests K ops r next_rq qd =
     (case elv_rqs (fst qd) next_rq of None \<Rightarrow> None
      | Some nrq \<Rightarrow>
        let next_sorted = (er_flags nrq AND REQ_SORTED K \<noteq> 0)
        in case (case elevator_merge_req_fn ops of None \<Rightarrow> Some qd
                 | Some f \<Rightarrow> if next_sorted then f r next_rq qd else Some qd) of None \<Rightarrow> None
           | Some (q, d) \<Rightarrow>
             case elv_rqhash_reposition K r q of None \<Rightarrow> None
             | Some q1 \<Rightarrow>
               let q2 = (if next_sorted then let q' = elv_rqhash_del next_rq q1 in q'\<lparr>nr_sorted := nr_sorted q' - 1\<rparr> else q1)
               in Some (q2\<lparr>last_merge := Some r\<rparr>, d))"

text \<open>The loop of \<^verbatim>\<open>elv_drain_elevator\<close>; not coming to an end is \<open>None\<close>, too.\<close>

partial_function (option) elv_drain_elevator :: "'d elv_ops \<Rightarrow> elv_q \<times> 'd \<Rightarrow> (elv_q \<times> 'd) option" where
  "elv_drain_elevator ops qd =
     (case elevator_dispatch_fn ops True qd of None \<Rightarrow> None
      | Some (again, qd') \<Rightarrow> if again then elv_drain_elevator ops qd' else Some qd')"

datatype where_to = ELEVATOR_INSERT_FRONT | ELEVATOR_INSERT_BACK | ELEVATOR_INSERT_SORT | ELEVATOR_INSERT_REQUEUE
  | ELEVATOR_INSERT_FLUSH | ELEVATOR_INSERT_SORT_MERGE

definition set_flags :: "rqid \<Rightarrow> flags \<Rightarrow> elv_q \<Rightarrow> elv_q" where
  "set_flags r fl q = q\<lparr>elv_rqs := (elv_rqs q)(r := map_option (\<lambda>rq. rq\<lparr>er_flags := er_flags rq OR fl\<rparr>) (elv_rqs q r))\<rparr>"

definition elv_insert_sort :: "'h elv_hdr_scheme \<Rightarrow> 'd elv_ops \<Rightarrow> rqid \<Rightarrow> elv_q \<times> 'd \<Rightarrow> (elv_q \<times> 'd) option" where
  "elv_insert_sort K ops r qd =
     (case elv_rqs (fst qd) r of None \<Rightarrow> None
      | Some rq \<Rightarrow>
        if \<not> er_fs rq \<and> er_flags rq AND REQ_DISCARD K = 0 then None
        else
          let q1 = set_flags r (REQ_SORTED K) (fst qd);
              q2 = q1\<lparr>nr_sorted := nr_sorted q1 + 1\<rparr>
          in case (if rq_mergeable K (rq\<lparr>er_flags := er_flags rq OR REQ_SORTED K\<rparr>) then
                     map_option (\<lambda>q. if last_merge q = None then q\<lparr>last_merge := Some r\<rparr> else q) (elv_rqhash_add K r q2)
                   else Some q2) of None \<Rightarrow> None
             | Some q3 \<Rightarrow> elevator_add_req_fn ops r (q3, snd qd))"

text \<open>
  \<^verbatim>\<open>__elv_add_request\<close>. \<open>insert_merge\<close> is the answer of \<^verbatim>\<open>elv_attempt_insert_merge\<close>, with the state after it;
  \<open>insert_flush\<close> is \<^verbatim>\<open>blk_insert_flush\<close>. Running the queue is left to the driver.
\<close>

definition elv_add_request ::
  "'h elv_hdr_scheme \<Rightarrow> 'd elv_ops \<Rightarrow> (rqid \<Rightarrow> elv_q \<times> 'd \<Rightarrow> bool \<times> elv_q \<times> 'd) \<Rightarrow> (rqid \<Rightarrow> elv_q \<times> 'd \<Rightarrow> (elv_q \<times> 'd) option) \<Rightarrow>
   rqid \<Rightarrow> where_to \<Rightarrow> elv_q \<times> 'd \<Rightarrow> (elv_q \<times> 'd) option" where
  "elv_add_request K ops insert_merge insert_flush r where0 qd0 =
     (case elv_rqs (fst qd0) r of None \<Rightarrow> None
      | Some rq \<Rightarrow>
        let barrier = (er_flags rq AND REQ_SOFTBARRIER K \<noteq> 0);
            q = (if barrier \<and> (er_fs rq \<or> er_flags rq AND REQ_DISCARD K \<noteq> 0)
                 then (fst qd0)\<lparr>end_sector := rq_end_sector rq, boundary_rq := Some r\<rparr> else fst qd0);
            to = (if \<not> barrier \<and> er_flags rq AND REQ_ELVPRIV K = 0 \<and>
                     (where0 = ELEVATOR_INSERT_SORT \<or> where0 = ELEVATOR_INSERT_SORT_MERGE)
                  then ELEVATOR_INSERT_BACK else where0);
            qd = (q, snd qd0); bd = (set_flags r (REQ_SOFTBARRIER K) q, snd qd0)
        in case to of
             ELEVATOR_INSERT_REQUEUE \<Rightarrow> Some ((fst bd)\<lparr>elv_head := r # elv_head (fst bd)\<rparr>, snd bd)
           | ELEVATOR_INSERT_FRONT \<Rightarrow> Some ((fst bd)\<lparr>elv_head := r # elv_head (fst bd)\<rparr>, snd bd)
           | ELEVATOR_INSERT_BACK \<Rightarrow>
               (case elv_drain_elevator ops bd of None \<Rightarrow> None
                | Some (q', d') \<Rightarrow> Some (q'\<lparr>elv_head := elv_head q' @ [r]\<rparr>, d'))
           | ELEVATOR_INSERT_SORT_MERGE \<Rightarrow>
               (let (merged, qd') = insert_merge r qd
                in if merged then Some qd' else elv_insert_sort K ops r qd')
           | ELEVATOR_INSERT_SORT \<Rightarrow> elv_insert_sort K ops r qd
           | ELEVATOR_INSERT_FLUSH \<Rightarrow> insert_flush r bd)"

definition elv_requeue_request ::
  "'h elv_hdr_scheme \<Rightarrow> 'd elv_ops \<Rightarrow> bool \<Rightarrow> rqid \<Rightarrow> elv_q \<times> 'd \<Rightarrow> (elv_q \<times> 'd) option" where
  "elv_requeue_request K ops account r qd =
     (case elv_rqs (fst qd) r of None \<Rightarrow> None
      | Some rq \<Rightarrow>
        let q = fst qd;
            q1 = (if account then q\<lparr>elv_in_flight := (elv_in_flight q)(er_sync rq := elv_in_flight q (er_sync rq) - 1)\<rparr> else q);
            q2 = q1\<lparr>elv_rqs := (elv_rqs q1)(r \<mapsto> rq\<lparr>er_flags := er_flags rq AND NOT (REQ_STARTED K)\<rparr>)\<rparr>
        in elv_add_request K ops (\<lambda>r qd. (False, qd)) (\<lambda>r qd. None) r ELEVATOR_INSERT_REQUEUE (q2, snd qd))"

definition elv_completed_request :: "bool \<Rightarrow> rqid \<Rightarrow> elv_q \<Rightarrow> elv_q option" where
  "elv_completed_request account r q =
     (case elv_rqs q r of None \<Rightarrow> None
      | Some rq \<Rightarrow>
        Some (if account then q\<lparr>elv_in_flight := (elv_in_flight q)(er_sync rq := elv_in_flight q (er_sync rq) - 1)\<rparr> else q))"

end
