(* ===== verification/Blk_Iosched.thy ===== *)
theory Blk_Iosched
  imports Blk_Elevator
begin

text \<open>
  The schedulers of \<^verbatim>\<open>block/noop-iosched.c\<close> and \<^verbatim>\<open>block/deadline-iosched.c\<close>. The link \<^verbatim>\<open>queuelist\<close> of a request
  is its membership in the lists of the scheduler or in the dispatch queue. Arrays with an entry for each
  direction are functions of the direction.
\<close>

subsection \<open>noop\<close>

record noop_data =
  noop_queue :: "rqid list"

definition noop_merged_requests :: "rqid \<Rightarrow> rqid \<Rightarrow> elv_q \<times> noop_data \<Rightarrow> (elv_q \<times> noop_data) option" where
  "noop_merged_requests r next_rq qd =
     Some (fst qd, (snd qd)\<lparr>noop_queue := removeAll next_rq (noop_queue (snd qd))\<rparr>)"

definition noop_dispatch :: "'h elv_hdr_scheme \<Rightarrow> bool \<Rightarrow> elv_q \<times> noop_data \<Rightarrow> (bool \<times> elv_q \<times> noop_data) option" where
  "noop_dispatch K force qd =
     (case noop_queue (snd qd) of
        [] \<Rightarrow> Some (False, qd)
      | r # rs \<Rightarrow> map_option (\<lambda>q. (True, q, (snd qd)\<lparr>noop_queue := rs\<rparr>)) (elv_dispatch_sort K r (fst qd)))"

definition noop_add_request :: "rqid \<Rightarrow> elv_q \<times> noop_data \<Rightarrow> (elv_q \<times> noop_data) option" where
  "noop_add_request r qd = Some (fst qd, (snd qd)\<lparr>noop_queue := noop_queue (snd qd) @ [r]\<rparr>)"

text \<open>The neighbours of a request in a list, as the two links of an entry give them.\<close>

fun list_prev :: "rqid \<Rightarrow> rqid list \<Rightarrow> rqid option" where
  "list_prev r (x # y # xs) = (if y = r then Some x else list_prev r (y # xs))"
| "list_prev r xs = None"

fun list_next :: "rqid \<Rightarrow> rqid list \<Rightarrow> rqid option" where
  "list_next r (x # y # xs) = (if x = r then Some y else list_next r (y # xs))"
| "list_next r xs = None"

definition noop_former_request :: "rqid \<Rightarrow> noop_data \<Rightarrow> rqid option" where
  "noop_former_request r d = list_prev r (noop_queue d)"

definition noop_latter_request :: "rqid \<Rightarrow> noop_data \<Rightarrow> rqid option" where
  "noop_latter_request r d = list_next r (noop_queue d)"

definition noop_init_queue :: "bool \<Rightarrow> noop_data option" where
  "noop_init_queue alloc = (if alloc then Some \<lparr>noop_queue = []\<rparr> else None)"

definition noop_exit_queue :: "noop_data \<Rightarrow> unit option" where
  "noop_exit_queue d = (if noop_queue d \<noteq> [] then None else Some ())"

definition noop_ops :: "'h elv_hdr_scheme \<Rightarrow> noop_data elv_ops" where
  "noop_ops K = \<lparr>elevator_add_req_fn = noop_add_request, elevator_dispatch_fn = noop_dispatch K, elevator_merge_fn = None,
     elevator_merged_fn = None, elevator_merge_req_fn = Some noop_merged_requests\<rparr>"

subsection \<open>deadline\<close>

record deadline_data =
  sort_list :: "data_dir \<Rightarrow> rqid tree"
  fifo_list :: "data_dir \<Rightarrow> rqid list"
  next_rq :: "data_dir \<Rightarrow> rqid option"
  batching :: "32 word"
  last_sector :: ulong
  starved :: "32 word"
  fifo_expire :: "data_dir \<Rightarrow> int"
  fifo_batch :: int
  writes_starved :: int
  front_merges :: bool

definition deadline_latter_request :: "rb_lib \<Rightarrow> deadline_data \<Rightarrow> rqid \<Rightarrow> data_dir \<Rightarrow> rqid option" where
  "deadline_latter_request L dd r dir = rb_next L r (sort_list dd dir)"

definition deadline_del_rq_rb :: "rb_lib \<Rightarrow> rqid \<Rightarrow> elv_q \<times> deadline_data \<Rightarrow> (elv_q \<times> deadline_data) option" where
  "deadline_del_rq_rb L r qd =
     (case elv_rqs (fst qd) r of None \<Rightarrow> None
      | Some rq \<Rightarrow>
        let dir = er_dir rq; dd = snd qd;
            dd1 = (if next_rq dd dir = Some r then dd\<lparr>next_rq := (next_rq dd)(dir := deadline_latter_request L dd r dir)\<rparr> else dd)
        in map_option (\<lambda>t. (fst qd, dd1\<lparr>sort_list := (sort_list dd1)(dir := t)\<rparr>)) (elv_rb_del L r (sort_list dd1 dir)))"

text \<open>\<^verbatim>\<open>rq_fifo_clear\<close> takes the request off the list it is on.\<close>

definition fifo_clear :: "rqid \<Rightarrow> deadline_data \<Rightarrow> deadline_data" where
  "fifo_clear r dd = dd\<lparr>fifo_list := (\<lambda>dir. removeAll r (fifo_list dd dir))\<rparr>"

definition deadline_remove_request :: "rb_lib \<Rightarrow> rqid \<Rightarrow> elv_q \<times> deadline_data \<Rightarrow> (elv_q \<times> deadline_data) option" where
  "deadline_remove_request L r qd = deadline_del_rq_rb L r (fst qd, fifo_clear r (snd qd))"

definition deadline_move_to_dispatch :: "rb_lib \<Rightarrow> rqid \<Rightarrow> elv_q \<times> deadline_data \<Rightarrow> (elv_q \<times> deadline_data) option" where
  "deadline_move_to_dispatch L r qd =
     (case deadline_remove_request L r qd of None \<Rightarrow> None
      | Some (q, dd) \<Rightarrow> map_option (\<lambda>q'. (q', dd)) (elv_dispatch_add_tail r q))"

definition deadline_move_request :: "rb_lib \<Rightarrow> rqid \<Rightarrow> elv_q \<times> deadline_data \<Rightarrow> (elv_q \<times> deadline_data) option" where
  "deadline_move_request L r qd =
     (case elv_rqs (fst qd) r of None \<Rightarrow> None
      | Some rq \<Rightarrow>
        let dd = snd qd; dir = er_dir rq
        in deadline_move_to_dispatch L r
             (fst qd, dd\<lparr>next_rq := (\<lambda>_. None)(dir := deadline_latter_request L dd r dir), last_sector := rq_end_sector rq\<rparr>))"

text \<open>Each alias that is moved to the dispatch queue leaves the tree, so its size is enough fuel.\<close>

fun add_rq_rb :: "nat \<Rightarrow> rb_lib \<Rightarrow> rqid \<Rightarrow> elv_q \<times> deadline_data \<Rightarrow> (elv_q \<times> deadline_data) option" where
  "add_rq_rb 0 L r qd = None"
| "add_rq_rb (Suc n) L r qd =
     (case elv_rqs (fst qd) r of None \<Rightarrow> None
      | Some rq \<Rightarrow>
        let dd = snd qd; dir = er_dir rq
        in case elv_rb_add L (elv_rqs (fst qd)) r (sort_list dd dir) of None \<Rightarrow> None
           | Some (Inr t) \<Rightarrow> Some (fst qd, dd\<lparr>sort_list := (sort_list dd)(dir := t)\<rparr>)
           | Some (Inl alias) \<Rightarrow>
               (case deadline_move_request L alias qd of None \<Rightarrow> None
                | Some qd' \<Rightarrow> add_rq_rb n L r qd'))"

definition deadline_add_rq_rb :: "rb_lib \<Rightarrow> rqid \<Rightarrow> elv_q \<times> deadline_data \<Rightarrow> (elv_q \<times> deadline_data) option" where
  "deadline_add_rq_rb L r qd =
     (case elv_rqs (fst qd) r of None \<Rightarrow> None
      | Some rq \<Rightarrow> add_rq_rb (size (sort_list (snd qd) (er_dir rq)) + 1) L r qd)"

definition deadline_add_request :: "rb_lib \<Rightarrow> ulong \<Rightarrow> rqid \<Rightarrow> elv_q \<times> deadline_data \<Rightarrow> (elv_q \<times> deadline_data) option" where
  "deadline_add_request L jiffies r qd =
     (case elv_rqs (fst qd) r of None \<Rightarrow> None
      | Some rq \<Rightarrow>
        case deadline_add_rq_rb L r qd of None \<Rightarrow> None
        | Some (q, dd) \<Rightarrow>
          let dir = er_dir rq
          in Some (q\<lparr>elv_rqs := (elv_rqs q)(r \<mapsto> rq\<lparr>er_fifo_time := jiffies + word_of_int (fifo_expire dd dir)\<rparr>)\<rparr>,
                   dd\<lparr>fifo_list := (fifo_list dd)(dir := fifo_list dd dir @ [r])\<rparr>))"

definition deadline_merge ::
  "'h elv_hdr_scheme \<Rightarrow> bool \<Rightarrow> elv_bio \<Rightarrow> elv_q \<times> deadline_data \<Rightarrow> (merge \<times> rqid option) option" where
  "deadline_merge K allow bio qd =
     (if front_merges (snd qd) then
        let sector = eb_sector bio + of_nat (eb_sectors bio)
        in case elv_rb_find (elv_rqs (fst qd)) sector (sort_list (snd qd) (eb_dir bio)) of None \<Rightarrow> None
           | Some None \<Rightarrow> Some (ELEVATOR_NO_MERGE, None)
           | Some (Some r) \<Rightarrow>
             (case elv_rqs (fst qd) r of None \<Rightarrow> None
              | Some rq \<Rightarrow>
                if sector \<noteq> er_pos rq then None
                else if elv_rq_merge_ok K allow rq bio then Some (ELEVATOR_FRONT_MERGE, Some r)
                else Some (ELEVATOR_NO_MERGE, None))
      else Some (ELEVATOR_NO_MERGE, None))"

definition deadline_merged_request :: "rb_lib \<Rightarrow> rqid \<Rightarrow> merge \<Rightarrow> elv_q \<times> deadline_data \<Rightarrow> (elv_q \<times> deadline_data) option" where
  "deadline_merged_request L r type qd =
     (if type = ELEVATOR_FRONT_MERGE then
        (case elv_rqs (fst qd) r of None \<Rightarrow> None
         | Some rq \<Rightarrow>
           let dir = er_dir rq; dd = snd qd
           in case elv_rb_del L r (sort_list dd dir) of None \<Rightarrow> None
              | Some t \<Rightarrow> deadline_add_rq_rb L r (fst qd, dd\<lparr>sort_list := (sort_list dd)(dir := t)\<rparr>))
      else Some qd)"

text \<open>\<^verbatim>\<open>list_move (&req->queuelist, &next->queuelist)\<close>: \<open>r\<close> goes behind \<open>n\<close>, on the list \<open>n\<close> is on.\<close>

definition move_behind :: "rqid \<Rightarrow> rqid \<Rightarrow> rqid list \<Rightarrow> rqid list" where
  "move_behind r n xs = concat (map (\<lambda>x. if x = n then [n, r] else [x]) (removeAll r xs))"

definition deadline_merged_requests ::
  "rb_lib \<Rightarrow> rqid \<Rightarrow> rqid \<Rightarrow> elv_q \<times> deadline_data \<Rightarrow> (elv_q \<times> deadline_data) option" where
  "deadline_merged_requests L r n qd =
     (case (elv_rqs (fst qd) r, elv_rqs (fst qd) n) of
        (Some rq, Some nrq) \<Rightarrow>
          let dd = snd qd; q = fst qd;
              on = (\<lambda>x. x \<in> set (fifo_list dd READ) \<or> x \<in> set (fifo_list dd WRITE) \<or> x \<in> set (elv_head q));
              qd1 = (if on r \<and> on n \<and> time_before (er_fifo_time nrq) (er_fifo_time rq)
                     then (q\<lparr>elv_rqs := (elv_rqs q)(r \<mapsto> rq\<lparr>er_fifo_time := er_fifo_time nrq\<rparr>), elv_head := move_behind r n (elv_head q)\<rparr>,
                           dd\<lparr>fifo_list := (\<lambda>dir. move_behind r n (fifo_list dd dir))\<rparr>)
                     else qd)
          in deadline_remove_request L n qd1
      | _ \<Rightarrow> None)"

text \<open>Requires that the list is not empty.\<close>

definition deadline_check_fifo :: "ulong \<Rightarrow> data_dir \<Rightarrow> elv_q \<times> deadline_data \<Rightarrow> bool option" where
  "deadline_check_fifo jiffies dir qd =
     (case fifo_list (snd qd) dir of [] \<Rightarrow> None
      | r # _ \<Rightarrow> map_option (\<lambda>rq. time_after jiffies (er_fifo_time rq)) (elv_rqs (fst qd) r))"

text \<open>The request that begins a new batch in a direction with requests.\<close>

definition find_request :: "ulong \<Rightarrow> data_dir \<Rightarrow> elv_q \<times> deadline_data \<Rightarrow> rqid option" where
  "find_request jiffies dir qd =
     (case deadline_check_fifo jiffies dir qd of None \<Rightarrow> None
      | Some expired \<Rightarrow>
        if expired \<or> next_rq (snd qd) dir = None
        then (case fifo_list (snd qd) dir of [] \<Rightarrow> None | r # _ \<Rightarrow> Some r)
        else next_rq (snd qd) dir)"

definition start_batch :: "rb_lib \<Rightarrow> ulong \<Rightarrow> data_dir \<Rightarrow> elv_q \<times> deadline_data \<Rightarrow> (bool \<times> elv_q \<times> deadline_data) option" where
  "start_batch L jiffies dir qd =
     (if sort_list (snd qd) dir = Leaf then None
      else case find_request jiffies dir qd of None \<Rightarrow> None
        | Some r \<Rightarrow> map_option (\<lambda>qd'. (True, qd')) (deadline_move_request L r (fst qd, (snd qd)\<lparr>batching := 1\<rparr>)))"

definition deadline_dispatch_requests ::
  "rb_lib \<Rightarrow> ulong \<Rightarrow> bool \<Rightarrow> elv_q \<times> deadline_data \<Rightarrow> (bool \<times> elv_q \<times> deadline_data) option" where
  "deadline_dispatch_requests L jiffies force qd =
     (let q = fst qd; dd = snd qd;
          reads = (fifo_list dd READ \<noteq> []); writes = (fifo_list dd WRITE \<noteq> []);
          rq = (case next_rq dd WRITE of Some r \<Rightarrow> Some r | None \<Rightarrow> next_rq dd READ);
          dispatch_writes = (\<lambda>dd. start_batch L jiffies WRITE (q, dd\<lparr>starved := 0\<rparr>))
      in case (if batching dd < word_of_int (fifo_batch dd) then rq else None) of
           Some r \<Rightarrow> map_option (\<lambda>qd'. (True, qd')) (deadline_move_request L r (q, dd\<lparr>batching := batching dd + 1\<rparr>))
         | None \<Rightarrow>
             if reads then
               (if sort_list dd READ = Leaf then None
                else if writes then
                  (let dd' = dd\<lparr>starved := starved dd + 1\<rparr>
                   in if starved dd \<ge> word_of_int (writes_starved dd) then dispatch_writes dd'
                      else start_batch L jiffies READ (q, dd'))
                else start_batch L jiffies READ (q, dd))
             else if writes then dispatch_writes dd
             else Some (False, qd))"

definition deadline_exit_queue :: "deadline_data \<Rightarrow> unit option" where
  "deadline_exit_queue dd = (if fifo_list dd READ \<noteq> [] \<or> fifo_list dd WRITE \<noteq> [] then None else Some ())"

definition read_expire :: "'h blk_hdr_scheme \<Rightarrow> int" where "read_expire K = int (HZ K div 2)"
definition write_expire :: "'h blk_hdr_scheme \<Rightarrow> int" where "write_expire K = int (5 * HZ K)"

definition deadline_init_queue :: "'h blk_hdr_scheme \<Rightarrow> bool \<Rightarrow> deadline_data option" where
  "deadline_init_queue K alloc =
     (if \<not> alloc then None
      else Some \<lparr>sort_list = (\<lambda>_. Leaf), fifo_list = (\<lambda>_. []), next_rq = (\<lambda>_. None), batching = 0, last_sector = 0, starved = 0,
        fifo_expire = (\<lambda>dir. case dir of READ \<Rightarrow> read_expire K | WRITE \<Rightarrow> write_expire K), fifo_batch = 16, writes_starved = 2,
        front_merges = True\<rparr>)"

text \<open>
  The attributes: the number a user writes, as \<^verbatim>\<open>simple_strtol\<close> reads it and \<^verbatim>\<open>int\<close> holds it, is forced into its
  range; times are converted by \<open>msecs_to_jiffies\<close>.
\<close>

definition var_store :: "int \<Rightarrow> int \<Rightarrow> int \<Rightarrow> int" where
  "var_store lo hi x = (if x < lo then lo else if x > hi then hi else x)"

definition INT_MAX :: int where "INT_MAX = 2 ^ 31 - 1"
definition INT_MIN :: int where "INT_MIN = - (2 ^ 31)"

definition deadline_expire_store :: "(int \<Rightarrow> int) \<Rightarrow> data_dir \<Rightarrow> int \<Rightarrow> deadline_data \<Rightarrow> deadline_data" where
  "deadline_expire_store msecs_to_jiffies dir x dd =
     dd\<lparr>fifo_expire := (fifo_expire dd)(dir := msecs_to_jiffies (var_store 0 INT_MAX x))\<rparr>"

definition deadline_writes_starved_store :: "int \<Rightarrow> deadline_data \<Rightarrow> deadline_data" where
  "deadline_writes_starved_store x dd = dd\<lparr>writes_starved := var_store INT_MIN INT_MAX x\<rparr>"

definition deadline_front_merges_store :: "int \<Rightarrow> deadline_data \<Rightarrow> deadline_data" where
  "deadline_front_merges_store x dd = dd\<lparr>front_merges := (var_store 0 1 x \<noteq> 0)\<rparr>"

definition deadline_fifo_batch_store :: "int \<Rightarrow> deadline_data \<Rightarrow> deadline_data" where
  "deadline_fifo_batch_store x dd = dd\<lparr>fifo_batch := var_store 0 INT_MAX x\<rparr>"

definition deadline_ops :: "'h elv_hdr_scheme \<Rightarrow> rb_lib \<Rightarrow> ulong \<Rightarrow> bool \<Rightarrow> deadline_data elv_ops" where
  "deadline_ops K L jiffies allow =
     \<lparr>elevator_add_req_fn = deadline_add_request L jiffies, elevator_dispatch_fn = deadline_dispatch_requests L jiffies,
      elevator_merge_fn = Some (deadline_merge K allow), elevator_merged_fn = Some (deadline_merged_request L),
      elevator_merge_req_fn = Some (deadline_merged_requests L)\<rparr>"

end
