(* ===== verification/Spec2Isabelle.thy ===== *)
theory Spec2Isabelle
  imports Msg_Theorems Sem_Theorems Ipc_Counts Mq_Theorems Ipc_Namespace Flush_Theorems Tag_Theorems Blk_Iosched
begin

text \<open>
  \<^bold>\<open>A verification of the IPC code and of parts of the block layer of Linux 3.0.\<close>

  \<^bold>\<open>The program.\<close> The directory \<^verbatim>\<open>src/ipc\<close> has the System V facilities (message queues \<^verbatim>\<open>msg.c\<close> with
  \<^verbatim>\<open>msgutil.c\<close>, semaphores \<^verbatim>\<open>sem.c\<close>, shared memory \<^verbatim>\<open>shm.c\<close>), the tables of identifiers they share
  (\<^verbatim>\<open>util.c\<close>, \<^verbatim>\<open>util.h\<close>), the reference-counted memory of their objects (\<^verbatim>\<open>alloc.c\<close>), POSIX message queues
  (\<^verbatim>\<open>mqueue.c\<close>) and the namespaces that own all of these (\<^verbatim>\<open>namespace.c\<close>, \<^verbatim>\<open>ipcns_notifier.c\<close>,
  \<^verbatim>\<open>ipc_sysctl.c\<close>); sizes are computed with \<^verbatim>\<open>include/linux/l30_checked_math.h\<close>. A system call resolves
  an identifier through the table of its namespace, locks the object, works on it and may sleep; an
  object that is removed stays in memory until the last sleeping task has dropped its reference.

  The directory \<^verbatim>\<open>src/block\<close> has the request queues of block devices. The development covers the machinery
  that turns a request with FLUSH or FUA into a sequence of flushes and data (\<^verbatim>\<open>blk-flush.c\<close>), the tags that
  identify commands in flight to the device (\<^verbatim>\<open>blk-tag.c\<close>), and the elevator (\<^verbatim>\<open>elevator.c\<close>) with the
  schedulers \<^verbatim>\<open>noop-iosched.c\<close> and \<^verbatim>\<open>deadline-iosched.c\<close>. Requests come from the file systems, go through the
  elevator or the flush machinery to the dispatch queue, and the driver starts and completes them.

  \<^bold>\<open>How code becomes definitions.\<close> A structure of the source is a record with the fields the code
  uses, a pointer is an address (\<open>addr\<close>) into a map from addresses to records, a missing entry is
  freed memory. A function is one definition that takes the state and returns the new one; an error
  return is \<open>Inl e\<close> with \<open>e\<close> of the type \<open>errno\<close>, and touching freed memory, a failing \<^verbatim>\<open>BUG_ON\<close> or
  an index out of range is the error \<open>KBUG\<close> (or \<open>None\<close> in helpers). Code between two sleeps runs
  under the lock of its object and is one step: a call that goes to sleep returns \<open>Sleep\<close> and leaves
  a record of its stack frame in the state, and a second definition (\<open>resume_snd\<close>, \<open>resume_rcv\<close>,
  \<open>resume_mq_send\<close>, \<open>resume_sem\<close>, ...) goes on from there after any other steps. C integers
  that may wrap are words of their width; numbers that the code keeps in range are \<open>int\<close> or \<open>nat\<close>.
  Constants of headers that are not part of the sources are fields of \<open>..._hdr\<close> records, and what
  the code calls outside of them (allocators, user memory, credentials, time, the virtual file system,
  security hooks) are fields of \<open>..._env\<close> records; properties that depend on such a field name what
  they assume of it (\<open>msg_hdr_ok\<close>, \<open>alloc_env_ok\<close>, \<open>mq_env_ok\<close>, \<open>get_settles\<close>, ...), and their witnesses
  instantiate it. Reference counts of objects are \<open>int\<close> without bound.

  \<^bold>\<open>Theories.\<close>

  \<^item> \<open>Ipc_Prelude\<close>: error codes, outcomes, sums over finite maps, shared lemmas.
  \<^item> \<open>Checked_Math\<close>: \<^verbatim>\<open>l30_checked_math.h\<close>; each helper returns the exact size or an error.
  \<^item> \<open>Ipc_Alloc\<close>, \<open>Ipc_Counts\<close>: \<^verbatim>\<open>alloc.c\<close>; headers, counts, \<^verbatim>\<open>call_rcu\<close> callbacks and deferred frees.
    The locale \<open>refcounted\<close> is the contract of the counted objects, and \<open>counted\<close> the view of their
    clients.
  \<^item> \<open>Ipc_Util\<close>: \<^verbatim>\<open>util.c\<close>; tables with sequence numbers, key search, permissions, \<^verbatim>\<open>ipcget\<close>, the proc
    iterator. The locale \<open>ipc_client\<close> is the contract between the tables and a facility.
  \<^item> \<open>Msg_Util\<close>, \<open>Ipc_Msg\<close>: \<^verbatim>\<open>msgutil.c\<close> and \<^verbatim>\<open>msg.c\<close>; \<open>Msg_Correct\<close> and \<open>Msg_Calls\<close> prove that every
    call keeps the invariant of a namespace (counters, ownership of memory blocks, reference counts,
    wait queues), \<open>Msg_Theorems\<close> draws the conclusions for reachable states and refines sending and
    receiving to a list of typed texts.
  \<^item> \<open>Ipc_Sem\<close>: \<^verbatim>\<open>sem.c\<close>; \<open>Sem_Ops\<close> proves \<^verbatim>\<open>try_atomic_semop\<close> equal to an all-or-nothing
    specification, \<open>Sem_Queue\<close> that the optimised wake-up scans of \<^verbatim>\<open>update_queue\<close> and
    \<^verbatim>\<open>do_smart_update\<close> terminate and leave no operation waiting that could proceed, \<open>Sem_Theorems\<close>
    states the properties.
  \<^item> \<open>Ipc_Shm\<close>: \<^verbatim>\<open>shm.c\<close> (definitions).
  \<^item> \<open>Ipc_Mqueue\<close>: \<^verbatim>\<open>mqueue.c\<close>; \<open>Mq_Queue\<close> refines the table of messages to a priority queue,
    \<open>Mq_Correct\<close>, \<open>Mq_Calls\<close> and \<open>Mq_Open\<close> prove the invariant of all calls, \<open>Mq_Theorems\<close> states the
    properties of reachable states.
  \<^item> \<open>Ipc_Namespace\<close>: \<^verbatim>\<open>namespace.c\<close>, \<^verbatim>\<open>ipcns_notifier.c\<close>, the sysctl handlers and the exit paths of
    the facilities.

  \<^bold>\<open>Fuel.\<close> The loops over finite structures are structural or have termination proofs. The loops that
  look at state other steps can change take fuel: \<^verbatim>\<open>update_queue\<close> restarts its scan after each
  operation it completes, so the length of the queue plus one is enough (proved in \<open>Sem_Queue\<close>); the
  retry loops of \<^verbatim>\<open>mq_notify\<close> and of the undo lookup end when the environment lets them, and running
  out of fuel is the outcome \<open>Hang\<close>, which the safety properties exclude under a named hypothesis.

  \<^bold>\<open>Not modelled.\<close> Registration at boot time, mounting, module initialisation, the argument
  translation of 32-bit callers and the multiplexer \<^verbatim>\<open>ipc(2)\<close> (glue without state of its own);
  callbacks that only forward to the backing file of shared memory. The spin locks are not objects of
  the model: a step is what runs under one lock.
\<close>

end
